(* ===== verification/Prelude.thy ===== *)
theory Prelude
  imports Main "HOL-Library.Word"
begin

text \<open>
  Shared vocabulary of the development: bytes, Python exceptions as values, Python's 32-bit and
  64-bit masking, buffers with slice reads and slice writes, and the part of the \<open>struct\<close>
  module that the ABI layer uses (little-endian, fixed width, signed and unsigned integers and
  padding).  The lemmas are collected in \<open>buffer_simps\<close> and \<open>mask_simps\<close>.
\<close>

unbundle bit_operations_syntax

named_theorems buffer_simps
named_theorems mask_simps

subsection \<open>Bytes and exceptions\<close>

type_synonym byte = "8 word"
type_synonym bytes = "byte list"

text \<open>
  A Python exception is the left summand; the text of the message is not modelled.  The two ABI
  exceptions are the classes \<open>Dr*AbiError\<close> (a \<open>ValueError\<close>) and
  \<open>Dr*OperationError\<close> (a \<open>RuntimeError\<close>) of the device ABIs.
\<close>

datatype py_error =
    StructError
  | ValueError
  | TypeError
  | KeyError
  | IndexError
  | OverflowError
  | RuntimeError
  | AttributeError
  | AbiError
  | OperationError
  | NativeBackendUnavailable
  | ZeroDivisionError
  | OSError

type_synonym 'a py = "py_error + 'a"

definition bindE :: "'e + 'a \<Rightarrow> ('a \<Rightarrow> 'e + 'b) \<Rightarrow> 'e + 'b" where
  "bindE m f = (case m of Inl e \<Rightarrow> Inl e | Inr x \<Rightarrow> f x)"

lemma bindE_simps [simp]:
  "bindE (Inl e) f = Inl e"
  "bindE (Inr x) f = f x"
  by (simp_all add: bindE_def)

lemma bindE_assoc: "bindE (bindE m f) g = bindE m (\<lambda>x. bindE (f x) g)"
  by (simp add: bindE_def split: sum.splits)

lemma bindE_Inr_iff: "bindE m f = Inr y \<longleftrightarrow> (\<exists>x. m = Inr x \<and> f x = Inr y)"
  by (simp add: bindE_def split: sum.splits)

lemma bindE_Inl_iff:
  "bindE m f = Inl e \<longleftrightarrow> m = Inl e \<or> (\<exists>x. m = Inr x \<and> f x = Inl e)"
  by (auto simp add: bindE_def split: sum.splits)

fun mapE :: "('a \<Rightarrow> 'e + 'b) \<Rightarrow> 'a list \<Rightarrow> 'e + 'b list" where
  "mapE f [] = Inr []"
| "mapE f (x # xs) = bindE (f x) (\<lambda>y. bindE (mapE f xs) (\<lambda>ys. Inr (y # ys)))"

lemma mapE_total: "(\<And>x. x \<in> set xs \<Longrightarrow> f x = Inr (g x)) \<Longrightarrow> mapE f xs = Inr (map g xs)"
  by (induction xs) auto

fun foldE :: "('s \<Rightarrow> 'a \<Rightarrow> 'e + 's) \<Rightarrow> 's \<Rightarrow> 'a list \<Rightarrow> 'e + 's" where
  "foldE f s [] = Inr s"
| "foldE f s (x # xs) = bindE (f s x) (\<lambda>s'. foldE f s' xs)"

lemma foldE_append: "foldE f s (xs @ ys) = bindE (foldE f s xs) (\<lambda>s'. foldE f s' ys)"
  by (induction xs arbitrary: s) (simp_all add: bindE_assoc)

lemma length_mapE: "mapE f xs = Inr ys \<Longrightarrow> length ys = length xs"
  by (induction xs arbitrary: ys) (auto simp add: bindE_Inr_iff)

lemma mapE_total_ex: "(\<And>x. x \<in> set xs \<Longrightarrow> \<exists>y. f x = Inr y) \<Longrightarrow> \<exists>ys. mapE f xs = Inr ys"
  by (rule exI, rule mapE_total [where g = "\<lambda>x. SOME y. f x = Inr y"]) (rule someI_ex)

lemma foldE_invariant:
  assumes "foldE f s xs = Inr s'" "P s" "\<And>s x s'. P s \<Longrightarrow> f s x = Inr s' \<Longrightarrow> P s'"
  shows "P s'"
  using assms(1,2) by (induction xs arbitrary: s) (auto simp add: bindE_Inr_iff intro: assms(3))

lemma foldE_total:
  assumes "\<And>s x. x \<in> set xs \<Longrightarrow> P s \<Longrightarrow> \<exists>s'. f s x = Inr s' \<and> P s'" "P s"
  shows "\<exists>s'. foldE f s xs = Inr s' \<and> P s'"
  using assms
proof (induction xs arbitrary: s)
  case (Cons x xs)
  then obtain s' where "f s x = Inr s'" "P s'" by fastforce
  with Cons.IH [of s'] Cons.prems(1) show ?case by simp
qed simp

text \<open>\<open>xs[i]\<close> for a non-negative index.\<close>

definition nthE :: "'a list \<Rightarrow> nat \<Rightarrow> 'a py" where
  "nthE xs i = (if i < length xs then Inr (xs ! i) else Inl IndexError)"

lemma nthE_simps [simp]: "i < length xs \<Longrightarrow> nthE xs i = Inr (xs ! i)" "length xs \<le> i \<Longrightarrow> nthE xs i = Inl IndexError"
  by (simp_all add: nthE_def)

definition zeros :: "nat \<Rightarrow> bytes" where
  "zeros n = replicate n 0"

lemma zeros_facts [simp]:
  "length (zeros n) = n"
  "take m (zeros n) = zeros (min m n)"
  "drop m (zeros n) = zeros (n - m)"
  "zeros 0 = []"
  by (simp_all add: zeros_def)

lemma zeros_append: "zeros m @ zeros n = zeros (m + n)"
  by (simp add: zeros_def replicate_add)

lemma set_zeros: "set (zeros n) \<subseteq> {0}"
  by (auto simp add: zeros_def)

lemma nth_zeros [simp]: "i < n \<Longrightarrow> zeros n ! i = 0"
  by (simp add: zeros_def)

subsection \<open>Python's masks on unbounded integers\<close>

definition u32 :: "int \<Rightarrow> int" where
  "u32 x = x AND 0xFFFFFFFF"

definition u64 :: "int \<Rightarrow> int" where
  "u64 x = x AND 0xFFFFFFFFFFFFFFFF"

lemma and_mask_mod: "(x::int) AND (2 ^ n - 1) = x mod 2 ^ n"
  by (metis mask_eq_exp_minus_1 take_bit_eq_mask take_bit_eq_mod)

lemma u32_mod: "u32 x = x mod 4294967296"
  using and_mask_mod [of x 32] by (simp add: u32_def)

lemma u64_mod: "u64 x = x mod 18446744073709551616"
  using and_mask_mod [of x 64] by (simp add: u64_def)

lemma u32_range [simp]: "0 \<le> u32 x" "u32 x < 4294967296"
  by (simp_all add: u32_mod)

lemma u64_range [simp]: "0 \<le> u64 x" "u64 x < 18446744073709551616"
  by (simp_all add: u64_mod)

lemma u32_id: "0 \<le> x \<Longrightarrow> x < 4294967296 \<Longrightarrow> u32 x = x"
  by (simp add: u32_mod)

lemma u32_add_left: "u32 (u32 x + y) = u32 (x + y)"
  by (simp add: u32_mod mod_simps)

lemma u32_take_bit: "u32 x = take_bit 32 x"
  by (simp add: u32_mod take_bit_eq_mod)

lemma u64_take_bit: "u64 x = take_bit 64 x"
  by (simp add: u64_mod take_bit_eq_mod)

subsection \<open>Buffers\<close>

text \<open>
  \<open>buf[i:j]\<close> for non-negative bounds, and the slice assignment \<open>buf[i:j] = x\<close>, which
  changes the length of a bytearray when \<open>x\<close> is not exactly \<open>j - i\<close> long.
\<close>

definition slice :: "nat \<Rightarrow> nat \<Rightarrow> 'a list \<Rightarrow> 'a list" where
  "slice i j xs = take (j - i) (drop i xs)"

definition assign_slice :: "nat \<Rightarrow> nat \<Rightarrow> 'a list \<Rightarrow> 'a list \<Rightarrow> 'a list" where
  "assign_slice i j x xs = take i xs @ x @ drop (max i j) xs"

text \<open>Python's \<open>buf[i:j]\<close> for any integers: negative bounds count from the end.\<close>

definition py_bound :: "int \<Rightarrow> int \<Rightarrow> int" where
  "py_bound n i = (if i < 0 then max 0 (n + i) else min n i)"

definition py_slice :: "int \<Rightarrow> int \<Rightarrow> 'a list \<Rightarrow> 'a list" where
  "py_slice i j xs =
     slice (nat (py_bound (int (length xs)) i)) (nat (py_bound (int (length xs)) j)) xs"

definition ljust :: "nat \<Rightarrow> bytes \<Rightarrow> bytes" where
  "ljust n xs = xs @ zeros (n - length xs)"

lemma length_slice [simp]: "length (slice i j xs) = min (j - i) (length xs - i)"
  by (simp add: slice_def)

lemma length_ljust [simp]: "length (ljust n xs) = max n (length xs)"
  by (simp add: ljust_def)

lemma ljust_id: "length xs = n \<Longrightarrow> ljust n xs = xs"
  by (simp add: ljust_def)

lemma nth_slice: "k < j - i \<Longrightarrow> i + k < length xs \<Longrightarrow> slice i j xs ! k = xs ! (i + k)"
  by (simp add: slice_def)

lemma length_assign_slice [simp]:
  "i \<le> length xs \<Longrightarrow> length x = j - i \<Longrightarrow> j \<le> length xs \<Longrightarrow> i \<le> j \<Longrightarrow>
    length (assign_slice i j x xs) = length xs"
  by (simp add: assign_slice_def)

lemma slice_append_left: "j \<le> length xs \<Longrightarrow> slice i j (xs @ ys) = slice i j xs"
  by (simp add: slice_def)

lemma slice_append_right:
  "length xs \<le> i \<Longrightarrow> slice i j (xs @ ys) = slice (i - length xs) (j - length xs) ys"
  by (cases "j \<le> i") (simp_all add: slice_def)

lemma slice_full: "length xs \<le> j \<Longrightarrow> slice 0 j xs = xs"
  by (simp add: slice_def)

lemma slice_zeros [simp]: "slice i j (zeros n) = zeros (min (j - i) (n - i))"
  by (simp add: slice_def)

lemma slice_exact: "length xs = a \<Longrightarrow> length ys = b \<Longrightarrow> j = a + b \<Longrightarrow> slice a j (xs @ ys @ zs) = ys"
  by (simp add: slice_def)

lemma slice_assign_same:
  "length x = j - i \<Longrightarrow> i \<le> j \<Longrightarrow> i \<le> length xs \<Longrightarrow> slice i j (assign_slice i j x xs) = x"
  by (simp add: slice_def assign_slice_def)

lemma slice_assign_below:
  "b \<le> i \<Longrightarrow> i \<le> length xs \<Longrightarrow> slice a b (assign_slice i j x xs) = slice a b xs"
  by (simp add: slice_def assign_slice_def min_def take_drop)

lemma slice_assign_above:
  assumes "length x = j - i" "i \<le> j" "j \<le> a" "j \<le> length xs"
  shows "slice a b (assign_slice i j x xs) = slice a b xs"
  using assms by (simp add: slice_def assign_slice_def add.commute)

lemma py_slice_nonneg: "0 \<le> i \<Longrightarrow> 0 \<le> j \<Longrightarrow> py_slice i j xs = slice (nat i) (nat j) xs"
  by (auto simp add: py_slice_def py_bound_def slice_def min_def nat_le_eq_zle
      not_le intro!: take_all_iff [THEN iffD2])

text \<open>\<open>put off bs buf\<close> overwrites in place, as \<open>pack_into\<close> does.\<close>

definition put :: "nat \<Rightarrow> 'a list \<Rightarrow> 'a list \<Rightarrow> 'a list" where
  "put off bs buf = take off buf @ bs @ drop (off + length bs) buf"

lemma length_put [simp]: "off + length bs \<le> length buf \<Longrightarrow> length (put off bs buf) = length buf"
  by (simp add: put_def)

lemma put_assign_slice: "put off bs buf = assign_slice off (off + length bs) bs buf"
  by (simp add: put_def assign_slice_def)

lemma drop_put: "off + length bs \<le> length buf \<Longrightarrow> drop off (put off bs buf) = bs @ drop (off + length bs) buf"
  by (simp add: put_def)

lemma slice_put_same:
  "off + length bs \<le> length buf \<Longrightarrow> slice off (off + length bs) (put off bs buf) = bs"
  by (simp add: put_def slice_def)

lemma slice_put_below: "j \<le> off \<Longrightarrow> off \<le> length buf \<Longrightarrow> slice i j (put off bs buf) = slice i j buf"
  by (simp add: put_assign_slice slice_assign_below)

lemma slice_put_above:
  "off + length bs \<le> i \<Longrightarrow> off + length bs \<le> length buf \<Longrightarrow> slice i j (put off bs buf) = slice i j buf"
  by (simp add: put_assign_slice slice_assign_above)

lemma assign_slice_put: "length x = j - i \<Longrightarrow> i \<le> j \<Longrightarrow> assign_slice i j x xs = put i x xs"
  by (simp add: put_assign_slice)

lemma put_put_adjacent:
  assumes "off' = off + length a" "off' + length b \<le> length buf"
  shows "put off' b (put off a buf) = put off (a @ b) buf"
proof -
  have 1: "take off' (put off a buf) = take off buf @ a"
    using assms by (simp add: put_def)
  have 2: "drop (off' + length b) (put off a buf) = drop (off + length (a @ b)) buf"
    using assms by (simp add: put_def ac_simps)
  have "put off' b (put off a buf) =
    take off' (put off a buf) @ b @ drop (off' + length b) (put off a buf)"
    by (rule put_def)
  also have "\<dots> = put off (a @ b) buf" by (simp only: 1 2) (simp add: put_def)
  finally show ?thesis .
qed

lemma slice_put_at: "off + length x \<le> length buf \<Longrightarrow> n = off + length x \<Longrightarrow> slice off n (put off x buf) = x"
  by (simp add: slice_put_same)

lemma slice_update_above: "j \<le> k \<Longrightarrow> slice i j (xs[k := v]) = slice i j xs"
  by (cases "i \<le> k") (simp_all add: slice_def drop_update_swap take_update_cancel)

lemma slice_update_below: "k < i \<Longrightarrow> slice i j (xs[k := v]) = slice i j xs"
  by (simp add: slice_def)

lemma length_foldl_update [simp]: "length (foldl (\<lambda>b k. b[g k := f k]) buf ks) = length buf"
  by (induction ks arbitrary: buf) simp_all

lemma slice_foldl_update:
  "(\<And>k. k \<in> set ks \<Longrightarrow> j \<le> g k) \<Longrightarrow> slice i j (foldl (\<lambda>b k. b[g k := f k]) buf ks) = slice i j buf"
  by (induction ks arbitrary: buf) (simp_all add: slice_update_above)

text \<open>Records written one after the other at a fixed stride are all found again.\<close>

lemma length_foldl_put:
  "(\<And>i. i < n \<Longrightarrow> i * w + length (f i) \<le> length buf) \<Longrightarrow>
    length (foldl (\<lambda>b i. put (i * w) (f i) b) buf [0..<n]) = length buf"
  by (induction n) simp_all

lemma slice_foldl_put:
  assumes "\<And>i. i < n \<Longrightarrow> length (f i) = k" "k \<le> w" "n * w \<le> length buf" "i < n"
  shows "slice (i * w) (i * w + k) (foldl (\<lambda>b i. put (i * w) (f i) b) buf [0..<n]) = f i"
  using assms
proof (induction n)
  case (Suc n)
  let ?B = "foldl (\<lambda>b i. put (i * w) (f i) b) buf [0..<n]"
  have fit: "j * w + length (f j) \<le> length buf" if "j < Suc n" for j
  proof -
    have "j * w \<le> n * w" using that by (intro mult_le_mono1) simp
    moreover have "length (f j) = k" by (rule Suc.prems(1)) (rule that)
    ultimately show ?thesis using Suc.prems(2,3) unfolding mult_Suc by linarith
  qed
  have len: "length ?B = length buf" using fit by (intro length_foldl_put) simp
  show ?case
  proof (cases "i = n")
    case True
    have "slice (n * w) (n * w + length (f n)) (put (n * w) (f n) ?B) = f n"
      using fit [of n] len by (intro slice_put_same) simp
    with True Suc.prems(1) [of n] show ?thesis by simp
  next
    case False
    with Suc.prems(4) have i: "i < n" by simp
    then have "Suc i * w \<le> n * w" by (intro mult_le_mono1) simp
    then have "i * w + k \<le> n * w" using Suc.prems(2) by simp
    moreover have "n * w \<le> length ?B" using len Suc.prems(3) by simp
    ultimately have "slice (i * w) (i * w + k) (put (n * w) (f n) ?B) = slice (i * w) (i * w + k) ?B"
      by (rule slice_put_below)
    then show ?thesis using Suc.IH Suc.prems i by simp
  qed
qed simp

subsection \<open>Strings\<close>

definition upper_char :: "char \<Rightarrow> char" where
  "upper_char c = (let n = of_char c :: nat in if 97 \<le> n \<and> n \<le> 122 then char_of (n - 32) else c)"

definition upper :: "string \<Rightarrow> string" where
  "upper s = map upper_char s"

text \<open>\<open>sub in s\<close>\<close>

fun contains :: "string \<Rightarrow> string \<Rightarrow> bool" where
  "contains sub [] \<longleftrightarrow> sub = []"
| "contains sub (c # cs) \<longleftrightarrow> take (length sub) (c # cs) = sub \<or> contains sub cs"

subsection \<open>Fixed-width integers\<close>

fun le_bytes :: "nat \<Rightarrow> int \<Rightarrow> bytes" where
  "le_bytes 0 v = []"
| "le_bytes (Suc n) v = word_of_int v # le_bytes n (v div 256)"

fun le_int :: "bytes \<Rightarrow> int" where
  "le_int [] = 0"
| "le_int (b # bs) = uint b + 256 * le_int bs"

definition be_bytes :: "nat \<Rightarrow> int \<Rightarrow> bytes" where
  "be_bytes n v = rev (le_bytes n v)"

definition be_int :: "bytes \<Rightarrow> int" where
  "be_int bs = le_int (rev bs)"

lemma length_le_bytes [simp]: "length (le_bytes n v) = n"
  by (induction n arbitrary: v) simp_all

lemma length_be_bytes [simp]: "length (be_bytes n v) = n"
  by (simp add: be_bytes_def)

lemma uint_byte_of_int: "uint (word_of_int v :: byte) = v mod 256"
  by (simp add: uint_word_of_int)

lemma le_int_bytes: "le_int (le_bytes n v) = v mod 256 ^ n"
proof (induction n arbitrary: v)
  case 0
  then show ?case by simp
next
  case (Suc n)
  have "v mod (256 * 256 ^ n) = 256 * (v div 256 mod 256 ^ n) + v mod 256"
    by (rule zmod_zmult2_eq) simp
  with Suc show ?case by (simp add: uint_byte_of_int)
qed

lemma le_int_bytes_id: "0 \<le> v \<Longrightarrow> v < 256 ^ n \<Longrightarrow> le_int (le_bytes n v) = v"
  by (simp add: le_int_bytes)

lemma le_int_nonneg [simp]: "0 \<le> le_int bs"
  by (induction bs) simp_all

lemma uint_byte_less [simp]: "uint (b :: byte) < 256"
  using uint_bounded [of b] by simp

lemma le_int_less: "le_int bs < 256 ^ length bs"
proof (induction bs)
  case Nil
  then show ?case by simp
next
  case (Cons b bs)
  have "le_int bs + 1 \<le> 256 ^ length bs" using Cons by simp
  moreover have "a + 256 * x < 256 * y" if "a < 256" "x + 1 \<le> y" for a x y :: int
    using that by linarith
  ultimately show ?case by (simp only: le_int.simps list.size power_Suc uint_byte_less add_0_right
    add_Suc_right)
qed

lemma le_bytes_int: "le_bytes (length bs) (le_int bs) = bs"
proof (induction bs)
  case Nil
  then show ?case by simp
next
  case (Cons b bs)
  have "(uint b + 256 * le_int bs) div 256 = le_int bs"
    by (simp add: div_pos_pos_trivial)
  moreover have "(word_of_int (uint b + 256 * le_int bs) :: byte) = b"
    by (rule word_uint_eqI) (simp only: uint_byte_of_int mod_mult_self2, simp)
  ultimately show ?case using Cons by simp
qed

lemma le_bytes_inj:
  "le_bytes n v = le_bytes n w \<Longrightarrow> 0 \<le> v \<Longrightarrow> v < 256 ^ n \<Longrightarrow> 0 \<le> w \<Longrightarrow> w < 256 ^ n \<Longrightarrow> v = w"
  by (metis le_int_bytes_id)

lemma le_bytes_zero: "le_bytes n 0 = zeros n"
  by (induction n) (simp_all add: zeros_def)

lemma le_int_zeros [simp]: "le_int (zeros n) = 0"
  by (simp add: le_int_bytes flip: le_bytes_zero)

lemma le_int_eq_0_iff: "le_int bs = 0 \<longleftrightarrow> set bs \<subseteq> {0}"
proof (induction bs)
  case (Cons b bs)
  have "uint b + 256 * le_int bs = 0 \<longleftrightarrow> uint b = 0 \<and> le_int bs = 0"
    using uint_nonnegative [of b] le_int_nonneg [of bs] by (smt (verit))
  with Cons show ?case by (simp add: word_uint_eq_iff)
qed simp

text \<open>Two's complement reading of an unsigned value of \<open>n\<close> bytes.\<close>

definition to_signed :: "nat \<Rightarrow> int \<Rightarrow> int" where
  "to_signed n v = (if v < 2 ^ (8 * n - 1) then v else v - 256 ^ n)"

lemma pow256: "(256 :: int) ^ n = 2 ^ (8 * n)"
  by (simp add: power_mult)

lemma pow256_half: "0 < n \<Longrightarrow> (256 :: int) ^ n = 2 * 2 ^ (8 * n - 1)"
  by (simp add: pow256 flip: power_Suc)

lemma to_signed_mod:
  assumes "0 < n" "- (2 ^ (8 * n - 1)) \<le> v" "v < 2 ^ (8 * n - 1)"
  shows "to_signed n (v mod 256 ^ n) = v"
proof (cases "0 \<le> v")
  case True
  have "v < 256 ^ n" using assms pow256_half [of n] by simp
  with True assms show ?thesis by (simp add: to_signed_def)
next
  case False
  have half: "(256 :: int) ^ n = 2 * 2 ^ (8 * n - 1)" using assms(1) by (rule pow256_half)
  have "(v + 256 ^ n) mod 256 ^ n = v + 256 ^ n"
    using False assms half by (intro mod_pos_pos_trivial) simp_all
  then have "v mod 256 ^ n = v + 256 ^ n" by simp
  with assms half show ?thesis by (simp add: to_signed_def)
qed

lemma to_signed_bounds:
  assumes "0 < n" "0 \<le> v" "v < 256 ^ n"
  shows "- (2 ^ (8 * n - 1)) \<le> to_signed n v" "to_signed n v < 2 ^ (8 * n - 1)"
  using assms pow256_half [of n] by (auto simp add: to_signed_def)

lemma le_bytes_xor: "le_bytes n (x XOR y) = map2 (XOR) (le_bytes n x) (le_bytes n y)"
proof (induction n arbitrary: x y)
  case (Suc n)
  have "(x XOR y) div 256 = x div 256 XOR y div 256"
    using drop_bit_xor [of 8 x y] by (simp add: drop_bit_eq_div)
  moreover have "(word_of_int (x XOR y) :: 8 word) = word_of_int x XOR word_of_int y"
    by (intro bit_eqI) (simp add: bit_simps)
  ultimately show ?case using Suc by simp
qed simp

lemma le_int_xor:
  assumes "length xs = length ys"
  shows "le_int (map2 (XOR) xs ys) = le_int xs XOR le_int ys"
proof -
  let ?n = "length xs"
  have t: "take_bit (8 * length bs) (le_int bs) = le_int bs" for bs
    by (rule take_bit_int_eq_self) (use le_int_less [of bs] in \<open>simp_all add: pow256\<close>)
  have "map2 (XOR) xs ys = le_bytes ?n (le_int xs XOR le_int ys)"
    unfolding le_bytes_xor using assms le_bytes_int [of xs] le_bytes_int [of ys] by simp
  then have "le_int (map2 (XOR) xs ys) = take_bit (8 * ?n) (le_int xs XOR le_int ys)"
    by (simp add: le_int_bytes pow256 take_bit_eq_mod)
  also have "\<dots> = le_int xs XOR le_int ys"
    using t [of xs] t [of ys] assms by (simp add: take_bit_xor)
  finally show ?thesis .
qed

text \<open>Reading one of several fields of the same size.\<close>

lemma length_concat_fixed: "(\<And>i. i < n \<Longrightarrow> length (f i) = k) \<Longrightarrow> length (concat (map f [0..<n])) = n * k"
  by (induction n) simp_all

lemma slice_concat_fixed:
  assumes "\<And>i. i < n \<Longrightarrow> length (f i) = k" "i < n"
  shows "slice (i * k) ((i + 1) * k) (concat (map f [0..<n])) = f i"
  using assms
proof (induction n)
  case (Suc n)
  have len: "length (concat (map f [0..<n])) = n * k" using Suc.prems(1) by (intro length_concat_fixed) simp
  show ?case
  proof (cases "i = n")
    case True
    then show ?thesis using Suc.prems(1) [of n] len by (simp add: slice_append_right slice_def)
  next
    case False
    then have i: "i < n" using Suc.prems(2) by simp
    then have "(i + 1) * k \<le> n * k" by (intro mult_le_mono1) simp
    then have "slice (i * k) ((i + 1) * k) (concat (map f [0..<n]) @ f n) =
      slice (i * k) ((i + 1) * k) (concat (map f [0..<n]))" by (intro slice_append_left) (simp only: len)
    then show ?thesis using Suc.IH Suc.prems i by simp
  qed
qed simp

end
