(* ===== verification/PyStruct.thy ===== *)
theory PyStruct
  imports Prelude
begin

text \<open>
  The part of Python's \<open>struct\<close> module the ABI layer uses, on little-endian formats.  A format
  is a list of fields: \<open>U n\<close> an unsigned integer of \<open>n\<close> bytes (the codes B, H, I, Q),
  \<open>S n\<close> a signed one (h, i, q) and \<open>X n\<close> padding (\<open>12x\<close>).  Packing raises
  \<open>struct.error\<close> when a value is out of range for its field or their numbers differ;
  unpacking raises it when the buffer is too short.
\<close>

unbundle bit_operations_syntax

datatype field = U nat | S nat | X nat

fun field_size :: "field \<Rightarrow> nat" where
  "field_size (U n) = n"
| "field_size (S n) = n"
| "field_size (X n) = n"

definition struct_size :: "field list \<Rightarrow> nat" where
  "struct_size fs = sum_list (map field_size fs)"

fun struct_pack :: "field list \<Rightarrow> int list \<Rightarrow> bytes py" where
  "struct_pack [] [] = Inr []"
| "struct_pack [] (v # vs) = Inl StructError"
| "struct_pack (X n # fs) vs = bindE (struct_pack fs vs) (\<lambda>bs. Inr (zeros n @ bs))"
| "struct_pack (U n # fs) [] = Inl StructError"
| "struct_pack (U n # fs) (v # vs) =
     (if 0 \<le> v \<and> v < 256 ^ n
      then bindE (struct_pack fs vs) (\<lambda>bs. Inr (le_bytes n v @ bs)) else Inl StructError)"
| "struct_pack (S n # fs) [] = Inl StructError"
| "struct_pack (S n # fs) (v # vs) =
     (if - (2 ^ (8 * n - 1)) \<le> v \<and> v < 2 ^ (8 * n - 1)
      then bindE (struct_pack fs vs) (\<lambda>bs. Inr (le_bytes n v @ bs)) else Inl StructError)"

fun struct_unpack :: "field list \<Rightarrow> bytes \<Rightarrow> int list" where
  "struct_unpack [] bs = []"
| "struct_unpack (X n # fs) bs = struct_unpack fs (drop n bs)"
| "struct_unpack (U n # fs) bs = le_int (take n bs) # struct_unpack fs (drop n bs)"
| "struct_unpack (S n # fs) bs = to_signed n (le_int (take n bs)) # struct_unpack fs (drop n bs)"

definition struct_unpack_from :: "field list \<Rightarrow> bytes \<Rightarrow> nat \<Rightarrow> int list py" where
  "struct_unpack_from fs buf off =
     (if off + struct_size fs \<le> length buf then Inr (struct_unpack fs (drop off buf))
      else Inl StructError)"

definition struct_pack_into :: "field list \<Rightarrow> bytes \<Rightarrow> nat \<Rightarrow> int list \<Rightarrow> bytes py" where
  "struct_pack_into fs buf off vs =
     (if off + struct_size fs \<le> length buf
      then bindE (struct_pack fs vs) (\<lambda>bs. Inr (put off bs buf)) else Inl StructError)"

text \<open>\<open>n.to_bytes(k, "little")\<close>: an \<open>OverflowError\<close> out of range.\<close>

definition to_bytes_le :: "nat \<Rightarrow> int \<Rightarrow> bytes py" where
  "to_bytes_le n v = (if 0 \<le> v \<and> v < 256 ^ n then Inr (le_bytes n v) else Inl OverflowError)"

definition to_bytes_be :: "nat \<Rightarrow> int \<Rightarrow> bytes py" where
  "to_bytes_be n v = (if 0 \<le> v \<and> v < 256 ^ n then Inr (be_bytes n v) else Inl OverflowError)"

subsection \<open>Sizes and ranges\<close>

lemma struct_size_simps [simp]:
  "struct_size [] = 0"
  "struct_size (U n # fs) = n + struct_size fs"
  "struct_size (S n # fs) = n + struct_size fs"
  "struct_size (X n # fs) = n + struct_size fs"
  by (simp_all add: struct_size_def)

lemma struct_size_replicate [simp]: "struct_size (replicate k f) = k * field_size f"
  by (simp add: struct_size_def sum_list_replicate)

lemma length_struct_pack: "struct_pack fs vs = Inr bs \<Longrightarrow> length bs = struct_size fs"
  by (induction fs vs arbitrary: bs rule: struct_pack.induct)
    (auto split: if_splits simp add: bindE_Inr_iff)

text \<open>When a value list is packed, exactly.\<close>

fun struct_fits :: "field list \<Rightarrow> int list \<Rightarrow> bool" where
  "struct_fits [] vs \<longleftrightarrow> vs = []"
| "struct_fits (X n # fs) vs \<longleftrightarrow> struct_fits fs vs"
| "struct_fits (U n # fs) [] \<longleftrightarrow> False"
| "struct_fits (U n # fs) (v # vs) \<longleftrightarrow> 0 \<le> v \<and> v < 256 ^ n \<and> struct_fits fs vs"
| "struct_fits (S n # fs) [] \<longleftrightarrow> False"
| "struct_fits (S n # fs) (v # vs) \<longleftrightarrow>
     - (2 ^ (8 * n - 1)) \<le> v \<and> v < 2 ^ (8 * n - 1) \<and> struct_fits fs vs"

fun struct_bytes :: "field list \<Rightarrow> int list \<Rightarrow> bytes" where
  "struct_bytes (X n # fs) vs = zeros n @ struct_bytes fs vs"
| "struct_bytes (U n # fs) (v # vs) = le_bytes n v @ struct_bytes fs vs"
| "struct_bytes (S n # fs) (v # vs) = le_bytes n v @ struct_bytes fs vs"
| "struct_bytes _ _ = []"

lemma struct_pack_fits: "struct_fits fs vs \<Longrightarrow> struct_pack fs vs = Inr (struct_bytes fs vs)"
  by (induction fs vs rule: struct_pack.induct) auto

lemma struct_pack_misfit: "\<not> struct_fits fs vs \<Longrightarrow> struct_pack fs vs = Inl StructError"
  by (induction fs vs rule: struct_pack.induct) auto

lemma struct_pack_cases:
  "struct_pack fs vs =
     (if struct_fits fs vs then Inr (struct_bytes fs vs) else Inl StructError)"
  by (simp add: struct_pack_fits struct_pack_misfit)

lemma length_struct_bytes: "struct_fits fs vs \<Longrightarrow> length (struct_bytes fs vs) = struct_size fs"
  by (rule length_struct_pack, rule struct_pack_fits)

subsection \<open>Round trips\<close>

definition wf_format :: "field list \<Rightarrow> bool" where
  "wf_format fs \<longleftrightarrow> S 0 \<notin> set fs"

lemma wf_format_simps [simp]:
  "wf_format []"
  "wf_format (U n # fs) = wf_format fs"
  "wf_format (X n # fs) = wf_format fs"
  "wf_format (S n # fs) = (0 < n \<and> wf_format fs)"
  by (auto simp add: wf_format_def)

lemma wf_format_replicate_S [simp]: "0 < n \<Longrightarrow> wf_format (replicate k (S n))"
  by (simp add: wf_format_def)

lemma struct_unpack_bytes:
  "struct_fits fs vs \<Longrightarrow> wf_format fs \<Longrightarrow> struct_unpack fs (struct_bytes fs vs @ rest) = vs"
proof (induction fs vs rule: struct_fits.induct)
  case (6 n fs v vs)
  then have "to_signed n (le_int (le_bytes n v)) = v"
    by (simp add: le_int_bytes to_signed_mod)
  with 6 show ?case by simp
qed (auto simp add: le_int_bytes_id)

text \<open>A field written by \<open>pack_into\<close> is read back by \<open>unpack_from\<close> at the same place.\<close>

lemma struct_unpack_pack_into:
  assumes "struct_pack_into fs buf off vs = Inr buf'" "wf_format fs"
  shows "struct_unpack_from fs buf' off = Inr vs" "length buf' = length buf"
proof -
  from assms(1) have fit: "struct_fits fs vs" and len: "off + struct_size fs \<le> length buf"
    and buf': "buf' = put off (struct_bytes fs vs) buf"
    by (auto simp add: struct_pack_into_def struct_pack_cases split: if_splits)
  have lb: "length (struct_bytes fs vs) = struct_size fs"
    by (rule length_struct_bytes) (rule fit)
  with buf' len show len': "length buf' = length buf" by simp
  have "drop off buf' = struct_bytes fs vs @ drop (off + struct_size fs) buf"
    using buf' len lb by (simp add: drop_put)
  then show "struct_unpack_from fs buf' off = Inr vs"
    using len len' fit assms(2) by (simp add: struct_unpack_from_def struct_unpack_bytes)
qed

lemma struct_pack_into_fits:
  "struct_fits fs vs \<Longrightarrow> off + struct_size fs \<le> length buf \<Longrightarrow>
    struct_pack_into fs buf off vs = Inr (put off (struct_bytes fs vs) buf)"
  by (simp add: struct_pack_into_def struct_pack_cases)

lemma struct_pack_into_Inl_iff:
  "off + struct_size fs \<le> length buf \<Longrightarrow>
    struct_pack_into fs buf off vs = Inl e \<longleftrightarrow> e = StructError \<and> \<not> struct_fits fs vs"
  by (auto simp add: struct_pack_into_def struct_pack_cases)

text \<open>What is read outside the written window is unchanged.\<close>

lemma struct_unpack_from_put_above:
  assumes "off + length bs \<le> off'" "off + length bs \<le> length buf"
  shows "struct_unpack_from fs (put off bs buf) off' = struct_unpack_from fs buf off'"
proof -
  have "drop off' (put off bs buf) = drop off' buf"
    using assms by (simp add: put_def add.commute)
  with assms show ?thesis by (simp add: struct_unpack_from_def)
qed

lemma struct_unpack_take:
  "struct_size fs \<le> n \<Longrightarrow> struct_unpack fs (take n bs) = struct_unpack fs bs"
  by (induction fs bs arbitrary: n rule: struct_unpack.induct) (simp_all add: drop_take min_def)

lemma struct_unpack_from_put_below:
  assumes "off' + struct_size fs \<le> off" "off + length bs \<le> length buf"
  shows "struct_unpack_from fs (put off bs buf) off' = struct_unpack_from fs buf off'"
proof -
  have "take (struct_size fs) (drop off' (put off bs buf)) = take (struct_size fs) (drop off' buf)"
    using slice_put_below [of "off' + struct_size fs" off buf off' bs] assms
    by (simp add: slice_def)
  then have "struct_unpack fs (drop off' (put off bs buf)) = struct_unpack fs (drop off' buf)"
    by (metis order_refl struct_unpack_take)
  with assms show ?thesis by (simp add: struct_unpack_from_def)
qed

lemma struct_pack_into_put:
  assumes "struct_pack_into fs buf off vs = Inr buf'"
  obtains bs where "buf' = put off bs buf" "length bs = struct_size fs" "off + struct_size fs \<le> length buf"
    "bs = struct_bytes fs vs" "struct_fits fs vs"
  using assms
  by (auto simp add: struct_pack_into_def struct_pack_cases length_struct_bytes split: if_splits)

lemma struct_unpack_from_pack_into_other:
  assumes "struct_pack_into fs buf off vs = Inr buf'"
    "off' + struct_size fs' \<le> off \<or> off + struct_size fs \<le> off'"
  shows "struct_unpack_from fs' buf' off' = struct_unpack_from fs' buf off'"
  using assms(1)
proof (rule struct_pack_into_put)
  fix bs
  assume "buf' = put off bs buf" "length bs = struct_size fs" "off + struct_size fs \<le> length buf"
  with assms(2) show ?thesis
    by (auto simp add: struct_unpack_from_put_below struct_unpack_from_put_above)
qed

lemma struct_unpack_replicate_U:
  "struct_unpack (replicate k (U n)) bs = map (\<lambda>i. le_int (take n (drop (i * n) bs))) [0..<k]"
proof (induction k arbitrary: bs)
  case (Suc k)
  have "map (\<lambda>i. le_int (take n (drop (i * n) bs))) [0..<Suc k] =
    le_int (take n bs) # map (\<lambda>i. le_int (take n (drop (Suc i * n) bs))) [0..<k]"
    by (simp add: upt_rec [of 0 "Suc k"] map_Suc_upt [symmetric] comp_def del: upt_Suc)
  with Suc [of "drop n bs"] show ?case by (simp add: add.commute)
qed simp

lemma length_struct_unpack_U [simp]: "length (struct_unpack (replicate k (U n)) bs) = k"
  by (simp add: struct_unpack_replicate_U)

lemma struct_unpack_replicate_S:
  "struct_unpack (replicate k (S n)) bs =
     map (\<lambda>i. to_signed n (le_int (take n (drop (i * n) bs)))) [0..<k]"
proof (induction k arbitrary: bs)
  case (Suc k)
  have "map (\<lambda>i. to_signed n (le_int (take n (drop (i * n) bs)))) [0..<Suc k] =
    to_signed n (le_int (take n bs)) #
      map (\<lambda>i. to_signed n (le_int (take n (drop (Suc i * n) bs)))) [0..<k]"
    by (simp add: upt_rec [of 0 "Suc k"] map_Suc_upt [symmetric] comp_def del: upt_Suc)
  with Suc [of "drop n bs"] show ?case by (simp add: add.commute)
qed simp

lemma struct_unpack_U_bounds:
  "v \<in> set (struct_unpack (replicate k (U n)) bs) \<Longrightarrow> 0 \<le> v \<and> v < 256 ^ n"
proof -
  assume "v \<in> set (struct_unpack (replicate k (U n)) bs)"
  then obtain i where v: "v = le_int (take n (drop (i * n) bs))"
    by (auto simp add: struct_unpack_replicate_U)
  have "le_int (take n (drop (i * n) bs)) < 256 ^ length (take n (drop (i * n) bs))"
    by (rule le_int_less)
  also have "\<dots> \<le> 256 ^ n" by (rule power_increasing) simp_all
  finally show ?thesis using v by simp
qed


lemma struct_unpack_append:
  "struct_size fs \<le> length bs \<Longrightarrow> struct_unpack fs (bs @ rest) = struct_unpack fs bs"
proof -
  assume len: "struct_size fs \<le> length bs"
  have "struct_unpack fs (bs @ rest) = struct_unpack fs (take (length bs) (bs @ rest))"
    by (rule struct_unpack_take [symmetric]) (rule len)
  then show ?thesis by simp
qed

lemma struct_unpack_from_append:
  "struct_unpack_from fs buf off = Inr vs \<Longrightarrow> struct_unpack_from fs (buf @ rest) off = Inr vs"
  by (auto simp add: struct_unpack_from_def struct_unpack_append split: if_splits)

subsection \<open>Rows of 32-bit words\<close>

text \<open>
  A list of words written one \<open>pack_into\<close> at a time, or as one format \<open>"<8I"\<close>, is the
  concatenation of their bytes.
\<close>

definition words_ok :: "int list \<Rightarrow> bool" where
  "words_ok ws \<longleftrightarrow> (\<forall>w \<in> set ws. 0 \<le> w \<and> w < 4294967296)"

definition words_bytes :: "int list \<Rightarrow> bytes" where
  "words_bytes ws = concat (map (le_bytes 4) ws)"

lemma words_bytes_simps [simp]:
  "words_bytes [] = []"
  "words_bytes (w # ws) = le_bytes 4 w @ words_bytes ws"
  "words_bytes (ws @ vs) = words_bytes ws @ words_bytes vs"
  by (simp_all add: words_bytes_def)

lemma length_words_bytes [simp]: "length (words_bytes ws) = 4 * length ws"
  by (induction ws) simp_all

lemma words_ok_simps [simp]:
  "words_ok []"
  "words_ok (w # ws) \<longleftrightarrow> 0 \<le> w \<and> w < 4294967296 \<and> words_ok ws"
  "words_ok (ws @ vs) \<longleftrightarrow> words_ok ws \<and> words_ok vs"
  by (auto simp add: words_ok_def)

lemma words_ok_nth: "words_ok ws \<Longrightarrow> i < length ws \<Longrightarrow> 0 \<le> ws ! i \<and> ws ! i < 4294967296"
  by (simp add: words_ok_def)

lemma struct_unpack_words:
  "words_ok ws \<Longrightarrow> struct_unpack (replicate (length ws) (U 4)) (words_bytes ws @ rest) = ws"
  by (induction ws) (simp_all add: le_int_bytes)

lemma words_ok_unpack: "words_ok (struct_unpack (replicate n (U 4)) bs)"
  using struct_unpack_U_bounds [of _ n 4 bs] by (auto simp add: words_ok_def)

lemma pack_words_loop:
  assumes "words_ok ws" "n \<le> length ws" "off + 4 * length ws \<le> length buf"
  shows "foldE (\<lambda>b k. struct_pack_into [U 4] b (off + k * 4) [ws ! k]) buf [0..<n] =
    Inr (put off (words_bytes (take n ws)) buf)"
  using assms(2)
proof (induction n)
  case 0
  then show ?case by (simp add: put_def)
next
  case (Suc n)
  then have "0 \<le> ws ! n \<and> ws ! n < 4294967296" using assms(1) by (intro words_ok_nth) simp_all
  with Suc assms(3) show ?case
    by (simp add: foldE_append struct_pack_into_fits put_put_adjacent take_Suc_conv_app_nth)
qed

lemma struct_unpack_from_slice:
  assumes "slice off (off + struct_size fs) buf = x" "off + struct_size fs \<le> length buf"
  shows "struct_unpack_from fs buf off = Inr (struct_unpack fs x)"
proof -
  have "struct_unpack fs (drop off buf) = struct_unpack fs (take (struct_size fs) (drop off buf))"
    by (rule struct_unpack_take [symmetric]) simp
  also have "take (struct_size fs) (drop off buf) = x" using assms(1) by (simp add: slice_def)
  finally show ?thesis using assms(2) by (simp add: struct_unpack_from_def)
qed

subsection \<open>Descriptor codecs\<close>

text \<open>
  The contract of every descriptor of the ABI layer: a packed descriptor has a fixed size and is
  read back from the front of any buffer that starts with it.
\<close>

locale descriptor_codec =
  fixes pack :: "'r \<Rightarrow> bytes py"
    and unpack :: "bytes \<Rightarrow> 'r py"
    and size :: nat
  assumes pack_size: "pack r = Inr b \<Longrightarrow> length b = size"
    and unpack_pack: "pack r = Inr b \<Longrightarrow> unpack (b @ rest) = Inr r"
begin

lemma roundtrip: "pack r = Inr b \<Longrightarrow> unpack b = Inr r"
  using unpack_pack [of r b "[]"] by simp

lemma pack_injective: "pack r = Inr b \<Longrightarrow> pack r' = Inr b \<Longrightarrow> r = r'"
  using roundtrip [of r b] roundtrip [of r' b] by simp

text \<open>Framing: a stream of descriptors is parsed in one way only.\<close>

lemma framing:
  assumes "pack r = Inr b" "pack r' = Inr b'" "b @ x = b' @ y"
  shows "r = r' \<and> x = y"
proof -
  have "length b = length b'" using assms(1,2) by (simp add: pack_size)
  with assms(3) have "b = b'" "x = y" by simp_all
  with assms(1,2) pack_injective show ?thesis by blast
qed

end

text \<open>A descriptor that is one \<open>pack_into\<close> at offset 0, or one followed by a second one.\<close>

lemma packed_once:
  assumes "struct_pack_into fs (zeros n) 0 vs = Inr b" "wf_format fs"
  shows "length b = n" "struct_unpack_from fs (b @ rest) 0 = Inr vs"
  using struct_unpack_pack_into [OF assms] by (simp_all add: struct_unpack_from_append)

lemma packed_twice:
  assumes "bindE (struct_pack_into fs (zeros n) 0 vs) (\<lambda>data. struct_pack_into gs data off ws) = Inr b"
    "wf_format fs" "wf_format gs" "struct_size fs \<le> off"
  shows "length b = n" "struct_unpack_from fs (b @ rest) 0 = Inr vs"
    "struct_unpack_from gs (b @ rest) off = Inr ws"
proof -
  from assms(1) obtain data where 1: "struct_pack_into fs (zeros n) 0 vs = Inr data"
    and 2: "struct_pack_into gs data off ws = Inr b" by (auto simp add: bindE_Inr_iff)
  from struct_unpack_pack_into [OF 1 assms(2)] struct_unpack_pack_into [OF 2 assms(3)]
  show "length b = n" "struct_unpack_from gs (b @ rest) off = Inr ws"
    by (simp_all add: struct_unpack_from_append)
  have "struct_unpack_from fs b 0 = struct_unpack_from fs data 0"
    by (rule struct_unpack_from_pack_into_other [OF 2]) (use assms(4) in simp)
  with struct_unpack_pack_into [OF 1 assms(2)]
  show "struct_unpack_from fs (b @ rest) 0 = Inr vs" by (simp add: struct_unpack_from_append)
qed

end
