(* ===== verification/PyHash.thy ===== *)
theory PyHash
  imports Prelude
begin

text \<open>
  The part of Python's standard library the code hashes with, as executable functions on bytes:
  \<open>hashlib.sha256\<close> (FIPS 180-4), \<open>hmac\<close> over SHA-256 (RFC 2104),
  \<open>hashlib.shake_128\<close>, \<open>shake_256\<close> and the SHA-3 functions (FIPS 202), and
  \<open>zlib.crc32\<close>.  The words are kept at their width.
\<close>

unbundle bit_operations_syntax

subsection \<open>SHA-256\<close>

type_synonym w32 = "32 word"

definition ror32 :: "nat \<Rightarrow> w32 \<Rightarrow> w32" where
  "ror32 n x = drop_bit n x OR push_bit (32 - n) x"

text \<open>
  The constants as FIPS 180-4 describes them: the first 32 bits of the fractional parts of the cube
  roots of the first 64 primes, and of the square roots of the first eight.  \<open>iroot e x k 0\<close> is
  the integer \<open>e\<close>-th root of \<open>x\<close> when it has at most \<open>k\<close> bits.
\<close>

fun iroot :: "nat \<Rightarrow> int \<Rightarrow> nat \<Rightarrow> int \<Rightarrow> int" where
  "iroot e x 0 r = r"
| "iroot e x (Suc k) r = iroot e x k (if (r + 2 ^ k) ^ e \<le> x then r + 2 ^ k else r)"

lemma iroot_bounds:
  assumes "0 \<le> r" "r ^ e \<le> x" "x < (r + 2 ^ k) ^ e" "0 < e"
  shows "(iroot e x k r) ^ e \<le> x \<and> x < (iroot e x k r + 1) ^ e"
  using assms by (induction k arbitrary: r) (simp_all add: add.assoc)

definition sha256_primes :: "int list" where
  "sha256_primes = filter (\<lambda>p. \<forall>d \<in> set [2..<nat p]. p mod int d \<noteq> 0) [2..311]"

definition sha256_k :: "w32 list" where
  "sha256_k = map (\<lambda>p. word_of_int (iroot 3 (p * 2 ^ 96) 40 0)) sha256_primes"

definition sha256_init :: "w32 list" where
  "sha256_init = map (\<lambda>p. word_of_int (iroot 2 (p * 2 ^ 64) 40 0)) [2, 3, 5, 7, 11, 13, 17, 19]"

fun be_words :: "nat \<Rightarrow> bytes \<Rightarrow> w32 list" where
  "be_words 0 bs = []"
| "be_words (Suc n) bs = word_of_int (be_int (take 4 bs)) # be_words n (drop 4 bs)"

text \<open>The message schedule is kept newest first: the list holds \<open>W(t-1), W(t-2), \<dots>\<close>.\<close>

definition sha256_next_w :: "w32 list \<Rightarrow> w32" where
  "sha256_next_w ws =
     (let w2 = ws ! 1; w7 = ws ! 6; w15 = ws ! 14; w16 = ws ! 15;
          s0 = ror32 7 w15 XOR ror32 18 w15 XOR drop_bit 3 w15;
          s1 = ror32 17 w2 XOR ror32 19 w2 XOR drop_bit 10 w2
      in s1 + w7 + s0 + w16)"

fun sha256_schedule :: "nat \<Rightarrow> w32 list \<Rightarrow> w32 list" where
  "sha256_schedule 0 ws = ws"
| "sha256_schedule (Suc n) ws = sha256_schedule n (sha256_next_w ws # ws)"

definition sha256_round :: "w32 list \<Rightarrow> w32 \<times> w32 \<Rightarrow> w32 list" where
  "sha256_round st kw =
     (case st of [a, b, c, d, e, f, g, h] \<Rightarrow>
        (let s1 = ror32 6 e XOR ror32 11 e XOR ror32 25 e;
             ch = (e AND f) XOR (NOT e AND g);
             t1 = h + s1 + ch + fst kw + snd kw;
             s0 = ror32 2 a XOR ror32 13 a XOR ror32 22 a;
             maj = (a AND b) XOR (a AND c) XOR (b AND c)
         in [t1 + (s0 + maj), a, b, c, d + t1, e, f, g])
      | _ \<Rightarrow> st)"

definition sha256_compress :: "w32 list \<Rightarrow> bytes \<Rightarrow> w32 list" where
  "sha256_compress st block =
     map2 (+) st (foldl sha256_round st
       (zip sha256_k (rev (sha256_schedule 48 (rev (be_words 16 block))))))"

definition sha256_pad :: "bytes \<Rightarrow> bytes" where
  "sha256_pad msg =
     msg @ [0x80] @ zeros ((119 - length msg mod 64) mod 64) @ be_bytes 8 (8 * int (length msg))"

fun sha256_blocks :: "nat \<Rightarrow> w32 list \<Rightarrow> bytes \<Rightarrow> w32 list" where
  "sha256_blocks 0 st bs = st"
| "sha256_blocks (Suc n) st bs = sha256_blocks n (sha256_compress st (take 64 bs)) (drop 64 bs)"

definition sha256 :: "bytes \<Rightarrow> bytes" where
  "sha256 msg =
     (let p = sha256_pad msg
      in concat (map (\<lambda>w. be_bytes 4 (uint w)) (sha256_blocks (length p div 64) sha256_init p)))"

lemma length_sha256_round [simp]: "length (sha256_round st kw) = length st"
  by (auto simp add: sha256_round_def Let_def split: list.splits)

lemma length_sha256_rounds [simp]: "length (foldl sha256_round st kws) = length st"
  by (induction kws arbitrary: st) simp_all

lemma length_sha256_compress [simp]: "length (sha256_compress st b) = length st"
  by (simp add: sha256_compress_def)

lemma length_sha256_blocks [simp]: "length (sha256_blocks n st bs) = length st"
  by (induction n st bs rule: sha256_blocks.induct) simp_all

lemma length_concat_be4 [simp]: "length (concat (map (\<lambda>w. be_bytes 4 (f w)) ws)) = 4 * length ws"
  by (induction ws) simp_all

lemma length_sha256 [simp]: "length (sha256 msg) = 32"
  by (simp add: sha256_def Let_def sha256_init_def)

subsection \<open>HMAC-SHA-256\<close>

definition hmac_key :: "bytes \<Rightarrow> bytes" where
  "hmac_key key = ljust 64 (if 64 < length key then sha256 key else key)"

definition hmac_sha256 :: "bytes \<Rightarrow> bytes \<Rightarrow> bytes" where
  "hmac_sha256 key msg =
     sha256 (map (\<lambda>b. b XOR 0x5c) (hmac_key key) @
             sha256 (map (\<lambda>b. b XOR 0x36) (hmac_key key) @ msg))"

lemma length_hmac_sha256 [simp]: "length (hmac_sha256 key msg) = 32"
  by (simp add: hmac_sha256_def)

subsection \<open>Keccak-f[1600] as FIPS 202 states it\<close>

text \<open>
  A state array is a list of 25 lanes, lane \<open>(x, y)\<close> at index \<open>x + 5 * y\<close>.  The five step
  mappings are written as the standard writes them, over coordinates modulo 5; the offsets of
  \<open>rho\<close> are the walk of the standard's algorithm 2.
\<close>

type_synonym w64 = "64 word"

definition rol64 :: "nat \<Rightarrow> w64 \<Rightarrow> w64" where
  "rol64 n x = push_bit n x OR drop_bit (64 - n) x"

definition lane :: "w64 list \<Rightarrow> nat \<Rightarrow> nat \<Rightarrow> w64" where
  "lane A x y = A ! (x mod 5 + 5 * (y mod 5))"

definition of_lanes :: "(nat \<Rightarrow> nat \<Rightarrow> w64) \<Rightarrow> w64 list" where
  "of_lanes f = map (\<lambda>i. f (i mod 5) (i div 5)) [0..<25]"

definition keccak_theta :: "w64 list \<Rightarrow> w64 list" where
  "keccak_theta A =
     (let C = map (\<lambda>x. lane A x 0 XOR lane A x 1 XOR lane A x 2 XOR lane A x 3 XOR lane A x 4) [0..<5]
      in of_lanes (\<lambda>x y. lane A x y XOR (C ! ((x + 4) mod 5) XOR rol64 1 (C ! ((x + 1) mod 5)))))"

fun rho_walk :: "nat \<Rightarrow> nat \<Rightarrow> nat \<Rightarrow> nat \<Rightarrow> ((nat \<times> nat) \<times> nat) list" where
  "rho_walk 0 t x y = []"
| "rho_walk (Suc n) t x y =
     ((x, y), ((t + 1) * (t + 2) div 2) mod 64) # rho_walk n (t + 1) y ((2 * x + 3 * y) mod 5)"

definition rho_offset :: "nat \<Rightarrow> nat \<Rightarrow> nat" where
  "rho_offset x y = (case map_of (rho_walk 24 0 1 0) (x, y) of None \<Rightarrow> 0 | Some r \<Rightarrow> r)"

lemma rho_walk_numeral:
  "rho_walk (numeral k) t x y =
     ((x, y), ((t + 1) * (t + 2) div 2) mod 64) # rho_walk (pred_numeral k) (t + 1) y ((2 * x + 3 * y) mod 5)"
  by (simp only: numeral_eq_Suc rho_walk.simps)

lemma rho_table:
  "rho_walk 24 0 1 0 =
    [((1, 0), 1), ((0, 2), 3), ((2, 1), 6), ((1, 2), 10), ((2, 3), 15), ((3, 3), 21), ((3, 0), 28),
     ((0, 1), 36), ((1, 3), 45), ((3, 1), 55), ((1, 4), 2), ((4, 4), 14), ((4, 0), 27), ((0, 3), 41),
     ((3, 4), 56), ((4, 3), 8), ((3, 2), 25), ((2, 2), 43), ((2, 0), 62), ((0, 4), 18), ((4, 2), 39),
     ((2, 4), 61), ((4, 1), 20), ((1, 1), 44)]"
  by (simp add: rho_walk_numeral)

definition keccak_rho :: "w64 list \<Rightarrow> w64 list" where
  "keccak_rho A = of_lanes (\<lambda>x y. rol64 (rho_offset x y) (lane A x y))"

definition keccak_pi :: "w64 list \<Rightarrow> w64 list" where
  "keccak_pi A = of_lanes (\<lambda>x y. lane A (x + 3 * y) x)"

definition keccak_chi :: "w64 list \<Rightarrow> w64 list" where
  "keccak_chi A = of_lanes (\<lambda>x y. lane A x y XOR (NOT (lane A (x + 1) y) AND lane A (x + 2) y))"

definition keccak_rc :: "w64 list" where
  "keccak_rc = [
    0x0000000000000001, 0x0000000000008082, 0x800000000000808A, 0x8000000080008000,
    0x000000000000808B, 0x0000000080000001, 0x8000000080008081, 0x8000000000008009,
    0x000000000000008A, 0x0000000000000088, 0x0000000080008009, 0x000000008000000A,
    0x000000008000808B, 0x800000000000008B, 0x8000000000008089, 0x8000000000008003,
    0x8000000000008002, 0x8000000000000080, 0x000000000000800A, 0x800000008000000A,
    0x8000000080008081, 0x8000000000008080, 0x0000000080000001, 0x8000000080008008]"

definition keccak_iota :: "nat \<Rightarrow> w64 list \<Rightarrow> w64 list" where
  "keccak_iota r A = A[0 := A ! 0 XOR keccak_rc ! r]"

definition keccak_round :: "w64 list \<Rightarrow> nat \<Rightarrow> w64 list" where
  "keccak_round A r = keccak_iota r (keccak_chi (keccak_pi (keccak_rho (keccak_theta A))))"

definition keccak_f :: "w64 list \<Rightarrow> w64 list" where
  "keccak_f A = foldl keccak_round A [0..<24]"

lemma length_of_lanes [simp]: "length (of_lanes f) = 25"
  by (simp add: of_lanes_def)

lemma length_keccak_round [simp]: "length (keccak_round A r) = 25"
  by (simp add: keccak_round_def keccak_iota_def keccak_chi_def)

lemma length_keccak_f [simp]: "length (keccak_f A) = 25"
  by (simp add: keccak_f_def upt_rec)

subsection \<open>The sponge\<close>

fun le_lanes :: "nat \<Rightarrow> bytes \<Rightarrow> w64 list" where
  "le_lanes 0 bs = []"
| "le_lanes (Suc n) bs = word_of_int (le_int (take 8 bs)) # le_lanes n (drop 8 bs)"

definition lanes_bytes :: "w64 list \<Rightarrow> bytes" where
  "lanes_bytes A = concat (map (\<lambda>w. le_bytes 8 (uint w)) A)"

definition keccak_pad :: "byte \<Rightarrow> nat \<Rightarrow> bytes \<Rightarrow> bytes" where
  "keccak_pad sfx rate msg =
     (let q = rate - length msg mod rate
      in if q = 1 then msg @ [sfx XOR 0x80] else msg @ [sfx] @ zeros (q - 2) @ [0x80])"

fun keccak_absorb :: "nat \<Rightarrow> nat \<Rightarrow> w64 list \<Rightarrow> bytes \<Rightarrow> w64 list" where
  "keccak_absorb 0 rate A bs = A"
| "keccak_absorb (Suc n) rate A bs =
     keccak_absorb n rate
       (keccak_f (map2 (XOR) A (le_lanes 25 (take rate bs @ zeros (200 - rate))))) (drop rate bs)"

fun keccak_squeeze :: "nat \<Rightarrow> nat \<Rightarrow> w64 list \<Rightarrow> bytes" where
  "keccak_squeeze 0 rate A = []"
| "keccak_squeeze (Suc n) rate A = take rate (lanes_bytes A) @ keccak_squeeze n rate (keccak_f A)"

definition sponge :: "byte \<Rightarrow> nat \<Rightarrow> bytes \<Rightarrow> nat \<Rightarrow> bytes" where
  "sponge sfx rate msg outlen =
     (let p = keccak_pad sfx rate msg;
          A = keccak_absorb (length p div rate) rate (replicate 25 0) p
      in take outlen (keccak_squeeze (outlen div rate + 1) rate A))"

definition shake128 :: "bytes \<Rightarrow> nat \<Rightarrow> bytes" where
  "shake128 msg n = sponge 0x1F 168 msg n"

definition shake256 :: "bytes \<Rightarrow> nat \<Rightarrow> bytes" where
  "shake256 msg n = sponge 0x1F 136 msg n"

definition sha3_256 :: "bytes \<Rightarrow> bytes" where
  "sha3_256 msg = sponge 0x06 136 msg 32"

definition sha3_512 :: "bytes \<Rightarrow> bytes" where
  "sha3_512 msg = sponge 0x06 72 msg 64"

lemma length_lanes_bytes [simp]: "length (lanes_bytes A) = 8 * length A"
  by (induction A) (simp_all add: lanes_bytes_def)

lemma length_keccak_absorb: "length A = 25 \<Longrightarrow> length (keccak_absorb n rate A bs) = 25"
  by (induction n rate A bs rule: keccak_absorb.induct) simp_all

lemma length_keccak_squeeze:
  "length A = 25 \<Longrightarrow> rate \<le> 200 \<Longrightarrow> length (keccak_squeeze n rate A) = n * rate"
  by (induction n rate A rule: keccak_squeeze.induct) simp_all

lemma length_sponge:
  assumes "0 < rate" "rate \<le> 200"
  shows "length (sponge sfx rate msg n) = n"
proof -
  have "n \<le> (n div rate + 1) * rate"
    using dividend_less_times_div [OF assms(1), of n] by (simp add: algebra_simps)
  then show ?thesis
    using assms(2) by (simp add: sponge_def Let_def length_keccak_squeeze length_keccak_absorb)
qed

lemma length_shake [simp]: "length (shake128 msg n) = n" "length (shake256 msg n) = n"
  by (simp_all add: shake128_def shake256_def length_sponge)

lemma length_sha3 [simp]: "length (sha3_256 msg) = 32" "length (sha3_512 msg) = 64"
  by (simp_all add: sha3_256_def sha3_512_def length_sponge)

text \<open>Extendable output: a shorter output is a prefix of a longer one.\<close>

lemma keccak_squeeze_prefix:
  "length A = 25 \<Longrightarrow> rate \<le> 200 \<Longrightarrow> m \<le> n \<Longrightarrow>
     take (m * rate) (keccak_squeeze n rate A) = keccak_squeeze m rate A"
proof (induction n arbitrary: m A)
  case (Suc n)
  show ?case
  proof (cases m)
    case (Suc k)
    with Suc.prems Suc.IH [of "keccak_f A" k] show ?thesis by (simp add: min_def)
  qed simp
qed simp

lemma sponge_prefix:
  assumes "0 < rate" "rate \<le> 200" "m \<le> n"
  shows "take m (sponge sfx rate msg n) = sponge sfx rate msg m"
proof -
  define A where "A = keccak_absorb (length (keccak_pad sfx rate msg) div rate) rate
    (replicate 25 0) (keccak_pad sfx rate msg)"
  have A: "length A = 25" by (simp add: A_def length_keccak_absorb)
  have le: "m div rate + 1 \<le> n div rate + 1" using assms(3) by (simp add: div_le_mono)
  have m: "m \<le> (m div rate + 1) * rate"
    using dividend_less_times_div [OF assms(1), of m] by (simp add: algebra_simps)
  have "take m (keccak_squeeze (n div rate + 1) rate A) =
    take m (take ((m div rate + 1) * rate) (keccak_squeeze (n div rate + 1) rate A))"
    using m by (simp only: take_take min_absorb1)
  also have "\<dots> = take m (keccak_squeeze (m div rate + 1) rate A)"
    by (simp only: keccak_squeeze_prefix [OF A assms(2) le])
  finally show ?thesis
    using assms(3) by (simp add: sponge_def Let_def min_absorb1 del: keccak_squeeze.simps flip: A_def)
qed

lemma shake256_prefix: "m \<le> n \<Longrightarrow> take m (shake256 msg n) = shake256 msg m"
  by (simp add: shake256_def sponge_prefix)

lemma shake128_prefix: "m \<le> n \<Longrightarrow> take m (shake128 msg n) = shake128 msg m"
  by (simp add: shake128_def sponge_prefix)

subsection \<open>CRC-32\<close>

fun crc32_bits :: "nat \<Rightarrow> w32 \<Rightarrow> w32" where
  "crc32_bits 0 c = c"
| "crc32_bits (Suc n) c =
     crc32_bits n (if bit c 0 then drop_bit 1 c XOR 0xEDB88320 else drop_bit 1 c)"

definition crc32_byte :: "w32 \<Rightarrow> byte \<Rightarrow> w32" where
  "crc32_byte c b = crc32_bits 8 (c XOR ucast b)"

definition crc32 :: "bytes \<Rightarrow> int" where
  "crc32 bs = uint (NOT (foldl crc32_byte (NOT 0) bs))"

text \<open>The check value the CRC-32 catalogue gives for the nine digits 123456789.\<close>

lemma crc32_check: "crc32 [0x31, 0x32, 0x33, 0x34, 0x35, 0x36, 0x37, 0x38, 0x39] = 0xCBF43926"
  by code_simp

lemma crc32_range: "0 \<le> crc32 bs \<and> crc32 bs < 4294967296"
  using uint_bounded [of "NOT (foldl crc32_byte (NOT 0) bs)"] by (simp add: crc32_def)

end
