(* ===== verification/Qkms.thy ===== *)
theory Qkms
  imports Prelude PyStruct PyHash
begin

text \<open>
  The quantum key management engine, \<open>dr41_qkms_abi.py\<close>: its 64-byte descriptor, its
  2048-byte result record, the vault of eight key slots with the SP 800-57 life cycle, the vault
  bank inside the request tensor, and the reference oracle that executes the five vault operations.
\<close>

unbundle bit_operations_syntax

subsection \<open>Constants\<close>

abbreviation (input) QKMS_MAGIC_HEADER :: int where "QKMS_MAGIC_HEADER \<equiv> 0x44523431"

abbreviation (input) QKMS_STATUS_SUCCESS :: int where "QKMS_STATUS_SUCCESS \<equiv> 0x00000000"

abbreviation (input) QKMS_STATUS_ERR_INVALID_SLOT :: int where "QKMS_STATUS_ERR_INVALID_SLOT \<equiv> 0x80000002"

abbreviation (input) QKMS_STATUS_ERR_ILLEGAL_TRANSITION :: int where
  "QKMS_STATUS_ERR_ILLEGAL_TRANSITION \<equiv> 0x80000003"

abbreviation (input) QKMS_STATUS_ERR_SLOT_EXPIRED :: int where "QKMS_STATUS_ERR_SLOT_EXPIRED \<equiv> 0x80000004"

abbreviation (input) QKMS_STATUS_ERR_UNSUPPORTED_OP :: int where
  "QKMS_STATUS_ERR_UNSUPPORTED_OP \<equiv> 0x80000005"

abbreviation (input) QKMS_STATUS_ERR_KEY_COMPROMISED :: int where
  "QKMS_STATUS_ERR_KEY_COMPROMISED \<equiv> 0x80000006"

abbreviation (input) OP_VAULT_STORE :: int where "OP_VAULT_STORE \<equiv> 0x0001"

abbreviation (input) OP_VAULT_DERIVE :: int where "OP_VAULT_DERIVE \<equiv> 0x0002"

abbreviation (input) OP_VAULT_TRANSITION :: int where "OP_VAULT_TRANSITION \<equiv> 0x0003"

abbreviation (input) OP_VAULT_ZEROIZE :: int where "OP_VAULT_ZEROIZE \<equiv> 0x0004"

abbreviation (input) OP_VAULT_QUERY :: int where "OP_VAULT_QUERY \<equiv> 0x0005"

abbreviation (input) STATE_EMPTY :: int where "STATE_EMPTY \<equiv> 0"

abbreviation (input) STATE_PRE_ACTIVE :: int where "STATE_PRE_ACTIVE \<equiv> 1"

abbreviation (input) STATE_ACTIVE :: int where "STATE_ACTIVE \<equiv> 2"

abbreviation (input) STATE_DEACTIVATED :: int where "STATE_DEACTIVATED \<equiv> 3"

abbreviation (input) STATE_COMPROMISED :: int where "STATE_COMPROMISED \<equiv> 4"

abbreviation (input) STATE_DESTROYED :: int where "STATE_DESTROYED \<equiv> 5"

abbreviation (input) KEY_TYPE_DERIVED_SESSION :: int where "KEY_TYPE_DERIVED_SESSION \<equiv> 0x03"

abbreviation (input) QKMS_DESCRIPTOR_SIZE :: nat where "QKMS_DESCRIPTOR_SIZE \<equiv> 64"

abbreviation (input) QKMS_REQUEST_BUFFER_SIZE :: nat where "QKMS_REQUEST_BUFFER_SIZE \<equiv> 4096"

abbreviation (input) QKMS_RESULT_BUFFER_SIZE :: nat where "QKMS_RESULT_BUFFER_SIZE \<equiv> 2048"

abbreviation (input) NUM_VAULT_SLOTS :: nat where "NUM_VAULT_SLOTS \<equiv> 8"

definition VALID_TRANSITIONS :: "(int \<times> int list) list" where
  "VALID_TRANSITIONS = [
     (STATE_EMPTY, [STATE_PRE_ACTIVE, STATE_ACTIVE]),
     (STATE_PRE_ACTIVE, [STATE_ACTIVE, STATE_DESTROYED]),
     (STATE_ACTIVE, [STATE_DEACTIVATED, STATE_COMPROMISED, STATE_DESTROYED]),
     (STATE_DEACTIVATED, [STATE_COMPROMISED, STATE_DESTROYED]),
     (STATE_COMPROMISED, [STATE_DESTROYED]),
     (STATE_DESTROYED, [])]"

subsection \<open>The descriptor\<close>

record qkms_descriptor =
  qd_op_code :: int
  qd_slot_id :: int
  qd_target_state :: int
  qd_param_0 :: int
  qd_param_1 :: int
  qd_key_type :: int
  qd_epoch :: int
  qd_seq_id :: int
  qd_magic :: int

definition qkms_descriptor_pack :: "qkms_descriptor \<Rightarrow> bytes py" where
  "qkms_descriptor_pack d =
     bindE (struct_pack_into [U 4, U 4, U 4, U 4, U 4, U 4, U 4, U 4] (zeros QKMS_DESCRIPTOR_SIZE) 0
       [qd_magic d, qd_op_code d, qd_slot_id d, qd_target_state d, qd_param_0 d, qd_param_1 d,
        qd_key_type d, qd_epoch d])
     (\<lambda>data. struct_pack_into [U 4] data 32 [qd_seq_id d])"

definition qkms_descriptor_unpack :: "bytes \<Rightarrow> qkms_descriptor py" where
  "qkms_descriptor_unpack buf =
     (if length buf < QKMS_DESCRIPTOR_SIZE then Inl ValueError
      else bindE (struct_unpack_from [U 4, U 4, U 4, U 4, U 4, U 4, U 4, U 4] buf 0) (\<lambda>fields.
           bindE (struct_unpack_from [U 4] buf 32) (\<lambda>seq.
           Inr \<lparr>qd_op_code = fields ! 1, qd_slot_id = fields ! 2, qd_target_state = fields ! 3,
                qd_param_0 = fields ! 4, qd_param_1 = fields ! 5, qd_key_type = fields ! 6,
                qd_epoch = fields ! 7, qd_seq_id = seq ! 0, qd_magic = fields ! 0\<rparr>)))"

subsection \<open>The result record\<close>

record qkms_result =
  qr_status :: int
  qr_op_code :: int
  qr_slot_id :: int
  qr_current_state :: int
  qr_checksum :: int
  qr_payload :: bytes

definition qkms_result_pack :: "qkms_result \<Rightarrow> bytes py" where
  "qkms_result_pack h =
     bindE (struct_pack [U 4, U 4, U 4, U 4, U 4, X 12]
       [qr_status h, qr_op_code h, qr_slot_id h, qr_current_state h, qr_checksum h]) (\<lambda>hdr.
     let payload_bytes = take (QKMS_RESULT_BUFFER_SIZE - 32) (qr_payload h);
         pad_len = QKMS_RESULT_BUFFER_SIZE - 32 - length payload_bytes
     in Inr (hdr @ payload_bytes @ zeros pad_len))"

definition qkms_result_unpack :: "bytes \<Rightarrow> qkms_result py" where
  "qkms_result_unpack buf =
     (if length buf < 32 then Inl ValueError
      else bindE (struct_unpack_from [U 4, U 4, U 4, U 4, U 4] buf 0) (\<lambda>fields.
           Inr \<lparr>qr_status = fields ! 0, qr_op_code = fields ! 1, qr_slot_id = fields ! 2,
                qr_current_state = fields ! 3, qr_checksum = fields ! 4,
                qr_payload = drop 32 buf\<rparr>))"

subsection \<open>Vault slots\<close>

record vault_slot =
  vs_state :: int
  vs_key_type :: int
  vs_key_id :: bytes
  vs_key_material :: bytes
  vs_epoch :: int

text \<open>\<open>VaultSlot()\<close> with the dataclass defaults.\<close>

definition new_slot :: vault_slot where
  "new_slot = \<lparr>vs_state = STATE_EMPTY, vs_key_type = 0, vs_key_id = zeros 16,
               vs_key_material = zeros 32, vs_epoch = 0\<rparr>"

definition slot_checksum :: "vault_slot \<Rightarrow> int" where
  "slot_checksum s =
     (let chk = foldl (\<lambda>chk b. u32 (chk * 31 + uint b)) 0 (vs_key_id s);
          chk = foldl (\<lambda>chk b. u32 (chk * 37 + uint b)) chk (vs_key_material s)
      in u32 (chk + vs_state s * 101 + vs_key_type s * 17 + vs_epoch s))"

definition is_valid_state_transition :: "int \<Rightarrow> int \<Rightarrow> bool" where
  "is_valid_state_transition from_state to_state =
     (case map_of VALID_TRANSITIONS from_state of None \<Rightarrow> False
      | Some allowed \<Rightarrow> to_state \<in> set allowed)"

text \<open>The literal \<open>b"SP800-56C-DUAL-KDF\x01"\<close>.\<close>

definition kdf_info :: bytes where
  "kdf_info = [0x53, 0x50, 0x38, 0x30, 0x30, 0x2d, 0x35, 0x36, 0x43, 0x2d, 0x44, 0x55, 0x41, 0x4c,
               0x2d, 0x4b, 0x44, 0x46, 0x01]"

definition sp800_56c_dual_kdf_ref :: "bytes \<Rightarrow> bytes \<Rightarrow> bytes \<Rightarrow> bytes" where
  "sp800_56c_dual_kdf_ref pqc_secret qkd_key context_salt =
     (let ikm = take 32 pqc_secret @ take 32 qkd_key;
          prk = hmac_sha256 (take 32 context_salt) ikm
      in hmac_sha256 prk kdf_info)"

subsection \<open>The vault bank in the request tensor\<close>

definition pack_vault_slot :: "vault_slot \<Rightarrow> nat \<Rightarrow> bytes \<Rightarrow> bytes py" where
  "pack_vault_slot s offset buf =
     bindE (struct_pack_into [U 4, U 4] buf offset [vs_state s, vs_key_type s]) (\<lambda>buf.
     let buf = assign_slice (offset + 8) (offset + 24) (ljust 16 (take 16 (vs_key_id s))) buf;
         buf = assign_slice (offset + 24) (offset + 56) (ljust 32 (take 32 (vs_key_material s))) buf
     in struct_pack_into [U 4] buf (offset + 56) [vs_epoch s])"

definition pack_vault_bank :: "vault_slot list \<Rightarrow> bytes py" where
  "pack_vault_bank vault =
     foldE (\<lambda>buf idx. pack_vault_slot (vault ! idx) (idx * 64) buf) (zeros (NUM_VAULT_SLOTS * 64))
       [0..<min NUM_VAULT_SLOTS (length vault)]"

definition unpack_vault_slot :: "bytes \<Rightarrow> nat \<Rightarrow> vault_slot py" where
  "unpack_vault_slot buf offset =
     (if length buf < offset + 64 then Inr new_slot
      else bindE (struct_unpack_from [U 4, U 4] buf offset) (\<lambda>st.
           bindE (struct_unpack_from [U 4] buf (offset + 56)) (\<lambda>ep.
           Inr \<lparr>vs_state = st ! 0, vs_key_type = st ! 1,
                vs_key_id = slice (offset + 8) (offset + 24) buf,
                vs_key_material = slice (offset + 24) (offset + 56) buf,
                vs_epoch = ep ! 0\<rparr>)))"

definition unpack_vault_bank :: "bytes \<Rightarrow> vault_slot list py" where
  "unpack_vault_bank buf = mapE (\<lambda>idx. unpack_vault_slot buf (idx * 64)) [0..<NUM_VAULT_SLOTS]"

definition qkms_build_request_tensor :: "bytes \<Rightarrow> vault_slot list option \<Rightarrow> bytes py" where
  "qkms_build_request_tensor payload vault =
     (let req = zeros QKMS_REQUEST_BUFFER_SIZE;
          req = (if payload \<noteq> []
                 then (let p_len = min (length payload) 128
                       in assign_slice 0 p_len (take p_len payload) req)
                 else req)
      in case vault of None \<Rightarrow> Inr req
         | Some v \<Rightarrow> bindE (pack_vault_bank v) (\<lambda>bank.
             Inr (assign_slice 128 (128 + length bank) bank req)))"

subsection \<open>The reference oracle, one definition per branch\<close>

type_synonym vault = "vault_slot list"

definition qkms_load_vault :: "bytes \<Rightarrow> vault option \<Rightarrow> vault py" where
  "qkms_load_vault request_bytes initial_vault =
     (case initial_vault of
        Some iv \<Rightarrow> Inr (map (\<lambda>idx. if idx < length iv then iv ! idx else new_slot) [0..<NUM_VAULT_SLOTS])
      | None \<Rightarrow>
          if 640 \<le> length request_bytes then unpack_vault_bank (slice 128 640 request_bytes)
          else Inr (replicate NUM_VAULT_SLOTS new_slot))"

definition qkms_payload :: bytes where
  "qkms_payload = zeros (QKMS_RESULT_BUFFER_SIZE - 32)"

definition qkms_fail :: "int \<Rightarrow> int \<Rightarrow> int \<Rightarrow> int \<Rightarrow> int \<Rightarrow> qkms_result" where
  "qkms_fail status op_code slot_id current_state checksum =
     \<lparr>qr_status = status, qr_op_code = op_code, qr_slot_id = slot_id,
      qr_current_state = current_state, qr_checksum = checksum, qr_payload = qkms_payload\<rparr>"

definition qkms_valid_slot :: "int \<Rightarrow> bool" where
  "qkms_valid_slot i \<longleftrightarrow> 0 \<le> i \<and> i < int NUM_VAULT_SLOTS"

definition qkms_store :: "int \<Rightarrow> bytes \<Rightarrow> int \<Rightarrow> int \<Rightarrow> int \<Rightarrow> vault \<Rightarrow> qkms_result \<times> vault" where
  "qkms_store slot_id request_bytes target_state key_type epoch vault =
     (let raw_key = slice 0 32 request_bytes;
          raw_id = slice 32 48 request_bytes;
          slot = \<lparr>vs_state = (if target_state \<in> {STATE_PRE_ACTIVE, STATE_ACTIVE}
                              then target_state else STATE_ACTIVE),
                  vs_key_type = key_type, vs_key_id = raw_id, vs_key_material = raw_key,
                  vs_epoch = epoch\<rparr>;
          payload = assign_slice 32 48 raw_id (assign_slice 0 32 raw_key qkms_payload)
      in (\<lparr>qr_status = QKMS_STATUS_SUCCESS, qr_op_code = OP_VAULT_STORE, qr_slot_id = slot_id,
           qr_current_state = vs_state slot, qr_checksum = slot_checksum slot,
           qr_payload = payload\<rparr>,
          vault[nat slot_id := slot]))"

text \<open>The literal \<open>b"ID"\<close>.\<close>

definition derived_id_label :: bytes where
  "derived_id_label = [0x49, 0x44]"

definition qkms_derive :: "int \<Rightarrow> bytes \<Rightarrow> int \<Rightarrow> int \<Rightarrow> int \<Rightarrow> vault \<Rightarrow> qkms_result \<times> vault" where
  "qkms_derive slot_id request_bytes s0 s1 epoch vault =
     (if \<not> qkms_valid_slot s0 \<or> \<not> qkms_valid_slot s1
      then (qkms_fail QKMS_STATUS_ERR_INVALID_SLOT OP_VAULT_DERIVE slot_id STATE_EMPTY 0, vault)
      else let slot_a = vault ! nat s0; slot_b = vault ! nat s1 in
        if vs_state slot_a = STATE_COMPROMISED \<or> vs_state slot_b = STATE_COMPROMISED
        then (qkms_fail QKMS_STATUS_ERR_KEY_COMPROMISED OP_VAULT_DERIVE slot_id STATE_COMPROMISED 0,
              vault)
        else if vs_state slot_a \<noteq> STATE_ACTIVE \<or> vs_state slot_b \<noteq> STATE_ACTIVE
        then (qkms_fail QKMS_STATUS_ERR_SLOT_EXPIRED OP_VAULT_DERIVE slot_id (vs_state slot_a) 0,
              vault)
        else let context_salt = slice 0 32 request_bytes;
                 derived_key = sp800_56c_dual_kdf_ref (vs_key_material slot_a)
                   (vs_key_material slot_b) context_salt;
                 derived_id = take 16 (sha256 (derived_key @ derived_id_label));
                 slot = \<lparr>vs_state = STATE_ACTIVE, vs_key_type = KEY_TYPE_DERIVED_SESSION,
                         vs_key_id = derived_id, vs_key_material = derived_key, vs_epoch = epoch\<rparr>;
                 payload = assign_slice 32 48 derived_id (assign_slice 0 32 derived_key qkms_payload)
             in (\<lparr>qr_status = QKMS_STATUS_SUCCESS, qr_op_code = OP_VAULT_DERIVE,
                  qr_slot_id = slot_id, qr_current_state = STATE_ACTIVE,
                  qr_checksum = slot_checksum slot, qr_payload = payload\<rparr>,
                 vault[nat slot_id := slot]))"

definition qkms_transition :: "int \<Rightarrow> int \<Rightarrow> vault \<Rightarrow> qkms_result \<times> vault" where
  "qkms_transition slot_id target_state vault =
     (let cur = vault ! nat slot_id in
      if \<not> is_valid_state_transition (vs_state cur) target_state
      then (qkms_fail QKMS_STATUS_ERR_ILLEGAL_TRANSITION OP_VAULT_TRANSITION slot_id (vs_state cur)
              (slot_checksum cur), vault)
      else let slot = cur\<lparr>vs_state := target_state\<rparr>;
               slot = (if target_state = STATE_DESTROYED
                       then slot\<lparr>vs_key_material := zeros 32, vs_key_id := zeros 16\<rparr> else slot);
               payload = assign_slice 32 48 (vs_key_id slot)
                 (assign_slice 0 32 (vs_key_material slot) qkms_payload)
           in (\<lparr>qr_status = QKMS_STATUS_SUCCESS, qr_op_code = OP_VAULT_TRANSITION,
                qr_slot_id = slot_id, qr_current_state = target_state,
                qr_checksum = slot_checksum slot, qr_payload = payload\<rparr>,
               vault[nat slot_id := slot]))"

definition qkms_zeroize :: "int \<Rightarrow> vault \<Rightarrow> qkms_result \<times> vault" where
  "qkms_zeroize slot_id vault =
     (let wiped = new_slot\<lparr>vs_state := STATE_DESTROYED\<rparr> in
      if slot_id = 0xFF
      then (qkms_fail QKMS_STATUS_SUCCESS OP_VAULT_ZEROIZE 0xFF STATE_DESTROYED 0,
            replicate NUM_VAULT_SLOTS wiped)
      else (qkms_fail QKMS_STATUS_SUCCESS OP_VAULT_ZEROIZE slot_id STATE_DESTROYED 0,
            vault[nat slot_id := wiped]))"

definition qkms_query :: "int \<Rightarrow> vault \<Rightarrow> (qkms_result \<times> vault) py" where
  "qkms_query slot_id vault =
     (let slot = vault ! nat slot_id;
          payload = assign_slice 32 48 (vs_key_id slot)
            (assign_slice 0 32 (vs_key_material slot) qkms_payload)
      in bindE (struct_pack_into [U 4, U 4, U 4] payload 48
                  [vs_state slot, vs_key_type slot, vs_epoch slot]) (\<lambda>payload.
         Inr (\<lparr>qr_status = QKMS_STATUS_SUCCESS, qr_op_code = OP_VAULT_QUERY, qr_slot_id = slot_id,
               qr_current_state = vs_state slot, qr_checksum = slot_checksum slot,
               qr_payload = payload\<rparr>, vault)))"

definition qkms_oracle ::
  "int \<Rightarrow> int \<Rightarrow> bytes \<Rightarrow> int \<Rightarrow> int \<Rightarrow> int \<Rightarrow> int \<Rightarrow> int \<Rightarrow> vault option \<Rightarrow> (qkms_result \<times> vault) py" where
  "qkms_oracle op_code slot_id request_bytes target_state param_0 param_1 key_type epoch initial_vault =
     bindE (qkms_load_vault request_bytes initial_vault) (\<lambda>vault.
       if (op_code \<noteq> OP_VAULT_ZEROIZE \<or> slot_id \<noteq> 0xFF) \<and> \<not> qkms_valid_slot slot_id
       then Inr (qkms_fail QKMS_STATUS_ERR_INVALID_SLOT op_code slot_id STATE_EMPTY 0, vault)
       else if op_code = OP_VAULT_STORE
       then Inr (qkms_store slot_id request_bytes target_state key_type epoch vault)
       else if op_code = OP_VAULT_DERIVE
       then Inr (qkms_derive slot_id request_bytes param_0 param_1 epoch vault)
       else if op_code = OP_VAULT_TRANSITION
       then Inr (qkms_transition slot_id target_state vault)
       else if op_code = OP_VAULT_ZEROIZE
       then Inr (qkms_zeroize slot_id vault)
       else if op_code = OP_VAULT_QUERY
       then qkms_query slot_id vault
       else Inr (qkms_fail QKMS_STATUS_ERR_UNSUPPORTED_OP op_code slot_id STATE_EMPTY 0, vault))"


subsection \<open>Life cycle\<close>

lemma transition_table:
  "is_valid_state_transition a b \<longleftrightarrow>
     (a = 0 \<and> b \<in> {1, 2}) \<or> (a = 1 \<and> b \<in> {2, 5}) \<or> (a = 2 \<and> b \<in> {3, 4, 5}) \<or>
     (a = 3 \<and> b \<in> {4, 5}) \<or> (a = 4 \<and> b = 5)"
  by (auto simp add: is_valid_state_transition_def VALID_TRANSITIONS_def)

lemma transition_advances: "is_valid_state_transition a b \<Longrightarrow> 0 \<le> a \<and> a < b \<and> b \<le> 5"
  by (auto simp add: transition_table)

lemma destroyed_is_terminal: "\<not> is_valid_state_transition STATE_DESTROYED b"
  by (simp add: transition_table)

text \<open>A path is a sequence of states in which every step is legal.\<close>

fun lifecycle_path :: "int list \<Rightarrow> bool" where
  "lifecycle_path (a # b # ss) \<longleftrightarrow> is_valid_state_transition a b \<and> lifecycle_path (b # ss)"
| "lifecycle_path _ \<longleftrightarrow> True"

lemma lifecycle_path_bound:
  "lifecycle_path (a # ss) \<Longrightarrow> 0 \<le> a \<Longrightarrow> a \<le> 5 \<Longrightarrow>
     int (length ss) \<le> 5 - a \<and> sorted_wrt (<) (a # ss) \<and> (\<forall>s \<in> set ss. s \<le> 5)"
proof (induction ss arbitrary: a)
  case (Cons b ss)
  then have ab: "0 \<le> a" "a < b" "b \<le> 5" using transition_advances [of a b] by auto
  with Cons.IH [of b] Cons.prems have
    "int (length ss) \<le> 5 - b" "sorted_wrt (<) (b # ss)" "\<forall>s \<in> set ss. s \<le> 5" by auto
  with ab show ?case by auto
qed simp

lemma sorted_wrt_less_last: "sorted_wrt (<) (xs :: int list) \<Longrightarrow> x \<in> set xs \<Longrightarrow> x \<le> last xs"
  by (induction xs) (auto dest: order.strict_implies_order order_less_le_trans)

subsection \<open>The contract of the slot operations\<close>

text \<open>
  A slot without a live key (empty or destroyed) holds no key bytes.  Every operation on one slot
  keeps the number of slots, leaves the other slots alone and keeps this of its own slot.
\<close>

definition slot_clean :: "vault_slot \<Rightarrow> bool" where
  "slot_clean s \<longleftrightarrow>
     (vs_state s \<in> {STATE_EMPTY, STATE_DESTROYED} \<longrightarrow>
      vs_key_material s = zeros 32 \<and> vs_key_id s = zeros 16)"

definition vault_clean :: "vault \<Rightarrow> bool" where
  "vault_clean v \<longleftrightarrow> length v = NUM_VAULT_SLOTS \<and> (\<forall>s \<in> set v. slot_clean s)"

locale slot_operation =
  fixes run :: "vault \<Rightarrow> qkms_result \<times> vault"
    and slot :: nat
  assumes run_length: "length (snd (run v)) = length v"
    and run_frame: "i \<noteq> slot \<Longrightarrow> snd (run v) ! i = v ! i"
    and run_slot: "slot < length v \<Longrightarrow> slot_clean (v ! slot) \<Longrightarrow> slot_clean (snd (run v) ! slot)"
begin

lemma keeps_vault_clean: "vault_clean v \<Longrightarrow> vault_clean (snd (run v))"
proof -
  assume v: "vault_clean v"
  have "slot_clean (snd (run v) ! i)" if "i < length v" for i
    using that v run_frame [of i v] run_slot [of v]
    by (cases "i = slot") (auto simp add: vault_clean_def)
  with v show ?thesis by (auto simp add: vault_clean_def run_length in_set_conv_nth)
qed

end

lemma slot_clean_new [simp]: "slot_clean new_slot" "slot_clean (new_slot\<lparr>vs_state := s\<rparr>)"
  by (simp_all add: slot_clean_def new_slot_def)

interpretation store: slot_operation "qkms_store i req t k e" "nat i" for i req t k e
  by unfold_locales (auto simp add: qkms_store_def Let_def slot_clean_def)

interpretation derive: slot_operation "qkms_derive i req s0 s1 e" "nat i" for i req s0 s1 e
  by unfold_locales (auto simp add: qkms_derive_def Let_def slot_clean_def)

interpretation transition: slot_operation "qkms_transition i t" "nat i" for i t
  by unfold_locales
    (auto simp add: qkms_transition_def Let_def slot_clean_def transition_table)

lemma zeroize_keeps_vault_clean: "vault_clean v \<Longrightarrow> vault_clean (snd (qkms_zeroize i v))"
  by (auto simp add: qkms_zeroize_def Let_def vault_clean_def dest!: set_update_subset_insert [THEN subsetD])

lemma query_keeps_vault: "qkms_query i v = Inr (h, v') \<Longrightarrow> v' = v"
  by (auto simp add: qkms_query_def Let_def bindE_Inr_iff)

lemma load_vault_length: "qkms_load_vault req iv = Inr v \<Longrightarrow> length v = NUM_VAULT_SLOTS"
  by (auto simp add: qkms_load_vault_def unpack_vault_bank_def dest!: length_mapE
      split: option.splits if_splits)

lemma map_nth_upt: "length v = n \<Longrightarrow> map (\<lambda>i. if i < length v then v ! i else d) [0..<n] = v"
  by (auto intro: nth_equalityI)

lemma load_vault_given: "length v = NUM_VAULT_SLOTS \<Longrightarrow> qkms_load_vault req (Some v) = Inr v"
  unfolding qkms_load_vault_def option.case by (intro arg_cong [where f = Inr] map_nth_upt)

lemma oracle_keeps_vault_clean:
  assumes "vault_clean v" "qkms_oracle oc i req t p0 p1 k e (Some v) = Inr (h, v')"
  shows "vault_clean v'"
proof -
  have load: "qkms_load_vault req (Some v) = Inr v"
    using assms(1) by (intro load_vault_given) (simp add: vault_clean_def)
  show ?thesis
    using assms store.keeps_vault_clean [of v i req t k e] derive.keeps_vault_clean [of v i req p0 p1 e]
      transition.keeps_vault_clean [of v i t] zeroize_keeps_vault_clean [of v i]
    by (auto simp add: qkms_oracle_def load dest: query_keeps_vault split: if_splits)
qed

text \<open>The vaults the engine can reach from eight empty slots, one oracle call per step.\<close>

inductive vault_reachable :: "vault \<Rightarrow> bool" where
  start: "vault_reachable (replicate NUM_VAULT_SLOTS new_slot)"
| step: "vault_reachable v \<Longrightarrow> qkms_oracle oc i req t p0 p1 k e (Some v) = Inr (h, v') \<Longrightarrow>
    vault_reachable v'"

lemma reachable_vault_clean: "vault_reachable v \<Longrightarrow> vault_clean v"
proof (induction rule: vault_reachable.induct)
  case start
  show ?case by (simp add: vault_clean_def)
next
  case step
  then show ?case by (blast intro: oracle_keeps_vault_clean)
qed

subsection \<open>The vault bank round trip\<close>

definition slot_packable :: "vault_slot \<Rightarrow> bool" where
  "slot_packable s \<longleftrightarrow>
     0 \<le> vs_state s \<and> vs_state s < 4294967296 \<and> 0 \<le> vs_key_type s \<and> vs_key_type s < 4294967296 \<and>
     0 \<le> vs_epoch s \<and> vs_epoch s < 4294967296 \<and>
     length (vs_key_id s) = 16 \<and> length (vs_key_material s) = 32"

definition slot_image :: "vault_slot \<Rightarrow> bytes" where
  "slot_image s =
     ((le_bytes 4 (vs_state s) @ le_bytes 4 (vs_key_type s)) @ vs_key_id s @ vs_key_material s) @
     le_bytes 4 (vs_epoch s)"

lemma length_slot_image: "slot_packable s \<Longrightarrow> length (slot_image s) = 60"
  by (simp add: slot_image_def slot_packable_def)

lemma pack_vault_slot_put:
  assumes "slot_packable s" "offset + 64 \<le> length buf"
  shows "pack_vault_slot s offset buf = Inr (put offset (slot_image s) buf)"
proof -
  let ?A = "le_bytes 4 (vs_state s) @ le_bytes 4 (vs_key_type s)"
  let ?ab = "put offset ?A buf"
  have ids: "ljust 16 (take 16 (vs_key_id s)) = vs_key_id s"
    "ljust 32 (take 32 (vs_key_material s)) = vs_key_material s"
    using assms(1) by (simp_all add: slot_packable_def ljust_id)
  have 1: "struct_pack_into [U 4, U 4] buf offset [vs_state s, vs_key_type s] = Inr ?ab"
    using assms by (subst struct_pack_into_fits) (simp_all add: slot_packable_def)
  have 2: "assign_slice (offset + 8) (offset + 24) (vs_key_id s) ?ab = put offset (?A @ vs_key_id s) buf"
    using assms by (simp add: assign_slice_put slot_packable_def put_put_adjacent)
  have 3: "assign_slice (offset + 24) (offset + 56) (vs_key_material s) (put offset (?A @ vs_key_id s) buf)
    = put offset ((?A @ vs_key_id s) @ vs_key_material s) buf"
    using assms by (subst assign_slice_put) (simp_all add: slot_packable_def put_put_adjacent)
  have 4: "struct_pack_into [U 4] (put offset ((?A @ vs_key_id s) @ vs_key_material s) buf) (offset + 56)
      [vs_epoch s] = Inr (put offset (slot_image s) buf)"
    using assms
    by (subst struct_pack_into_fits) (simp_all add: slot_packable_def put_put_adjacent slot_image_def)
  show ?thesis by (simp only: pack_vault_slot_def 1 bindE_simps Let_def ids 2 3 4)
qed

lemma unpack_vault_slot_image:
  assumes "slot_packable s" "offset + 64 \<le> length buf" "slice offset (offset + 60) buf = slot_image s"
  shows "unpack_vault_slot buf offset = Inr s"
proof -
  have "take 60 (drop offset buf) = slot_image s" using assms(3) by (simp add: slice_def)
  then have d: "drop offset buf = slot_image s @ drop 60 (drop offset buf)"
    by (metis append_take_drop_id)
  have u: "le_int (le_bytes 4 v) = v" if "0 \<le> v" "v < 4294967296" for v
    using that by (simp add: le_int_bytes)
  have at: "drop (offset + n) buf = drop n (slot_image s @ drop 60 (drop offset buf))" for n
    by (metis d drop_drop add.commute)
  have "struct_unpack_from [U 4, U 4] buf offset = Inr [vs_state s, vs_key_type s]"
    using assms(1,2) d by (simp add: struct_unpack_from_def slot_image_def slot_packable_def u)
  moreover have "struct_unpack_from [U 4] buf (offset + 56) = Inr [vs_epoch s]"
    using assms(1,2) by (simp add: struct_unpack_from_def at slot_image_def slot_packable_def u)
  moreover have "slice (offset + 8) (offset + 24) buf = vs_key_id s"
    "slice (offset + 24) (offset + 56) buf = vs_key_material s"
    using assms(1) by (simp_all add: slice_def at slot_image_def slot_packable_def)
  ultimately show ?thesis using assms(2) by (simp add: unpack_vault_slot_def)
qed

lemma pack_vault_bank_eq:
  assumes "length v = NUM_VAULT_SLOTS" "\<forall>s \<in> set v. slot_packable s"
  shows "pack_vault_bank v =
    Inr (foldl (\<lambda>b i. put (i * 64) (slot_image (v ! i)) b) (zeros 512) [0..<8])"
proof -
  have "foldE (\<lambda>buf idx. pack_vault_slot (v ! idx) (idx * 64) buf) buf [0..<n] =
    Inr (foldl (\<lambda>b i. put (i * 64) (slot_image (v ! i)) b) buf [0..<n])"
    if "n \<le> 8" "length buf = 512" for n buf
    using that
  proof (induction n)
    case (Suc n)
    let ?B = "foldl (\<lambda>b i. put (i * 64) (slot_image (v ! i)) b) buf [0..<n]"
    have sp: "slot_packable (v ! i)" if "i < 8" for i using that assms by simp
    have "length ?B = 512"
      using Suc.prems sp by (subst length_foldl_put) (simp_all add: length_slot_image)
    then have "pack_vault_slot (v ! n) (n * 64) ?B = Inr (put (n * 64) (slot_image (v ! n)) ?B)"
      using Suc.prems sp by (intro pack_vault_slot_put) simp_all
    with Suc show ?case by (simp add: foldE_append)
  qed simp
  from this [of 8 "zeros 512"] assms(1) show ?thesis by (simp add: pack_vault_bank_def)
qed

lemma vault_bank_roundtrip:
  assumes "length v = NUM_VAULT_SLOTS" "\<forall>s \<in> set v. slot_packable s"
  obtains bank where "pack_vault_bank v = Inr bank" "length bank = 512" "unpack_vault_bank bank = Inr v"
proof
  let ?B = "foldl (\<lambda>b i. put (i * 64) (slot_image (v ! i)) b) (zeros 512) [0..<8]"
  have len: "length (slot_image (v ! i)) = 60" if "i < 8" for i
    using that assms by (simp add: length_slot_image)
  show "pack_vault_bank v = Inr ?B" by (rule pack_vault_bank_eq) (rule assms)+
  show lB: "length ?B = 512" by (subst length_foldl_put) (simp_all add: len)
  have "unpack_vault_slot ?B (i * 64) = Inr (v ! i)" if "i \<in> set [0..<8]" for i
  proof (rule unpack_vault_slot_image)
    show "slot_packable (v ! i)" using that assms by simp
    show "i * 64 + 64 \<le> length ?B" using that by (simp only: lB) simp
    show "slice (i * 64) (i * 64 + 60) ?B = slot_image (v ! i)"
      by (rule slice_foldl_put) (use that len in auto)
  qed
  then have "unpack_vault_bank ?B = Inr (map (\<lambda>i. v ! i) [0..<8])"
    unfolding unpack_vault_bank_def by (rule mapE_total)
  then show "unpack_vault_bank ?B = Inr v" using assms(1) by (metis map_nth)
qed


subsection \<open>The descriptor and result codecs\<close>

interpretation qkms_desc: descriptor_codec qkms_descriptor_pack qkms_descriptor_unpack 64
proof
  fix d b rest
  assume "qkms_descriptor_pack d = Inr b"
  note p = packed_twice [OF this [unfolded qkms_descriptor_pack_def]]
  show "length b = 64" by (rule p) simp_all
  moreover have "struct_unpack_from [U 4, U 4, U 4, U 4, U 4, U 4, U 4, U 4] (b @ rest) 0 =
      Inr [qd_magic d, qd_op_code d, qd_slot_id d, qd_target_state d, qd_param_0 d, qd_param_1 d,
        qd_key_type d, qd_epoch d]" by (rule p) simp_all
  moreover have "struct_unpack_from [U 4] (b @ rest) 32 = Inr [qd_seq_id d]" by (rule p) simp_all
  ultimately show "qkms_descriptor_unpack (b @ rest) = Inr d"
    by (simp add: qkms_descriptor_unpack_def)
qed

lemma qkms_result_pack_image:
  assumes "qkms_result_pack h = Inr b" "length (qr_payload h) \<le> 2016"
  shows "qkms_result_unpack b = Inr (h\<lparr>qr_payload := ljust 2016 (qr_payload h)\<rparr>)" "length b = 2048"
proof -
  let ?f = "[U 4, U 4, U 4, U 4, U 4, X 12]"
  let ?v = "[qr_status h, qr_op_code h, qr_slot_id h, qr_current_state h, qr_checksum h]"
  from assms obtain hdr where hdr: "struct_pack ?f ?v = Inr hdr"
    and b: "b = hdr @ ljust 2016 (qr_payload h)"
    by (auto simp add: qkms_result_pack_def bindE_Inr_iff Let_def ljust_def)
  from hdr have fit: "struct_fits ?f ?v" and hdr': "hdr = struct_bytes ?f ?v"
    by (auto simp add: struct_pack_cases split: if_splits)
  have len: "length hdr = 32" using length_struct_pack [OF hdr] by simp
  then show "length b = 2048" using b assms(2) by simp
  have "struct_unpack [U 4, U 4, U 4, U 4, U 4] b = ?v"
    using fit unfolding b hdr' by (simp add: le_int_bytes_id)
  with len b assms(2) show "qkms_result_unpack b = Inr (h\<lparr>qr_payload := ljust 2016 (qr_payload h)\<rparr>)"
    by (simp add: qkms_result_unpack_def struct_unpack_from_def)
qed

subsection \<open>Reaching concrete vaults\<close>

lemma reachable_length: "vault_reachable v \<Longrightarrow> length v = NUM_VAULT_SLOTS"
  using reachable_vault_clean by (simp add: vault_clean_def)

lemma reachable_store:
  assumes "vault_reachable v" "qkms_valid_slot i"
  shows "vault_reachable (snd (qkms_store i req t k e v))"
proof (rule vault_reachable.step [OF assms(1)])
  show "qkms_oracle OP_VAULT_STORE i req t 0 0 k e (Some v) =
      Inr (fst (qkms_store i req t k e v), snd (qkms_store i req t k e v))"
    using assms by (simp add: qkms_oracle_def load_vault_given reachable_length)
qed

lemma reachable_transition:
  assumes "vault_reachable v" "qkms_valid_slot i"
  shows "vault_reachable (snd (qkms_transition i t v))"
proof (rule vault_reachable.step [OF assms(1)])
  show "qkms_oracle OP_VAULT_TRANSITION i [] t 0 0 0 0 (Some v) =
      Inr (fst (qkms_transition i t v), snd (qkms_transition i t v))"
    using assms by (simp add: qkms_oracle_def load_vault_given reachable_length)
qed

subsection \<open>Properties\<close>

text \<open>
  C1. In every vault the engine can reach from eight empty slots by any sequence of oracle calls,
  a slot that is EMPTY or DESTROYED holds only zero bytes as key material and key identifier.
\<close>

theorem vault_dead_slots_hold_no_key:
  assumes "vault_reachable v" "s \<in> set v" "vs_state s \<in> {STATE_EMPTY, STATE_DESTROYED}"
  shows "vs_key_material s = zeros 32 \<and> vs_key_id s = zeros 16"
  using reachable_vault_clean [OF assms(1)] assms(2,3)
  by (auto simp add: vault_clean_def slot_clean_def)

definition demo_vault :: vault where
  "demo_vault = snd (qkms_transition 0 STATE_DESTROYED
     (snd (qkms_store 0 (replicate 48 7) STATE_ACTIVE 1 9 (replicate NUM_VAULT_SLOTS new_slot))))"

theorem vault_dead_slots_hold_no_key_witness:
  "vs_state (demo_vault ! 0) = STATE_DESTROYED \<and> vs_epoch (demo_vault ! 0) = 9 \<and>
   vs_key_material (demo_vault ! 0) = zeros 32 \<and> vs_key_id (demo_vault ! 0) = zeros 16"
proof -
  have r: "vault_reachable demo_vault"
    unfolding demo_vault_def
    by (intro reachable_transition reachable_store vault_reachable.start) (simp_all add: qkms_valid_slot_def)
  have st: "vs_state (demo_vault ! 0) = STATE_DESTROYED" "vs_epoch (demo_vault ! 0) = 9"
    by (simp_all add: demo_vault_def qkms_store_def qkms_transition_def Let_def transition_table)
  have "demo_vault ! 0 \<in> set demo_vault" using reachable_length [OF r] by simp
  from vault_dead_slots_hold_no_key [OF r this] st show ?thesis by simp
qed

text \<open>
  C5. A DERIVE call succeeds exactly when the target and both sources are slots of the vault and
  both sources are ACTIVE; the slot it writes then holds the SP 800-56C key of the two sources'
  materials under the request's salt, and the other slots are as before.  In particular a
  compromised, deactivated or destroyed key never enters a derivation.
\<close>

theorem vault_derive_exact:
  assumes "length v = NUM_VAULT_SLOTS"
    "qkms_oracle OP_VAULT_DERIVE i req t a b k e (Some v) = Inr (h, v')"
  shows "(qr_status h = QKMS_STATUS_SUCCESS \<longleftrightarrow>
      qkms_valid_slot i \<and> qkms_valid_slot a \<and> qkms_valid_slot b \<and>
      vs_state (v ! nat a) = STATE_ACTIVE \<and> vs_state (v ! nat b) = STATE_ACTIVE) \<and>
    (qr_status h = QKMS_STATUS_SUCCESS \<longrightarrow>
      vs_key_material (v' ! nat i) = hmac_sha256
        (hmac_sha256 (take 32 req)
           (take 32 (vs_key_material (v ! nat a)) @ take 32 (vs_key_material (v ! nat b)))) kdf_info \<and>
      vs_state (v' ! nat i) = STATE_ACTIVE \<and> (\<forall>j. j \<noteq> nat i \<longrightarrow> v' ! j = v ! j))"
  using assms
  by (auto simp add: qkms_oracle_def load_vault_given qkms_derive_def qkms_fail_def Let_def
      qkms_valid_slot_def sp800_56c_dual_kdf_ref_def slice_def split: if_splits)

definition demo_pair :: vault where
  "demo_pair = [new_slot\<lparr>vs_state := STATE_ACTIVE, vs_key_material := replicate 32 3\<rparr>,
                new_slot\<lparr>vs_state := STATE_ACTIVE, vs_key_material := replicate 32 5\<rparr>] @
               replicate 6 new_slot"

theorem vault_derive_exact_witness:
  "\<exists>h v'. qkms_oracle OP_VAULT_DERIVE 2 (replicate 32 1) 0 0 1 0 4 (Some demo_pair) = Inr (h, v') \<and>
     qr_status h = QKMS_STATUS_SUCCESS \<and> vs_state (v' ! 2) = STATE_ACTIVE"
proof -
  have len: "length demo_pair = NUM_VAULT_SLOTS" by (simp add: demo_pair_def)
  obtain h v' where run: "qkms_oracle OP_VAULT_DERIVE 2 (replicate 32 1) 0 0 1 0 4 (Some demo_pair) =
      Inr (h, v')"
    by (simp add: qkms_oracle_def load_vault_given len qkms_valid_slot_def)
       (metis surj_pair)
  have "qr_status h = QKMS_STATUS_SUCCESS"
    using vault_derive_exact [OF len run] by (simp add: qkms_valid_slot_def demo_pair_def new_slot_def)
  with vault_derive_exact [OF len run] run show ?thesis by auto
qed

text \<open>
  A vault operation that does not report success has no effect: the vault it returns is the
  vault it was given and its payload is all zero, so no key byte leaves the engine on an error path.
\<close>

theorem vault_failure_has_no_effect:
  assumes "length v = NUM_VAULT_SLOTS"
    "qkms_oracle oc i req t a b k e (Some v) = Inr (h, v')" "qr_status h \<noteq> QKMS_STATUS_SUCCESS"
  shows "v' = v \<and> qr_payload h = zeros 2016"
proof -
  have load: "qkms_load_vault req (Some v) = Inr v" by (rule load_vault_given) (rule assms)
  show ?thesis
    using assms(2,3)
    by (auto simp add: qkms_oracle_def load qkms_store_def qkms_derive_def qkms_transition_def
        qkms_zeroize_def qkms_query_def qkms_fail_def qkms_payload_def Let_def bindE_Inr_iff
        split: if_splits)
qed

theorem vault_failure_has_no_effect_witness:
  "\<exists>h v'. qkms_oracle OP_VAULT_TRANSITION 0 [] STATE_DEACTIVATED 0 0 0 0
       (Some (replicate NUM_VAULT_SLOTS new_slot)) = Inr (h, v') \<and>
     qr_status h = QKMS_STATUS_ERR_ILLEGAL_TRANSITION \<and> v' = replicate NUM_VAULT_SLOTS new_slot \<and>
     qr_payload h = zeros 2016"
proof -
  have len: "length (replicate NUM_VAULT_SLOTS new_slot) = NUM_VAULT_SLOTS" by simp
  obtain h v' where run: "qkms_oracle OP_VAULT_TRANSITION 0 [] STATE_DEACTIVATED 0 0 0 0
       (Some (replicate NUM_VAULT_SLOTS new_slot)) = Inr (h, v')"
    and st: "qr_status h = QKMS_STATUS_ERR_ILLEGAL_TRANSITION"
    by (simp add: qkms_oracle_def load_vault_given qkms_valid_slot_def qkms_transition_def
        transition_table new_slot_def qkms_fail_def Let_def)
  from vault_failure_has_no_effect [OF len run] st run show ?thesis by auto
qed

text \<open>
  The life cycle only moves forward: along any sequence of legal transitions the state
  number strictly increases, so at most five transitions follow one another and DESTROYED ends
  every sequence.
\<close>

theorem vault_lifecycle_advances:
  assumes "lifecycle_path (a # ss)" "a \<in> set (map fst VALID_TRANSITIONS)"
  shows "sorted_wrt (<) (a # ss) \<and> length ss \<le> 5 \<and>
    (STATE_DESTROYED \<in> set (a # ss) \<longrightarrow> last (a # ss) = STATE_DESTROYED)"
proof -
  have a: "0 \<le> a" "a \<le> 5" using assms(2) by (auto simp add: VALID_TRANSITIONS_def)
  note b = lifecycle_path_bound [OF assms(1) a]
  have max: "\<forall>s \<in> set (a # ss). s \<le> last (a # ss)"
    using b by (blast intro: sorted_wrt_less_last)
  have "last (a # ss) \<le> 5" using b a(2) last_in_set [of "a # ss"] by auto
  with max b a show ?thesis by force
qed

theorem vault_lifecycle_advances_witness:
  "sorted_wrt (<) [STATE_EMPTY, STATE_PRE_ACTIVE, STATE_ACTIVE, STATE_DEACTIVATED,
     STATE_COMPROMISED, STATE_DESTROYED]"
proof -
  have "lifecycle_path [STATE_EMPTY, STATE_PRE_ACTIVE, STATE_ACTIVE, STATE_DEACTIVATED,
     STATE_COMPROMISED, STATE_DESTROYED]" by (simp add: transition_table)
  from vault_lifecycle_advances [OF this] show ?thesis by (simp add: VALID_TRANSITIONS_def)
qed

text \<open>
  A vault that travels inside the request tensor is executed as the same vault given
  directly: for every vault of eight packable slots the tensor is built, is 4096 bytes long, and
  every oracle call on it returns what the call with that vault returns.
\<close>

theorem vault_request_refines:
  assumes "length v = NUM_VAULT_SLOTS" "\<forall>s \<in> set v. slot_packable s"
  shows "\<exists>req. qkms_build_request_tensor payload (Some v) = Inr req \<and>
      length req = QKMS_REQUEST_BUFFER_SIZE \<and>
      qkms_oracle oc i req t a b k e None = qkms_oracle oc i req t a b k e (Some v)"
  using assms
proof (rule vault_bank_roundtrip)
  fix bank
  assume bank: "pack_vault_bank v = Inr bank" "length bank = 512" "unpack_vault_bank bank = Inr v"
  define base where "base = (if payload \<noteq> []
    then assign_slice 0 (min (length payload) 128) (take (min (length payload) 128) payload)
      (zeros QKMS_REQUEST_BUFFER_SIZE) else zeros QKMS_REQUEST_BUFFER_SIZE)"
  define req where "req = assign_slice 128 640 bank base"
  have lb: "length base = 4096" by (simp add: base_def)
  have build: "qkms_build_request_tensor payload (Some v) = Inr req"
    by (simp add: qkms_build_request_tensor_def bank req_def base_def Let_def)
  have lr: "length req = QKMS_REQUEST_BUFFER_SIZE" using bank lb by (simp add: req_def)
  have "slice 128 640 req = bank" using bank lb by (simp add: req_def slice_assign_same)
  then have "qkms_load_vault req None = Inr v" using lr bank by (simp add: qkms_load_vault_def)
  then have "qkms_load_vault req None = qkms_load_vault req (Some v)"
    using assms(1) by (simp add: load_vault_given)
  then have "qkms_oracle oc i req t a b k e None = qkms_oracle oc i req t a b k e (Some v)"
    by (simp add: qkms_oracle_def)
  with build lr show ?thesis by blast
qed

theorem vault_request_refines_witness:
  "\<exists>req. qkms_build_request_tensor [1, 2, 3] (Some demo_pair) = Inr req \<and>
      length req = QKMS_REQUEST_BUFFER_SIZE \<and>
      qkms_oracle OP_VAULT_QUERY 1 req 0 0 0 0 0 None =
      qkms_oracle OP_VAULT_QUERY 1 req 0 0 0 0 0 (Some demo_pair)"
  by (rule vault_request_refines) (simp_all add: demo_pair_def slot_packable_def new_slot_def)

end
