(* ===== verification/CompositeSig.thy ===== *)
theory CompositeSig
  imports Prelude PyStruct PyHash
begin

text \<open>
  The composite signature engine, \<open>dr42_composite_sig_abi.py\<close>: descriptor and result codecs,
  the domain-separated message digest, the key fingerprint, the two reference verification checks
  and the reference oracle with the conjunction rule (both signatures must verify).
\<close>

unbundle bit_operations_syntax

subsection \<open>Constants\<close>

abbreviation (input) CS_MAGIC_HEADER :: int where "CS_MAGIC_HEADER \<equiv> 0x44523432"

abbreviation (input) CS_STATUS_SUCCESS :: int where "CS_STATUS_SUCCESS \<equiv> 0x00000000"

abbreviation (input) CS_STATUS_ERR_UNSUPPORTED_TYPE :: int where "CS_STATUS_ERR_UNSUPPORTED_TYPE \<equiv> 0x80000002"

abbreviation (input) CS_STATUS_ERR_TRAD_VERIFY_FAILED :: int where
  "CS_STATUS_ERR_TRAD_VERIFY_FAILED \<equiv> 0x80000003"

abbreviation (input) CS_STATUS_ERR_PQC_VERIFY_FAILED :: int where
  "CS_STATUS_ERR_PQC_VERIFY_FAILED \<equiv> 0x80000004"

abbreviation (input) CS_STATUS_ERR_COMPOSITE_VERIFY_FAILED :: int where
  "CS_STATUS_ERR_COMPOSITE_VERIFY_FAILED \<equiv> 0x80000005"

abbreviation (input) CS_STATUS_ERR_MALFORMED_SIGNATURE :: int where
  "CS_STATUS_ERR_MALFORMED_SIGNATURE \<equiv> 0x80000006"

abbreviation (input) CS_STATUS_ERR_MALFORMED_KEY :: int where "CS_STATUS_ERR_MALFORMED_KEY \<equiv> 0x80000007"

abbreviation (input) CS_STATUS_ERR_UNSUPPORTED_OP :: int where "CS_STATUS_ERR_UNSUPPORTED_OP \<equiv> 0x80000008"

abbreviation (input) OP_COMPOSITE_KEY_INGRESS :: int where "OP_COMPOSITE_KEY_INGRESS \<equiv> 0x0001"

abbreviation (input) OP_COMPOSITE_DIGEST_BIND :: int where "OP_COMPOSITE_DIGEST_BIND \<equiv> 0x0002"

abbreviation (input) OP_COMPOSITE_VERIFY :: int where "OP_COMPOSITE_VERIFY \<equiv> 0x0003"

abbreviation (input) OP_COMPOSITE_PACK_SIGNATURE :: int where "OP_COMPOSITE_PACK_SIGNATURE \<equiv> 0x0004"

abbreviation (input) OP_COMPOSITE_QUERY :: int where "OP_COMPOSITE_QUERY \<equiv> 0x0005"

abbreviation (input) COMPOSITE_TYPE_MLDSA44_ED25519 :: int where "COMPOSITE_TYPE_MLDSA44_ED25519 \<equiv> 1"

abbreviation (input) COMPOSITE_TYPE_MLDSA65_ECDSA_P384 :: int where "COMPOSITE_TYPE_MLDSA65_ECDSA_P384 \<equiv> 2"

abbreviation (input) COMPOSITE_TYPE_MLDSA87_ECDSA_P521 :: int where "COMPOSITE_TYPE_MLDSA87_ECDSA_P521 \<equiv> 3"

abbreviation (input) CS_DESCRIPTOR_SIZE :: nat where "CS_DESCRIPTOR_SIZE \<equiv> 64"

abbreviation (input) CS_REQUEST_BUFFER_SIZE :: nat where "CS_REQUEST_BUFFER_SIZE \<equiv> 8192"

abbreviation (input) CS_RESULT_BUFFER_SIZE :: nat where "CS_RESULT_BUFFER_SIZE \<equiv> 2048"

abbreviation (input) OFFSET_CONTEXT :: nat where "OFFSET_CONTEXT \<equiv> 0"

abbreviation (input) OFFSET_OID :: nat where "OFFSET_OID \<equiv> 32"

abbreviation (input) OFFSET_MESSAGE :: nat where "OFFSET_MESSAGE \<equiv> 64"

abbreviation (input) OFFSET_TRAD_PK :: nat where "OFFSET_TRAD_PK \<equiv> 192"

abbreviation (input) OFFSET_TRAD_SIG :: nat where "OFFSET_TRAD_SIG \<equiv> 320"

abbreviation (input) OFFSET_PQC_PK :: nat where "OFFSET_PQC_PK \<equiv> 448"

abbreviation (input) OFFSET_PQC_SIG :: nat where "OFFSET_PQC_SIG \<equiv> 3040"

subsection \<open>Descriptor and result records\<close>

record cs_descriptor =
  cd_op_code :: int
  cd_sig_type :: int
  cd_flags :: int
  cd_msg_len :: int
  cd_context_len :: int
  cd_trad_pk_len :: int
  cd_trad_sig_len :: int
  cd_pqc_pk_len :: int
  cd_pqc_sig_len :: int
  cd_seq_id :: int
  cd_magic :: int

definition cs_descriptor_pack :: "cs_descriptor \<Rightarrow> bytes py" where
  "cs_descriptor_pack d =
     bindE (struct_pack_into [U 4, U 4, U 4, U 4, U 4, U 4, U 4, U 4, U 4, U 4]
       (zeros CS_DESCRIPTOR_SIZE) 0
       [cd_magic d, cd_op_code d, cd_sig_type d, cd_flags d, cd_msg_len d, cd_context_len d,
        cd_trad_pk_len d, cd_trad_sig_len d, cd_pqc_pk_len d, cd_pqc_sig_len d])
     (\<lambda>data. struct_pack_into [U 4] data 40 [cd_seq_id d])"

definition cs_descriptor_unpack :: "bytes \<Rightarrow> cs_descriptor py" where
  "cs_descriptor_unpack buf =
     (if length buf < CS_DESCRIPTOR_SIZE then Inl ValueError
      else bindE (struct_unpack_from [U 4, U 4, U 4, U 4, U 4, U 4, U 4, U 4, U 4, U 4] buf 0) (\<lambda>fields.
           bindE (struct_unpack_from [U 4] buf 40) (\<lambda>seq.
           Inr \<lparr>cd_op_code = fields ! 1, cd_sig_type = fields ! 2, cd_flags = fields ! 3,
                cd_msg_len = fields ! 4, cd_context_len = fields ! 5, cd_trad_pk_len = fields ! 6,
                cd_trad_sig_len = fields ! 7, cd_pqc_pk_len = fields ! 8,
                cd_pqc_sig_len = fields ! 9, cd_seq_id = seq ! 0, cd_magic = fields ! 0\<rparr>)))"

record cs_result =
  cr_status :: int
  cr_op_code :: int
  cr_sig_type :: int
  cr_is_valid :: int
  cr_checksum :: int
  cr_flags :: int
  cr_payload :: bytes

definition cs_result_pack :: "cs_result \<Rightarrow> bytes py" where
  "cs_result_pack h =
     bindE (struct_pack [U 4, U 4, U 4, U 4, U 4, U 4, X 8]
       [cr_status h, cr_op_code h, cr_sig_type h, cr_is_valid h, cr_checksum h, cr_flags h]) (\<lambda>hdr.
     let payload_bytes = take (CS_RESULT_BUFFER_SIZE - 32) (cr_payload h);
         pad_len = CS_RESULT_BUFFER_SIZE - 32 - length payload_bytes
     in Inr (hdr @ payload_bytes @ zeros pad_len))"

definition cs_result_unpack :: "bytes \<Rightarrow> cs_result py" where
  "cs_result_unpack buf =
     (if length buf < 32 then Inl ValueError
      else bindE (struct_unpack_from [U 4, U 4, U 4, U 4, U 4, U 4] buf 0) (\<lambda>fields.
           Inr \<lparr>cr_status = fields ! 0, cr_op_code = fields ! 1, cr_sig_type = fields ! 2,
                cr_is_valid = fields ! 3, cr_checksum = fields ! 4, cr_flags = fields ! 5,
                cr_payload = drop 32 buf\<rparr>))"

subsection \<open>Digests and checksum\<close>

definition ietf_preimage :: "bytes \<Rightarrow> bytes \<Rightarrow> bytes \<Rightarrow> bytes py" where
  "ietf_preimage oid context message =
     bindE (struct_pack [U 4] [int (length context)]) (\<lambda>cl.
     bindE (struct_pack [U 4] [int (length message)]) (\<lambda>ml.
     Inr (take 32 oid @ cl @ context @ ml @ message)))"

definition compute_ietf_bound_digest_ref :: "bytes \<Rightarrow> bytes \<Rightarrow> bytes \<Rightarrow> bytes py" where
  "compute_ietf_bound_digest_ref oid context message =
     bindE (ietf_preimage oid context message) (\<lambda>m. Inr (sha256 m))"

definition compute_composite_fingerprint_ref :: "int \<Rightarrow> bytes \<Rightarrow> bytes \<Rightarrow> bytes py" where
  "compute_composite_fingerprint_ref sig_type trad_pk pqc_pk =
     bindE (struct_pack [U 4, U 4, U 4] [sig_type, int (length trad_pk), int (length pqc_pk)])
       (\<lambda>hdr. Inr (sha256 (hdr @ trad_pk @ pqc_pk)))"

definition compute_composite_result_checksum ::
  "int \<Rightarrow> int \<Rightarrow> int \<Rightarrow> int \<Rightarrow> int \<Rightarrow> bytes \<Rightarrow> bytes \<Rightarrow> int" where
  "compute_composite_result_checksum status op_code sig_type is_valid flags digest fp =
     (let chk = foldl (\<lambda>chk b. u32 (chk * 31 + uint b)) 0 (take 32 digest);
          chk = foldl (\<lambda>chk b. u32 (chk * 37 + uint b)) chk (take 32 fp)
      in u32 (chk + status * 101 + op_code * 17 + sig_type * 7 + is_valid * 53 + flags))"

subsection \<open>The request tensor\<close>

definition place_field :: "nat \<Rightarrow> nat \<Rightarrow> bytes \<Rightarrow> bytes \<Rightarrow> bytes" where
  "place_field off cap x req =
     (if x \<noteq> [] then (let n = min (length x) cap in assign_slice off (off + n) (take n x) req) else req)"

definition build_composite_request_tensor ::
  "bytes \<Rightarrow> bytes \<Rightarrow> bytes \<Rightarrow> bytes \<Rightarrow> bytes \<Rightarrow> bytes \<Rightarrow> bytes \<Rightarrow> bytes" where
  "build_composite_request_tensor context oid message trad_pk trad_sig pqc_pk pqc_sig =
     (let req = zeros CS_REQUEST_BUFFER_SIZE;
          req = place_field OFFSET_CONTEXT 32 context req;
          req = place_field OFFSET_OID 32 oid req;
          req = place_field OFFSET_MESSAGE 128 message req;
          req = place_field OFFSET_TRAD_PK 128 trad_pk req;
          req = place_field OFFSET_TRAD_SIG 128 trad_sig req;
          req = place_field OFFSET_PQC_PK 2592 pqc_pk req;
          req = place_field OFFSET_PQC_SIG 4627 pqc_sig req
      in req)"

subsection \<open>The two verification checks\<close>

definition all_zero :: "bytes \<Rightarrow> bool" where
  "all_zero bs = list_all (\<lambda>b. b = 0) bs"

definition verify_classical_signature_ref :: "int \<Rightarrow> bytes \<Rightarrow> bytes \<Rightarrow> bytes \<Rightarrow> bool" where
  "verify_classical_signature_ref sig_type digest trad_pk trad_sig =
     (if trad_pk = [] \<or> trad_sig = [] \<or> digest = [] then False
      else if all_zero trad_pk \<or> all_zero trad_sig then False
      else if sig_type = COMPOSITE_TYPE_MLDSA44_ED25519 \<and>
              (length trad_pk < 32 \<or> length trad_sig < 64) then False
      else if sig_type = COMPOSITE_TYPE_MLDSA65_ECDSA_P384 \<and>
              (length trad_pk < 48 \<or> length trad_sig < 96) then False
      else if sig_type = COMPOSITE_TYPE_MLDSA87_ECDSA_P521 \<and>
              (length trad_pk < 66 \<or> length trad_sig < 132) then False
      else let check = foldl (\<lambda>check i.
             let d_byte = (if i < length digest then uint (digest ! i) else 0);
                 p_byte = uint (trad_pk ! (i mod length trad_pk))
             in check XOR (uint (trad_sig ! i) XOR p_byte XOR d_byte)) (0::int)
             [0..<min 32 (length trad_sig)]
           in check AND 0x01 = 0)"

definition verify_pqc_signature_ref ::
  "int \<Rightarrow> bytes \<Rightarrow> bytes \<Rightarrow> bytes \<Rightarrow> bool option \<Rightarrow> bool" where
  "verify_pqc_signature_ref sig_type digest pqc_pk pqc_sig expected_valid =
     (case expected_valid of Some r \<Rightarrow> r
      | None \<Rightarrow>
        if pqc_pk = [] \<or> pqc_sig = [] \<or> digest = [] then False
        else if all_zero pqc_pk \<or> all_zero pqc_sig then False
        else if sig_type = COMPOSITE_TYPE_MLDSA44_ED25519 \<and>
                (length pqc_pk < 1312 \<or> length pqc_sig < 2420) then False
        else if sig_type = COMPOSITE_TYPE_MLDSA65_ECDSA_P384 \<and>
                (length pqc_pk < 1952 \<or> length pqc_sig < 3309) then False
        else if sig_type = COMPOSITE_TYPE_MLDSA87_ECDSA_P521 \<and>
                (length pqc_pk < 2592 \<or> length pqc_sig < 4627) then False
        else let sig_tag = foldl (\<lambda>t i. t XOR push_bit ((i mod 4) * 8) (uint (pqc_sig ! i))) (0::int)
                   [0..<min 32 (length pqc_sig)];
                 expected_tag = foldl (\<lambda>t i. t XOR push_bit ((i mod 4) * 8) (uint (digest ! i))) (0::int)
                   [0..<min 32 (length digest)];
                 expected_tag = foldl (\<lambda>t i. t XOR push_bit (((i + 1) mod 4) * 8) (uint (pqc_pk ! i)))
                   expected_tag [0..<min 32 (length pqc_pk)];
                 parity = u32 (sig_tag XOR expected_tag)
             in parity AND 0x01 = 0)"

subsection \<open>The reference oracle, one definition per operation\<close>

definition cs_payload :: bytes where
  "cs_payload = zeros (CS_RESULT_BUFFER_SIZE - 32)"

definition cs_fail :: "int \<Rightarrow> int \<Rightarrow> int \<Rightarrow> cs_result" where
  "cs_fail status op_code sig_type =
     \<lparr>cr_status = status, cr_op_code = op_code, cr_sig_type = sig_type, cr_is_valid = 0,
      cr_checksum = 0, cr_flags = 0, cr_payload = cs_payload\<rparr>"

definition cs_answer :: "int \<Rightarrow> int \<Rightarrow> int \<Rightarrow> int \<Rightarrow> int \<Rightarrow> bytes \<Rightarrow> bytes \<Rightarrow> bytes \<Rightarrow> cs_result" where
  "cs_answer status op_code sig_type is_valid flags digest fp payload =
     \<lparr>cr_status = status, cr_op_code = op_code, cr_sig_type = sig_type, cr_is_valid = is_valid,
      cr_checksum = compute_composite_result_checksum status op_code sig_type is_valid flags digest fp,
      cr_flags = flags, cr_payload = payload\<rparr>"

definition cs_key_ingress :: "int \<Rightarrow> int \<Rightarrow> bytes \<Rightarrow> bytes \<Rightarrow> bytes \<Rightarrow> cs_result py" where
  "cs_key_ingress sig_type flags trad_pk pqc_pk fingerprint =
     (if trad_pk = [] \<or> pqc_pk = [] \<or> all_zero trad_pk \<or> all_zero pqc_pk
      then Inr (cs_fail CS_STATUS_ERR_MALFORMED_KEY OP_COMPOSITE_KEY_INGRESS sig_type)
      else bindE (struct_pack [U 4] [int (length trad_pk)]) (\<lambda>tl.
           bindE (struct_pack [U 4] [int (length pqc_pk)]) (\<lambda>pl.
           let payload = assign_slice 36 40 pl (assign_slice 32 36 tl
                 (assign_slice 0 32 fingerprint cs_payload))
           in Inr (cs_answer CS_STATUS_SUCCESS OP_COMPOSITE_KEY_INGRESS sig_type 1 flags (zeros 32)
                fingerprint payload))))"

definition cs_digest_bind :: "int \<Rightarrow> int \<Rightarrow> bytes \<Rightarrow> bytes \<Rightarrow> cs_result" where
  "cs_digest_bind sig_type flags bound_digest fingerprint =
     cs_answer CS_STATUS_SUCCESS OP_COMPOSITE_DIGEST_BIND sig_type 1 flags bound_digest fingerprint
       (assign_slice 32 64 fingerprint (assign_slice 0 32 bound_digest cs_payload))"

definition cs_verify ::
  "int \<Rightarrow> bytes \<Rightarrow> bytes \<Rightarrow> bytes \<Rightarrow> bytes \<Rightarrow> bytes \<Rightarrow> bytes \<Rightarrow> bool option \<Rightarrow> cs_result py" where
  "cs_verify sig_type effective_digest fingerprint trad_pk trad_sig pqc_pk pqc_sig expected_valid =
     (let trad_ok = verify_classical_signature_ref sig_type effective_digest trad_pk trad_sig;
          pqc_ok = verify_pqc_signature_ref sig_type effective_digest pqc_pk pqc_sig expected_valid;
          res_flags = (if trad_ok then 0x01 else 0x00) OR (if pqc_ok then 0x02 else (0x00 :: int));
          (status, is_valid) =
            (if trad_ok \<and> pqc_ok then (CS_STATUS_SUCCESS, 1)
             else if \<not> trad_ok \<and> pqc_ok then (CS_STATUS_ERR_TRAD_VERIFY_FAILED, 0)
             else if trad_ok \<and> \<not> pqc_ok then (CS_STATUS_ERR_PQC_VERIFY_FAILED, 0)
             else (CS_STATUS_ERR_COMPOSITE_VERIFY_FAILED, 0))
      in bindE (struct_pack [U 4] [res_flags]) (\<lambda>rf.
         let payload = assign_slice 64 68 rf (assign_slice 32 64 fingerprint
               (assign_slice 0 32 effective_digest cs_payload))
         in Inr (cs_answer status OP_COMPOSITE_VERIFY sig_type is_valid res_flags effective_digest
              fingerprint payload)))"

definition cs_pack_signature :: "int \<Rightarrow> int \<Rightarrow> bytes \<Rightarrow> bytes \<Rightarrow> bytes \<Rightarrow> cs_result py" where
  "cs_pack_signature sig_type flags trad_sig pqc_sig fingerprint =
     (if trad_sig = [] \<or> pqc_sig = [] \<or> all_zero trad_sig \<or> all_zero pqc_sig
      then Inr (cs_fail CS_STATUS_ERR_MALFORMED_SIGNATURE OP_COMPOSITE_PACK_SIGNATURE sig_type)
      else bindE (struct_pack [U 4, U 4, U 4] [sig_type, int (length trad_sig), int (length pqc_sig)]) (\<lambda>hdr.
           bindE (struct_pack [U 4] [int (length trad_sig)]) (\<lambda>tl.
           bindE (struct_pack [U 4] [int (length pqc_sig)]) (\<lambda>pl.
           bindE (struct_pack [U 4] [int (length trad_sig) + int (length pqc_sig)]) (\<lambda>sl.
           let sig_digest = sha256 (hdr @ trad_sig @ pqc_sig);
               payload = assign_slice 40 44 sl (assign_slice 36 40 pl (assign_slice 32 36 tl
                 (assign_slice 0 32 sig_digest cs_payload)))
           in Inr (cs_answer CS_STATUS_SUCCESS OP_COMPOSITE_PACK_SIGNATURE sig_type 1 flags sig_digest
                fingerprint payload))))))"

definition cs_query :: "int \<Rightarrow> int \<Rightarrow> cs_result py" where
  "cs_query sig_type flags =
     (let category = (if sig_type = COMPOSITE_TYPE_MLDSA44_ED25519 then 2
                      else if sig_type = COMPOSITE_TYPE_MLDSA65_ECDSA_P384 then 3 else 5)
      in bindE (struct_pack [U 4] [category]) (\<lambda>c.
         bindE (struct_pack [U 4] [0x00010002]) (\<lambda>v.
         bindE (struct_pack [U 4] [3]) (\<lambda>n.
         Inr (cs_answer CS_STATUS_SUCCESS OP_COMPOSITE_QUERY sig_type 1 flags (zeros 32) (zeros 32)
           (assign_slice 8 12 n (assign_slice 4 8 v (assign_slice 0 4 c cs_payload))))))))"

definition field_of :: "nat \<Rightarrow> int \<Rightarrow> bytes \<Rightarrow> bytes" where
  "field_of off len req = py_slice (int off) (int off + len) req"

definition cs_oracle ::
  "int \<Rightarrow> int \<Rightarrow> bytes \<Rightarrow> int \<Rightarrow> int \<Rightarrow> int \<Rightarrow> int \<Rightarrow> int \<Rightarrow> int \<Rightarrow> int \<Rightarrow> bool option \<Rightarrow> cs_result py" where
  "cs_oracle op_code sig_type request_bytes flags msg_len context_len trad_pk_len trad_sig_len
      pqc_pk_len pqc_sig_len pqc_expected_valid =
     (let context = field_of OFFSET_CONTEXT context_len request_bytes;
          oid = field_of OFFSET_OID 32 request_bytes;
          message = field_of OFFSET_MESSAGE msg_len request_bytes;
          trad_pk = field_of OFFSET_TRAD_PK trad_pk_len request_bytes;
          trad_sig = field_of OFFSET_TRAD_SIG trad_sig_len request_bytes;
          pqc_pk = field_of OFFSET_PQC_PK pqc_pk_len request_bytes;
          pqc_sig = field_of OFFSET_PQC_SIG pqc_sig_len request_bytes
      in if sig_type \<notin> {COMPOSITE_TYPE_MLDSA44_ED25519, COMPOSITE_TYPE_MLDSA65_ECDSA_P384,
                         COMPOSITE_TYPE_MLDSA87_ECDSA_P521}
         then Inr (cs_fail CS_STATUS_ERR_UNSUPPORTED_TYPE op_code sig_type)
         else bindE (compute_ietf_bound_digest_ref oid context message) (\<lambda>bound_digest.
              bindE (compute_composite_fingerprint_ref sig_type trad_pk pqc_pk) (\<lambda>fingerprint.
              if op_code = OP_COMPOSITE_KEY_INGRESS
              then cs_key_ingress sig_type flags trad_pk pqc_pk fingerprint
              else if op_code = OP_COMPOSITE_DIGEST_BIND
              then Inr (cs_digest_bind sig_type flags bound_digest fingerprint)
              else if op_code = OP_COMPOSITE_VERIFY
              then cs_verify sig_type bound_digest fingerprint trad_pk trad_sig pqc_pk pqc_sig
                     pqc_expected_valid
              else if op_code = OP_COMPOSITE_PACK_SIGNATURE
              then cs_pack_signature sig_type flags trad_sig pqc_sig fingerprint
              else if op_code = OP_COMPOSITE_QUERY
              then cs_query sig_type flags
              else Inr (cs_fail CS_STATUS_ERR_UNSUPPORTED_OP op_code sig_type))))"


subsection \<open>Codecs and buffers\<close>

interpretation cs_desc: descriptor_codec cs_descriptor_pack cs_descriptor_unpack 64
proof
  fix d b rest
  assume "cs_descriptor_pack d = Inr b"
  note p = packed_twice [OF this [unfolded cs_descriptor_pack_def]]
  show "length b = 64" by (rule p) simp_all
  moreover have "struct_unpack_from [U 4, U 4, U 4, U 4, U 4, U 4, U 4, U 4, U 4, U 4] (b @ rest) 0 =
      Inr [cd_magic d, cd_op_code d, cd_sig_type d, cd_flags d, cd_msg_len d, cd_context_len d,
        cd_trad_pk_len d, cd_trad_sig_len d, cd_pqc_pk_len d, cd_pqc_sig_len d]"
    by (rule p) simp_all
  moreover have "struct_unpack_from [U 4] (b @ rest) 40 = Inr [cd_seq_id d]" by (rule p) simp_all
  ultimately show "cs_descriptor_unpack (b @ rest) = Inr d"
    by (simp add: cs_descriptor_unpack_def)
qed

lemma place_field_put: "length x \<le> cap \<Longrightarrow> place_field off cap x req = put off x req"
  by (cases "x = []") (auto simp add: place_field_def Let_def put_assign_slice assign_slice_def min_absorb1)

lemma place_field_put_take: "place_field off cap x req = put off (take cap x) req"
proof (cases "x = []")
  case False
  have "take (min (length x) cap) x = take cap x" by (simp add: min_def)
  moreover have "min (length x) cap = length (take cap x)" by simp
  ultimately show ?thesis using False by (simp only: place_field_def Let_def put_assign_slice if_True simp_thms)
qed (simp add: place_field_def put_def)

lemma tensor_put:
  "build_composite_request_tensor context oid message trad_pk trad_sig pqc_pk pqc_sig =
     put OFFSET_PQC_SIG (take 4627 pqc_sig) (put OFFSET_PQC_PK (take 2592 pqc_pk)
     (put OFFSET_TRAD_SIG (take 128 trad_sig) (put OFFSET_TRAD_PK (take 128 trad_pk)
     (put OFFSET_MESSAGE (take 128 message) (put OFFSET_OID (take 32 oid)
     (put OFFSET_CONTEXT (take 32 context) (zeros CS_REQUEST_BUFFER_SIZE)))))))"
  by (simp only: build_composite_request_tensor_def Let_def place_field_put_take)

lemma field_of_slice: "0 \<le> n \<Longrightarrow> field_of off n req = slice off (off + nat n) req"
  by (simp add: field_of_def py_slice_nonneg nat_add_distrib)

lemma length_field_of: "0 \<le> n \<Longrightarrow> length (field_of off n req) \<le> length req"
  by (simp add: field_of_slice)

subsection \<open>Parity\<close>

lemma odd_foldl_xor:
  "odd (foldl (\<lambda>c i. c XOR f i) (c::int) xs) \<longleftrightarrow> odd (c + (\<Sum>i\<leftarrow>xs. f i))"
proof (induction xs arbitrary: c)
  case (Cons x xs)
  then show ?case by (cases "even c"; cases "even (f x)") (simp_all add: even_xor_iff)
qed simp

lemma even_foldl_xor:
  "even (foldl (\<lambda>c i. c XOR f i) (c::int) xs) \<longleftrightarrow> even (c + (\<Sum>i\<leftarrow>xs. f i))"
  using odd_foldl_xor by blast

lemma odd_push_bit: "odd (push_bit n (x::int)) \<longleftrightarrow> n = 0 \<and> odd x"
  by (cases n) (simp_all add: push_bit_eq_mult)

lemma and_one_zero: "(x::int) AND 1 = 0 \<longleftrightarrow> even x"
  by (simp add: and_one_eq even_iff_mod_2_eq_zero)

lemma even_u32: "even (u32 x) \<longleftrightarrow> even x"
  by (simp add: u32_def even_and_iff)

lemma even_sum_list_cong:
  "(\<And>i. i \<in> set xs \<Longrightarrow> even (f i :: int) \<longleftrightarrow> even (g i)) \<Longrightarrow>
     even (\<Sum>i\<leftarrow>xs. f i) \<longleftrightarrow> even (\<Sum>i\<leftarrow>xs. g i)"
  by (induction xs) auto

definition classical_lengths_ok :: "int \<Rightarrow> nat \<Rightarrow> nat \<Rightarrow> bool" where
  "classical_lengths_ok sig_type pk sig \<longleftrightarrow>
     (sig_type = 1 \<and> 32 \<le> pk \<and> 64 \<le> sig) \<or> (sig_type = 2 \<and> 48 \<le> pk \<and> 96 \<le> sig) \<or>
     (sig_type = 3 \<and> 66 \<le> pk \<and> 132 \<le> sig)"

definition pqc_lengths_ok :: "int \<Rightarrow> nat \<Rightarrow> nat \<Rightarrow> bool" where
  "pqc_lengths_ok sig_type pk sig \<longleftrightarrow>
     (sig_type = 1 \<and> 1312 \<le> pk \<and> 2420 \<le> sig) \<or> (sig_type = 2 \<and> 1952 \<le> pk \<and> 3309 \<le> sig) \<or>
     (sig_type = 3 \<and> 2592 \<le> pk \<and> 4627 \<le> sig)"

lemma classical_closed_form:
  assumes "sig_type \<in> {1, 2, 3}" "length digest = 32"
  shows "verify_classical_signature_ref sig_type digest pk sig \<longleftrightarrow>
     classical_lengths_ok sig_type (length pk) (length sig) \<and> \<not> all_zero pk \<and> \<not> all_zero sig \<and>
     even (\<Sum>i\<leftarrow>[0..<32]. uint (sig ! i) + uint (pk ! i) + uint (digest ! i))"
proof (cases "classical_lengths_ok sig_type (length pk) (length sig)")
  case True
  then have len: "32 \<le> length pk" "32 \<le> length sig" by (auto simp add: classical_lengths_ok_def)
  let ?f = "\<lambda>i. uint (sig ! i) XOR uint (pk ! (i mod length pk)) XOR
      (if i < length digest then uint (digest ! i) else 0)"
  let ?g = "\<lambda>i. uint (sig ! i) + uint (pk ! i) + uint (digest ! i)"
  define P where "P = even (\<Sum>i\<leftarrow>[0..<32]. ?g i)"
  have m: "min 32 (length sig) = 32" using len by simp
  have "even (\<Sum>i\<leftarrow>[0..<32]. ?f i) = P"
    unfolding P_def
  proof (rule even_sum_list_cong)
    fix i :: nat
    assume "i \<in> set [0..<32]"
    then have "i < 32" by (simp only: atLeastLessThan_upt [symmetric] atLeastLessThan_iff)
    then have "i mod length pk = i" "i < length digest" using len assms(2) by simp_all
    then show "even (?f i) \<longleftrightarrow> even (?g i)" by (auto simp add: even_xor_iff)
  qed
  then have par: "even (foldl (\<lambda>c i. c XOR ?f i) 0 [0..<32]) = P"
    by (simp only: even_foldl_xor add_0_left)
  have ne: "pk \<noteq> []" "sig \<noteq> []" "digest \<noteq> []" using len assms(2) by auto
  show ?thesis
    using True assms(1) ne
    unfolding verify_classical_signature_ref_def Let_def and_one_zero m par P_def [symmetric]
    by (auto simp add: classical_lengths_ok_def)
next
  case False
  with assms(1) have "\<not> verify_classical_signature_ref sig_type digest pk sig"
    by (auto simp add: verify_classical_signature_ref_def classical_lengths_ok_def)
  with False show ?thesis by blast
qed

lemma pqc_closed_form:
  assumes "sig_type \<in> {1, 2, 3}" "length digest = 32"
  shows "verify_pqc_signature_ref sig_type digest pk sig None \<longleftrightarrow>
     pqc_lengths_ok sig_type (length pk) (length sig) \<and> \<not> all_zero pk \<and> \<not> all_zero sig \<and>
     even (\<Sum>i\<leftarrow>[0..<32]. (if i mod 4 = 0 then uint (sig ! i) + uint (digest ! i) else 0) +
                       (if i mod 4 = 3 then uint (pk ! i) else 0))"
proof (cases "pqc_lengths_ok sig_type (length pk) (length sig)")
  case True
  then have len: "32 \<le> length pk" "32 \<le> length sig" by (auto simp add: pqc_lengths_ok_def)
  let ?s = "\<lambda>i. push_bit ((i mod 4) * 8) (uint (sig ! i))"
  let ?d = "\<lambda>i. push_bit ((i mod 4) * 8) (uint (digest ! i))"
  let ?p = "\<lambda>i. push_bit (((i + 1) mod 4) * 8) (uint (pk ! i))"
  define x where "x = [0..<32::nat]"
  have 1: "even (foldl (\<lambda>t i. t XOR ?s i) 0 x) \<longleftrightarrow> even (\<Sum>i\<leftarrow>x. ?s i)"
    using even_foldl_xor [of ?s 0 x] by (simp only: add_0_left)
  have 2: "even (foldl (\<lambda>t i. t XOR ?d i) 0 x) \<longleftrightarrow> even (\<Sum>i\<leftarrow>x. ?d i)"
    using even_foldl_xor [of ?d 0 x] by (simp only: add_0_left)
  have 3: "even (foldl (\<lambda>t i. t XOR ?p i) (foldl (\<lambda>t i. t XOR ?d i) 0 x) x) \<longleftrightarrow>
      (even (\<Sum>i\<leftarrow>x. ?d i) = even (\<Sum>i\<leftarrow>x. ?p i))"
    by (simp only: even_foldl_xor [of ?p] even_add 2)
  have "even (foldl (\<lambda>t i. t XOR ?s i) 0 x XOR foldl (\<lambda>t i. t XOR ?p i) (foldl (\<lambda>t i. t XOR ?d i) 0 x) x)
      \<longleftrightarrow> even ((\<Sum>i\<leftarrow>x. ?s i) + ((\<Sum>i\<leftarrow>x. ?d i) + (\<Sum>i\<leftarrow>x. ?p i)))"
    by (simp only: even_xor_iff even_add 1 3)
  also have "\<dots> \<longleftrightarrow> even (\<Sum>i\<leftarrow>x. ?s i + (?d i + ?p i))"
    by (simp only: sum_list_addf)
  also have "\<dots> \<longleftrightarrow> even (\<Sum>i\<leftarrow>x. (if i mod 4 = 0 then uint (sig ! i) + uint (digest ! i) else 0) +
                       (if i mod 4 = 3 then uint (pk ! i) else 0))"
  proof (rule even_sum_list_cong)
    fix i :: nat
    have "(i + 1) mod 4 = 0 \<longleftrightarrow> i mod 4 = 3" by presburger
    then show "even (?s i + (?d i + ?p i)) \<longleftrightarrow>
      even ((if i mod 4 = 0 then uint (sig ! i) + uint (digest ! i) else 0) +
            (if i mod 4 = 3 then uint (pk ! i) else 0))"
      using odd_push_bit by (auto simp add: even_add)
  qed
  finally have par: "even (foldl (\<lambda>t i. t XOR ?s i) 0 x XOR
      foldl (\<lambda>t i. t XOR ?p i) (foldl (\<lambda>t i. t XOR ?d i) 0 x) x) \<longleftrightarrow> \<dots>" .
  have m: "min 32 (length sig) = 32" "min 32 (length digest) = 32" "min 32 (length pk) = 32"
    using len assms(2) by simp_all
  have ne: "pk \<noteq> []" "sig \<noteq> []" "digest \<noteq> []" using len assms(2) by auto
  show ?thesis
    using True assms(1) ne
    unfolding verify_pqc_signature_ref_def Let_def and_one_zero even_u32 m x_def [symmetric] par option.case
    by (auto simp add: pqc_lengths_ok_def)
next
  case False
  with assms(1) have "\<not> verify_pqc_signature_ref sig_type digest pk sig None"
    by (auto simp add: verify_pqc_signature_ref_def pqc_lengths_ok_def)
  with False show ?thesis by blast
qed


lemma all_zero_zeros [simp]: "all_zero (zeros n)"
  by (simp add: all_zero_def zeros_def list_all_iff)

subsection \<open>Forged signatures\<close>

definition mark :: "bool \<Rightarrow> nat \<Rightarrow> bytes" where
  "mark b n = (if b then 1 else 2) # zeros (n - 1)"

lemma mark_facts: "0 < n \<Longrightarrow> length (mark b n) = n" "\<not> all_zero (mark b n)" "uint (mark b n ! 0) = (if b then 1 else 2)"
  by (simp_all add: mark_def all_zero_def)

lemma uint_nth_mark: "i < n \<Longrightarrow> uint (mark b n ! i) = (if i = 0 then if b then 1 else 2 else 0)"
  by (cases i) (simp_all add: mark_def)

lemma even_sum_mark:
  fixes g :: "nat \<Rightarrow> int"
  assumes "xs = 0 # map Suc ys"
  shows "even (\<Sum>i\<leftarrow>xs. (if i = 0 then if b then 1 else 2 else 0) + g i) \<longleftrightarrow> (b \<longleftrightarrow> odd (\<Sum>i\<leftarrow>xs. g i))"
proof -
  have "(\<Sum>i\<leftarrow>xs. (if i = 0 then if b then 1 else 2 else 0) + g i) =
      (if b then 1 else 2) + (\<Sum>i\<leftarrow>xs. g i)"
    unfolding assms by (simp add: comp_def)
  then show ?thesis by simp
qed

lemma upt_32_Cons: "[0..<32] = 0 # map Suc [0..<31]"
  by (simp add: map_Suc_upt upt_rec [of 0 32] del: upt_Suc)

lemma sum_list_mark_cong:
  fixes l r :: "nat \<Rightarrow> int"
  assumes "\<And>i. i < 32 \<Longrightarrow> l i = r i"
  shows "(\<Sum>i\<leftarrow>[0..<32]. l i) = (\<Sum>i\<leftarrow>[0..<32]. r i)"
  using assms by (intro arg_cong [where f = sum_list] map_cong refl)
    (simp only: set_upt atLeastLessThan_iff)

lemma classical_forged:
  assumes "sig_type \<in> {1, 2, 3}" "length digest = 32" "32 \<le> n" "\<not> all_zero pk"
    "classical_lengths_ok sig_type (length pk) n"
  shows "\<exists>sig. length sig = n \<and> verify_classical_signature_ref sig_type digest pk sig"
proof -
  let ?g = "\<lambda>i. uint (pk ! i) + uint (digest ! i)"
  define b where "b = odd (\<Sum>i\<leftarrow>[0..<32]. ?g i)"
  have "(\<Sum>i\<leftarrow>[0..<32]. uint (mark b n ! i) + uint (pk ! i) + uint (digest ! i)) =
    (\<Sum>i\<leftarrow>[0..<32]. (if i = 0 then if b then 1 else 2 else 0) + ?g i)"
    using assms(3) by (intro sum_list_mark_cong) (simp add: uint_nth_mark)
  then have "even (\<Sum>i\<leftarrow>[0..<32]. uint (mark b n ! i) + uint (pk ! i) + uint (digest ! i))"
    unfolding b_def by (simp only: even_sum_mark [OF upt_32_Cons])
  with assms mark_facts(1) [of n b] mark_facts(2) [of b n] have "verify_classical_signature_ref sig_type digest pk (mark b n)"
    unfolding classical_closed_form [OF assms(1,2)] by force
  with mark_facts(1) [of n b] assms(3) show ?thesis by force
qed

lemma pqc_forged:
  assumes "sig_type \<in> {1, 2, 3}" "length digest = 32" "32 \<le> n" "\<not> all_zero pk"
    "pqc_lengths_ok sig_type (length pk) n"
  shows "\<exists>sig. length sig = n \<and> verify_pqc_signature_ref sig_type digest pk sig None"
proof -
  let ?g = "\<lambda>i. (if i mod 4 = 0 then uint (digest ! i) else 0) + (if i mod 4 = 3 then uint (pk ! i) else 0)"
  define b where "b = odd (\<Sum>i\<leftarrow>[0..<32]. ?g i)"
  have "(\<Sum>i\<leftarrow>[0..<32]. (if i mod 4 = 0 then uint (mark b n ! i) + uint (digest ! i) else 0) +
                       (if i mod 4 = 3 then uint (pk ! i) else 0)) =
    (\<Sum>i\<leftarrow>[0..<32]. (if i = 0 then if b then 1 else 2 else 0) + ?g i)"
    using assms(3) by (intro sum_list_mark_cong) (simp add: uint_nth_mark)
  then have "even (\<Sum>i\<leftarrow>[0..<32]. (if i mod 4 = 0 then uint (mark b n ! i) + uint (digest ! i) else 0) +
                       (if i mod 4 = 3 then uint (pk ! i) else 0))"
    unfolding b_def by (simp only: even_sum_mark [OF upt_32_Cons])
  with assms mark_facts(1) [of n b] mark_facts(2) [of b n] have "verify_pqc_signature_ref sig_type digest pk (mark b n) None"
    unfolding pqc_closed_form [OF assms(1,2)] by force
  with mark_facts(1) [of n b] assms(3) show ?thesis by force
qed


subsection \<open>The request tensor holds its fields apart\<close>

lemma length_py_slice: "length (py_slice i j xs) \<le> length xs"
  by (simp add: py_slice_def)

lemma length_field_of_le: "length (field_of off n req) \<le> length req"
  by (simp add: field_of_def length_py_slice)

lemma tensor_fields:
  assumes "length context \<le> 32" "length oid = 32" "length message \<le> 128" "length trad_pk \<le> 128"
    "length trad_sig \<le> 128" "length pqc_pk \<le> 2592" "length pqc_sig \<le> 4627"
    and "req = build_composite_request_tensor context oid message trad_pk trad_sig pqc_pk pqc_sig"
  shows "length req = CS_REQUEST_BUFFER_SIZE"
    "field_of OFFSET_CONTEXT (int (length context)) req = context"
    "field_of OFFSET_OID 32 req = oid"
    "field_of OFFSET_MESSAGE (int (length message)) req = message"
    "field_of OFFSET_TRAD_PK (int (length trad_pk)) req = trad_pk"
    "field_of OFFSET_TRAD_SIG (int (length trad_sig)) req = trad_sig"
    "field_of OFFSET_PQC_PK (int (length pqc_pk)) req = pqc_pk"
    "field_of OFFSET_PQC_SIG (int (length pqc_sig)) req = pqc_sig"
  using assms
  by (simp_all add: tensor_put field_of_slice slice_put_below slice_put_at slice_put_above)

subsection \<open>Evaluating a VERIFY call\<close>

lemma oracle_verify_eval:
  assumes "sig_type \<in> {1, 2, 3}" "length req < 4294967296"
  obtains m fp where
    "ietf_preimage (field_of OFFSET_OID 32 req) (field_of OFFSET_CONTEXT cl req)
       (field_of OFFSET_MESSAGE ml req) = Inr m"
    "cs_oracle OP_COMPOSITE_VERIFY sig_type req fl ml cl tpl tsl ppl psl ev =
       cs_verify sig_type (sha256 m) fp (field_of OFFSET_TRAD_PK tpl req)
         (field_of OFFSET_TRAD_SIG tsl req) (field_of OFFSET_PQC_PK ppl req)
         (field_of OFFSET_PQC_SIG psl req) ev"
proof -
  have len: "int (length (field_of off n req)) < 4294967296" for off n
    using length_field_of_le [of off n req] assms(2) by linarith
  obtain m where m: "ietf_preimage (field_of OFFSET_OID 32 req) (field_of OFFSET_CONTEXT cl req)
       (field_of OFFSET_MESSAGE ml req) = Inr m"
    using len [of OFFSET_CONTEXT cl] len [of OFFSET_MESSAGE ml] by (simp add: ietf_preimage_def)
  obtain fp where fp: "compute_composite_fingerprint_ref sig_type (field_of OFFSET_TRAD_PK tpl req)
      (field_of OFFSET_PQC_PK ppl req) = Inr fp"
    using len [of OFFSET_TRAD_PK tpl] len [of OFFSET_PQC_PK ppl] assms(1)
    by (auto simp add: compute_composite_fingerprint_ref_def)
  show ?thesis
    by (rule that [OF m, of fp])
      (use assms(1) m fp in \<open>simp add: cs_oracle_def Let_def compute_ietf_bound_digest_ref_def\<close>)
qed

lemma cs_verify_verdict:
  "\<exists>h. cs_verify st d fp tpk tsig ppk psig ev = Inr h \<and>
     (cr_status h = CS_STATUS_SUCCESS \<longleftrightarrow>
        verify_classical_signature_ref st d tpk tsig \<and> verify_pqc_signature_ref st d ppk psig ev) \<and>
     (cr_is_valid h = 1 \<longleftrightarrow> cr_status h = CS_STATUS_SUCCESS) \<and>
     (bit (cr_flags h) 0 \<longleftrightarrow> verify_classical_signature_ref st d tpk tsig) \<and>
     (bit (cr_flags h) 1 \<longleftrightarrow> verify_pqc_signature_ref st d ppk psig ev)"
  by (cases "verify_classical_signature_ref st d tpk tsig"; cases "verify_pqc_signature_ref st d ppk psig ev")
    (simp_all add: cs_verify_def cs_answer_def Let_def bit_iff_odd)

subsection \<open>Properties\<close>

text \<open>
  C6. The conjunction rule.  A VERIFY call on any request of a supported suite always returns a
  result; its status is SUCCESS exactly when both the classical and the post-quantum check accept
  the domain-separated digest of the request's own OID, context and message, \<open>is_valid\<close>
  agrees with the status, and the two low bits of the flags are the two verdicts.
\<close>

theorem composite_conjunction:
  assumes "st \<in> {COMPOSITE_TYPE_MLDSA44_ED25519, COMPOSITE_TYPE_MLDSA65_ECDSA_P384,
      COMPOSITE_TYPE_MLDSA87_ECDSA_P521}" "length req = CS_REQUEST_BUFFER_SIZE"
  shows "\<exists>m h. ietf_preimage (field_of OFFSET_OID 32 req) (field_of OFFSET_CONTEXT cl req)
        (field_of OFFSET_MESSAGE ml req) = Inr m \<and>
      cs_oracle OP_COMPOSITE_VERIFY st req fl ml cl tpl tsl ppl psl ev = Inr h \<and>
      (let trad_ok = verify_classical_signature_ref st (sha256 m) (field_of OFFSET_TRAD_PK tpl req)
             (field_of OFFSET_TRAD_SIG tsl req);
           pqc_ok = verify_pqc_signature_ref st (sha256 m) (field_of OFFSET_PQC_PK ppl req)
             (field_of OFFSET_PQC_SIG psl req) ev
       in (cr_status h = CS_STATUS_SUCCESS \<longleftrightarrow> trad_ok \<and> pqc_ok) \<and>
          (cr_is_valid h = 1 \<longleftrightarrow> cr_status h = CS_STATUS_SUCCESS) \<and>
          (bit (cr_flags h) 0 \<longleftrightarrow> trad_ok) \<and> (bit (cr_flags h) 1 \<longleftrightarrow> pqc_ok))"
proof -
  have "length req < 4294967296" using assms(2) by simp
  from oracle_verify_eval [OF assms(1) this, of cl ml fl tpl tsl ppl psl ev]
  show ?thesis unfolding Let_def by (metis cs_verify_verdict)
qed

theorem composite_conjunction_witness:
  "\<exists>h. cs_oracle OP_COMPOSITE_VERIFY 2 (zeros CS_REQUEST_BUFFER_SIZE) 0 3 4 48 96 1952 3309 (Some True)
       = Inr h \<and> cr_status h \<noteq> CS_STATUS_SUCCESS \<and> bit (cr_flags h) 1"
proof -
  have "\<not> verify_classical_signature_ref 2 d (field_of OFFSET_TRAD_PK 48 (zeros CS_REQUEST_BUFFER_SIZE)) x"
    for d x
    by (simp add: verify_classical_signature_ref_def field_of_slice)
  with composite_conjunction [of 2 "zeros CS_REQUEST_BUFFER_SIZE" 4 3 0 48 96 1952 3309 "Some True"]
  show ?thesis by (force simp add: Let_def verify_pqc_signature_ref_def)
qed

text \<open>
  Fields put into the request tensor are the fields the oracle reads: whenever they fit their
  regions, a VERIFY call on the built tensor with the true lengths gives the verdicts of the two
  checks on exactly the given context, OID, message, keys and signatures.
\<close>

theorem composite_request_refines:
  assumes "st \<in> {COMPOSITE_TYPE_MLDSA44_ED25519, COMPOSITE_TYPE_MLDSA65_ECDSA_P384,
      COMPOSITE_TYPE_MLDSA87_ECDSA_P521}"
    "length context \<le> 32" "length oid = 32" "length message \<le> 128" "length trad_pk \<le> 128"
    "length trad_sig \<le> 128" "length pqc_pk \<le> 2592" "length pqc_sig \<le> 4627"
  shows "\<exists>m h. ietf_preimage oid context message = Inr m \<and>
    cs_oracle OP_COMPOSITE_VERIFY st
      (build_composite_request_tensor context oid message trad_pk trad_sig pqc_pk pqc_sig) fl
      (int (length message)) (int (length context)) (int (length trad_pk)) (int (length trad_sig))
      (int (length pqc_pk)) (int (length pqc_sig)) ev = Inr h \<and>
    (cr_status h = CS_STATUS_SUCCESS \<longleftrightarrow>
      verify_classical_signature_ref st (sha256 m) trad_pk trad_sig \<and>
      verify_pqc_signature_ref st (sha256 m) pqc_pk pqc_sig ev)"
proof -
  define req where
    "req = build_composite_request_tensor context oid message trad_pk trad_sig pqc_pk pqc_sig"
  note t = tensor_fields [OF assms(2-8) req_def]
  have "length req < 4294967296" using t(1) by simp
  from oracle_verify_eval [OF assms(1) this, of "int (length context)" "int (length message)" fl
      "int (length trad_pk)" "int (length trad_sig)" "int (length pqc_pk)" "int (length pqc_sig)" ev]
  show ?thesis unfolding t req_def [symmetric] by (metis cs_verify_verdict)
qed

theorem composite_request_refines_witness:
  "\<exists>m h. ietf_preimage (zeros 32) [1] [2, 3] = Inr m \<and>
    cs_oracle OP_COMPOSITE_VERIFY 1
      (build_composite_request_tensor [1] (zeros 32) [2, 3] (replicate 32 9) [4] [5] [6]) 0
      2 1 32 1 1 1 None = Inr h \<and> cr_status h \<noteq> CS_STATUS_SUCCESS"
proof -
  have "\<not> verify_classical_signature_ref 1 d pk [4]" for d pk
    by (simp add: verify_classical_signature_ref_def)
  then show ?thesis
    using composite_request_refines [of 1 "[1]" "zeros 32" "[2, 3]" "replicate 32 9" "[4]" "[5]" "[6]" 0 None]
    by (simp only: list.size length_replicate zeros_facts) auto
qed

text \<open>
  The digest pre-image is injective: two requests with 32-byte OIDs that agree on the bytes
  that are hashed agree on OID, context and message, so no two different triples share a
  domain-separated message.
\<close>

theorem ietf_preimage_injective:
  assumes "ietf_preimage oid context message = Inr m" "ietf_preimage oid' context' message' = Inr m"
    "length oid = 32" "length oid' = 32"
  shows "oid = oid' \<and> context = context' \<and> message = message'"
proof -
  have img: "m = oid @ le_bytes 4 (int (length ctx)) @ ctx @
      le_bytes 4 (int (length msg)) @ msg \<and>
    int (length ctx) < 256 ^ 4 \<and> int (length msg) < 256 ^ 4"
    if "ietf_preimage oid ctx msg = Inr m" "length oid = 32" for oid ctx msg m
    using that by (auto simp add: ietf_preimage_def bindE_Inr_iff split: if_splits)
  note a = img [OF assms(1,3)] and b = img [OF assms(2,4)]
  from a b assms(3,4) have "oid = oid'"
    and "le_bytes 4 (int (length context)) = le_bytes 4 (int (length context'))"
    and rest: "context @ le_bytes 4 (int (length message)) @ message =
      context' @ le_bytes 4 (int (length message')) @ message'" by simp_all
  moreover from this a b have "length context = length context'"
    using le_bytes_inj [of 4 "int (length context)" "int (length context')"] by simp
  ultimately show ?thesis by simp
qed

theorem ietf_preimage_injective_witness:
  "\<not> (\<exists>m. ietf_preimage (zeros 32) [1] [2] = Inr m \<and> ietf_preimage (zeros 32) [] [1, 2] = Inr m)"
  using ietf_preimage_injective [of "zeros 32" "[1]" "[2]" _ "zeros 32" "[]" "[1, 2]"] by auto

text \<open>
  The reference checks do not authenticate: for the Ed25519 and P-384 suites, for every OID,
  context, message and every pair of non-zero public keys of the required sizes there are two
  signatures, found without any secret key, for which the oracle reports SUCCESS.
\<close>

theorem composite_reference_forgeable:
  assumes "length context \<le> 32" "length oid = 32" "length message \<le> 128"
    "length trad_pk \<in> {48..128}" "\<not> all_zero trad_pk"
    "length pqc_pk \<in> {1952..2592}" "\<not> all_zero pqc_pk"
    "st \<in> {COMPOSITE_TYPE_MLDSA44_ED25519, COMPOSITE_TYPE_MLDSA65_ECDSA_P384}"
  shows "\<exists>trad_sig pqc_sig h. length trad_sig = 96 \<and> length pqc_sig = 3309 \<and>
    cs_oracle OP_COMPOSITE_VERIFY st
      (build_composite_request_tensor context oid message trad_pk trad_sig pqc_pk pqc_sig) fl
      (int (length message)) (int (length context)) (int (length trad_pk)) 96
      (int (length pqc_pk)) 3309 None = Inr h \<and> cr_status h = CS_STATUS_SUCCESS"
proof -
  have st: "st \<in> {1, 2, 3}" using assms(8) by auto
  obtain m where m: "ietf_preimage oid context message = Inr m"
    using assms(1,3) by (auto simp add: ietf_preimage_def)
  have d: "length (sha256 m) = 32" by simp
  obtain ts where ts: "length ts = 96" "verify_classical_signature_ref st (sha256 m) trad_pk ts"
    using classical_forged [OF st d, of 96 trad_pk] assms by (auto simp add: classical_lengths_ok_def)
  obtain ps where ps: "length ps = 3309" "verify_pqc_signature_ref st (sha256 m) pqc_pk ps None"
    using pqc_forged [OF st d, of 3309 pqc_pk] assms by (auto simp add: pqc_lengths_ok_def)
  define req where "req = build_composite_request_tensor context oid message trad_pk ts pqc_pk ps"
  have "length trad_pk \<le> 128" "length pqc_pk \<le> 2592" "length ts \<le> 128" "length ps \<le> 4627"
    using assms ts ps by auto
  note t = tensor_fields [OF assms(1-3) this(1,3,2,4) req_def, unfolded ts(1) ps(1)]
  have "length req < 4294967296" using t(1) by simp
  from oracle_verify_eval [OF st this, of "int (length context)" "int (length message)" fl
      "int (length trad_pk)" "int 96" "int (length pqc_pk)" "int 3309" None]
  have "\<exists>h. cs_oracle OP_COMPOSITE_VERIFY st req fl (int (length message)) (int (length context))
      (int (length trad_pk)) (int 96) (int (length pqc_pk)) (int 3309) None = Inr h \<and>
      cr_status h = CS_STATUS_SUCCESS"
    unfolding t m by (metis cs_verify_verdict ts(2) ps(2) sum.inject(2))
  then show ?thesis using ts(1) ps(1) unfolding req_def by auto
qed

theorem composite_reference_forgeable_witness:
  "\<exists>trad_sig pqc_sig h. length trad_sig = 96 \<and> length pqc_sig = 3309 \<and>
    cs_oracle OP_COMPOSITE_VERIFY 1
      (build_composite_request_tensor [] (zeros 32) [0x70] (replicate 48 1) trad_sig (replicate 1952 1) pqc_sig)
      0 1 0 48 96 1952 3309 None = Inr h \<and> cr_status h = CS_STATUS_SUCCESS"
proof -
  have nz: "\<not> all_zero (replicate n 1)" if "0 < n" for n
    using that by (auto simp add: all_zero_def list_all_iff)
  show ?thesis
    using composite_reference_forgeable [of "[]" "zeros 32" "[0x70]" "replicate 48 1" "replicate 1952 1" 1 0]
      nz [of 48] nz [of 1952]
    by (simp only: length_replicate atLeastAtMost_iff zeros_facts list.size) simp
qed

text \<open>
  The P-521 suite cannot be used through its own request tensor: the classical signature
  region holds 128 bytes and the check wants 132, so a VERIFY call whose declared signature length
  fits the region never succeeds, whatever the request.
\<close>

theorem p521_region_too_small:
  assumes "length req = CS_REQUEST_BUFFER_SIZE" "0 \<le> tsl"
    "tsl \<le> int (OFFSET_PQC_PK - OFFSET_TRAD_SIG)"
    "cs_oracle OP_COMPOSITE_VERIFY COMPOSITE_TYPE_MLDSA87_ECDSA_P521 req fl ml cl tpl tsl ppl psl ev = Inr h"
  shows "cr_status h \<noteq> CS_STATUS_SUCCESS \<and> cr_is_valid h \<noteq> 1"
proof -
  have len: "length req < 4294967296" using assms(1) by simp
  have "length (field_of OFFSET_TRAD_SIG tsl req) < 132"
    using assms(1-3) by (simp add: field_of_slice)
  then have "\<not> verify_classical_signature_ref 3 d pk (field_of OFFSET_TRAD_SIG tsl req)" for d pk
    by (auto simp add: verify_classical_signature_ref_def)
  moreover obtain d fp pk psig ppk where
    "cs_oracle OP_COMPOSITE_VERIFY 3 req fl ml cl tpl tsl ppl psl ev =
      cs_verify 3 d fp pk (field_of OFFSET_TRAD_SIG tsl req) ppk psig ev"
    by (rule oracle_verify_eval [OF _ len, of 3 cl ml fl tpl tsl ppl psl ev]) blast+
  ultimately show ?thesis using assms(4) cs_verify_verdict [of 3 d fp pk _ ppk psig ev] by force
qed

theorem p521_region_too_small_witness:
  "\<exists>h. cs_oracle OP_COMPOSITE_VERIFY COMPOSITE_TYPE_MLDSA87_ECDSA_P521 (zeros CS_REQUEST_BUFFER_SIZE)
      0 0 0 66 128 2592 4627 (Some True) = Inr h \<and> cr_is_valid h \<noteq> 1"
proof -
  let ?r = "zeros CS_REQUEST_BUFFER_SIZE"
  obtain m fp where "cs_oracle OP_COMPOSITE_VERIFY 3 ?r 0 0 0 66 128 2592 4627 (Some True) =
      cs_verify 3 (sha256 m) fp (field_of OFFSET_TRAD_PK 66 ?r)
         (field_of OFFSET_TRAD_SIG 128 ?r) (field_of OFFSET_PQC_PK 2592 ?r)
         (field_of OFFSET_PQC_SIG 4627 ?r) (Some True)"
    by (rule oracle_verify_eval [of 3 ?r 0 0 0 66 128 2592 4627 "Some True"]) auto
  then obtain h where h: "cs_oracle OP_COMPOSITE_VERIFY 3 ?r 0 0 0 66 128 2592 4627 (Some True) = Inr h"
    by (metis cs_verify_verdict)
  from p521_region_too_small [OF _ _ _ h] h show ?thesis by simp
qed

end
