(* ===== verification/Dice.thy ===== *)
theory Dice
  imports Prelude PyStruct
begin

text \<open>
  The DICE / TPM attestation engine, \<open>dr34_dice_tpm_abi.py\<close>: the 64-byte descriptor, the
  request tensor with measurement, nonce, PCR bank and signature, the result unpacker, the four
  reference mixing functions and the reference oracle with its five modes.
\<close>

unbundle bit_operations_syntax

subsection \<open>Constants\<close>

abbreviation (input) MAGIC_DESC_DR34 :: int where "MAGIC_DESC_DR34 \<equiv> 0x44494345"

abbreviation (input) MODE_DICE_DERIVE_CDI :: int where "MODE_DICE_DERIVE_CDI \<equiv> 0x01"

abbreviation (input) MODE_DICE_EXTEND_PCR :: int where "MODE_DICE_EXTEND_PCR \<equiv> 0x02"

abbreviation (input) MODE_DICE_GENERATE_QUOTE :: int where "MODE_DICE_GENERATE_QUOTE \<equiv> 0x03"

abbreviation (input) MODE_DICE_VERIFY_QUOTE :: int where "MODE_DICE_VERIFY_QUOTE \<equiv> 0x04"

abbreviation (input) PCR_COUNT :: nat where "PCR_COUNT \<equiv> 8"

abbreviation (input) DICE_STATUS_SUCCESS :: int where "DICE_STATUS_SUCCESS \<equiv> 0x00000000"

abbreviation (input) DICE_STATUS_ERR_INVALID_MAGIC :: int where
  "DICE_STATUS_ERR_INVALID_MAGIC \<equiv> 0xDEAD3401"

abbreviation (input) DICE_STATUS_ERR_PCR_OUT_OF_BOUNDS :: int where
  "DICE_STATUS_ERR_PCR_OUT_OF_BOUNDS \<equiv> 0xDEAD3402"

abbreviation (input) DICE_STATUS_ERR_QUOTE_VERIFY_FAIL :: int where
  "DICE_STATUS_ERR_QUOTE_VERIFY_FAIL \<equiv> 0xDEAD3403"

abbreviation (input) REQ_TOTAL_BYTES :: nat where "REQ_TOTAL_BYTES \<equiv> 16384"

abbreviation (input) DESC_TOTAL_BYTES :: nat where "DESC_TOTAL_BYTES \<equiv> 64"

abbreviation (input) RESULT_TOTAL_BYTES :: nat where "RESULT_TOTAL_BYTES \<equiv> 2048"

subsection \<open>Descriptor, request and result\<close>

record dice_result =
  dq_magic :: int
  dq_op_mode :: int
  dq_status :: int
  dq_pcr_mask :: int
  dq_seq_id :: int
  dq_outcome :: int
  dq_cycle_estimate :: int
  dq_pcr_index :: int
  dq_composite_digest :: bytes
  dq_quote_digest :: bytes
  dq_cdi_or_seal :: bytes
  dq_pcr_bank :: "bytes list"
  dq_canary :: bytes

abbreviation (input) dice_header :: "field list" where
  "dice_header \<equiv> [U 4, U 4, U 4, U 4, U 4, U 4, U 4, U 4]"

definition pack_dr34_descriptor ::
  "int \<Rightarrow> int \<Rightarrow> int \<Rightarrow> int \<Rightarrow> int \<Rightarrow> int \<Rightarrow> int \<Rightarrow> bytes py" where
  "pack_dr34_descriptor op_mode pcr_index pcr_mask nonce_len sig_len flags seq_id =
     struct_pack_into dice_header (zeros DESC_TOTAL_BYTES) 0
       [MAGIC_DESC_DR34, op_mode, pcr_index, pcr_mask, nonce_len, sig_len, flags, seq_id]"

record dice_request =
  rq_measurement :: bytes
  rq_nonce :: bytes
  rq_expected_composite :: bytes
  rq_initial_pcr_bank :: "bytes list option"
  rq_uds_key :: bytes
  rq_signature :: bytes
  rq_seq_id :: int
  rq_ak_pk :: "bytes option"
  rq_ak_sig :: "bytes option"
  rq_sig_valid :: bool

definition fixed32 :: "bytes \<Rightarrow> bytes" where
  "fixed32 x = ljust 32 (take 32 x)"

definition dice_place_bank :: "bytes list option \<Rightarrow> bytes \<Rightarrow> bytes" where
  "dice_place_bank bank req =
     (case bank of None \<Rightarrow> req
      | Some b \<Rightarrow> foldl (\<lambda>req p. assign_slice (128 + p * 32) (128 + (p + 1) * 32) (fixed32 (b ! p)) req)
          req [0..<min (length b) PCR_COUNT])"

definition dice_place_extended :: "bytes option \<Rightarrow> bytes option \<Rightarrow> bytes \<Rightarrow> bytes \<Rightarrow> bytes" where
  "dice_place_extended ak_pk ak_sig signature req =
     (let req = (case ak_pk of None \<Rightarrow> req
        | Some pk \<Rightarrow> if pk = [] then req
            else assign_slice 512 (512 + min (length pk) 1312) (take 1312 pk) req);
          fallback = (if 2420 \<le> length signature
            then assign_slice 2048 (2048 + 2420) (take 2420 signature) req else req)
      in case ak_sig of None \<Rightarrow> fallback
         | Some s \<Rightarrow> if s = [] then fallback
             else assign_slice 2048 (2048 + min (length s) 2420) (take 2420 s) req)"

definition pack_dr34_request :: "dice_request \<Rightarrow> bytes py" where
  "pack_dr34_request r =
     bindE (struct_pack_into [U 4, U 4, U 4, U 4] (zeros REQ_TOTAL_BYTES) 0
       [MAGIC_DESC_DR34, rq_seq_id r, int (length (rq_measurement r)), int (length (rq_nonce r))])
     (\<lambda>req.
     let req = assign_slice 32 64 (fixed32 (rq_measurement r)) req;
         req = assign_slice 64 96 (fixed32 (rq_nonce r)) req;
         req = assign_slice 96 128 (fixed32 (rq_expected_composite r)) req;
         req = dice_place_bank (rq_initial_pcr_bank r) req;
         req = assign_slice 384 416 (fixed32 (rq_uds_key r)) req;
         req = assign_slice 416 480 (ljust 64 (take 64 (rq_signature r))) req;
         req = dice_place_extended (rq_ak_pk r) (rq_ak_sig r) (rq_signature r) req
     in Inr (req[4480 := (if rq_sig_valid r then 1 else 0)]))"

definition unpack_dr34_result :: "bytes \<Rightarrow> dice_result py" where
  "unpack_dr34_result result_bytes =
     (if length result_bytes < RESULT_TOTAL_BYTES then Inl ValueError
      else bindE (struct_unpack_from dice_header result_bytes 0) (\<lambda>h.
        Inr \<lparr>dq_magic = h ! 0, dq_op_mode = h ! 1, dq_status = h ! 2, dq_pcr_mask = h ! 3,
             dq_seq_id = h ! 4, dq_outcome = h ! 5, dq_cycle_estimate = h ! 6, dq_pcr_index = h ! 7,
             dq_composite_digest = slice 32 64 result_bytes,
             dq_quote_digest = slice 64 96 result_bytes,
             dq_cdi_or_seal = slice 96 128 result_bytes,
             dq_pcr_bank = map (\<lambda>p. slice (128 + p * 32) (128 + (p + 1) * 32) result_bytes)
               [0..<PCR_COUNT],
             dq_canary = slice 384 416 result_bytes\<rparr>))"

subsection \<open>The reference mixing functions\<close>

text \<open>\<open>((x << n) & M) | (x >> (32 - n))\<close>, masked again.\<close>

definition rotl_mask :: "nat \<Rightarrow> int \<Rightarrow> int" where
  "rotl_mask n x = u32 (u32 (push_bit n x) OR drop_bit (32 - n) x)"

definition ref_hash_extend :: "int list \<Rightarrow> int list \<Rightarrow> int list" where
  "ref_hash_extend pcr_words m_words =
     foldl (\<lambda>h r.
       let val = u32 ((m_words ! r) XOR (0x9E3779B9 + int r));
           rot = rotl_mask 7 (h ! r)
       in h[r := u32 (rot + val + ((h ! ((r + 1) mod 8)) XOR 0xA5A5A5A5))])
     pcr_words [0..<8]"

definition composite_iv :: "int list" where
  "composite_iv = [0x6A09E667, 0xBB67AE85, 0x3C6EF372, 0xA54FF53A,
                   0x510E527F, 0x9B05688C, 0x1F83D9AB, 0x5BE0CD19]"

definition composite_step :: "int list list \<Rightarrow> int list \<Rightarrow> nat \<Rightarrow> int list" where
  "composite_step pcr_bank_words accum p =
     map (\<lambda>k. u32 (rotl_mask 5 (accum ! k) XOR (pcr_bank_words ! p ! k) XOR (int p + 1))) [0..<8]"

definition ref_compute_composite :: "int list list \<Rightarrow> int \<Rightarrow> int list" where
  "ref_compute_composite pcr_bank_words pcr_mask =
     foldl (\<lambda>accum p. if pcr_mask AND push_bit p 1 \<noteq> 0 then composite_step pcr_bank_words accum p
                     else accum)
       composite_iv [0..<PCR_COUNT]"

definition ref_compute_quote :: "int \<Rightarrow> int list \<Rightarrow> int list \<Rightarrow> int list" where
  "ref_compute_quote pcr_mask comp_words nonce_words =
     map (\<lambda>k. let t = u32 ((comp_words ! k) XOR (nonce_words ! k) XOR (pcr_mask + int k * 0x1010101))
              in u32 (rotl_mask 9 t + 0x44494345)) [0..<8]"

definition ref_derive_cdi :: "int list \<Rightarrow> int list \<Rightarrow> int list" where
  "ref_derive_cdi u_words m_words =
     map (\<lambda>k. let t = u32 ((u_words ! k) XOR (m_words ! k))
              in u32 (rotl_mask 13 t XOR (0x5C5C5C5C + int k * 0x1F1F1F1F))) [0..<8]"

subsection \<open>The reference oracle\<close>

record dice_state =
  st_status :: int
  st_outcome :: int
  st_cycles :: int
  st_cdi :: "int list"
  st_comp :: "int list"
  st_quote :: "int list"
  st_bank :: "int list list"

definition dice_start :: "int list list \<Rightarrow> dice_state" where
  "dice_start bank = \<lparr>st_status = DICE_STATUS_SUCCESS, st_outcome = 1, st_cycles = 350,
     st_cdi = replicate 8 0, st_comp = replicate 8 0, st_quote = replicate 8 0, st_bank = bank\<rparr>"

definition dice_extend :: "int \<Rightarrow> int \<Rightarrow> int list \<Rightarrow> dice_state \<Rightarrow> dice_state" where
  "dice_extend pcr_index pcr_mask m_words s =
     (if int PCR_COUNT \<le> pcr_index
      then s\<lparr>st_status := DICE_STATUS_ERR_PCR_OUT_OF_BOUNDS, st_outcome := 0\<rparr>
      else let i = nat pcr_index;
               bank = (st_bank s)[i := ref_hash_extend (st_bank s ! i) m_words]
           in s\<lparr>st_bank := bank, st_comp := ref_compute_composite bank pcr_mask,
                st_cycles := st_cycles s + 420\<rparr>)"

definition dice_quote :: "int \<Rightarrow> int list \<Rightarrow> dice_state \<Rightarrow> dice_state" where
  "dice_quote pcr_mask n_words s =
     (let comp = ref_compute_composite (st_bank s) pcr_mask
      in s\<lparr>st_comp := comp, st_quote := ref_compute_quote pcr_mask comp n_words,
           st_cycles := st_cycles s + 580\<rparr>)"

definition any_nonzero :: "bytes \<Rightarrow> bool" where
  "any_nonzero bs = list_ex (\<lambda>b. b \<noteq> 0) bs"

definition dice_sig_match :: "bytes \<Rightarrow> bool py" where
  "dice_sig_match req_bytes =
     (let has_extended = any_nonzero (slice 512 544 req_bytes) \<or> any_nonzero (slice 2048 2080 req_bytes)
      in if has_extended then bindE (nthE req_bytes 4480) (\<lambda>b. Inr (b \<noteq> 0))
         else bindE (nthE (slice 416 480 req_bytes) 0) (\<lambda>b. Inr (b \<noteq> 0xFF)))"

definition dice_verify :: "int \<Rightarrow> int list \<Rightarrow> int list \<Rightarrow> bytes \<Rightarrow> dice_state \<Rightarrow> dice_state py" where
  "dice_verify pcr_mask n_words exp_comp_words req_bytes s =
     (let comp = ref_compute_composite (st_bank s) pcr_mask;
          comp_match = (comp = exp_comp_words);
          s = s\<lparr>st_comp := comp, st_quote := ref_compute_quote pcr_mask comp n_words\<rparr>
      in bindE (dice_sig_match req_bytes) (\<lambda>sig_match.
         let s = (if \<not> comp_match \<or> \<not> sig_match
                  then s\<lparr>st_outcome := 0, st_status := DICE_STATUS_ERR_QUOTE_VERIFY_FAIL\<rparr>
                  else s\<lparr>st_outcome := 1, st_status := DICE_STATUS_SUCCESS\<rparr>)
         in Inr (s\<lparr>st_cycles := st_cycles s + 750\<rparr>)))"

definition dice_cdi :: "int \<Rightarrow> int list \<Rightarrow> int list \<Rightarrow> dice_state \<Rightarrow> dice_state" where
  "dice_cdi pcr_mask uds_words m_words s =
     s\<lparr>st_cdi := ref_derive_cdi uds_words m_words,
       st_comp := ref_compute_composite (st_bank s) pcr_mask, st_cycles := st_cycles s + 490\<rparr>"

definition dice_seal :: "int \<Rightarrow> int list \<Rightarrow> dice_state \<Rightarrow> dice_state" where
  "dice_seal pcr_mask m_words s =
     (let comp = ref_compute_composite (st_bank s) pcr_mask
      in s\<lparr>st_comp := comp, st_cdi := ref_derive_cdi comp m_words, st_cycles := st_cycles s + 510\<rparr>)"

text \<open>The literal \<open>b"PQC34DICE_TPM_OK"\<close>.\<close>

definition dice_canary :: bytes where
  "dice_canary = [0x50, 0x51, 0x43, 0x33, 0x34, 0x44, 0x49, 0x43,
                  0x45, 0x5F, 0x54, 0x50, 0x4D, 0x5F, 0x4F, 0x4B]"

definition pack_row :: "nat \<Rightarrow> int list \<Rightarrow> bytes \<Rightarrow> bytes py" where
  "pack_row off ws buf = foldE (\<lambda>b k. struct_pack_into [U 4] b (off + k * 4) [ws ! k]) buf [0..<8]"

definition dice_emit :: "int \<Rightarrow> int \<Rightarrow> int \<Rightarrow> int \<Rightarrow> dice_state \<Rightarrow> bytes py" where
  "dice_emit op_mode pcr_mask seq_id pcr_index s =
     bindE (struct_pack_into dice_header (zeros RESULT_TOTAL_BYTES) 0
       [MAGIC_DESC_DR34, op_mode, st_status s, pcr_mask, seq_id, st_outcome s, st_cycles s, pcr_index])
     (\<lambda>result.
     bindE (pack_row 32 (st_comp s) result) (\<lambda>result.
     bindE (pack_row 64 (st_quote s) result) (\<lambda>result.
     bindE (pack_row 96 (st_cdi s) result) (\<lambda>result.
     bindE (foldE (\<lambda>b p. pack_row (128 + p * 32) (st_bank s ! p) b) result [0..<PCR_COUNT]) (\<lambda>result.
     let result = assign_slice 384 400 dice_canary result
     in Inr (foldl (\<lambda>b k. b[k := word_of_int ((int k XOR op_mode) AND 0xFF)]) result [400..<416]))))))"

definition reference_dr34_oracle :: "bytes \<Rightarrow> bytes \<Rightarrow> bytes py" where
  "reference_dr34_oracle desc_bytes req_bytes =
     bindE (struct_unpack_from dice_header desc_bytes 0) (\<lambda>d.
     let magic = d ! 0; op_mode = d ! 1; pcr_index = d ! 2; pcr_mask = d ! 3; seq_id = d ! 7 in
     if magic \<noteq> MAGIC_DESC_DR34
     then struct_pack_into [U 4, U 4, U 4] (zeros RESULT_TOTAL_BYTES) 0
            [DICE_STATUS_ERR_INVALID_MAGIC, op_mode, 1]
     else
     bindE (struct_unpack_from (replicate 8 (U 4)) req_bytes 32) (\<lambda>m_words.
     bindE (struct_unpack_from (replicate 8 (U 4)) req_bytes 64) (\<lambda>n_words.
     bindE (struct_unpack_from (replicate 8 (U 4)) req_bytes 96) (\<lambda>exp_comp_words.
     bindE (mapE (\<lambda>p. struct_unpack_from (replicate 8 (U 4)) req_bytes (128 + p * 32)) [0..<PCR_COUNT])
       (\<lambda>bank.
     bindE (struct_unpack_from (replicate 8 (U 4)) req_bytes 384) (\<lambda>uds_words.
     bindE
       (if op_mode = MODE_DICE_EXTEND_PCR
        then Inr (dice_extend pcr_index pcr_mask m_words (dice_start bank))
        else if op_mode = MODE_DICE_GENERATE_QUOTE
        then Inr (dice_quote pcr_mask n_words (dice_start bank))
        else if op_mode = MODE_DICE_VERIFY_QUOTE
        then dice_verify pcr_mask n_words exp_comp_words req_bytes (dice_start bank)
        else if op_mode = MODE_DICE_DERIVE_CDI
        then Inr (dice_cdi pcr_mask uds_words m_words (dice_start bank))
        else Inr (dice_seal pcr_mask m_words (dice_start bank)))
       (\<lambda>s. dice_emit op_mode pcr_mask seq_id pcr_index s)))))))"


subsection \<open>Words of 32 bits\<close>

definition row :: "int list \<Rightarrow> bool" where
  "row ws \<longleftrightarrow> length ws = 8 \<and> words_ok ws"

lemma row_nth: "row ws \<Longrightarrow> k < 8 \<Longrightarrow> 0 \<le> ws ! k \<and> ws ! k < 4294967296"
  by (simp add: row_def words_ok_nth)

lemma row_map: "(\<And>k. k < 8 \<Longrightarrow> 0 \<le> f k \<and> f k < 4294967296) \<Longrightarrow> row (map f [0..<8])"
  by (auto simp add: row_def words_ok_def)

lemma row_eqI: "row xs \<Longrightarrow> row ys \<Longrightarrow> (\<And>k. k < 8 \<Longrightarrow> xs ! k = ys ! k) \<Longrightarrow> xs = ys"
  by (rule nth_equalityI) (simp_all add: row_def)

lemma row_unpack [simp]: "row (struct_unpack (replicate 8 (U 4)) bs)"
  by (simp add: row_def words_ok_unpack)

lemma in_word_iff: "0 \<le> x \<and> x < 4294967296 \<longleftrightarrow> take_bit 32 x = (x::int)"
  by (auto simp add: take_bit_int_eq_self_iff)

lemma xor_word: "0 \<le> x \<Longrightarrow> x < 4294967296 \<Longrightarrow> 0 \<le> y \<Longrightarrow> y < 4294967296 \<Longrightarrow>
    0 \<le> (x XOR y) \<and> (x XOR y) < (4294967296::int)"
  using in_word_iff [of x] in_word_iff [of y] in_word_iff [of "x XOR y"] by simp

lemma xor_cancel_right: "(x XOR z = y XOR z) \<longleftrightarrow> x = (y::int)"
  by (metis xor.assoc xor.right_neutral xor_self_eq)

lemma u32_xor: "u32 (x XOR y) = u32 x XOR u32 y"
  by (simp add: u32_take_bit)

lemma rotl_mask_range [simp]: "0 \<le> rotl_mask n x" "rotl_mask n x < 4294967296"
  by (simp_all add: rotl_mask_def)

lemma bit_rotl_mask:
  assumes "0 \<le> x" "x < 4294967296" "n \<le> 32" "i < 32"
  shows "bit (rotl_mask n x) i \<longleftrightarrow> (if n \<le> i then bit x (i - n) else bit x (i + 32 - n))"
proof -
  have x: "take_bit 32 x = x" using assms in_word_iff by blast
  have high: "\<not> bit x j" if "32 \<le> j" for j
    using that x by (metis bit_take_bit_iff not_le)
  show ?thesis using assms(3,4) high [of "32 - n + i"]
    by (auto simp add: rotl_mask_def u32_take_bit bit_simps ac_simps)
qed

lemma rotl_mask_inj:
  assumes "0 \<le> x" "x < 4294967296" "0 \<le> y" "y < 4294967296" "n \<le> 32" "rotl_mask n x = rotl_mask n y"
  shows "x = y"
proof -
  have "bit x j \<longleftrightarrow> bit y j" if "j < 32" for j
  proof (cases "j + n < 32")
    case True
    with assms bit_rotl_mask [of x n "j + n"] bit_rotl_mask [of y n "j + n"] show ?thesis by simp
  next
    case False
    with that assms(5) have i: "j + n - 32 < 32" "\<not> n \<le> j + n - 32" "j + n - 32 + 32 - n = j" by auto
    from assms bit_rotl_mask [of x n "j + n - 32"] bit_rotl_mask [of y n "j + n - 32"] i
    show ?thesis by simp
  qed
  moreover have "take_bit 32 x = x" "take_bit 32 y = y" using assms in_word_iff by blast+
  ultimately show ?thesis by (metis bit_eqI bit_take_bit_iff)
qed

lemma u32_add_cancel:
  assumes "0 \<le> x" "x < 4294967296" "0 \<le> y" "y < 4294967296" "u32 (x + c) = u32 (y + c)"
  shows "x = y"
proof -
  have "(x + c - c) mod 4294967296 = (y + c - c) mod 4294967296"
    using assms(5) unfolding u32_mod by (rule mod_diff_cong) (rule refl)
  then have "x mod 4294967296 = y mod 4294967296" by (simp only: add_diff_cancel_right')
  with assms(1-4) show ?thesis by (simp only: mod_pos_pos_trivial)
qed

subsection \<open>Measurement extension\<close>

lemma extend_cell:
  assumes "0 \<le> m" "m < 4294967296" "0 \<le> k" "k < 4294967296" "0 \<le> t" "t < 4294967296"
  shows "u32 (r + u32 (m XOR k) + c) = t \<longleftrightarrow> m = u32 (t - r - c) XOR k"
proof -
  have x: "u32 (m XOR k) = m XOR k" using xor_word [of m k] assms by (simp add: u32_id)
  define X where "X = m XOR k"
  have X: "0 \<le> X" "X < 4294967296" using xor_word [of m k] assms by (simp_all add: X_def)
  have "u32 (r + X + c) = t \<longleftrightarrow> X = u32 (t - r - c)"
  proof
    assume "u32 (r + X + c) = t"
    then have "u32 (t - r - c) = ((r + X + c) mod 4294967296 - (r + c)) mod 4294967296"
      by (simp only: u32_mod diff_diff_eq)
    also have "\<dots> = (r + X + c - (r + c)) mod 4294967296" by (rule mod_diff_left_eq)
    also have "\<dots> = X" using X by simp
    finally show "X = u32 (t - r - c)" ..
  next
    assume "X = u32 (t - r - c)"
    then have "u32 (r + X + c) = ((t - r - c) mod 4294967296 + (r + c)) mod 4294967296"
      by (simp only: u32_mod add.commute [of r] add.assoc)
    also have "\<dots> = ((t - r - c) + (r + c)) mod 4294967296" by (rule mod_add_left_eq)
    finally show "u32 (r + X + c) = t" using assms(5,6) by simp
  qed
  then have "u32 (r + (m XOR k) + c) = t \<longleftrightarrow> m XOR k = u32 (t - r - c)" by (simp only: X_def)
  also have "\<dots> \<longleftrightarrow> m = u32 (t - r - c) XOR k"
    using xor_cancel_right [of m k "u32 (t - r - c) XOR k"] by (simp add: xor.assoc)
  finally show ?thesis by (simp only: x)
qed


text \<open>The measurement that takes a register \<open>pcr\<close> to the value \<open>t\<close>.\<close>

definition extend_inverse :: "int list \<Rightarrow> int list \<Rightarrow> int list" where
  "extend_inverse pcr t =
     map (\<lambda>r. u32 (t ! r - rotl_mask 7 (pcr ! r) - ((if r = 7 then t ! 0 else pcr ! (r + 1)) XOR 0xA5A5A5A5))
           XOR (0x9E3779B9 + int r)) [0..<8]"

lemma list8: "length xs = 8 \<Longrightarrow> \<exists>a b c d e f g h. xs = [a, b, c, d, e, f, g, h]"
  by (auto simp add: numeral_eq_Suc length_Suc_conv)

definition extend_step :: "int list \<Rightarrow> int list \<Rightarrow> nat \<Rightarrow> int list" where
  "extend_step m h r = h[r := u32 (rotl_mask 7 (h ! r) + u32 ((m ! r) XOR (0x9E3779B9 + int r)) +
     ((h ! ((r + 1) mod 8)) XOR 0xA5A5A5A5))]"

lemma extend_steps: "ref_hash_extend pcr m = foldl (extend_step m) pcr [0..<8]"
  by (simp only: ref_hash_extend_def extend_step_def [abs_def] Let_def)

text \<open>After \<open>n\<close> steps the first \<open>n\<close> words are final and the others untouched.\<close>

lemma extend_nth:
  assumes "length pcr = 8" "n \<le> 8"
  shows "length (foldl (extend_step m) pcr [0..<n]) = 8 \<and>
    (\<forall>r < 8. foldl (extend_step m) pcr [0..<n] ! r =
      (if r < n then u32 (rotl_mask 7 (pcr ! r) + u32 ((m ! r) XOR (0x9E3779B9 + int r)) +
          ((if r = 7 then foldl (extend_step m) pcr [0..<1] ! 0 else pcr ! (r + 1)) XOR 0xA5A5A5A5))
       else pcr ! r))"
  using assms(2)
proof (induction n)
  case 0
  then show ?case using assms(1) by simp
next
  case (Suc n)
  let ?h = "foldl (extend_step m) pcr [0..<n]"
  have IH: "length ?h = 8" "\<And>r. r < 8 \<Longrightarrow> ?h ! r =
      (if r < n then u32 (rotl_mask 7 (pcr ! r) + u32 ((m ! r) XOR (0x9E3779B9 + int r)) +
          ((if r = 7 then foldl (extend_step m) pcr [0..<1] ! 0 else pcr ! (r + 1)) XOR 0xA5A5A5A5))
       else pcr ! r)"
    using Suc by simp_all
  have first: "?h ! 0 = foldl (extend_step m) pcr [0..<1] ! 0" if "n = 7"
    using IH(2) [of 0] that assms(1) by (simp add: extend_step_def)
  have next_word: "?h ! ((n + 1) mod 8) =
      (if n = 7 then foldl (extend_step m) pcr [0..<1] ! 0 else pcr ! (n + 1))"
  proof (cases "n = 7")
    case True
    with first show ?thesis by simp
  next
    case False
    then have "n + 1 < 8" using Suc.prems by simp
    then show ?thesis using IH(2) [of "n + 1"] False by simp
  qed
  have "foldl (extend_step m) pcr [0..<Suc n] = extend_step m ?h n" by simp
  also have "\<dots> = ?h[n := u32 (rotl_mask 7 (?h ! n) + u32 ((m ! n) XOR (0x9E3779B9 + int n)) +
     ((if n = 7 then foldl (extend_step m) pcr [0..<1] ! 0 else pcr ! (n + 1)) XOR 0xA5A5A5A5))]"
    by (simp only: extend_step_def next_word)
  finally show ?case using IH Suc.prems 
    by (auto simp only: length_list_update nth_list_update less_Suc_eq less_irrefl if_True if_False refl
        split: if_splits)
qed

lemma extend_iff:
  assumes "row pcr" "row m" "row t"
  shows "ref_hash_extend pcr m = t \<longleftrightarrow> m = extend_inverse pcr t"
proof -
  let ?h = "ref_hash_extend pcr m"
  let ?f = "foldl (extend_step m) pcr [0..<1] ! 0"
  have len: "length pcr = 8" "length m = 8" "length t = 8" using assms by (simp_all add: row_def)
  have h: "length ?h = 8" "\<And>r. r < 8 \<Longrightarrow> ?h ! r =
      u32 (rotl_mask 7 (pcr ! r) + u32 ((m ! r) XOR (0x9E3779B9 + int r)) +
          ((if r = 7 then ?f else pcr ! (r + 1)) XOR 0xA5A5A5A5))"
    using extend_nth [OF len(1), of 8 m] by (simp_all add: extend_steps)
  have f: "?f = ?h ! 0" using h(2) [of 0] len by (simp add: extend_step_def)
  let ?i = "\<lambda>u r. u32 (t ! r - rotl_mask 7 (pcr ! r) - ((if r = 7 then u else pcr ! (r + 1)) XOR 0xA5A5A5A5))
           XOR (0x9E3779B9 + int r)"
  have cell: "?h ! r = t ! r \<longleftrightarrow> m ! r = ?i (?h ! 0) r" if "r < 8" for r
    unfolding h(2) [OF that] f using row_nth [OF assms(2) that] row_nth [OF assms(3) that] that
    by (intro extend_cell) auto
  have "?h = t \<longleftrightarrow> (\<forall>r < 8. m ! r = ?i (?h ! 0) r)"
    using cell h(1) len(3) by (simp add: list_eq_iff_nth_eq)
  also have "\<dots> \<longleftrightarrow> (\<forall>r < 8. m ! r = ?i (t ! 0) r)"
  proof (cases "?h ! 0 = t ! 0")
    case False
    with cell [of 0] have "m ! 0 \<noteq> ?i x 0" for x by simp
    then show ?thesis by (metis zero_less_numeral)
  qed simp
  also have "\<dots> \<longleftrightarrow> m = extend_inverse pcr t"
    using len(2) by (simp add: list_eq_iff_nth_eq extend_inverse_def)
  finally show ?thesis .
qed

lemma row_extend_inverse: "row (extend_inverse pcr t)"
  unfolding extend_inverse_def by (rule row_map, rule xor_word) auto

lemma row_update: "row h \<Longrightarrow> 0 \<le> v \<Longrightarrow> v < 4294967296 \<Longrightarrow> row (h[r := v])"
  using set_update_subset_insert [of h r v] by (auto simp add: row_def words_ok_def)

lemma row_extend: "row pcr \<Longrightarrow> row (ref_hash_extend pcr m)"
proof -
  have "row (foldl (extend_step m) pcr rs)" if "row pcr" for rs
    using that by (induction rs arbitrary: pcr) (simp_all add: extend_step_def row_update)
  then show "row pcr \<Longrightarrow> row (ref_hash_extend pcr m)" by (simp only: extend_steps)
qed

subsection \<open>Composite and quote\<close>

lemma row_composite_step: "row (composite_step bank acc p)"
  unfolding composite_step_def by (rule row_map) simp

lemma row_composite_iv: "row composite_iv"
  by (simp add: row_def composite_iv_def)

lemma row_composite: "row (ref_compute_composite bank pm)"
proof -
  have "row (foldl (\<lambda>acc p. if pm AND push_bit p 1 \<noteq> 0 then composite_step bank acc p else acc) acc ps)"
    if "row acc" for acc ps
    using that by (induction ps arbitrary: acc) (simp_all add: row_composite_step)
  then show ?thesis unfolding ref_compute_composite_def using row_composite_iv by blast
qed

lemma u32_xor_word:
  "0 \<le> x \<Longrightarrow> x < 4294967296 \<Longrightarrow> 0 \<le> y \<Longrightarrow> y < 4294967296 \<Longrightarrow>
    u32 ((x XOR y) XOR z) = (x XOR y) XOR u32 z"
  by (simp add: u32_xor u32_id)

lemma composite_step_cancel:
  assumes "row acc" "row acc'" "row (bank ! p)" "row (bank' ! p)"
    "composite_step bank acc p = composite_step bank' acc' p"
  shows "acc = acc' \<longleftrightarrow> bank ! p = bank' ! p"
proof -
  have eq: "rotl_mask 5 (acc ! k) XOR (bank ! p ! k) = rotl_mask 5 (acc' ! k) XOR (bank' ! p ! k)"
    if "k < 8" for k
  proof -
    have "composite_step bank acc p ! k = composite_step bank' acc' p ! k" by (simp only: assms(5))
    then show ?thesis
      using that row_nth [OF assms(3) that] row_nth [OF assms(4) that]
      by (simp add: composite_step_def u32_xor_word xor_cancel_right xor.assoc [symmetric] del: xor.assoc)
  qed
  show ?thesis
  proof
    assume "acc = acc'"
    with eq show "bank ! p = bank' ! p"
      by (intro row_eqI assms) (metis xor_cancel_right xor.commute)
  next
    assume b: "bank ! p = bank' ! p"
    have "acc ! k = acc' ! k" if "k < 8" for k
    proof (rule rotl_mask_inj [of _ _ 5])
      show "rotl_mask 5 (acc ! k) = rotl_mask 5 (acc' ! k)"
        using eq [OF that] b by (simp only: xor_cancel_right)
    qed (use row_nth [OF assms(1) that] row_nth [OF assms(2) that] in auto)
    then show "acc = acc'" by (intro row_eqI assms)
  qed
qed

lemma row_quote: "row (ref_compute_quote pm c n)"
  unfolding ref_compute_quote_def Let_def by (rule row_map) simp

lemma row_cdi: "row (ref_derive_cdi u m)"
  unfolding ref_derive_cdi_def Let_def by (rule row_map) simp

lemma row_zero [simp]: "row (replicate 8 0)"
  by (simp add: row_def words_ok_def)


subsection \<open>The emitted result\<close>

lemma pack_row_put:
  assumes "row ws" "off + 32 \<le> length buf"
  shows "pack_row off ws buf = Inr (put off (words_bytes ws) buf)"
  using assms pack_words_loop [of ws 8 off buf] by (simp only: pack_row_def row_def) auto

lemma pack_bank_put:
  assumes "\<forall>w \<in> set bank. row w" "n \<le> length bank" "off + 32 * length bank \<le> length buf"
  shows "foldE (\<lambda>b p. pack_row (off + p * 32) (bank ! p) b) buf [0..<n] =
    Inr (put off (concat (map words_bytes (take n bank))) buf)"
  using assms(2)
proof (induction n)
  case 0
  then show ?case by (simp add: put_def)
next
  case (Suc n)
  let ?X = "concat (map words_bytes (take n bank))"
  have r: "row (bank ! n)" using Suc.prems assms(1) by simp
  have "length w = 8" if "w \<in> set (take n bank)" for w
    using that assms(1) by (auto simp add: row_def dest: in_set_takeD)
  then have "map length (map words_bytes (take n bank)) = replicate n 32"
    using Suc.prems by (intro replicate_eqI) auto
  then have l: "length ?X = n * 32" by (simp add: length_concat sum_list_replicate)
  have fit: "off + length ?X + 32 \<le> length buf" using assms(3) Suc.prems l by simp
  have "pack_row (off + n * 32) (bank ! n) (put off ?X buf) =
      Inr (put (off + n * 32) (words_bytes (bank ! n)) (put off ?X buf))"
    using r fit l by (intro pack_row_put) simp_all
  also have "put (off + n * 32) (words_bytes (bank ! n)) (put off ?X buf) =
      put off (?X @ words_bytes (bank ! n)) buf"
    using fit l r by (intro put_put_adjacent) (simp_all add: row_def)
  finally show ?case using Suc l
    by (simp add: foldE_append take_Suc_conv_app_nth)
qed

definition state_ok :: "dice_state \<Rightarrow> bool" where
  "state_ok s \<longleftrightarrow> row (st_cdi s) \<and> row (st_comp s) \<and> row (st_quote s) \<and>
     length (st_bank s) = PCR_COUNT \<and> (\<forall>w \<in> set (st_bank s). row w) \<and>
     words_ok [st_status s, st_outcome s, st_cycles s]"

lemma slice_concat_words:
  "\<forall>w \<in> set bank. row w \<Longrightarrow> p < length bank \<Longrightarrow>
    slice (p * 32) ((p + 1) * 32) (concat (map words_bytes bank)) = words_bytes (bank ! p)"
proof (induction bank arbitrary: p)
  case (Cons w bank)
  then have w: "length (words_bytes w) = 32" by (simp add: row_def)
  show ?case
  proof (cases p)
    case 0
    with w show ?thesis by (simp add: slice_def)
  next
    case (Suc q)
    have "slice (p * 32) ((p + 1) * 32) (concat (map words_bytes (w # bank))) =
      slice (p * 32 - 32) ((p + 1) * 32 - 32) (concat (map words_bytes bank))"
      using w Suc by (simp add: slice_append_right)
    also have "\<dots> = slice (q * 32) ((q + 1) * 32) (concat (map words_bytes bank))" using Suc by simp
    also have "\<dots> = words_bytes (bank ! q)" by (rule Cons.IH) (use Cons.prems Suc in simp_all)
    finally show ?thesis using Suc by simp
  qed
qed simp

lemma slice_slice: "j \<le> n - m \<Longrightarrow> slice i j (slice m n xs) = slice (m + i) (m + j) xs"
  by (simp add: slice_def min_def drop_take add.commute)

text \<open>The result buffer of a state, read back by the unpacker.\<close>

definition dice_image :: "int \<Rightarrow> int \<Rightarrow> int \<Rightarrow> int \<Rightarrow> dice_state \<Rightarrow> bytes" where
  "dice_image op_mode pcr_mask seq_id pcr_index s =
     put 0 (words_bytes [MAGIC_DESC_DR34, op_mode, st_status s, pcr_mask, seq_id, st_outcome s,
       st_cycles s, pcr_index] @ words_bytes (st_comp s) @ words_bytes (st_quote s) @
       words_bytes (st_cdi s) @ concat (map words_bytes (st_bank s)) @ dice_canary) (zeros 2048)"

lemma length_bank_bytes:
  "\<forall>w \<in> set bank. row w \<Longrightarrow> length (concat (map words_bytes bank)) = 32 * length bank"
  by (induction bank) (simp_all add: row_def)

lemma dice_emit_eq:
  assumes "state_ok s" "words_ok [op_mode, pcr_mask, seq_id, pcr_index]"
  shows "dice_emit op_mode pcr_mask seq_id pcr_index s =
    Inr (foldl (\<lambda>b k. b[k := word_of_int ((int k XOR op_mode) AND 0xFF)])
      (dice_image op_mode pcr_mask seq_id pcr_index s) [400..<416])"
proof -
  let ?h = "words_bytes [MAGIC_DESC_DR34, op_mode, st_status s, pcr_mask, seq_id, st_outcome s,
       st_cycles s, pcr_index]"
  let ?bank = "concat (map words_bytes (st_bank s))"
  have rows: "row (st_comp s)" "row (st_quote s)" "row (st_cdi s)"
    and bank: "length (st_bank s) = 8" "\<forall>w \<in> set (st_bank s). row w"
    using assms(1) by (simp_all add: state_ok_def)
  have lens: "length (words_bytes (st_comp s)) = 32" "length (words_bytes (st_quote s)) = 32"
    "length (words_bytes (st_cdi s)) = 32" "length ?bank = 256"
    using rows length_bank_bytes [OF bank(2)] bank(1) by (simp_all add: row_def)
  have 1: "struct_pack_into dice_header (zeros RESULT_TOTAL_BYTES) 0
      [MAGIC_DESC_DR34, op_mode, st_status s, pcr_mask, seq_id, st_outcome s, st_cycles s, pcr_index] =
      Inr (put 0 ?h (zeros 2048))"
    using assms by (subst struct_pack_into_fits) (simp_all add: state_ok_def)
  let ?w = "\<lambda>x. put 0 x (zeros 2048)"
  have 2: "pack_row 32 (st_comp s) (?w ?h) = Inr (?w (?h @ words_bytes (st_comp s)))"
    using lens by (subst pack_row_put [OF rows(1)]) (simp_all add: put_put_adjacent)
  have 3: "pack_row 64 (st_quote s) (?w (?h @ words_bytes (st_comp s))) =
      Inr (?w ((?h @ words_bytes (st_comp s)) @ words_bytes (st_quote s)))"
    using lens by (subst pack_row_put [OF rows(2)]) (simp_all add: put_put_adjacent)
  have 4: "pack_row 96 (st_cdi s) (?w ((?h @ words_bytes (st_comp s)) @ words_bytes (st_quote s))) =
      Inr (?w (((?h @ words_bytes (st_comp s)) @ words_bytes (st_quote s)) @ words_bytes (st_cdi s)))"
    using lens by (subst pack_row_put [OF rows(3)]) (simp_all add: put_put_adjacent)
  let ?x = "((?h @ words_bytes (st_comp s)) @ words_bytes (st_quote s)) @ words_bytes (st_cdi s)"
  have 5: "foldE (\<lambda>b p. pack_row (128 + p * 32) (st_bank s ! p) b) (?w ?x) [0..<PCR_COUNT] =
      Inr (?w (?x @ ?bank))"
    using lens bank pack_bank_put [of "st_bank s" 8 128 "?w ?x"] by (simp add: put_put_adjacent)
  have 6: "assign_slice 384 400 dice_canary (?w (?x @ ?bank)) = ?w ((?x @ ?bank) @ dice_canary)"
    using lens by (subst assign_slice_put) (simp_all add: put_put_adjacent dice_canary_def)
  show ?thesis
    by (simp only: dice_emit_def 1 2 3 4 5 6 bindE_simps Let_def) (simp only: dice_image_def append_assoc)
qed


definition dice_view :: "int \<Rightarrow> int \<Rightarrow> int \<Rightarrow> int \<Rightarrow> dice_state \<Rightarrow> bytes \<Rightarrow> dice_result" where
  "dice_view op_mode pcr_mask seq_id pcr_index s canary =
     \<lparr>dq_magic = MAGIC_DESC_DR34, dq_op_mode = op_mode, dq_status = st_status s,
      dq_pcr_mask = pcr_mask, dq_seq_id = seq_id, dq_outcome = st_outcome s,
      dq_cycle_estimate = st_cycles s, dq_pcr_index = pcr_index,
      dq_composite_digest = words_bytes (st_comp s), dq_quote_digest = words_bytes (st_quote s),
      dq_cdi_or_seal = words_bytes (st_cdi s), dq_pcr_bank = map words_bytes (st_bank s),
      dq_canary = canary\<rparr>"

lemma slice_append_mid:
  "length xs = i \<Longrightarrow> length ys = j - i \<Longrightarrow> slice i j (xs @ ys @ zs) = ys"
  by (simp add: slice_def)

lemma dice_emit_view:
  assumes "state_ok s" "words_ok [op_mode, pcr_mask, seq_id, pcr_index]"
  shows "\<exists>r c. dice_emit op_mode pcr_mask seq_id pcr_index s = Inr r \<and>
    unpack_dr34_result r = Inr (dice_view op_mode pcr_mask seq_id pcr_index s c)"
proof -
  let ?hv = "[MAGIC_DESC_DR34, op_mode, st_status s, pcr_mask, seq_id, st_outcome s, st_cycles s, pcr_index]"
  let ?bank = "concat (map words_bytes (st_bank s))"
  define r where "r = foldl (\<lambda>b k. b[k := word_of_int ((int k XOR op_mode) AND 0xFF)])
      (dice_image op_mode pcr_mask seq_id pcr_index s) [400..<416]"
  have rows: "row (st_comp s)" "row (st_quote s)" "row (st_cdi s)"
    and bank: "length (st_bank s) = 8" "\<forall>w \<in> set (st_bank s). row w"
    using assms(1) by (simp_all add: state_ok_def)
  have lens: "length (words_bytes ?hv) = 32" "length (words_bytes (st_comp s)) = 32"
    "length (words_bytes (st_quote s)) = 32"
    "length (words_bytes (st_cdi s)) = 32" "length ?bank = 256" "length dice_canary = 16"
    using rows length_bank_bytes [OF bank(2)] bank(1) by (simp_all add: row_def dice_canary_def)
  define z where "z = drop 400 (zeros 2048)"
  have img: "dice_image op_mode pcr_mask seq_id pcr_index s =
    words_bytes ?hv @ words_bytes (st_comp s) @ words_bytes (st_quote s) @ words_bytes (st_cdi s) @
      ?bank @ dice_canary @ z" (is "?I = _")
    unfolding dice_image_def put_def using lens by (simp only: length_append) (simp add: z_def)
  have len: "length r = 2048"
    unfolding r_def img using lens by (simp only: length_foldl_update length_append) (simp add: z_def)
  have sl: "slice i j r = slice i j ?I" if "j \<le> 400" for i j
    unfolding r_def using that by (intro slice_foldl_update) (auto simp only: set_upt atLeastLessThan_iff)
  have s0: "slice 0 32 r = words_bytes ?hv"
    unfolding sl [of 32, simplified] img slice_append_left [OF eq_refl [OF lens(1) [symmetric]]]
    by (rule slice_full) (use lens(1) in simp)
  have s1: "slice 32 64 r = words_bytes (st_comp s)"
    unfolding sl [of 64, simplified] img by (rule slice_append_mid) (use lens in simp_all)
  have s2: "slice 64 96 r = words_bytes (st_quote s)"
    unfolding sl [of 96, simplified] img append_assoc [symmetric, of "words_bytes ?hv"]
    by (rule slice_append_mid) (use lens in simp_all)
  have s3: "slice 96 128 r = words_bytes (st_cdi s)"
    unfolding sl [of 128, simplified] img append_assoc [symmetric, of "words_bytes ?hv"]
      append_assoc [symmetric, of _ "words_bytes (st_quote s)"]
    by (rule slice_append_mid) (use lens in simp_all)
  have img4: "?I = (words_bytes ?hv @ words_bytes (st_comp s) @ words_bytes (st_quote s) @
      words_bytes (st_cdi s)) @ ?bank @ dice_canary @ z" by (simp only: img append_assoc)
  have s4: "slice 128 384 r = ?bank"
    unfolding sl [of 384, simplified] img4 by (rule slice_append_mid) (use lens in simp_all)
  have s5: "slice (128 + p * 32) (128 + (p + 1) * 32) r = words_bytes (st_bank s ! p)" if "p < 8" for p
  proof -
    have "slice (128 + p * 32) (128 + (p + 1) * 32) r = slice (p * 32) ((p + 1) * 32) (slice 128 384 r)"
      using that by (subst slice_slice) simp_all
    also have "\<dots> = words_bytes (st_bank s ! p)"
      unfolding s4 using bank that by (intro slice_concat_words) simp_all
    finally show ?thesis .
  qed
  have hw: "words_ok ?hv" using assms by (simp add: state_ok_def)
  have hd: "struct_unpack_from dice_header r 0 = Inr ?hv"
  proof (subst struct_unpack_from_slice [of 0 _ r "words_bytes ?hv"])
    show "slice 0 (0 + struct_size dice_header) r = words_bytes ?hv" using s0 by simp
    show "0 + struct_size dice_header \<le> length r" using len by simp
    have "replicate (length ?hv) (U 4) = dice_header" by (simp add: eval_nat_numeral)
    then have "struct_unpack dice_header (words_bytes ?hv) = ?hv"
      using struct_unpack_words [OF hw, of "[]"] by (simp only: append_Nil2)
    then show "Inr (struct_unpack dice_header (words_bytes ?hv)) = Inr ?hv" by simp
  qed
  have bk: "map (\<lambda>p. slice (128 + p * 32) (128 + (p + 1) * 32) r) [0..<8] = map words_bytes (st_bank s)"
    by (rule nth_equalityI) (use bank(1) s5 in simp_all)
  have nl: "\<not> length r < RESULT_TOTAL_BYTES" using len by simp
  have "unpack_dr34_result r = Inr (dice_view op_mode pcr_mask seq_id pcr_index s (slice 384 416 r))"
    unfolding unpack_dr34_result_def hd s1 s2 s3 bk dice_view_def using nl
    by simp
  moreover have "dice_emit op_mode pcr_mask seq_id pcr_index s = Inr r"
    unfolding r_def by (rule dice_emit_eq) (use assms in simp_all)
  ultimately show ?thesis by blast
qed


subsection \<open>Evaluating a call\<close>

definition req_words :: "bytes \<Rightarrow> nat \<Rightarrow> int list" where
  "req_words req off = struct_unpack (replicate 8 (U 4)) (drop off req)"

lemma row_req_words [simp]: "row (req_words req off)"
  by (simp add: req_words_def)

definition req_bank :: "bytes \<Rightarrow> int list list" where
  "req_bank req = map (\<lambda>p. req_words req (128 + p * 32)) [0..<8]"

lemma req_bank_facts [simp]: "length (req_bank req) = 8" "w \<in> set (req_bank req) \<Longrightarrow> row w"
  by (auto simp add: req_bank_def)

lemma oracle_eval:
  assumes "pack_dr34_descriptor op pcr_index pcr_mask nl sl fl seq = Inr desc" "4481 \<le> length req"
  shows "reference_dr34_oracle desc req =
    bindE
       (if op = MODE_DICE_EXTEND_PCR
        then Inr (dice_extend pcr_index pcr_mask (req_words req 32) (dice_start (req_bank req)))
        else if op = MODE_DICE_GENERATE_QUOTE
        then Inr (dice_quote pcr_mask (req_words req 64) (dice_start (req_bank req)))
        else if op = MODE_DICE_VERIFY_QUOTE
        then dice_verify pcr_mask (req_words req 64) (req_words req 96) req (dice_start (req_bank req))
        else if op = MODE_DICE_DERIVE_CDI
        then Inr (dice_cdi pcr_mask (req_words req 384) (req_words req 32) (dice_start (req_bank req)))
        else Inr (dice_seal pcr_mask (req_words req 32) (dice_start (req_bank req))))
       (\<lambda>s. dice_emit op pcr_mask seq pcr_index s)"
    "words_ok [op, pcr_mask, seq, pcr_index]"
proof -
  note d = packed_once(2) [OF assms(1) [unfolded pack_dr34_descriptor_def], of "[]"]
  have dw: "struct_unpack_from dice_header desc 0 =
      Inr [MAGIC_DESC_DR34, op, pcr_index, pcr_mask, nl, sl, fl, seq]" using d by simp
  have rd: "struct_unpack_from (replicate 8 (U 4)) req off = Inr (req_words req off)" if "off \<le> 400" for off
    using that assms(2) by (simp add: struct_unpack_from_def req_words_def)
  have bk: "mapE (\<lambda>p. struct_unpack_from (replicate 8 (U 4)) req (128 + p * 32)) [0..<8] = Inr (req_bank req)"
    unfolding req_bank_def by (rule mapE_total) (rule rd, simp only: set_upt atLeastLessThan_iff, linarith)
  show "reference_dr34_oracle desc req = bindE
       (if op = MODE_DICE_EXTEND_PCR
        then Inr (dice_extend pcr_index pcr_mask (req_words req 32) (dice_start (req_bank req)))
        else if op = MODE_DICE_GENERATE_QUOTE
        then Inr (dice_quote pcr_mask (req_words req 64) (dice_start (req_bank req)))
        else if op = MODE_DICE_VERIFY_QUOTE
        then dice_verify pcr_mask (req_words req 64) (req_words req 96) req (dice_start (req_bank req))
        else if op = MODE_DICE_DERIVE_CDI
        then Inr (dice_cdi pcr_mask (req_words req 384) (req_words req 32) (dice_start (req_bank req)))
        else Inr (dice_seal pcr_mask (req_words req 32) (dice_start (req_bank req))))
       (\<lambda>s. dice_emit op pcr_mask seq pcr_index s)"
    unfolding reference_dr34_oracle_def dw bindE_simps Let_def bk
    by (simp add: rd)
  from assms(1) have "struct_fits dice_header [MAGIC_DESC_DR34, op, pcr_index, pcr_mask, nl, sl, fl, seq]"
    unfolding pack_dr34_descriptor_def by (rule struct_pack_into_put)
  then show "words_ok [op, pcr_mask, seq, pcr_index]" by simp
qed

lemma state_ok_start:
  assumes "length bank = 8" "\<forall>w \<in> set bank. row w"
  shows "state_ok (dice_start bank)"
  using assms row_zero unfolding state_ok_def dice_start_def dice_state.select_convs by simp

lemma state_ok_extend:
  assumes "state_ok s" "st_cycles s = 350" "0 \<le> i"
  shows "state_ok (dice_extend i pm m s)"
proof (cases "8 \<le> i")
  case True
  with assms show ?thesis by (simp add: dice_extend_def state_ok_def)
next
  case False
  have "row (ref_hash_extend (st_bank s ! nat i) m)"
    using assms False by (intro row_extend) (simp add: state_ok_def)
  then have "\<forall>w \<in> set ((st_bank s)[nat i := ref_hash_extend (st_bank s ! nat i) m]). row w"
    using assms(1) set_update_subset_insert [of "st_bank s" "nat i" "ref_hash_extend (st_bank s ! nat i) m"]
    by (auto simp add: state_ok_def)
  with assms False show ?thesis by (simp add: dice_extend_def Let_def state_ok_def row_composite)
qed

lemma dice_verify_state:
  assumes "dice_sig_match req = Inr b"
  shows "\<exists>s'. dice_verify pm n e req s = Inr s' \<and> (state_ok s \<and> st_cycles s = 350 \<longrightarrow> state_ok s') \<and>
    (st_outcome s' = 1 \<longleftrightarrow> ref_compute_composite (st_bank s) pm = e \<and> b) \<and>
    (st_outcome s' = 1 \<longleftrightarrow> st_status s' = DICE_STATUS_SUCCESS) \<and>
    st_comp s' = ref_compute_composite (st_bank s) pm \<and> st_bank s' = st_bank s"
  using assms
  by (auto simp add: dice_verify_def Let_def state_ok_def row_composite row_quote)

lemma sig_match_total: "4481 \<le> length req \<Longrightarrow> \<exists>b. dice_sig_match req = Inr b"
  by (simp add: dice_sig_match_def)


subsection \<open>The packed request\<close>

lemma length_fixed32 [simp]: "length (fixed32 x) = 32"
  by (simp add: fixed32_def)

lemma fixed32_id: "length x = 32 \<Longrightarrow> fixed32 x = x"
  by (simp add: fixed32_def ljust_id)

lemma place_bank_put:
  "dice_place_bank (Some b) req =
     foldl (\<lambda>req p. put (128 + p * 32) (fixed32 (b ! p)) req) req [0..<min (length b) 8]"
  by (simp add: dice_place_bank_def assign_slice_put)

lemma fold_bank_slices:
  assumes "128 + n * 32 \<le> length req"
  shows "length (foldl (\<lambda>req p. put (128 + p * 32) (fixed32 (b ! p)) req) req [0..<n]) = length req"
    "j \<le> 128 \<or> 128 + n * 32 \<le> i \<Longrightarrow>
      slice i j (foldl (\<lambda>req p. put (128 + p * 32) (fixed32 (b ! p)) req) req [0..<n]) = slice i j req"
    "p < n \<Longrightarrow> slice (128 + p * 32) (128 + p * 32 + 32)
      (foldl (\<lambda>req p. put (128 + p * 32) (fixed32 (b ! p)) req) req [0..<n]) = fixed32 (b ! p)"
  using assms
proof (induction n)
  case (Suc n)
  let ?B = "foldl (\<lambda>req p. put (128 + p * 32) (fixed32 (b ! p)) req) req [0..<n]"
  {
    case 1
    with Suc.IH(1) show ?case by simp
  next
    case 2
    with Suc.IH(1,2) show ?case by (auto simp add: slice_put_below slice_put_above)
  next
    case 3
    with Suc.IH(1,3) show ?case
      by (cases "p = n") (auto simp add: slice_put_at slice_put_below)
  }
qed simp_all

lemma slice_one_update: "k < length xs \<Longrightarrow> xs[k := v] ! k = v"
  by simp

lemma place_extended_sig: "length sg = 2420 \<Longrightarrow> dice_place_extended None (Some sg) x req = put 2048 sg req"
  by (cases "sg = []") (simp_all add: dice_place_extended_def assign_slice_put)

lemma packed_request:
  assumes "pack_dr34_request r = Inr req" "rq_initial_pcr_bank r = Some b" "length b = 8"
    "\<forall>x \<in> set b. length x = 32" "length (rq_expected_composite r) = 32"
    "rq_ak_pk r = None" "rq_ak_sig r = Some sg" "length sg = 2420" "any_nonzero (take 32 sg)"
  shows "length req = REQ_TOTAL_BYTES" "slice 96 128 req = rq_expected_composite r"
    "p < 8 \<Longrightarrow> slice (128 + p * 32) (128 + p * 32 + 32) req = b ! p"
    "dice_sig_match req = Inr (rq_sig_valid r)"
proof -
  obtain h where h: "length h = REQ_TOTAL_BYTES" and req: "req =
    (put 2048 sg (put 416 (ljust 64 (take 64 (rq_signature r))) (put 384 (fixed32 (rq_uds_key r))
      (foldl (\<lambda>req p. put (128 + p * 32) (fixed32 (b ! p)) req)
        (put 96 (rq_expected_composite r) (put 64 (fixed32 (rq_nonce r))
          (put 32 (fixed32 (rq_measurement r)) h))) [0..<8]))))[4480 := (if rq_sig_valid r then 1 else 0)]"
    using assms(1)
    by (auto simp add: pack_dr34_request_def bindE_Inr_iff Let_def assms fixed32_id place_bank_put
        place_extended_sig assign_slice_put dest!: struct_unpack_pack_into(2))
  let ?A = "put 96 (rq_expected_composite r) (put 64 (fixed32 (rq_nonce r))
          (put 32 (fixed32 (rq_measurement r)) h))"
  let ?F = "foldl (\<lambda>req p. put (128 + p * 32) (fixed32 (b ! p)) req) ?A [0..<8]"
  let ?S = "put 416 (ljust 64 (take 64 (rq_signature r))) (put 384 (fixed32 (rq_uds_key r)) ?F)"
  have lA: "length ?A = 16384" using h assms(5) by simp
  then have lF: "length ?F = 16384" using fold_bank_slices(1) [of 8 ?A b] by simp
  then have lS: "length ?S = 16384" by simp
  show len: "length req = REQ_TOTAL_BYTES" unfolding req using lS assms(8) by simp
  have low: "slice i j req = slice i j ?F" if "j \<le> 384" for i j
    unfolding req using that lF by (simp add: slice_update_above slice_put_below)
  show "slice 96 128 req = rq_expected_composite r"
    using fold_bank_slices(2) [of 8 ?A 128 96 b] lA assms(5) h
    by (simp only: low) (simp add: slice_put_at)
  show "slice (128 + p * 32) (128 + p * 32 + 32) req = b ! p" if "p < 8"
    using fold_bank_slices(3) [of 8 ?A p b] lA that assms(3,4)
    by (simp only: low) (simp add: fixed32_id)
  have "slice 2048 2080 req = slice 0 32 (slice 2048 4468 (put 2048 sg ?S))"
    unfolding req by (subst slice_slice) (simp_all add: slice_update_above)
  also have "\<dots> = take 32 sg" using lS assms(8) by (simp add: slice_put_at) (simp add: slice_def)
  finally show "dice_sig_match req = Inr (rq_sig_valid r)"
    using assms(9) lS assms(8) len unfolding dice_sig_match_def by (simp add: req)
qed


subsection \<open>Composite chains\<close>

definition chain :: "int \<Rightarrow> int list list \<Rightarrow> nat \<Rightarrow> int list" where
  "chain pm bank n =
     foldl (\<lambda>accum p. if pm AND push_bit p 1 \<noteq> 0 then composite_step bank accum p else accum)
       composite_iv [0..<n]"

lemma chain_Suc: "chain pm bank (Suc n) =
    (if pm AND push_bit n 1 \<noteq> 0 then composite_step bank (chain pm bank n) n else chain pm bank n)"
  by (simp add: chain_def)

lemma row_chain: "row (chain pm bank n)"
proof (induction n)
  case 0
  show ?case by (simp add: chain_def row_composite_iv)
qed (simp add: chain_Suc row_composite_step)

lemma composite_step_same:
  "acc = acc' \<Longrightarrow> bank ! p = bank' ! p \<Longrightarrow> composite_step bank acc p = composite_step bank' acc' p"
  by (simp add: composite_step_def)

lemma chain_single_change:
  assumes "\<forall>w \<in> set bank. row w" "\<forall>w \<in> set bank'. row w" "length bank = 8" "length bank' = 8"
    "\<forall>q < 8. q \<noteq> p \<longrightarrow> bank ! q = bank' ! q" "pm AND push_bit p 1 \<noteq> 0" "n \<le> 8"
  shows "chain pm bank n = chain pm bank' n \<longleftrightarrow> n \<le> p \<or> bank ! p = bank' ! p"
  using assms(7)
proof (induction n)
  case (Suc n)
  have rows: "row (bank ! n)" "row (bank' ! n)" using assms(1-4) Suc.prems by simp_all
  have cancel: "chain pm bank n = chain pm bank' n \<longleftrightarrow> bank ! n = bank' ! n"
    if "composite_step bank (chain pm bank n) n = composite_step bank' (chain pm bank' n) n"
    by (rule composite_step_cancel) (use that rows row_chain in auto)
  consider "n < p" | "n = p" | "p < n" by linarith
  then show ?case
  proof cases
    case 1
    with Suc assms(5) show ?thesis by (simp add: chain_Suc composite_step_def)
  next
    case 2
    with Suc cancel composite_step_same [of "chain pm bank n" "chain pm bank' n" bank n bank'] assms(6)
    show ?thesis by (auto simp add: chain_Suc)
  next
    case 3
    with Suc cancel composite_step_same [of "chain pm bank n" "chain pm bank' n" bank n bank'] assms(5)
    show ?thesis by (auto simp add: chain_Suc)
  qed
qed (simp add: chain_def)

lemma composite_mask_zero: "ref_compute_composite bank 0 = composite_iv"
proof -
  have "foldl (\<lambda>a p. a) x ps = x" for x :: "int list" and ps :: "nat list"
    by (induction ps) simp_all
  then show ?thesis by (simp only: ref_compute_composite_def) simp
qed

subsection \<open>Properties\<close>

text \<open>
  C34. A VERIFY_QUOTE call is decided exactly: it always returns a result, its outcome is 1 iff its
  status is SUCCESS, iff the composite recomputed from the request's PCR bank under the mask is the
  expected composite and the signature marker of the request is set.  The bank is reported unchanged
  and the nonce plays no part.
\<close>

theorem dice_verify_exact:
  assumes "pack_dr34_descriptor MODE_DICE_VERIFY_QUOTE pcr_index pcr_mask nl sl fl seq = Inr desc"
    "4481 \<le> length req"
  shows "\<exists>r d b. reference_dr34_oracle desc req = Inr r \<and> unpack_dr34_result r = Inr d \<and>
    dice_sig_match req = Inr b \<and>
    (dq_outcome d = 1 \<longleftrightarrow>
       ref_compute_composite (map (\<lambda>p. req_words req (128 + p * 32)) [0..<8]) pcr_mask = req_words req 96 \<and> b) \<and>
    (dq_outcome d = 1 \<longleftrightarrow> dq_status d = DICE_STATUS_SUCCESS) \<and>
    dq_pcr_bank d = map (\<lambda>p. words_bytes (req_words req (128 + p * 32))) [0..<8]"
proof -
  obtain b where b: "dice_sig_match req = Inr b" using sig_match_total [OF assms(2)] ..
  obtain s where s: "dice_verify pcr_mask (req_words req 64) (req_words req 96) req (dice_start (req_bank req)) = Inr s"
    "state_ok s" "st_outcome s = 1 \<longleftrightarrow> ref_compute_composite (req_bank req) pcr_mask = req_words req 96 \<and> b"
    "st_outcome s = 1 \<longleftrightarrow> st_status s = DICE_STATUS_SUCCESS" "st_bank s = req_bank req"
    using dice_verify_state [OF b, of pcr_mask "req_words req 64" "req_words req 96" "dice_start (req_bank req)"]
      state_ok_start [of "req_bank req"] by (auto simp add: dice_start_def)
  note e = oracle_eval [OF assms]
  from dice_emit_view [OF s(2) e(2)] obtain r c where
    "dice_emit MODE_DICE_VERIFY_QUOTE pcr_mask seq pcr_index s = Inr r"
    "unpack_dr34_result r = Inr (dice_view MODE_DICE_VERIFY_QUOTE pcr_mask seq pcr_index s c)" by blast
  with e(1) s(1) b s(3-5) show ?thesis
    by (auto simp add: dice_view_def req_bank_def comp_def)
qed

theorem dice_verify_exact_witness:
  "\<exists>desc r d. pack_dr34_descriptor MODE_DICE_VERIFY_QUOTE 0 0 32 64 0 1 = Inr desc \<and>
     reference_dr34_oracle desc (zeros REQ_TOTAL_BYTES) = Inr r \<and> unpack_dr34_result r = Inr d \<and>
     dq_outcome d \<noteq> 1"
proof -
  obtain desc where d: "pack_dr34_descriptor MODE_DICE_VERIFY_QUOTE 0 0 32 64 0 1 = Inr desc"
    by (simp add: pack_dr34_descriptor_def struct_pack_into_fits)
  have "req_words (zeros 16384) 96 ! 0 = 0" by (simp add: req_words_def struct_unpack_replicate_U)
  moreover have "composite_iv ! 0 \<noteq> 0" by (simp add: composite_iv_def)
  ultimately have "req_words (zeros 16384) 96 \<noteq> composite_iv" by force
  then have "ref_compute_composite bank 0 \<noteq> req_words (zeros 16384) 96" for bank
    by (simp add: composite_mask_zero)
  with dice_verify_exact [OF d, of "zeros REQ_TOTAL_BYTES"] d show ?thesis by auto
qed


text \<open>
  End to end: when a request is packed with a bank of eight 32-byte registers, a 32-byte
  expected composite and an attestation signature whose first 32 bytes are not all zero, the quote
  is accepted exactly when the expected composite is that of the packed bank and the caller set
  \<open>sig_valid\<close>: the signature, the attestation key and the nonce do not enter the decision.
\<close>

theorem dice_request_verdict:
  assumes "pack_dr34_request rq = Inr req" "rq_initial_pcr_bank rq = Some bank" "length bank = PCR_COUNT"
    "\<forall>x \<in> set bank. length x = 32" "length (rq_expected_composite rq) = 32" "rq_ak_pk rq = None"
    "rq_ak_sig rq = Some sg" "length sg = 2420" "any_nonzero (take 32 sg)"
    "pack_dr34_descriptor MODE_DICE_VERIFY_QUOTE pcr_index pcr_mask nl sl fl seq = Inr desc"
  shows "\<exists>r d. reference_dr34_oracle desc req = Inr r \<and> unpack_dr34_result r = Inr d \<and>
    (dq_outcome d = 1 \<longleftrightarrow>
      ref_compute_composite (map (struct_unpack (replicate 8 (U 4))) bank) pcr_mask =
        struct_unpack (replicate 8 (U 4)) (rq_expected_composite rq) \<and> rq_sig_valid rq)"
proof -
  note p = packed_request [OF assms(1-9)]
  have w: "req_words req off = struct_unpack (replicate 8 (U 4)) x"
    if "slice off (off + 32) req = x" for off x
  proof -
    have "struct_unpack (replicate 8 (U 4)) (take 32 (drop off req)) = req_words req off"
      unfolding req_words_def by (rule struct_unpack_take) simp
    with that show ?thesis by (simp add: slice_def)
  qed
  have bank: "req_bank req = map (struct_unpack (replicate 8 (U 4))) bank"
  proof (rule nth_equalityI)
    fix i
    assume "i < length (req_bank req)"
    then have "i < 8" by simp
    with w [OF p(3)] assms(3) show "req_bank req ! i = map (struct_unpack (replicate 8 (U 4))) bank ! i"
      by (simp add: req_bank_def)
  qed (use assms(3) in simp)
  have e: "req_words req 96 = struct_unpack (replicate 8 (U 4)) (rq_expected_composite rq)"
    by (rule w) (simp add: p(2))
  have "4481 \<le> length req" using p(1) by simp
  note o = oracle_eval [OF assms(10) this]
  obtain s where s: "dice_verify pcr_mask (req_words req 64) (req_words req 96) req (dice_start (req_bank req)) = Inr s"
    "state_ok s" "st_outcome s = 1 \<longleftrightarrow>
      ref_compute_composite (req_bank req) pcr_mask = req_words req 96 \<and> rq_sig_valid rq"
    using dice_verify_state [OF p(4), of pcr_mask "req_words req 64" "req_words req 96" "dice_start (req_bank req)"]
      state_ok_start [of "req_bank req"] by (auto simp add: dice_start_def)
  from dice_emit_view [OF s(2) o(2)] obtain r c where
    "dice_emit MODE_DICE_VERIFY_QUOTE pcr_mask seq pcr_index s = Inr r"
    "unpack_dr34_result r = Inr (dice_view MODE_DICE_VERIFY_QUOTE pcr_mask seq pcr_index s c)" by blast
  with o(1) s(1,3) bank e show ?thesis by (auto simp add: dice_view_def)
qed

definition demo_request :: "bool \<Rightarrow> dice_request" where
  "demo_request v = \<lparr>rq_measurement = zeros 32, rq_nonce = zeros 32,
     rq_expected_composite = words_bytes composite_iv,
     rq_initial_pcr_bank = Some (replicate 8 (zeros 32)), rq_uds_key = zeros 32,
     rq_signature = zeros 64, rq_seq_id = 1, rq_ak_pk = None, rq_ak_sig = Some (1 # zeros 2419),
     rq_sig_valid = v\<rparr>"

theorem dice_request_verdict_witness:
  "\<forall>v. \<exists>req desc r d. pack_dr34_request (demo_request v) = Inr req \<and>
     reference_dr34_oracle desc req = Inr r \<and> unpack_dr34_result r = Inr d \<and> (dq_outcome d = 1 \<longleftrightarrow> v)"
proof
  fix v
  obtain desc where d: "pack_dr34_descriptor MODE_DICE_VERIFY_QUOTE 0 0 32 64 0 1 = Inr desc"
    by (simp add: pack_dr34_descriptor_def struct_pack_into_fits)
  obtain req where r: "pack_dr34_request (demo_request v) = Inr req"
    by (simp add: pack_dr34_request_def demo_request_def struct_pack_into_fits)
  have iv: "struct_unpack (replicate 8 (U 4)) (words_bytes composite_iv) = composite_iv"
    using struct_unpack_words [of composite_iv "[]"] row_composite_iv
    by (simp only: row_def append_Nil2)
  note c = composite_mask_zero
  have any: "any_nonzero (take 32 (1 # zeros 2419))" by (simp add: any_nonzero_def)
  have len: "length (words_bytes composite_iv) = 32" by (simp add: composite_iv_def)
  have f: "rq_initial_pcr_bank (demo_request v) = Some (replicate 8 (zeros 32))"
    "rq_expected_composite (demo_request v) = words_bytes composite_iv" "rq_ak_pk (demo_request v) = None"
    "rq_ak_sig (demo_request v) = Some (1 # zeros 2419)" "rq_sig_valid (demo_request v) = v"
    by (simp_all add: demo_request_def)
  have "\<exists>x d. reference_dr34_oracle desc req = Inr x \<and> unpack_dr34_result x = Inr d \<and> (dq_outcome d = 1 \<longleftrightarrow> v)"
    using dice_request_verdict [OF r f(1) _ _ _ f(3,4) _ any d] len unfolding f(2,5) c iv by simp
  with r show "\<exists>req desc r d. pack_dr34_request (demo_request v) = Inr req \<and>
      reference_dr34_oracle desc req = Inr r \<and> unpack_dr34_result r = Inr d \<and> (dq_outcome d = 1 \<longleftrightarrow> v)" by blast
qed

text \<open>
  Extension is a bijection of the measurement: for every register value and every target
  there is exactly one measurement that takes the register there.  So distinct measurements give
  distinct registers, and, unlike a hash extension, any register value can be steered to.
\<close>

theorem extend_bijective:
  assumes "row pcr" "row t"
  shows "\<exists>!m. row m \<and> ref_hash_extend pcr m = t"
proof
  show "row (extend_inverse pcr t) \<and> ref_hash_extend pcr (extend_inverse pcr t) = t"
    using extend_iff [OF assms(1) row_extend_inverse assms(2)] row_extend_inverse by simp
qed (use extend_iff assms in auto)

theorem extend_bijective_witness:
  "\<exists>!m. row m \<and> ref_hash_extend (replicate 8 0) m = composite_iv"
  by (rule extend_bijective) (use row_zero row_composite_iv in simp_all)

text \<open>
  The composite detects every change of one register it covers: two banks that differ in
  at most one selected register have the same composite iff they are equal there.
\<close>

theorem composite_detects_change:
  assumes "\<forall>w \<in> set bank. row w" "\<forall>w \<in> set bank'. row w" "length bank = PCR_COUNT"
    "length bank' = PCR_COUNT" "p < PCR_COUNT" "\<forall>q < PCR_COUNT. q \<noteq> p \<longrightarrow> bank ! q = bank' ! q"
    "pcr_mask AND push_bit p 1 \<noteq> 0"
  shows "ref_compute_composite bank pcr_mask = ref_compute_composite bank' pcr_mask \<longleftrightarrow> bank ! p = bank' ! p"
  using chain_single_change [OF assms(1-4,6,7), of 8] assms(5)
  by (simp add: chain_def ref_compute_composite_def)

theorem composite_detects_change_witness:
  "ref_compute_composite (replicate 8 (replicate 8 0)) 0x0F \<noteq>
   ref_compute_composite ((replicate 8 (replicate 8 0))[2 := composite_iv]) 0x0F"
proof -
  let ?b = "replicate 8 (replicate 8 0) :: int list list"
  have "\<forall>w \<in> set (?b[2 := composite_iv]). row w"
    using set_update_subset_insert [of ?b 2 composite_iv] row_zero row_composite_iv by auto
  moreover have "replicate 8 0 \<noteq> composite_iv" by (simp add: composite_iv_def eval_nat_numeral)
  ultimately show ?thesis
    using composite_detects_change [of ?b "?b[2 := composite_iv]" 2 15] row_zero
    by (simp only: length_replicate length_list_update nth_list_update nth_replicate set_replicate_conv_if) simp
qed

text \<open>
  The quote digest binds the exclusive-or of composite and nonce and nothing else: two quotes
  under one mask are equal iff the two exclusive-ors are.  A quote over one composite is therefore
  also the quote of any other composite under a matching nonce.
\<close>

theorem quote_binds_xor:
  assumes "row c" "row n" "row c'" "row n'"
  shows "ref_compute_quote pcr_mask c n = ref_compute_quote pcr_mask c' n' \<longleftrightarrow>
    (\<forall>k < 8. (c ! k) XOR (n ! k) = (c' ! k) XOR (n' ! k))"
proof -
  have cell: "ref_compute_quote pcr_mask c n ! k = ref_compute_quote pcr_mask c' n' ! k \<longleftrightarrow>
      (c ! k) XOR (n ! k) = (c' ! k) XOR (n' ! k)" if k: "k < 8" for k
  proof -
    let ?z = "u32 (pcr_mask + int k * 0x1010101)"
    let ?t = "\<lambda>c n. ((c ! k) XOR (n ! k)) XOR ?z"
    have r: "0 \<le> ?t c n" "?t c n < 4294967296" if "row c" "row n" for c n
      using xor_word [of "(c ! k) XOR (n ! k)" ?z] xor_word [of "c ! k" "n ! k"]
        row_nth [OF that(1) k] row_nth [OF that(2) k] by simp_all
    have q: "ref_compute_quote pcr_mask c n ! k = u32 (rotl_mask 9 (?t c n) + 0x44494345)"
      if "row c" "row n" for c n
      using k u32_xor_word [of "c ! k" "n ! k"] row_nth [OF that(1) k] row_nth [OF that(2) k]
      by (simp add: ref_compute_quote_def Let_def xor.assoc)
    have "ref_compute_quote pcr_mask c n ! k = ref_compute_quote pcr_mask c' n' ! k \<longleftrightarrow> ?t c n = ?t c' n'"
      unfolding q [OF assms(1,2)] q [OF assms(3,4)]
      using u32_add_cancel [of "rotl_mask 9 (?t c n)" "rotl_mask 9 (?t c' n')" "0x44494345"]
        rotl_mask_inj [of "?t c n" "?t c' n'" 9] r [OF assms(1,2)] r [OF assms(3,4)] by auto
    then show ?thesis by (simp only: xor_cancel_right)
  qed
  have "length (ref_compute_quote pcr_mask c n) = 8" "length (ref_compute_quote pcr_mask c' n') = 8"
    by (simp_all add: ref_compute_quote_def)
  with cell show ?thesis unfolding list_eq_iff_nth_eq by metis
qed

theorem quote_binds_xor_witness:
  "ref_compute_quote 0x0F composite_iv (replicate 8 0) = ref_compute_quote 0x0F (replicate 8 0) composite_iv"
proof -
  have "\<forall>k < 8. (composite_iv ! k) XOR (replicate 8 0 ! k) = (replicate 8 0 ! k) XOR (composite_iv ! k)"
    by (simp only: xor.commute) simp
  with quote_binds_xor [of composite_iv "replicate 8 0" "replicate 8 0" composite_iv 15]
  show ?thesis using row_zero row_composite_iv by simp
qed

text \<open>
  An EXTEND_PCR call on any request returns a result: with a register number below eight the
  reported bank has exactly that register extended by the measurement and the composite is that of
  the new bank; with any other number the status is the out-of-bounds error, the outcome is 0 and
  the bank is reported unchanged.
\<close>

theorem dice_extend_exact:
  assumes "pack_dr34_descriptor MODE_DICE_EXTEND_PCR pcr_index pcr_mask nl sl fl seq = Inr desc"
    "4481 \<le> length req"
  shows "\<exists>r d. reference_dr34_oracle desc req = Inr r \<and> unpack_dr34_result r = Inr d \<and>
    (let bank = map (\<lambda>p. req_words req (128 + p * 32)) [0..<8];
         bank' = bank[nat pcr_index := ref_hash_extend (bank ! nat pcr_index) (req_words req 32)]
     in if pcr_index < int PCR_COUNT
        then dq_status d = DICE_STATUS_SUCCESS \<and> dq_outcome d = 1 \<and>
          dq_pcr_bank d = map words_bytes bank' \<and>
          dq_composite_digest d = words_bytes (ref_compute_composite bank' pcr_mask)
        else dq_status d = DICE_STATUS_ERR_PCR_OUT_OF_BOUNDS \<and> dq_outcome d = 0 \<and>
          dq_pcr_bank d = map words_bytes bank)"
proof -
  note o = oracle_eval [OF assms]
  have i: "0 \<le> pcr_index" using o(2) by simp
  let ?s = "dice_extend pcr_index pcr_mask (req_words req 32) (dice_start (req_bank req))"
  have "state_ok (dice_start (req_bank req))" by (intro state_ok_start) simp_all
  then have "state_ok ?s" by (rule state_ok_extend) (simp_all add: dice_start_def i)
  from dice_emit_view [OF this o(2)] obtain r c where
    "dice_emit MODE_DICE_EXTEND_PCR pcr_mask seq pcr_index ?s = Inr r"
    "unpack_dr34_result r = Inr (dice_view MODE_DICE_EXTEND_PCR pcr_mask seq pcr_index ?s c)" by blast
  with o(1) i show ?thesis
    unfolding req_bank_def by (auto simp add: dice_view_def dice_extend_def dice_start_def Let_def)
qed

theorem dice_extend_exact_witness:
  "\<exists>desc r d. pack_dr34_descriptor MODE_DICE_EXTEND_PCR 9 0 32 64 0 1 = Inr desc \<and>
     reference_dr34_oracle desc (zeros REQ_TOTAL_BYTES) = Inr r \<and> unpack_dr34_result r = Inr d \<and>
     dq_status d = DICE_STATUS_ERR_PCR_OUT_OF_BOUNDS"
proof -
  obtain desc where d: "pack_dr34_descriptor MODE_DICE_EXTEND_PCR 9 0 32 64 0 1 = Inr desc"
    by (simp add: pack_dr34_descriptor_def struct_pack_into_fits)
  with dice_extend_exact [OF d, of "zeros REQ_TOTAL_BYTES"] show ?thesis
    by (auto simp add: Let_def)
qed

end
