(* ===== verification/Reduction.thy ===== *)
theory Reduction
  imports Prelude
begin

text \<open>
  The verification module \<open>dr36_formal_verification.py\<close>: its four bit-precise routines
  (two Montgomery reductions, the butterfly pair, the branchless selection) and the five
  \<open>verify_theorem\<close> functions with their sampling loops.  The answer of the SMT solver is a
  parameter: \<open>None\<close> when \<open>import z3\<close> fails, \<open>Some True\<close> when the solver answers
  \<open>unsat\<close>, \<open>Some False\<close> otherwise.  Times and message strings are not modelled.
\<close>

unbundle bit_operations_syntax

subsection \<open>Constants\<close>

abbreviation (input) KYBER_Q :: int where "KYBER_Q \<equiv> 3329"

abbreviation (input) KYBER_MONT_R :: int where "KYBER_MONT_R \<equiv> 65536"

abbreviation (input) KYBER_QINV :: int where "KYBER_QINV \<equiv> 62209"

abbreviation (input) MLDSA_Q :: int where "MLDSA_Q \<equiv> 8380417"

abbreviation (input) MLDSA_QINV :: int where "MLDSA_QINV \<equiv> 58728449"

datatype proof_status = PROOF_STATUS_PROVEN | PROOF_STATUS_COUNTEREXAMPLE

text \<open>
  The \<open>details\<close> of a result: the solver's counterexample, the values of a failing sample, or the
  flag \<open>formal_unsat_proven\<close> of a success.
\<close>

datatype proof_details = SolverCounterexample | SampleCounterexample "int list" | UnsatProven bool

record theorem_result =
  tr_theorem_id :: nat
  tr_status :: proof_status
  tr_variables_checked :: nat
  tr_details :: proof_details

record verification_report =
  vr_total_theorems :: nat
  vr_proven_theorems :: nat
  vr_counterexamples :: nat
  vr_all_proven :: bool
  vr_results :: "theorem_result list"

subsection \<open>Python's range\<close>

definition py_range :: "int \<Rightarrow> int \<Rightarrow> int \<Rightarrow> int list py" where
  "py_range a b s =
     (if s = 0 then Inl ValueError
      else if 0 < s then Inr (map (\<lambda>i. a + int i * s) [0..<nat ((b - a + s - 1) div s)])
      else Inr (map (\<lambda>i. a + int i * s) [0..<nat ((a - b - s - 1) div (- s))]))"

text \<open>A checking loop: count the samples, stop at the first that fails.\<close>

fun scan :: "('a \<Rightarrow> bool) \<Rightarrow> 'a list \<Rightarrow> nat \<Rightarrow> nat \<times> 'a option" where
  "scan ok [] n = (n, None)"
| "scan ok (x # xs) n = (if ok x then scan ok xs (n + 1) else (n + 1, Some x))"

definition conclude ::
  "nat \<Rightarrow> bool option \<Rightarrow> ('a \<Rightarrow> int list) \<Rightarrow> nat \<times> 'a option \<Rightarrow> theorem_result" where
  "conclude tid z3 witness outcome =
     (case outcome of
        (n, Some x) \<Rightarrow> \<lparr>tr_theorem_id = tid, tr_status = PROOF_STATUS_COUNTEREXAMPLE,
                        tr_variables_checked = n, tr_details = SampleCounterexample (witness x)\<rparr>
      | (n, None) \<Rightarrow> \<lparr>tr_theorem_id = tid, tr_status = PROOF_STATUS_PROVEN,
                      tr_variables_checked = n, tr_details = UnsatProven (z3 \<noteq> None)\<rparr>)"

definition solver_refuted :: "nat \<Rightarrow> theorem_result" where
  "solver_refuted tid = \<lparr>tr_theorem_id = tid, tr_status = PROOF_STATUS_COUNTEREXAMPLE,
     tr_variables_checked = 0, tr_details = SolverCounterexample\<rparr>"

subsection \<open>Theorem 1: ML-KEM Montgomery reduction\<close>

definition montgomery_reduce_mlkem :: "int \<Rightarrow> int" where
  "montgomery_reduce_mlkem a =
     (let prod = u32 (a * KYBER_QINV);
          u = to_signed 2 (prod AND 0xFFFF)
      in drop_bit 16 (a - u * KYBER_Q))"

definition mlkem_samples :: "int \<Rightarrow> int list py" where
  "mlkem_samples sample_step =
     (let max_bound = 3328 * push_bit 15 1 in
      bindE (py_range (- max_bound) max_bound sample_step) (\<lambda>r.
      Inr ([0, 1, -1, 3328, -3328, 3329, -3329, 3330, -3330,
            max_bound, - max_bound, max_bound - 1, - max_bound + 1,
            65536, -65536, 32767, -32768] @ r)))"

definition mlkem_sample_ok :: "int \<Rightarrow> bool" where
  "mlkem_sample_ok a =
     (let t = montgomery_reduce_mlkem a;
          lhs = (t * KYBER_MONT_R) mod KYBER_Q;
          rhs = a mod KYBER_Q
      in \<not> (lhs \<noteq> rhs \<or> KYBER_Q \<le> \<bar>t\<bar>))"

definition verify_theorem_1_montgomery_mlkem :: "bool option \<Rightarrow> int \<Rightarrow> theorem_result py" where
  "verify_theorem_1_montgomery_mlkem z3 sample_step =
     (if z3 = Some False then Inr (solver_refuted 1)
      else bindE (mlkem_samples sample_step) (\<lambda>vals.
        Inr (conclude 1 z3 (\<lambda>a. [a, montgomery_reduce_mlkem a]) (scan mlkem_sample_ok vals 0))))"

subsection \<open>Theorem 2: ML-DSA reduction\<close>

definition modular_reduce_mldsa :: "int \<Rightarrow> int" where
  "modular_reduce_mldsa a =
     (let low = u32 a;
          t_low = u32 (low * MLDSA_QINV);
          t = to_signed 4 t_low
      in drop_bit 32 (a - t * MLDSA_Q))"

definition mldsa_samples :: "int \<Rightarrow> int list py" where
  "mldsa_samples sample_count =
     (if sample_count = 0 then Inl ValueError
      else let step = max 1 (push_bit 32 1 div sample_count) in
      bindE (py_range (- push_bit 31 1) (push_bit 31 1 - 1) step) (\<lambda>r.
      Inr ([0, 1, -1, MLDSA_Q, - MLDSA_Q, MLDSA_Q - 1, - (MLDSA_Q - 1),
            push_bit 31 1 - 1, - push_bit 31 1, push_bit 30 1, - push_bit 30 1] @ r)))"

definition mldsa_sample_ok :: "int \<Rightarrow> bool" where
  "mldsa_sample_ok a =
     (let res = modular_reduce_mldsa a;
          lhs = (res * push_bit 32 1) mod MLDSA_Q;
          rhs = a mod MLDSA_Q
      in \<not> (lhs \<noteq> rhs \<or> MLDSA_Q \<le> \<bar>res\<bar>))"

definition verify_theorem_2_modular_mldsa :: "bool option \<Rightarrow> int \<Rightarrow> theorem_result py" where
  "verify_theorem_2_modular_mldsa z3 sample_count =
     (if z3 = Some False then Inr (solver_refuted 2)
      else bindE (mldsa_samples sample_count) (\<lambda>vals.
        Inr (conclude 2 z3 (\<lambda>a. [a, modular_reduce_mldsa a]) (scan mldsa_sample_ok vals 0))))"

subsection \<open>Theorem 3: butterflies\<close>

text \<open>\<open>pow(w, -1, q)\<close>: the inverse modulo \<open>q\<close>, a \<open>ValueError\<close> when there is none.\<close>

definition pow_inv :: "int \<Rightarrow> int \<Rightarrow> int py" where
  "pow_inv w q =
     (if gcd w q = 1 then Inr (fst (bezw (nat (w mod q)) (nat q)) mod q) else Inl ValueError)"

definition butterfly_forward :: "int \<Rightarrow> int \<Rightarrow> int \<Rightarrow> int \<Rightarrow> int \<times> int" where
  "butterfly_forward q w u v = ((u + w * v) mod q, (u - w * v) mod q)"

definition butterfly_inverse :: "int \<Rightarrow> int \<Rightarrow> int \<Rightarrow> int \<times> int \<Rightarrow> int \<times> int" where
  "butterfly_inverse q inv2 w_inv uv =
     (((fst uv + snd uv) * inv2) mod q, (((fst uv - snd uv) * inv2) * w_inv) mod q)"

definition butterfly_twiddles :: "int list" where
  "butterfly_twiddles = [17, 38, 125, 1234, 3328, 256, 1729, 3110]"

definition butterfly_samples :: "int \<Rightarrow> (int \<times> int \<times> int \<times> int) list py" where
  "butterfly_samples q =
     bindE (mapE (\<lambda>w. bindE (pow_inv w q) (\<lambda>wi.
       bindE (py_range 0 q (q div 25)) (\<lambda>us.
       Inr (concat (map (\<lambda>u. map (\<lambda>v. (w, wi, u, v)) us) us))))) butterfly_twiddles)
     (\<lambda>xs. Inr (concat xs))"

definition butterfly_sample_ok :: "int \<Rightarrow> int \<Rightarrow> int \<times> int \<times> int \<times> int \<Rightarrow> bool" where
  "butterfly_sample_ok q inv2 s =
     (case s of (w, w_inv, u, v) \<Rightarrow>
        (let (u_recovered, v_recovered) = butterfly_inverse q inv2 w_inv (butterfly_forward q w u v)
         in \<not> (u_recovered \<noteq> u \<or> v_recovered \<noteq> v)))"

definition verify_theorem_3_ntt_butterfly_soundness :: "bool option \<Rightarrow> theorem_result py" where
  "verify_theorem_3_ntt_butterfly_soundness z3 =
     bindE (pow_inv 2 KYBER_Q) (\<lambda>inv2.
     if z3 = Some False then Inr (solver_refuted 3)
     else bindE (butterfly_samples KYBER_Q) (\<lambda>xs.
       Inr (conclude 3 z3 (\<lambda>(w, wi, u, v). [u, v, w]) (scan (butterfly_sample_ok KYBER_Q inv2) xs 0))))"

subsection \<open>Theorem 4: branchless selection\<close>

definition branchless_cmov :: "int \<Rightarrow> int \<Rightarrow> int \<Rightarrow> int" where
  "branchless_cmov a b c =
     (let m = u32 (- c) in u32 ((a AND u32 (NOT m)) OR (b AND m)))"

definition cmov_words :: "int list" where
  "cmov_words = [0x00000000, 0xFFFFFFFF, 0x12345678, 0x87654321,
                 0xAAAAAAAA, 0x55555555, 0xDEADBEEF, 0xCAFEBABE,
                 0x00000001, 0x80000000, 0x7FFFFFFF, 0x0000FFFF]"

definition cmov_sample_ok :: "int \<times> int \<times> int \<Rightarrow> bool" where
  "cmov_sample_ok s = (case s of (a, b, c) \<Rightarrow> branchless_cmov a b c = (if c = 1 then b else a))"

definition verify_theorem_4_constant_time_cmov :: "bool option \<Rightarrow> theorem_result py" where
  "verify_theorem_4_constant_time_cmov z3 =
     (if z3 = Some False then Inr (solver_refuted 4)
      else Inr (conclude 4 z3 (\<lambda>(a, b, c). [a, b, c, branchless_cmov a b c])
        (scan cmov_sample_ok
          (concat (map (\<lambda>a. concat (map (\<lambda>b. map (\<lambda>c. (a, b, c)) [0, 1]) cmov_words)) cmov_words)) 0)))"

subsection \<open>Theorem 5: zeroization\<close>

definition wipe :: "bytes \<Rightarrow> bytes" where
  "wipe buf = foldl (\<lambda>b i. b[i := 0]) buf [0..<length buf]"

fun zeroization_loop :: "byte list \<Rightarrow> nat \<Rightarrow> theorem_result" where
  "zeroization_loop [] total_checked =
     \<lparr>tr_theorem_id = 5, tr_status = PROOF_STATUS_PROVEN, tr_variables_checked = total_checked,
      tr_details = UnsatProven False\<rparr>"
| "zeroization_loop (pat # pats) total_checked =
     (let buf = wipe (replicate 2048 pat);
          total_checked = total_checked + length buf
      in if list_ex (\<lambda>b. b \<noteq> 0) buf
         then \<lparr>tr_theorem_id = 5, tr_status = PROOF_STATUS_COUNTEREXAMPLE,
               tr_variables_checked = total_checked, tr_details = SampleCounterexample [uint pat]\<rparr>
         else zeroization_loop pats total_checked)"

definition verify_theorem_5_zeroization_completeness :: theorem_result where
  "verify_theorem_5_zeroization_completeness =
     zeroization_loop [0xAA, 0x55, 0xFF, 0x01, 0x7F, 0x80] 0"

subsection \<open>The whole suite\<close>

definition run_all_formal_proofs ::
  "bool option \<Rightarrow> bool option \<Rightarrow> bool option \<Rightarrow> bool option \<Rightarrow> verification_report py" where
  "run_all_formal_proofs z1 z2 z3 z4 =
     bindE (verify_theorem_1_montgomery_mlkem z1 16384) (\<lambda>r1.
     bindE (verify_theorem_2_modular_mldsa z2 65536) (\<lambda>r2.
     bindE (verify_theorem_3_ntt_butterfly_soundness z3) (\<lambda>r3.
     bindE (verify_theorem_4_constant_time_cmov z4) (\<lambda>r4.
     let results = [r1, r2, r3, r4, verify_theorem_5_zeroization_completeness];
         proven = length (filter (\<lambda>r. tr_status r = PROOF_STATUS_PROVEN) results)
     in Inr \<lparr>vr_total_theorems = length results, vr_proven_theorems = proven,
             vr_counterexamples = length results - proven,
             vr_all_proven = (proven = length results), vr_results = results\<rparr>))))"

subsection \<open>The reductions, for every input\<close>

lemma scan_all: "(\<And>x. x \<in> set xs \<Longrightarrow> ok x) \<Longrightarrow> scan ok xs n = (n + length xs, None)"
  by (induction xs arbitrary: n) auto

lemma and_ffff: "(x::int) AND 0xFFFF = x mod 65536"
  using and_mask_mod [of x 16] by simp

lemma drop_bit_exact: "x mod 2 ^ n = 0 \<Longrightarrow> drop_bit n x * 2 ^ n = (x::int)"
  by (metis add.right_neutral div_mult_mod_eq drop_bit_eq_div)

lemma to_signed_cong: "to_signed n v mod 256 ^ n = v mod 256 ^ n"
proof (cases "v < 2 ^ (8 * n - 1)")
  case False
  have "(v - 256 ^ n) mod 256 ^ n = v mod (256 :: int) ^ n" by simp
  with False show ?thesis by (simp add: to_signed_def)
qed (simp add: to_signed_def)

lemma u_mlkem:
  fixes a :: int
  defines "u \<equiv> to_signed 2 (u32 (a * 62209) AND 0xFFFF)"
  shows "- 32768 \<le> u" "u < 32768" "u mod 65536 = (a * 62209) mod 65536"
proof -
  have x: "u32 (a * 62209) AND 0xFFFF = (a * 62209) mod 65536"
    unfolding and_ffff u32_mod by (rule mod_mod_cancel) simp
  show "- 32768 \<le> u" "u < 32768"
    using to_signed_bounds [of 2 "(a * 62209) mod 65536"] by (simp_all add: u_def x)
  show "u mod 65536 = (a * 62209) mod 65536"
    using to_signed_cong [of 2 "(a * 62209) mod 65536"] by (simp add: u_def x)
qed

lemma cancel_qinv:
  fixes a u q qi R :: int
  assumes "u mod R = (a * qi) mod R" "(qi * q) mod R = 1 mod R"
  shows "(a - u * q) mod R = 0"
proof -
  have "(u * q) mod R = (u mod R * q) mod R" by (simp add: mod_mult_left_eq)
  also have "\<dots> = (a * qi * q) mod R" by (simp only: assms(1) mod_mult_left_eq)
  also have "\<dots> = (a * ((qi * q) mod R)) mod R" by (simp only: mod_mult_right_eq mult.assoc)
  also have "\<dots> = a mod R" by (simp only: assms(2) mod_mult_right_eq mult_1_right)
  finally have "(a - u * q) mod R = (a - a) mod R" by (intro mod_diff_cong refl)
  then show ?thesis by simp
qed

lemma montgomery_mlkem_exact:
  fixes a :: int
  obtains u where "montgomery_reduce_mlkem a * 65536 = a - u * 3329" "- 32768 \<le> u" "u < 32768"
    "u mod 65536 = (a * 62209) mod 65536"
proof
  let ?u = "to_signed 2 (u32 (a * 62209) AND 0xFFFF)"
  note u = u_mlkem [of a]
  have "(a - ?u * 3329) mod 65536 = 0" by (rule cancel_qinv [OF u(3)]) simp
  then show "montgomery_reduce_mlkem a * 65536 = a - ?u * 3329"
    using drop_bit_exact [of "a - ?u * 3329" 16] by (simp add: montgomery_reduce_mlkem_def Let_def)
qed (rule u_mlkem)+

lemma mldsa_exact:
  fixes a :: int
  obtains t where "modular_reduce_mldsa a * 4294967296 = a - t * 8380417"
    "- 2147483648 \<le> t" "t < 2147483648"
proof
  let ?t = "to_signed 4 (u32 (u32 a * 58728449))"
  have x: "u32 (u32 a * 58728449) = (a * 58728449) mod 4294967296"
    by (simp add: u32_mod mod_mult_left_eq)
  have "?t mod 4294967296 = (a * 58728449) mod 4294967296"
    using to_signed_cong [of 4 "(a * 58728449) mod 4294967296"] by (simp add: x)
  then have "(a - ?t * 8380417) mod 4294967296 = 0" by (rule cancel_qinv) simp
  then show "modular_reduce_mldsa a * 4294967296 = a - ?t * 8380417"
    using drop_bit_exact [of "a - ?t * 8380417" 32] by (simp add: modular_reduce_mldsa_def Let_def)
  show "- 2147483648 \<le> ?t" "?t < 2147483648"
    using to_signed_bounds [of 4 "u32 (u32 a * 58728449)"] by simp_all
qed

lemma mlkem_sample_holds:
  assumes "- 109051904 \<le> a" "a \<le> 109051904"
  shows "mlkem_sample_ok a"
proof -
  obtain u where u: "montgomery_reduce_mlkem a * 65536 = a - u * 3329" "- 32768 \<le> u" "u < 32768"
    by (rule montgomery_mlkem_exact)
  have "(montgomery_reduce_mlkem a * 65536) mod 3329 = a mod 3329"
    unfolding u(1) by (metis mod_mult_self3 diff_add_cancel minus_mult_left uminus_add_conv_diff add.commute)
  moreover have "\<bar>montgomery_reduce_mlkem a\<bar> < 3329" using u assms by linarith
  ultimately show ?thesis by (simp add: mlkem_sample_ok_def Let_def)
qed

lemma mldsa_sample_holds:
  assumes "- 2147483648 \<le> a" "a \<le> 2147483647"
  shows "mldsa_sample_ok a"
proof -
  obtain t where t: "modular_reduce_mldsa a * 4294967296 = a - t * 8380417"
    "- 2147483648 \<le> t" "t < 2147483648"
    by (rule mldsa_exact)
  have "(modular_reduce_mldsa a * 4294967296) mod 8380417 = a mod 8380417"
    unfolding t(1) by (metis mod_mult_self3 diff_add_cancel minus_mult_left uminus_add_conv_diff add.commute)
  moreover have "\<bar>modular_reduce_mldsa a\<bar> < 8380417" using t assms by linarith
  ultimately show ?thesis by (simp add: mldsa_sample_ok_def Let_def)
qed


lemma py_range_up:
  assumes "0 < s"
  obtains xs where "py_range a b s = Inr xs" "\<forall>x \<in> set xs. a \<le> x \<and> x < b"
    "length xs = nat ((b - a + s - 1) div s)"
proof
  let ?xs = "map (\<lambda>i. a + int i * s) [0..<nat ((b - a + s - 1) div s)]"
  show "py_range a b s = Inr ?xs" using assms by (simp add: py_range_def)
  show "\<forall>x \<in> set ?xs. a \<le> x \<and> x < b"
  proof
    fix x
    assume "x \<in> set ?xs"
    then obtain i where "i < nat ((b - a + s - 1) div s)" and "x = a + int i * s" by auto
    then have i: "x = a + int i * s" "int i < (b - a + s - 1) div s" by linarith+
    then have "(int i + 1) * s \<le> (b - a + s - 1) div s * s" using assms by (intro mult_right_mono) auto
    also have "\<dots> \<le> b - a + s - 1" using assms by (metis pos_mod_sign div_mult_mod_eq le_add_same_cancel1)
    finally show "a \<le> x \<and> x < b" using i assms by (simp add: algebra_simps)
  qed
  show "length ?xs = nat ((b - a + s - 1) div s)" by simp
qed

lemma py_range_down:
  assumes "s < 0" "a < b"
  shows "py_range a b s = Inr []"
proof -
  have "(a - b - s - 1) div (- s) \<le> 0"
    using assms zdiv_mono1 [of "a - b - s - 1" "- s - 1" "- s"] by simp
  then show ?thesis using assms by (simp add: py_range_def)
qed

lemma theorem_1_holds:
  assumes "z3 \<noteq> Some False" "sample_step \<noteq> 0"
  shows "\<exists>n \<ge> 17. verify_theorem_1_montgomery_mlkem z3 sample_step =
    Inr \<lparr>tr_theorem_id = 1, tr_status = PROOF_STATUS_PROVEN, tr_variables_checked = n,
         tr_details = UnsatProven (z3 \<noteq> None)\<rparr>"
proof -
  obtain xs where xs: "py_range (- 109051904) 109051904 sample_step = Inr xs"
    "\<forall>x \<in> set xs. - 109051904 \<le> x \<and> x < 109051904"
  proof (cases "0 < sample_step")
    case True
    then show ?thesis using py_range_up [of sample_step "- 109051904" 109051904] that by blast
  next
    case False
    then have "py_range (- 109051904) 109051904 sample_step = Inr []"
      using assms(2) by (intro py_range_down) simp_all
    then show ?thesis using that by simp
  qed
  let ?vals = "[0, 1, -1, 3328, -3328, 3329, -3329, 3330, -3330, 109051904, - 109051904,
      109051903, - 109051903, 65536, -65536, 32767, -32768] @ xs"
  have s: "mlkem_samples sample_step = Inr ?vals"
    using xs(1) by (simp add: mlkem_samples_def push_bit_eq_mult)
  have "scan mlkem_sample_ok ?vals 0 = (0 + length ?vals, None)"
    by (rule scan_all, rule mlkem_sample_holds) (use xs(2) in auto)
  with s assms(1) show ?thesis
    by (intro exI [of _ "length ?vals"]) (simp add: verify_theorem_1_montgomery_mlkem_def conclude_def)
qed

lemma theorem_2_holds:
  assumes "z3 \<noteq> Some False" "sample_count \<noteq> 0"
  shows "\<exists>n \<ge> 11. verify_theorem_2_modular_mldsa z3 sample_count =
    Inr \<lparr>tr_theorem_id = 2, tr_status = PROOF_STATUS_PROVEN, tr_variables_checked = n,
         tr_details = UnsatProven (z3 \<noteq> None)\<rparr>"
proof -
  define step where "step = max 1 (4294967296 div sample_count)"
  have "0 < step" by (simp add: step_def)
  then obtain xs where xs: "py_range (- 2147483648) 2147483647 step = Inr xs"
    "\<forall>x \<in> set xs. - 2147483648 \<le> x \<and> x < 2147483647" by (rule py_range_up)
  let ?vals = "[0, 1, -1, 8380417, - 8380417, 8380416, - 8380416, 2147483647, - 2147483648,
      1073741824, - 1073741824] @ xs"
  have s: "mldsa_samples sample_count = Inr ?vals"
    using xs(1) assms(2) by (simp add: mldsa_samples_def push_bit_eq_mult step_def)
  have "scan mldsa_sample_ok ?vals 0 = (0 + length ?vals, None)"
    by (rule scan_all, rule mldsa_sample_holds) (use xs(2) in auto)
  with s assms(1) show ?thesis
    by (intro exI [of _ "length ?vals"]) (simp add: verify_theorem_2_modular_mldsa_def conclude_def)
qed

subsection \<open>Butterflies\<close>

lemma pow_inv_spec:
  assumes "gcd w q = 1" "1 < q"
  obtains wi where "pow_inv w q = Inr wi" "(w * wi) mod q = 1" "0 \<le> wi" "wi < q"
proof
  let ?x = "nat (w mod q)"
  let ?b = "bezw ?x (nat q)"
  let ?wi = "fst ?b mod q"
  show "pow_inv w q = Inr ?wi" using assms(1) by (simp add: pow_inv_def)
  have x: "int ?x = w mod q" using assms(2) by simp
  have "int (gcd ?x (nat q)) = gcd (w mod q) q"
    using x assms(2) by (simp add: gcd_int_int_eq [symmetric] del: gcd_int_int_eq)
  also have "\<dots> = 1" using assms(1) by (simp add: gcd.commute flip: gcd_red_int)
  finally have "1 = fst ?b * (w mod q) + snd ?b * q"
    using bezw_aux [of ?x "nat q"] x assms(2) by simp
  then have "1 mod q = (fst ?b * (w mod q)) mod q" by (metis mod_mult_self1)
  also have "\<dots> = (w * ?wi) mod q" by (simp add: mod_mult_right_eq mod_mult_left_eq mult.commute)
  finally show "(w * ?wi) mod q = 1" using assms(2) by simp
  show "0 \<le> ?wi" "?wi < q" using assms(2) by simp_all
qed

text \<open>The butterfly pair is the identity on reduced values, for every modulus and twiddle.\<close>

lemma butterfly_identity:
  assumes "(w * wi) mod q = 1" "(2 * inv2) mod q = 1" "0 \<le> u" "u < q" "0 \<le> v" "v < q"
  shows "butterfly_inverse q inv2 wi (butterfly_forward q w u v) = (u, v)"
proof -
  have two: "(x * (2 * inv2)) mod q = x mod q" for x
    using mod_mult_right_eq [of x "2 * inv2" q] assms(2) by simp
  have tw: "(x * (w * wi)) mod q = x mod q" for x
    using mod_mult_right_eq [of x "w * wi" q] assms(1) by simp
  have "(((u + w * v) mod q + (u - w * v) mod q) * inv2) mod q = (((u + w * v) + (u - w * v)) * inv2) mod q"
    by (rule mod_mult_cong [OF mod_add_eq refl])
  also have "\<dots> = (u * (2 * inv2)) mod q" by (rule arg_cong [where f = "\<lambda>x. x mod q"]) (simp add: algebra_simps)
  finally have 1: "(((u + w * v) mod q + (u - w * v) mod q) * inv2) mod q = u"
    using two [of u] assms(3,4) by simp
  have "((((u + w * v) mod q - (u - w * v) mod q) * inv2) * wi) mod q =
      ((((u + w * v) - (u - w * v)) * inv2) * wi) mod q"
    by (rule mod_mult_cong [OF mod_mult_cong [OF mod_diff_eq refl] refl])
  also have "\<dots> = ((v * (w * wi)) * (2 * inv2)) mod q"
    by (rule arg_cong [where f = "\<lambda>x. x mod q"]) (simp add: algebra_simps)
  finally have 2: "((((u + w * v) mod q - (u - w * v) mod q) * inv2) * wi) mod q = v"
    using two [of "v * (w * wi)"] tw [of v] assms(5,6) by simp
  show ?thesis by (simp add: butterfly_inverse_def butterfly_forward_def 1 2)
qed

lemma twiddles_coprime: "w \<in> set butterfly_twiddles \<Longrightarrow> gcd w 3329 = 1"
proof -
  have "list_all (\<lambda>w. gcd w 3329 = (1::int)) butterfly_twiddles"
    by (simp add: butterfly_twiddles_def gcd_non_0_int)
  then show "w \<in> set butterfly_twiddles \<Longrightarrow> gcd w 3329 = 1" by (simp add: list_all_iff)
qed

lemma mapE_Inr_mem: "mapE f xs = Inr ys \<Longrightarrow> y \<in> set ys \<Longrightarrow> \<exists>x \<in> set xs. f x = Inr y"
  by (induction xs arbitrary: ys) (auto simp add: bindE_Inr_iff)

lemma mapE_ex: "(\<And>x. x \<in> set xs \<Longrightarrow> \<exists>y. f x = Inr y) \<Longrightarrow> \<exists>ys. mapE f xs = Inr ys"
  by (induction xs) fastforce+


lemma butterfly_samples_sound:
  assumes "(2 * inv2) mod 3329 = 1"
  obtains xs where "butterfly_samples 3329 = Inr xs" "\<forall>x \<in> set xs. butterfly_sample_ok 3329 inv2 x"
proof -
  obtain us where us: "py_range 0 3329 133 = Inr us" "\<forall>x \<in> set us. 0 \<le> x \<and> x < 3329"
    by (rule py_range_up [of 133 0 3329]) auto
  define row where "row = (\<lambda>w. bindE (pow_inv w 3329) (\<lambda>wi.
      Inr (concat (map (\<lambda>u. map (\<lambda>v. (w, wi, u, v)) us) us))) :: (int \<times> int \<times> int \<times> int) list py)"
  have inv: "\<exists>wi. pow_inv w 3329 = Inr wi \<and> (w * wi) mod 3329 = 1" if "w \<in> set butterfly_twiddles" for w
    using pow_inv_spec [OF twiddles_coprime [OF that]] by auto
  have "\<exists>rs. mapE row butterfly_twiddles = Inr rs"
  proof (rule mapE_ex)
    fix w
    assume "w \<in> set butterfly_twiddles"
    with inv obtain wi where "pow_inv w 3329 = Inr wi" by blast
    then show "\<exists>y. row w = Inr y" by (simp add: row_def)
  qed
  then obtain rs where rs: "mapE row butterfly_twiddles = Inr rs" ..
  have "butterfly_samples 3329 = Inr (concat rs)"
    using rs by (simp add: butterfly_samples_def us(1) row_def)
  moreover have "\<forall>x \<in> set (concat rs). butterfly_sample_ok 3329 inv2 x"
  proof
    fix x
    assume "x \<in> set (concat rs)"
    then obtain r where r: "r \<in> set rs" "x \<in> set r" by auto
    with mapE_Inr_mem [OF rs] obtain w where w: "w \<in> set butterfly_twiddles" "row w = Inr r" by blast
    with inv obtain wi where wi: "pow_inv w 3329 = Inr wi" "(w * wi) mod 3329 = 1" by blast
    from w(2) wi(1) have "r = concat (map (\<lambda>u. map (\<lambda>v. (w, wi, u, v)) us) us)" by (simp add: row_def)
    with r(2) obtain u v where x: "x = (w, wi, u, v)" "u \<in> set us" "v \<in> set us" by auto
    with us(2) have "butterfly_inverse 3329 inv2 wi (butterfly_forward 3329 w u v) = (u, v)"
      by (intro butterfly_identity wi assms) auto
    then show "butterfly_sample_ok 3329 inv2 x" by (simp add: butterfly_sample_ok_def x(1))
  qed
  ultimately show ?thesis by (rule that)
qed

lemma theorem_3_holds:
  assumes "z3 \<noteq> Some False"
  shows "\<exists>n. verify_theorem_3_ntt_butterfly_soundness z3 =
    Inr \<lparr>tr_theorem_id = 3, tr_status = PROOF_STATUS_PROVEN, tr_variables_checked = n,
         tr_details = UnsatProven (z3 \<noteq> None)\<rparr>"
proof -
  have "gcd 2 (3329::int) = 1" by (simp add: gcd_non_0_int)
  then obtain inv2 where inv2: "pow_inv 2 3329 = Inr inv2" "(2 * inv2) mod 3329 = 1"
    by (rule pow_inv_spec) simp
  obtain xs where xs: "butterfly_samples 3329 = Inr xs" "\<forall>x \<in> set xs. butterfly_sample_ok 3329 inv2 x"
    using inv2(2) by (rule butterfly_samples_sound)
  have "scan (butterfly_sample_ok 3329 inv2) xs 0 = (0 + length xs, None)"
    using xs(2) by (intro scan_all) simp
  with xs(1) inv2(1) assms show ?thesis
    by (simp add: verify_theorem_3_ntt_butterfly_soundness_def conclude_def)
qed

subsection \<open>Selection\<close>

lemma cmov_0: "branchless_cmov a b 0 = u32 a"
  by (rule bit_eqI) (auto simp add: branchless_cmov_def Let_def u32_take_bit bit_simps)

lemma cmov_1: "branchless_cmov a b 1 = u32 b"
  by (rule bit_eqI) (auto simp add: branchless_cmov_def Let_def u32_take_bit bit_simps)

lemma cmov_sample_holds:
  assumes "a \<in> set cmov_words" "b \<in> set cmov_words" "c \<in> {0, 1}"
  shows "cmov_sample_ok (a, b, c)"
proof -
  have "list_all (\<lambda>w. u32 w = w) cmov_words" by (simp add: cmov_words_def u32_id)
  then have "u32 a = a" "u32 b = b" using assms by (simp_all add: list_all_iff)
  with assms(3) show ?thesis by (auto simp add: cmov_sample_ok_def cmov_0 cmov_1)
qed

lemma theorem_4_holds:
  assumes "z3 \<noteq> Some False"
  shows "\<exists>n. verify_theorem_4_constant_time_cmov z3 =
    Inr \<lparr>tr_theorem_id = 4, tr_status = PROOF_STATUS_PROVEN, tr_variables_checked = n,
         tr_details = UnsatProven (z3 \<noteq> None)\<rparr>"
proof -
  let ?xs = "concat (map (\<lambda>a. concat (map (\<lambda>b. map (\<lambda>c. (a, b, c)) [0, 1::int]) cmov_words)) cmov_words)"
  have "scan cmov_sample_ok ?xs 0 = (0 + length ?xs, None)"
    by (rule scan_all) (auto simp del: list.map intro: cmov_sample_holds)
  with assms show ?thesis
    by (simp add: verify_theorem_4_constant_time_cmov_def conclude_def del: list.map)
qed

subsection \<open>Zeroization\<close>

lemma wipe_zeros: "wipe buf = zeros (length buf)"
proof -
  have "n \<le> length buf \<Longrightarrow> foldl (\<lambda>b i. b[i := 0]) buf [0..<n] = zeros n @ drop n buf" for n
  proof (induction n)
    case (Suc n)
    then have "drop n buf = buf ! n # drop (Suc n) buf" by (simp add: Cons_nth_drop_Suc)
    with Suc show ?case by (simp add: list_update_append zeros_def replicate_append_same)
  qed simp
  from this [of "length buf"] show ?thesis by (simp add: wipe_def)
qed

lemma theorem_5_holds: "zeroization_loop pats n =
    \<lparr>tr_theorem_id = 5, tr_status = PROOF_STATUS_PROVEN, tr_variables_checked = n + 2048 * length pats,
     tr_details = UnsatProven False\<rparr>"
proof (induction pats arbitrary: n)
  case (Cons pat pats)
  have "\<not> list_ex (\<lambda>b. b \<noteq> 0) (zeros 2048)" by (auto simp add: list_ex_iff zeros_def)
  with Cons show ?case by (simp add: wipe_zeros Let_def)
qed simp


subsection \<open>Properties\<close>

text \<open>
  The ML-KEM Montgomery reduction is exact for every integer: the result times \<open>2^16\<close> is
  congruent to the argument modulo 3329; on the stated domain of \<open>3328 * 2^15\<close> either way its
  absolute value stays below 3329.
\<close>

theorem mlkem_reduction_correct:
  "(montgomery_reduce_mlkem a * KYBER_MONT_R) mod KYBER_Q = a mod KYBER_Q \<and>
   (\<bar>a\<bar> \<le> 3328 * 2 ^ 15 \<longrightarrow> \<bar>montgomery_reduce_mlkem a\<bar> < KYBER_Q)"
proof -
  obtain u where u: "montgomery_reduce_mlkem a * 65536 = a - u * 3329" "- 32768 \<le> u" "u < 32768"
    by (rule montgomery_mlkem_exact)
  have "(a - u * 3329) mod 3329 = a mod 3329" by (metis mod_mult_self3 diff_add_cancel add.commute)
  moreover have "\<bar>a\<bar> \<le> 109051904 \<longrightarrow> \<bar>montgomery_reduce_mlkem a\<bar> < 3329" using u by linarith
  ultimately show ?thesis by (simp add: u(1))
qed

theorem mlkem_reduction_correct_witness:
  "\<bar>montgomery_reduce_mlkem 109051904\<bar> < KYBER_Q \<and>
   (montgomery_reduce_mlkem 109051904 * KYBER_MONT_R) mod KYBER_Q = 109051904 mod KYBER_Q"
  using mlkem_reduction_correct [of 109051904] by simp

text \<open>
  The ML-DSA reduction is exact for every integer, and for arguments of absolute value at most
  \<open>2^31 * 8380417\<close>, a domain \<open>8380417\<close> times the one the module checks, the result is at most
  8380417 in absolute value; on the checked 32-bit domain it is strictly smaller.
\<close>

theorem mldsa_reduction_correct:
  "(modular_reduce_mldsa a * 2 ^ 32) mod MLDSA_Q = a mod MLDSA_Q \<and>
   (\<bar>a\<bar> \<le> 2 ^ 31 * MLDSA_Q \<longrightarrow> \<bar>modular_reduce_mldsa a\<bar> \<le> MLDSA_Q) \<and>
   (- (2 ^ 31) \<le> a \<and> a < 2 ^ 31 \<longrightarrow> \<bar>modular_reduce_mldsa a\<bar> < MLDSA_Q)"
proof -
  obtain t where t: "modular_reduce_mldsa a * 4294967296 = a - t * 8380417"
    "- 2147483648 \<le> t" "t < 2147483648"
    by (rule mldsa_exact)
  have "(a - t * 8380417) mod 8380417 = a mod 8380417" by (metis mod_mult_self3 diff_add_cancel add.commute)
  moreover have "\<bar>a\<bar> \<le> 2147483648 * 8380417 \<longrightarrow> \<bar>modular_reduce_mldsa a\<bar> \<le> 8380417" using t by linarith
  moreover have "- 2147483648 \<le> a \<and> a < 2147483648 \<longrightarrow> \<bar>modular_reduce_mldsa a\<bar> < 8380417"
    using t by linarith
  ultimately show ?thesis by (simp add: t(1))
qed

theorem mldsa_reduction_correct_witness:
  "\<bar>modular_reduce_mldsa (- (2 ^ 31))\<bar> < MLDSA_Q"
  using mldsa_reduction_correct [of "- (2 ^ 31)"] by simp

text \<open>
  The butterfly pair is invertible over every modulus above one: for a twiddle prime to the
  modulus and an odd modulus, the inverses the code computes exist and the inverse butterfly undoes
  the forward one on all pairs of reduced values.
\<close>

theorem butterfly_roundtrip:
  assumes "1 < q" "gcd 2 q = 1" "gcd w q = 1" "0 \<le> u" "u < q" "0 \<le> v" "v < q"
  shows "\<exists>inv2 w_inv. pow_inv 2 q = Inr inv2 \<and> pow_inv w q = Inr w_inv \<and>
    butterfly_inverse q inv2 w_inv (butterfly_forward q w u v) = (u, v)"
proof -
  obtain i where i: "pow_inv 2 q = Inr i" "(2 * i) mod q = 1" by (rule pow_inv_spec [OF assms(2,1)])
  obtain wi where wi: "pow_inv w q = Inr wi" "(w * wi) mod q = 1" by (rule pow_inv_spec [OF assms(3,1)])
  from butterfly_identity [OF wi(2) i(2) assms(4-7)] i(1) wi(1) show ?thesis by blast
qed

theorem butterfly_roundtrip_witness:
  "\<exists>inv2 w_inv. pow_inv 2 3329 = Inr inv2 \<and> pow_inv 17 3329 = Inr w_inv \<and>
    butterfly_inverse 3329 inv2 w_inv (butterfly_forward 3329 17 5 3328) = (5, 3328)"
  by (rule butterfly_roundtrip) (simp_all add: gcd_non_0_int)

text \<open>
  The suite reports what the solver and the arithmetic say: unless the solver refutes an
  obligation every one of its five results is PROVEN, all sampling loops run to the end, and the
  verdict is full; it is not full exactly when the solver refuted one.  The verdict does not record
  whether a solver was present at all.
\<close>

theorem suite_verdict_exact:
  "\<exists>report. run_all_formal_proofs z1 z2 z3 z4 = Inr report \<and> vr_total_theorems report = 5 \<and>
     (vr_all_proven report \<longleftrightarrow> Some False \<notin> {z1, z2, z3, z4}) \<and>
     vr_proven_theorems report + vr_counterexamples report = 5 \<and>
     vr_counterexamples report = length (filter (\<lambda>z. z = Some False) [z1, z2, z3, z4])"
proof -
  have refuted: "tr_status (solver_refuted n) \<noteq> PROOF_STATUS_PROVEN" for n
    by (simp add: solver_refuted_def)
  have 1: "\<exists>r. verify_theorem_1_montgomery_mlkem z1 16384 = Inr r \<and>
      (tr_status r = PROOF_STATUS_PROVEN \<longleftrightarrow> z1 \<noteq> Some False)"
  proof (cases "z1 = Some False")
    case False
    then obtain n where "verify_theorem_1_montgomery_mlkem z1 16384 =
      Inr \<lparr>tr_theorem_id = 1, tr_status = PROOF_STATUS_PROVEN, tr_variables_checked = n,
         tr_details = UnsatProven (z1 \<noteq> None)\<rparr>" using theorem_1_holds [of z1 16384] by auto
    with False show ?thesis by simp
  qed (simp add: verify_theorem_1_montgomery_mlkem_def refuted)
  have 2: "\<exists>r. verify_theorem_2_modular_mldsa z2 65536 = Inr r \<and>
      (tr_status r = PROOF_STATUS_PROVEN \<longleftrightarrow> z2 \<noteq> Some False)"
  proof (cases "z2 = Some False")
    case False
    then obtain n where "verify_theorem_2_modular_mldsa z2 65536 =
      Inr \<lparr>tr_theorem_id = 2, tr_status = PROOF_STATUS_PROVEN, tr_variables_checked = n,
         tr_details = UnsatProven (z2 \<noteq> None)\<rparr>" using theorem_2_holds [of z2 65536] by auto
    with False show ?thesis by simp
  qed (simp add: verify_theorem_2_modular_mldsa_def refuted)
  have 3: "\<exists>r. verify_theorem_3_ntt_butterfly_soundness z3 = Inr r \<and>
      (tr_status r = PROOF_STATUS_PROVEN \<longleftrightarrow> z3 \<noteq> Some False)"
  proof (cases "z3 = Some False")
    case True
    have "gcd 2 (3329::int) = 1" by (simp add: gcd_non_0_int)
    then obtain i where "pow_inv 2 3329 = Inr i" by (rule pow_inv_spec) simp
    with True show ?thesis by (simp add: verify_theorem_3_ntt_butterfly_soundness_def refuted)
  next
    case False
    with theorem_3_holds [OF False] show ?thesis by auto
  qed
  have 4: "\<exists>r. verify_theorem_4_constant_time_cmov z4 = Inr r \<and>
      (tr_status r = PROOF_STATUS_PROVEN \<longleftrightarrow> z4 \<noteq> Some False)"
  proof (cases "z4 = Some False")
    case False
    with theorem_4_holds [OF False] show ?thesis by auto
  qed (simp add: verify_theorem_4_constant_time_cmov_def refuted)
  have 5: "tr_status verify_theorem_5_zeroization_completeness = PROOF_STATUS_PROVEN"
    by (simp add: verify_theorem_5_zeroization_completeness_def theorem_5_holds)
  from 1 2 3 4 5 show ?thesis by (auto simp add: run_all_formal_proofs_def Let_def)
qed

text \<open>
  Branchless selection: for the two selector values it returns one of its 32-bit operands
  unchanged, for every pair of operands; for any other selector each result bit comes from the
  second operand where the negated selector has a one and from the first where it has a zero.
\<close>

theorem cmov_selects:
  "branchless_cmov a b 0 = u32 a \<and> branchless_cmov a b 1 = u32 b \<and>
   (\<forall>i < 32. bit (branchless_cmov a b c) i \<longleftrightarrow> (if bit (- c) i then bit b i else bit a i))"
proof -
  have "\<forall>i < 32. bit (branchless_cmov a b c) i \<longleftrightarrow> (if bit (- c) i then bit b i else bit a i)"
    by (auto simp add: branchless_cmov_def Let_def u32_take_bit bit_take_bit_iff bit_and_iff bit_or_iff bit_not_iff)
  with cmov_0 cmov_1 show ?thesis by simp
qed

theorem cmov_selects_witness: "branchless_cmov 0x12345678 0xDEADBEEF 2 \<noteq> 0x12345678"
proof
  assume "branchless_cmov 0x12345678 0xDEADBEEF 2 = 0x12345678"
  moreover have "bit (branchless_cmov 0x12345678 0xDEADBEEF 2) 1 \<longleftrightarrow> bit (0xDEADBEEF :: int) 1"
    using cmov_selects [of "0x12345678" "0xDEADBEEF" 2, THEN conjunct2, THEN conjunct2, rule_format, of 1]
    by (simp add: bit_iff_odd)
  ultimately show False by (simp add: bit_iff_odd)
qed

end
