(* ===== verification/Bench.thy ===== *)
theory Bench
  imports Prelude PyStruct PyHash Reduction
begin

text \<open>
  The benchmark engine, \<open>dr40_benchmark_abi.py\<close>: its descriptor and result record, the four
  workload kernels (butterfly layer, Keccak round, pointwise product, rejection sampling), the
  Montgomery reduction and the reference oracle that iterates a workload and sums a checksum.  The
  profiling statistics (floating point) are not modelled.
\<close>

unbundle bit_operations_syntax

subsection \<open>Constants\<close>

abbreviation (input) BENCH_MAGIC_HEADER :: int where "BENCH_MAGIC_HEADER \<equiv> 0x44523430"

abbreviation (input) BENCH_STATUS_SUCCESS :: int where "BENCH_STATUS_SUCCESS \<equiv> 0x00000000"

abbreviation (input) BENCH_STATUS_ERR_UNSUPPORTED_MODE :: int where
  "BENCH_STATUS_ERR_UNSUPPORTED_MODE \<equiv> 0x80000002"

abbreviation (input) BENCH_STATUS_ERR_INVALID_BATCH :: int where
  "BENCH_STATUS_ERR_INVALID_BATCH \<equiv> 0x80000003"

abbreviation (input) MODE_BENCH_NTT_BUTTERFLY :: int where "MODE_BENCH_NTT_BUTTERFLY \<equiv> 1"

abbreviation (input) MODE_BENCH_KECCAK_F1600 :: int where "MODE_BENCH_KECCAK_F1600 \<equiv> 2"

abbreviation (input) MODE_BENCH_VECTOR_MAC :: int where "MODE_BENCH_VECTOR_MAC \<equiv> 3"

abbreviation (input) MODE_BENCH_SAMPLE_NTT :: int where "MODE_BENCH_SAMPLE_NTT \<equiv> 4"

abbreviation (input) BENCH_DESCRIPTOR_SIZE :: nat where "BENCH_DESCRIPTOR_SIZE \<equiv> 64"

abbreviation (input) BENCH_RESULT_BUFFER_SIZE :: nat where "BENCH_RESULT_BUFFER_SIZE \<equiv> 2048"

abbreviation (input) MODULUS_Q :: int where "MODULUS_Q \<equiv> 3329"

abbreviation (input) MONTGOMERY_QINV :: int where "MONTGOMERY_QINV \<equiv> 62209"

subsection \<open>Descriptor and result\<close>

record bench_descriptor =
  bd_op_mode :: int
  bd_batch_size :: int
  bd_warmup_iters :: int
  bd_flags :: int
  bd_param_0 :: int
  bd_param_1 :: int
  bd_seq_id :: int
  bd_magic :: int

definition bench_descriptor_pack :: "bench_descriptor \<Rightarrow> bytes py" where
  "bench_descriptor_pack d =
     bindE (struct_pack_into [U 4, U 4, U 4, U 4, U 4, U 4, U 4, U 4] (zeros BENCH_DESCRIPTOR_SIZE) 0
       [bd_magic d, bd_op_mode d, bd_batch_size d, bd_warmup_iters d, bd_flags d, bd_param_0 d,
        bd_param_1 d, 0])
     (\<lambda>data. struct_pack_into [U 4] data 32 [bd_seq_id d])"

definition bench_descriptor_unpack :: "bytes \<Rightarrow> bench_descriptor py" where
  "bench_descriptor_unpack buf =
     (if length buf < BENCH_DESCRIPTOR_SIZE then Inl ValueError
      else bindE (struct_unpack_from [U 4, U 4, U 4, U 4, U 4, U 4, U 4, U 4] buf 0) (\<lambda>fields.
           bindE (struct_unpack_from [U 4] buf 32) (\<lambda>seq.
           Inr \<lparr>bd_op_mode = fields ! 1, bd_batch_size = fields ! 2, bd_warmup_iters = fields ! 3,
                bd_flags = fields ! 4, bd_param_0 = fields ! 5, bd_param_1 = fields ! 6,
                bd_seq_id = seq ! 0, bd_magic = fields ! 0\<rparr>)))"

record bench_result =
  br_status :: int
  br_op_mode :: int
  br_batch_size :: int
  br_iterations_completed :: int
  br_checksum :: int
  br_payload :: bytes

definition bench_result_pack :: "bench_result \<Rightarrow> bytes py" where
  "bench_result_pack h =
     bindE (struct_pack [U 4, U 4, U 4, U 4, U 4, X 12]
       [br_status h, br_op_mode h, br_batch_size h, br_iterations_completed h, br_checksum h]) (\<lambda>hdr.
     let payload_bytes = take (BENCH_RESULT_BUFFER_SIZE - 32) (br_payload h);
         pad_len = BENCH_RESULT_BUFFER_SIZE - 32 - length payload_bytes
     in Inr (hdr @ payload_bytes @ zeros pad_len))"

definition bench_result_unpack :: "bytes \<Rightarrow> bench_result py" where
  "bench_result_unpack buf =
     (if length buf < 32 then Inl ValueError
      else bindE (struct_unpack_from [U 4, U 4, U 4, U 4, U 4] buf 0) (\<lambda>fields.
           Inr \<lparr>br_status = fields ! 0, br_op_mode = fields ! 1, br_batch_size = fields ! 2,
                br_iterations_completed = fields ! 3, br_checksum = fields ! 4,
                br_payload = drop 32 buf\<rparr>))"

subsection \<open>Kernels\<close>

definition montgomery_reduce :: "int \<Rightarrow> int" where
  "montgomery_reduce a =
     (let t = (a * MONTGOMERY_QINV) AND 0xFFFF;
          res = drop_bit 16 (a - t * MODULUS_Q);
          res = (if res < 0 then res + MODULUS_Q else res)
      in res mod MODULUS_Q)"

definition ntt_butterfly_step :: "int \<Rightarrow> int list \<Rightarrow> nat \<Rightarrow> int list" where
  "ntt_butterfly_step twiddle res i =
     (let u = res ! i; v = res ! (i + 128); v_tw = (v * twiddle) mod MODULUS_Q
      in res[i := (u + v_tw) mod MODULUS_Q, i + 128 := (u - v_tw + MODULUS_Q) mod MODULUS_Q])"

definition ntt_butterfly_layer_ref :: "int list \<Rightarrow> int \<Rightarrow> int list py" where
  "ntt_butterfly_layer_ref poly twiddle =
     (if length poly < 256 then Inl IndexError
      else Inr (foldl (ntt_butterfly_step twiddle) poly [0..<128]))"

definition vector_mac_ref :: "int list \<Rightarrow> int list \<Rightarrow> int list" where
  "vector_mac_ref poly_a poly_b = map (\<lambda>(a, b). (a * b) mod MODULUS_Q) (zip poly_a poly_b)"

text \<open>One round of Keccak-f[1600] on 25 lanes held as Python integers, step by step.\<close>

definition keccak_rot :: "nat list" where
  "keccak_rot = [
      0,  1, 62, 28, 27,
     36, 44,  6, 55, 20,
      3, 10, 43, 25, 39,
     41, 45, 15, 21,  8,
     18,  2, 61, 56, 14]"

definition keccak_rc_table :: "int list" where
  "keccak_rc_table = [
     0x0000000000000001, 0x0000000000008082, 0x800000000000808A, 0x8000000080008000,
     0x000000000000808B, 0x0000000080000001, 0x8000000080008081, 0x8000000000008009,
     0x000000000000008A, 0x0000000000000088, 0x0000000080008009, 0x000000008000000A,
     0x000000008000808B, 0x800000000000008B, 0x8000000000008089, 0x8000000000008003,
     0x8000000000008002, 0x8000000000000080, 0x000000000000800A, 0x800000008000000A,
     0x8000000080008081, 0x8000000000008080, 0x0000000080000001, 0x8000000080008008]"

definition theta_ref :: "int list \<Rightarrow> int list" where
  "theta_ref state =
     (let c = map (\<lambda>x. (state ! x) XOR (state ! (x + 5)) XOR (state ! (x + 10)) XOR (state ! (x + 15)) XOR
                       (state ! (x + 20))) [0..<5];
          d = map (\<lambda>x. (c ! ((x + 4) mod 5)) XOR
                       u64 (push_bit 1 (c ! ((x + 1) mod 5)) OR drop_bit 63 (c ! ((x + 1) mod 5)))) [0..<5]
      in map (\<lambda>i. (state ! i) XOR (d ! (i mod 5))) [0..<25])"

definition lane_order :: "(nat \<times> nat) list" where
  "lane_order = List.product [0..<5] [0..<5]"

definition rho_pi_ref :: "int list \<Rightarrow> int list" where
  "rho_pi_ref theta_state =
     foldl (\<lambda>b (x, y).
       let idx = x + 5 * y; r = keccak_rot ! idx; val = theta_state ! idx;
           rol_val = (if 0 < r then u64 (push_bit r val OR drop_bit (64 - r) val) else val)
       in b[y + 5 * ((2 * x + 3 * y) mod 5) := rol_val])
     (replicate 25 0) lane_order"

definition chi_ref :: "int list \<Rightarrow> int list" where
  "chi_ref b =
     foldl (\<lambda>out (x, y).
       out[x + 5 * y := (b ! (x + 5 * y)) XOR
         u64 (NOT (b ! (((x + 1) mod 5) + 5 * y)) AND (b ! (((x + 2) mod 5) + 5 * y)))])
     (replicate 25 0) lane_order"

definition keccak_round_ref :: "int list \<Rightarrow> nat \<Rightarrow> int list" where
  "keccak_round_ref state round_idx =
     (let out = chi_ref (rho_pi_ref (theta_ref state))
      in out[0 := (out ! 0) XOR (keccak_rc_table ! (round_idx mod length keccak_rc_table))])"

text \<open>The two while loops of the sampler: fill from the stream, then pad.\<close>

definition push_coeff :: "int \<Rightarrow> int list \<Rightarrow> int list" where
  "push_coeff d coeffs = (if d < MODULUS_Q \<and> length coeffs < 256 then coeffs @ [d] else coeffs)"

function sample_loop :: "bytes \<Rightarrow> int list \<Rightarrow> nat \<Rightarrow> int list \<times> nat" where
  "sample_loop seed coeffs i =
     (if length coeffs < 256 \<and> i + 2 < length seed
      then let b0 = uint (seed ! i); b1 = uint (seed ! (i + 1)); b2 = uint (seed ! (i + 2));
               d1 = b0 OR push_bit 8 (b1 AND 0x0F);
               d2 = drop_bit 4 b1 OR push_bit 4 b2
           in sample_loop seed (push_coeff d2 (push_coeff d1 coeffs)) (i + 3)
      else (coeffs, i))"
  by pat_completeness auto
termination by (relation "measure (\<lambda>(seed, coeffs, i). length seed - i)") auto

declare sample_loop.simps [simp del]

definition sample_ntt_ref :: "bytes \<Rightarrow> int list \<times> nat" where
  "sample_ntt_ref seed_bytes =
     (let (coeffs, i) = sample_loop seed_bytes [] 0
      in (coeffs @ replicate (256 - length coeffs) 0, i))"

subsection \<open>The oracle, one definition per workload\<close>

definition bench_fail :: "int \<Rightarrow> int \<Rightarrow> int \<Rightarrow> bench_result" where
  "bench_fail status op_mode batch_size =
     \<lparr>br_status = status, br_op_mode = op_mode, br_batch_size = batch_size,
      br_iterations_completed = 0, br_checksum = 0, br_payload = zeros (BENCH_RESULT_BUFFER_SIZE - 32)\<rparr>"

definition read_poly :: "bytes \<Rightarrow> nat \<Rightarrow> int list py" where
  "read_poly request_bytes off =
     mapE (\<lambda>i. bindE (struct_unpack_from [U 2] request_bytes (off + i * 2)) (\<lambda>v. Inr (v ! 0 mod MODULUS_Q)))
       [0..<256]"

definition emit_poly :: "int list \<Rightarrow> (bytes \<times> int) py" where
  "emit_poly vals =
     foldE (\<lambda>(payload, checksum) i.
       bindE (struct_pack_into [U 2] payload (i * 2) [vals ! i]) (\<lambda>payload.
       Inr (payload, u32 (checksum + vals ! i))))
     (zeros (BENCH_RESULT_BUFFER_SIZE - 32), 0) [0..<length vals]"

definition bench_ntt :: "bytes \<Rightarrow> nat \<Rightarrow> (bytes \<times> int) py" where
  "bench_ntt request_bytes total_iters =
     bindE (read_poly request_bytes 0) (\<lambda>poly.
     bindE (foldE (\<lambda>(poly, twiddle) it.
       bindE (ntt_butterfly_layer_ref poly twiddle) (\<lambda>poly.
       let twiddle = (twiddle * 17) mod MODULUS_Q
       in Inr (poly, if twiddle = 0 then 1 else twiddle))) (poly, 1753) [0..<total_iters])
     (\<lambda>(poly, twiddle). emit_poly poly))"

definition bench_keccak :: "bytes \<Rightarrow> nat \<Rightarrow> int \<Rightarrow> (bytes \<times> int) py" where
  "bench_keccak request_bytes total_iters param_0 =
     (let rounds = (if 0 < param_0 then nat param_0 else 24) in
      bindE (mapE (\<lambda>i. bindE (struct_unpack_from [U 8] request_bytes (i * 8)) (\<lambda>v. Inr (v ! 0))) [0..<25])
      (\<lambda>state.
      let state = foldl (\<lambda>st it. foldl keccak_round_ref st [0..<rounds]) state [0..<total_iters]
      in foldE (\<lambda>(payload, checksum) i.
           bindE (struct_pack_into [U 8] payload (i * 8) [state ! i]) (\<lambda>payload.
           Inr (payload, u32 (checksum + u32 (state ! i) + drop_bit 32 (state ! i)))))
         (zeros (BENCH_RESULT_BUFFER_SIZE - 32), 0) [0..<length state]))"

definition mac_step :: "int list \<Rightarrow> int list \<times> int list \<Rightarrow> nat \<Rightarrow> int list \<times> int list" where
  "mac_step poly_a s it =
     (case s of (accum, poly_b) \<Rightarrow>
        (map (\<lambda>(acc, p). (acc + p) mod MODULUS_Q) (zip accum (vector_mac_ref poly_a poly_b)),
         map (\<lambda>b. (b + 3) mod MODULUS_Q) poly_b))"

definition bench_mac :: "bytes \<Rightarrow> nat \<Rightarrow> (bytes \<times> int) py" where
  "bench_mac request_bytes total_iters =
     bindE (read_poly request_bytes 0) (\<lambda>poly_a.
     bindE (read_poly request_bytes 512) (\<lambda>poly_b.
     emit_poly (fst (foldl (mac_step poly_a) (replicate 256 0, poly_b) [0..<total_iters]))))"

definition bench_sample :: "bytes \<Rightarrow> nat \<Rightarrow> (bytes \<times> int) py" where
  "bench_sample request_bytes total_iters =
     (let seed = take 768 request_bytes;
          coeffs = fst (sample_ntt_ref seed);
          cur = foldl (\<lambda>cur it. map (\<lambda>c. (c * 3 + 7) mod MODULUS_Q) cur) coeffs [0..<total_iters]
      in emit_poly cur)"

definition bench_oracle :: "int \<Rightarrow> bytes \<Rightarrow> int \<Rightarrow> int \<Rightarrow> int \<Rightarrow> bench_result py" where
  "bench_oracle op_mode request_bytes batch_size warmup_iters param_0 =
     (if batch_size \<le> 0 then Inr (bench_fail BENCH_STATUS_ERR_INVALID_BATCH op_mode batch_size)
      else let total_iters = warmup_iters + batch_size;
               finish = (\<lambda>out. bindE out (\<lambda>(payload, checksum).
                 Inr \<lparr>br_status = BENCH_STATUS_SUCCESS, br_op_mode = op_mode, br_batch_size = batch_size,
                      br_iterations_completed = total_iters, br_checksum = checksum,
                      br_payload = payload\<rparr>))
           in if op_mode = MODE_BENCH_NTT_BUTTERFLY then finish (bench_ntt request_bytes (nat total_iters))
              else if op_mode = MODE_BENCH_KECCAK_F1600
              then finish (bench_keccak request_bytes (nat total_iters) param_0)
              else if op_mode = MODE_BENCH_VECTOR_MAC then finish (bench_mac request_bytes (nat total_iters))
              else if op_mode = MODE_BENCH_SAMPLE_NTT then finish (bench_sample request_bytes (nat total_iters))
              else Inr (bench_fail BENCH_STATUS_ERR_UNSUPPORTED_MODE op_mode batch_size))"


subsection \<open>Montgomery reduction\<close>

lemma mult_R_cancel:
  assumes "(x * 65536) mod 3329 = (y * 65536) mod (3329::int)"
  shows "x mod 3329 = y mod 3329"
proof -
  have inv: "(x * 65536 * 169) mod 3329 = x mod 3329" for x :: int
    using mod_mult_right_eq [of x "65536 * 169" 3329] by (simp add: mult.assoc)
  have "(x * 65536 * 169) mod 3329 = (y * 65536 * 169) mod 3329"
    by (rule mod_mult_cong [OF assms refl])
  then show ?thesis by (simp only: inv)
qed

lemma montgomery_reduce_exact:
  "0 \<le> montgomery_reduce a" "montgomery_reduce a < 3329"
  "(montgomery_reduce a * 65536) mod 3329 = a mod 3329"
proof -
  let ?t = "(a * 62209) AND 0xFFFF"
  let ?res = "drop_bit 16 (a - ?t * 3329)"
  have t: "?t mod 65536 = (a * 62209) mod 65536" by (simp add: and_ffff)
  have "(a - ?t * 3329) mod 65536 = 0" by (rule cancel_qinv [OF t]) simp
  then have r: "?res * 65536 = a - ?t * 3329" using drop_bit_exact [of "a - ?t * 3329" 16] by simp
  have m: "montgomery_reduce a = ?res mod 3329"
    by (simp add: montgomery_reduce_def Let_def)
  show "0 \<le> montgomery_reduce a" "montgomery_reduce a < 3329" by (simp_all add: m)
  have "(montgomery_reduce a * 65536) mod 3329 = (a - ?t * 3329) mod 3329"
    unfolding m mod_mult_left_eq r ..
  then show "(montgomery_reduce a * 65536) mod 3329 = a mod 3329"
    by (metis mod_mult_self3 diff_add_cancel add.commute)
qed

subsection \<open>The butterfly layer\<close>

lemma butterfly_step_pair:
  assumes "i + 128 < length res"
  shows "(ntt_butterfly_step w res i ! i, ntt_butterfly_step w res i ! (i + 128)) =
    butterfly_forward 3329 w (res ! i) (res ! (i + 128))"
  using assms
  by (simp add: ntt_butterfly_step_def butterfly_forward_def Let_def mod_simps mult.commute)

lemma butterfly_layer_nth:
  assumes "256 \<le> length poly" "n \<le> 128"
  shows "length (foldl (ntt_butterfly_step w) poly [0..<n]) = length poly \<and>
    (\<forall>i < 128. (foldl (ntt_butterfly_step w) poly [0..<n] ! i, foldl (ntt_butterfly_step w) poly [0..<n] ! (i + 128)) =
      (if i < n then butterfly_forward 3329 w (poly ! i) (poly ! (i + 128)) else (poly ! i, poly ! (i + 128))))"
  using assms(2)
proof (induction n)
  case (Suc n)
  let ?h = "foldl (ntt_butterfly_step w) poly [0..<n]"
  have IH: "length ?h = length poly" "\<And>i. i < 128 \<Longrightarrow> (?h ! i, ?h ! (i + 128)) =
      (if i < n then butterfly_forward 3329 w (poly ! i) (poly ! (i + 128)) else (poly ! i, poly ! (i + 128)))"
    using Suc by simp_all
  have step: "foldl (ntt_butterfly_step w) poly [0..<Suc n] = ntt_butterfly_step w ?h n" by simp
  have other: "ntt_butterfly_step w ?h n ! j = ?h ! j" if "j \<noteq> n" "j \<noteq> n + 128" for j
    using that by (simp add: ntt_butterfly_step_def Let_def)
  have len: "length (ntt_butterfly_step w ?h n) = length poly"
    using IH(1) by (simp add: ntt_butterfly_step_def Let_def)
  show ?case
  proof (intro conjI allI impI)
    show "length (foldl (ntt_butterfly_step w) poly [0..<Suc n]) = length poly" by (simp only: step len)
    fix i :: nat
    assume i: "i < 128"
    show "(foldl (ntt_butterfly_step w) poly [0..<Suc n] ! i, foldl (ntt_butterfly_step w) poly [0..<Suc n] ! (i + 128)) =
      (if i < Suc n then butterfly_forward 3329 w (poly ! i) (poly ! (i + 128)) else (poly ! i, poly ! (i + 128)))"
    proof (cases "i = n")
      case True
      then show ?thesis
        unfolding step using butterfly_step_pair [of n ?h w] IH(1) IH(2) [of n] assms(1) Suc.prems by simp
    next
      case False
      then show ?thesis unfolding step using other [of i] other [of "i + 128"] IH(2) [OF i] i Suc.prems
        by (simp add: less_Suc_eq)
    qed
  qed
qed simp

lemma butterfly_layer_refines:
  assumes "ntt_butterfly_layer_ref poly w = Inr r"
  shows "length r = length poly"
    "i < 128 \<Longrightarrow> (r ! i, r ! (i + 128)) = butterfly_forward 3329 w (poly ! i) (poly ! (i + 128))"
  using assms butterfly_layer_nth [of poly 128 w]
  by (simp_all add: ntt_butterfly_layer_ref_def split: if_splits)

subsection \<open>Keccak\<close>

lemma length_theta_ref [simp]: "length (theta_ref s) = 25"
  by (simp add: theta_ref_def Let_def)

lemma uint_rol64:
  assumes "r < 64"
  shows "u64 (push_bit r (uint (w :: 64 word)) OR drop_bit (64 - r) (uint w)) = uint (rol64 r w)"
proof (rule bit_eqI)
  fix n
  show "bit (u64 (push_bit r (uint w) OR drop_bit (64 - r) (uint w))) n \<longleftrightarrow> bit (uint (rol64 r w)) n"
    using assms by (auto simp add: u64_take_bit rol64_def bit_simps dest: bit_imp_le_length)
qed

lemma uint_xor3: "uint (a XOR b :: 64 word) = uint a XOR uint b"
  by (rule bit_eqI) (auto simp add: bit_simps)

lemma uint_not_and: "u64 (NOT (uint (a :: 64 word)) AND uint b) = uint (NOT a AND b)"
  by (rule bit_eqI) (auto simp add: u64_take_bit bit_simps)

lemma lane_nth: "x < 5 \<Longrightarrow> y < 5 \<Longrightarrow> lane A x y = A ! (x + 5 * y)"
  by (simp add: lane_def)

lemma of_lanes_nth: "x < 5 \<Longrightarrow> y < 5 \<Longrightarrow> of_lanes f ! (x + 5 * y) = f x y"
  by (simp add: of_lanes_def)

lemma lane_of_lanes: "lane (of_lanes f) x y = f (x mod 5) (y mod 5)"
  by (simp add: lane_def of_lanes_nth)

lemma theta_refines:
  assumes "length A = 25"
  shows "theta_ref (map uint A) = map uint (keccak_theta A)"
proof (rule nth_equalityI)
  fix i
  assume "i < length (theta_ref (map uint A))"
  then have i: "i < 25" by simp
  let ?C = "map (\<lambda>x. lane A x 0 XOR lane A x 1 XOR lane A x 2 XOR lane A x 3 XOR lane A x 4) [0..<5]"
  have c: "map (\<lambda>x. (map uint A ! x) XOR (map uint A ! (x + 5)) XOR (map uint A ! (x + 10)) XOR
      (map uint A ! (x + 15)) XOR (map uint A ! (x + 20))) [0..<5] = map uint ?C"
    using assms by (auto simp add: uint_xor3 lane_def ac_simps)
  have d: "x < 5 \<Longrightarrow> map (\<lambda>x. (map uint ?C ! ((x + 4) mod 5)) XOR
      u64 (push_bit 1 (map uint ?C ! ((x + 1) mod 5)) OR drop_bit 63 (map uint ?C ! ((x + 1) mod 5)))) [0..<5] ! x =
    uint (?C ! ((x + 4) mod 5) XOR rol64 1 (?C ! ((x + 1) mod 5)))" for x
    using uint_rol64 [of 1 "?C ! ((x + 1) mod 5)"] by (simp add: uint_xor3 del: list.map upt_Suc)
  have "theta_ref (map uint A) ! i =
    uint (A ! i) XOR uint (?C ! ((i mod 5 + 4) mod 5) XOR rol64 1 (?C ! ((i mod 5 + 1) mod 5)))"
    unfolding theta_ref_def Let_def c using i assms d [of "i mod 5"] by (simp del: list.map upt_Suc)
  also have "\<dots> = map uint (keccak_theta A) ! i"
    unfolding keccak_theta_def Let_def of_lanes_def
    using i by (simp add: uint_xor3 lane_def del: list.map upt_Suc)
  finally show "theta_ref (map uint A) ! i = map uint (keccak_theta A) ! i" .
qed (simp add: keccak_theta_def Let_def of_lanes_def)


lemma set_lane_order: "(x, y) \<in> set lane_order \<longleftrightarrow> x < 5 \<and> y < 5"
  by (auto simp add: lane_order_def)

lemma distinct_lane_order: "distinct lane_order"
  by (simp add: lane_order_def distinct_product)

text \<open>A loop that writes each of its cells once.\<close>

lemma foldl_write:
  assumes "distinct ps" "inj_on g (set ps)" "\<And>p. p \<in> set ps \<Longrightarrow> g p < length b" "p \<in> set ps"
  shows "foldl (\<lambda>b p. b[g p := f p]) b ps ! g p = f p"
  using assms
proof (induction ps rule: rev_induct)
  case (snoc q ps)
  show ?case
  proof (cases "p = q")
    case True
    with snoc.prems show ?thesis by simp
  next
    case False
    with snoc.prems have p: "p \<in> set ps" by simp
    have "g p \<noteq> g q" using inj_onD [OF snoc.prems(2), of p q] False p by auto
    moreover have "foldl (\<lambda>b p. b[g p := f p]) b ps ! g p = f p"
      using snoc.prems p by (intro snoc.IH) (auto simp add: inj_on_def)
    ultimately show ?thesis by simp
  qed
qed simp

lemma case_prod_update:
  "(\<lambda>b (x, y). b[g x y := f x y]) = (\<lambda>b p. b[case_prod g p := case_prod f p])"
  by (auto simp add: fun_eq_iff)

lemma lane_write:
  assumes "inj_on (case_prod g) (set lane_order)" "\<And>x y. x < 5 \<Longrightarrow> y < 5 \<Longrightarrow> g x y < 25" "x < 5" "y < 5"
  shows "foldl (\<lambda>b (x, y). b[g x y := f x y]) (replicate 25 z) lane_order ! g x y = f x y"
proof -
  have "foldl (\<lambda>b p. b[case_prod g p := case_prod f p]) (replicate 25 z) lane_order ! case_prod g (x, y) =
      case_prod f (x, y)"
    by (rule foldl_write) (use assms distinct_lane_order in \<open>auto simp add: set_lane_order\<close>)
  then show ?thesis by (simp only: case_prod_update prod.case)
qed

lemma length_lane_write [simp]:
  "length (foldl (\<lambda>b (x, y). b[g x y := f x y]) b ps) = length b"
  unfolding case_prod_update by simp

lemma rho_offsets:
  assumes "x < 5" "y < 5"
  shows "keccak_rot ! (x + 5 * y) = rho_offset x y \<and> rho_offset x y < 64"
proof -
  have "x \<in> {0, 1, 2, 3, 4}" "y \<in> {0, 1, 2, 3, 4}" using assms by auto
  then show ?thesis
    unfolding rho_offset_def rho_table keccak_rot_def by (elim insertE emptyE) simp_all
qed

lemma pi_target_inj: "inj_on (\<lambda>(x, y). y + 5 * ((2 * x + 3 * y) mod 5)) (set lane_order)"
proof -
  have "distinct (map (\<lambda>(x, y). y + 5 * ((2 * x + 3 * y) mod 5)) lane_order)" by code_simp
  then show ?thesis by (simp add: distinct_map)
qed

lemma chi_target_inj: "inj_on (\<lambda>(x, y). x + 5 * y) (set lane_order)"
proof -
  have "distinct (map (\<lambda>(x, y). x + 5 * y) lane_order)" by code_simp
  then show ?thesis by (simp add: distinct_map)
qed

lemma pi_source:
  fixes x y :: nat
  shows "x < 5 \<Longrightarrow> y < 5 \<Longrightarrow> x + 5 * y = x + 5 * ((2 * ((x + 3 * y) mod 5) + 3 * x) mod 5)"
proof -
  have "list_all (\<lambda>(x, y). x + 5 * y = x + 5 * ((2 * ((x + 3 * y) mod 5) + 3 * x) mod (5::nat))) lane_order"
    by code_simp
  then show "x < 5 \<Longrightarrow> y < 5 \<Longrightarrow> x + 5 * y = x + 5 * ((2 * ((x + 3 * y) mod 5) + 3 * x) mod 5)"
    using set_lane_order [of x y] by (auto simp add: list_all_iff)
qed

lemma uint_rol_cases:
  "r < 64 \<Longrightarrow> (if 0 < r then u64 (push_bit r (uint w) OR drop_bit (64 - r) (uint w)) else uint w) =
    uint (rol64 r w)"
proof (cases "r = 0")
  case True
  have "drop_bit 64 w = 0" by (rule bit_eqI) (auto simp add: bit_simps dest: bit_imp_le_length)
  with True show ?thesis by (simp add: rol64_def)
qed (simp add: uint_rol64)

lemma length_rho_pi_ref [simp]: "length (rho_pi_ref t) = 25"
  by (simp add: rho_pi_ref_def Let_def)

lemma rho_pi_refines:
  assumes "length T = 25"
  shows "rho_pi_ref (map uint T) = map uint (keccak_pi (keccak_rho T))"
proof (rule nth_equalityI)
  fix i
  assume "i < length (rho_pi_ref (map uint T))"
  then have i: "i < 25" by simp
  define x where "x = i mod 5"
  define y where "y = i div 5"
  define sx where "sx = (x + 3 * y) mod 5"
  have xy: "x < 5" "y < 5" "sx < 5" and ixy: "i = x + 5 * y"
    using i by (simp_all add: x_def y_def sx_def div_less_iff_less_mult)
  have src: "sx + 5 * x < 25" using xy by linarith
  have "rho_pi_ref (map uint T) ! (x + 5 * ((2 * sx + 3 * x) mod 5)) =
    (let idx = sx + 5 * x; r = keccak_rot ! idx; val = map uint T ! idx
     in if 0 < r then u64 (push_bit r val OR drop_bit (64 - r) val) else val)"
    unfolding rho_pi_ref_def Let_def
    by (rule lane_write [of "\<lambda>x y. y + 5 * ((2 * x + 3 * y) mod 5)"])
      (use xy pi_target_inj in \<open>auto simp add: Let_def\<close>)
  also have "\<dots> = uint (rol64 (rho_offset sx x) (T ! (sx + 5 * x)))"
  proof -
    have "keccak_rot ! (sx + 5 * x) = rho_offset sx x" "rho_offset sx x < 64"
      using rho_offsets [of sx x] xy by simp_all
    moreover have "map uint T ! (sx + 5 * x) = uint (T ! (sx + 5 * x))" using src assms by simp
    ultimately show ?thesis unfolding Let_def by (simp only: uint_rol_cases)
  qed
  also have "x + 5 * ((2 * sx + 3 * x) mod 5) = i"
    using pi_source [OF xy(1,2)] ixy by (simp add: sx_def)
  finally have "rho_pi_ref (map uint T) ! i = uint (rol64 (rho_offset sx x) (T ! (sx + 5 * x)))" .
  also have "\<dots> = uint (keccak_pi (keccak_rho T) ! i)"
    unfolding keccak_pi_def keccak_rho_def lane_of_lanes ixy of_lanes_nth [OF xy(1,2)]
    using xy by (simp add: lane_nth flip: sx_def)
  finally show "rho_pi_ref (map uint T) ! i = map uint (keccak_pi (keccak_rho T)) ! i"
    using i by (simp add: keccak_pi_def)
qed (simp add: keccak_pi_def)

lemma chi_refines:
  assumes "length B = 25"
  shows "chi_ref (map uint B) = map uint (keccak_chi B)"
proof (rule nth_equalityI)
  fix i
  assume "i < length (chi_ref (map uint B))"
  then have i: "i < 25" by (simp add: chi_ref_def)
  define x where "x = i mod 5"
  define y where "y = i div 5"
  have xy: "x < 5" "y < 5" and ixy: "i = x + 5 * y"
    using i by (simp_all add: x_def y_def div_less_iff_less_mult)
  have b: "(x + k) mod 5 + 5 * y < 25" for k
  proof -
    have "(x + k) mod 5 < 5" by simp
    with xy show ?thesis by linarith
  qed
  have "chi_ref (map uint B) ! (x + 5 * y) = (map uint B ! (x + 5 * y)) XOR
      u64 (NOT (map uint B ! (((x + 1) mod 5) + 5 * y)) AND (map uint B ! (((x + 2) mod 5) + 5 * y)))"
    unfolding chi_ref_def
    by (rule lane_write [of "\<lambda>x y. x + 5 * y"]) (use xy chi_target_inj in auto)
  also have "\<dots> = uint (B ! (x + 5 * y) XOR (NOT (B ! ((x + 1) mod 5 + 5 * y)) AND B ! ((x + 2) mod 5 + 5 * y)))"
  proof -
    have "x + 5 * y < 25" using xy by linarith
    with b [of 1] b [of 2] assms show ?thesis by (simp add: uint_xor3 uint_not_and)
  qed
  also have "\<dots> = uint (keccak_chi B ! i)"
    unfolding keccak_chi_def ixy of_lanes_nth [OF xy] using xy by (simp add: lane_def)
  finally show "chi_ref (map uint B) ! i = map uint (keccak_chi B) ! i"
    using i ixy by (simp add: keccak_chi_def)
qed (simp add: chi_ref_def keccak_chi_def)

lemma rc_refines: "r < 24 \<Longrightarrow> keccak_rc_table ! r = uint (keccak_rc ! r)"
proof -
  have "list_all (\<lambda>r. keccak_rc_table ! r = uint (keccak_rc ! r)) [0..<24]" by code_simp
  then show "r < 24 \<Longrightarrow> keccak_rc_table ! r = uint (keccak_rc ! r)" by (simp only: list_all_iff set_upt) simp
qed


lemma keccak_round_refines:
  assumes "length A = 25" "r < 24"
  shows "keccak_round_ref (map uint A) r = map uint (keccak_round A r)"
proof -
  let ?B = "keccak_chi (keccak_pi (keccak_rho (keccak_theta A)))"
  have t: "length (keccak_theta A) = 25" by (simp add: keccak_theta_def Let_def)
  have b: "length (keccak_pi (keccak_rho (keccak_theta A))) = 25" by (simp add: keccak_pi_def)
  have c: "length ?B = 25" by (simp add: keccak_chi_def)
  have "length keccak_rc_table = 24" by (simp add: keccak_rc_table_def)
  then have "keccak_round_ref (map uint A) r = (map uint ?B)[0 := (map uint ?B ! 0) XOR keccak_rc_table ! r]"
    using assms(2)
    by (simp add: keccak_round_ref_def Let_def theta_refines [OF assms(1)] rho_pi_refines [OF t] chi_refines [OF b])
  also have "\<dots> = map uint (keccak_round A r)"
    using c assms(2) by (simp add: keccak_round_def keccak_iota_def rc_refines uint_xor3 map_update)
  finally show ?thesis .
qed

subsection \<open>Rejection sampling\<close>

fun candidates :: "bytes \<Rightarrow> int list" where
  "candidates (b0 # b1 # b2 # bs) =
     (uint b0 + 256 * (uint b1 mod 16)) # (uint b1 div 16 + 16 * uint b2) # candidates bs"
| "candidates _ = []"

lemma or_disjoint: "take_bit n a = a \<Longrightarrow> a OR push_bit n b = a + 2 ^ n * (b::int)"
proof -
  assume a: "take_bit n a = a"
  have "\<not> bit a k \<or> \<not> bit (push_bit n b) k" for k
    using a by (metis bit_push_bit_iff_int bit_take_bit_iff not_le)
  then have "a + push_bit n b = a OR push_bit n b" by (intro disjunctive_add_eq_or bit_eqI) (auto simp add: bit_and_iff)
  then show ?thesis by (simp add: push_bit_eq_mult mult.commute)
qed

lemma candidate_1: "uint (b0 :: byte) OR push_bit 8 (uint (b1 :: byte) AND 0x0F) = uint b0 + 256 * (uint b1 mod 16)"
proof -
  have "uint b1 AND 0x0F = uint b1 mod 16" using and_mask_mod [of "uint b1" 4] by simp
  moreover have "take_bit 8 (uint b0) = uint b0" by (simp add: take_bit_int_eq_self)
  ultimately show ?thesis by (simp add: or_disjoint)
qed

lemma candidate_2: "drop_bit 4 (uint (b1 :: byte)) OR push_bit 4 (uint (b2 :: byte)) = uint b1 div 16 + 16 * uint b2"
proof -
  have "uint b1 div 16 < 16" "0 \<le> uint b1 div 16"
    using uint_byte_less [of b1] by (linarith, simp add: pos_imp_zdiv_nonneg_iff)
  then have "take_bit 4 (drop_bit 4 (uint b1)) = drop_bit 4 (uint b1)"
    by (simp add: drop_bit_eq_div take_bit_int_eq_self)
  then show ?thesis by (simp add: or_disjoint) (simp add: drop_bit_eq_div)
qed

lemma push_coeff_take:
  "length cs \<le> 256 \<Longrightarrow> push_coeff d cs = take 256 (cs @ filter (\<lambda>c. c < 3329) [d])"
  by (auto simp add: push_coeff_def)

lemma take_append_take: "take n (take n ys @ xs) = take n (ys @ xs)"
  by (cases "length ys \<le> n") simp_all

lemma sample_loop_spec:
  "length cs \<le> 256 \<Longrightarrow>
    fst (sample_loop seed cs i) = take 256 (cs @ filter (\<lambda>c. c < 3329) (candidates (drop i seed)))"
proof (induction seed cs i rule: sample_loop.induct)
  case (1 seed cs i)
  show ?case
  proof (cases "length cs < 256 \<and> i + 2 < length seed")
    case True
    then have d: "drop i seed = seed ! i # seed ! (i + 1) # seed ! (i + 2) # drop (i + 3) seed"
      by (simp add: Cons_nth_drop_Suc numeral_eq_Suc)
    let ?d1 = "uint (seed ! i) OR push_bit 8 (uint (seed ! (i + 1)) AND 0x0F)"
    let ?d2 = "drop_bit 4 (uint (seed ! (i + 1))) OR push_bit 4 (uint (seed ! (i + 2)))"
    let ?cs = "push_coeff ?d2 (push_coeff ?d1 cs)"
    let ?r = "filter (\<lambda>c. c < 3329) (candidates (drop (i + 3) seed))"
    have l1: "length (push_coeff d c) \<le> 256" if "length c \<le> 256" for d c
      using that by (simp add: push_coeff_def)
    have "sample_loop seed cs i = sample_loop seed ?cs (i + 3)"
      using True by (subst sample_loop.simps) (simp add: Let_def)
    then have "fst (sample_loop seed cs i) = take 256 (?cs @ ?r)"
      using 1(1) [OF True refl refl refl refl refl] l1 1(2) by simp
    also have "?cs = take 256 (push_coeff ?d1 cs @ filter (\<lambda>c. c < 3329) [?d2])"
      by (rule push_coeff_take) (rule l1, rule 1(2))
    also have "push_coeff ?d1 cs = take 256 (cs @ filter (\<lambda>c. c < 3329) [?d1])"
      by (rule push_coeff_take) (rule 1(2))
    also have "take 256 (take 256 (take 256 (cs @ filter (\<lambda>c. c < 3329) [?d1]) @ filter (\<lambda>c. c < 3329) [?d2]) @ ?r) =
      take 256 ((cs @ filter (\<lambda>c. c < 3329) [?d1]) @ filter (\<lambda>c. c < 3329) [?d2] @ ?r)"
      by (simp only: take_append_take append_assoc)
    also have "\<dots> = take 256 (cs @ filter (\<lambda>c. c < 3329) (?d1 # ?d2 # candidates (drop (i + 3) seed)))"
      by (simp only: filter.simps append_assoc append_Cons append_Nil split: if_splits) simp
    also have "?d1 # ?d2 # candidates (drop (i + 3) seed) = candidates (drop i seed)"
      unfolding d candidates.simps by (simp only: candidate_1 candidate_2)
    finally show ?thesis .
  next
    case False
    have "candidates (drop i seed) = []" if "\<not> i + 2 < length seed"
    proof -
      from that have "length (drop i seed) < 3" by simp
      then show ?thesis by (cases "drop i seed" rule: candidates.cases) simp_all
    qed
    with False 1(2) show ?thesis by (subst sample_loop.simps) auto
  qed
qed

lemma candidates_nonneg: "c \<in> set (candidates bs) \<Longrightarrow> 0 \<le> c"
  by (induction bs rule: candidates.induct) (auto simp add: pos_imp_zdiv_nonneg_iff)

lemma sample_ntt_spec:
  "fst (sample_ntt_ref seed) =
     (let acc = take 256 (filter (\<lambda>c. c < 3329) (candidates seed)) in acc @ replicate (256 - length acc) 0)"
  using sample_loop_spec [of "[]" seed 0]
  by (cases "sample_loop seed [] 0") (simp add: sample_ntt_ref_def Let_def)

subsection \<open>Emitted polynomials\<close>

lemma emit_poly_prefix:
  assumes "\<forall>v \<in> set vals. 0 \<le> v \<and> v < 65536" "length vals \<le> 1008" "n \<le> length vals"
  shows "foldE (\<lambda>(payload, checksum) i.
       bindE (struct_pack_into [U 2] payload (i * 2) [vals ! i]) (\<lambda>payload.
       Inr (payload, u32 (checksum + vals ! i)))) (zeros 2016, 0) [0..<n] =
    Inr (put 0 (concat (map (le_bytes 2) (take n vals))) (zeros 2016), u32 (sum_list (take n vals)))"
  using assms(3)
proof (induction n)
  case 0
  then show ?case by (simp add: put_def u32_def)
next
  case (Suc n)
  let ?X = "concat (map (le_bytes 2) (take n vals))"
  have v: "0 \<le> vals ! n \<and> vals ! n < 65536" using assms(1) Suc.prems by simp
  have "map length (map (le_bytes 2) (take n vals)) = replicate n 2"
    using Suc.prems by (intro replicate_eqI) auto
  then have l: "length ?X = n * 2" by (simp add: length_concat sum_list_replicate)
  have "struct_pack_into [U 2] (put 0 ?X (zeros 2016)) (n * 2) [vals ! n] =
      Inr (put (n * 2) (le_bytes 2 (vals ! n)) (put 0 ?X (zeros 2016)))"
    using v l Suc.prems assms(2) by (subst struct_pack_into_fits) simp_all
  also have "put (n * 2) (le_bytes 2 (vals ! n)) (put 0 ?X (zeros 2016)) =
      put 0 (?X @ le_bytes 2 (vals ! n)) (zeros 2016)"
    using l Suc.prems assms(2) by (intro put_put_adjacent) simp_all
  finally show ?case using Suc by (simp add: foldE_append take_Suc_conv_app_nth u32_add_left)
qed

lemma nth_poly_bytes:
  "i < length vals \<Longrightarrow> \<forall>v \<in> set vals. 0 \<le> v \<and> v < 65536 \<Longrightarrow>
    le_int (slice (i * 2) (i * 2 + 2) (concat (map (le_bytes 2) vals) @ rest)) = vals ! i"
proof (induction vals arbitrary: i)
  case (Cons v vals)
  show ?case
  proof (cases i)
    case 0
    with Cons.prems show ?thesis by (simp add: slice_def le_int_bytes)
  next
    case (Suc j)
    with Cons show ?thesis by (simp add: slice_append_right)
  qed
qed simp

lemma emit_poly_spec:
  assumes "\<forall>v \<in> set vals. 0 \<le> v \<and> v < 65536" "length vals \<le> 1008"
  obtains payload where "emit_poly vals = Inr (payload, u32 (sum_list vals))"
    "\<And>i. i < length vals \<Longrightarrow> le_int (slice (i * 2) (i * 2 + 2) payload) = vals ! i"
proof
  let ?p = "put 0 (concat (map (le_bytes 2) vals)) (zeros 2016)"
  show "emit_poly vals = Inr (?p, u32 (sum_list vals))"
    using emit_poly_prefix [OF assms, of "length vals"] by (simp add: emit_poly_def)
  show "le_int (slice (i * 2) (i * 2 + 2) ?p) = vals ! i" if "i < length vals" for i
    unfolding put_def using nth_poly_bytes [OF that assms(1)] by simp
qed


subsection \<open>Reading and the multiply-accumulate loop\<close>

definition coeff_at :: "bytes \<Rightarrow> nat \<Rightarrow> nat \<Rightarrow> int" where
  "coeff_at req off i = le_int (slice (off + i * 2) (off + i * 2 + 2) req)"

lemma read_poly_spec:
  assumes "off + 512 \<le> length req"
  shows "read_poly req off = Inr (map (\<lambda>i. coeff_at req off i mod 3329) [0..<256])"
  unfolding read_poly_def
proof (rule mapE_total)
  fix i
  assume "i \<in> set [0..<256]"
  then have "i < 256" by (simp only: set_upt atLeastLessThan_iff)
  then show "bindE (struct_unpack_from [U 2] req (off + i * 2)) (\<lambda>v. Inr (v ! 0 mod 3329)) =
      Inr (coeff_at req off i mod 3329)"
    using assms by (simp add: struct_unpack_from_def coeff_at_def slice_def)
qed

lemma mac_loop:
  assumes "length a = m" "length b = m"
  shows "foldl (mac_step a) (replicate m 0, b) [0..<n] =
    (map (\<lambda>i. (\<Sum>k<n. a ! i * (b ! i + 3 * int k)) mod 3329) [0..<m],
     map (\<lambda>i. if n = 0 then b ! i else (b ! i + 3 * int n) mod 3329) [0..<m])"
proof (induction n)
  case 0
  show ?case using assms by (simp add: map_nth list_eq_iff_nth_eq)
next
  case (Suc n)
  let ?acc = "map (\<lambda>i. (\<Sum>k<n. a ! i * (b ! i + 3 * int k)) mod 3329) [0..<m]"
  let ?b = "map (\<lambda>i. if n = 0 then b ! i else (b ! i + 3 * int n) mod 3329) [0..<m]"
  have m: "(x mod 3329 + (y * (if n = 0 then z else (z + 3 * int n) mod 3329)) mod 3329) mod 3329 =
      (x + y * (z + 3 * int n)) mod 3329" for x y z :: int
    by (cases "n = 0") (simp_all add: mod_add_eq mod_mult_right_eq)
  have "foldl (mac_step a) (replicate m 0, b) [0..<Suc n] = mac_step a (?acc, ?b) n"
    using Suc by simp
  also have "\<dots> = (map (\<lambda>i. (\<Sum>k<Suc n. a ! i * (b ! i + 3 * int k)) mod 3329) [0..<m],
     map (\<lambda>i. (b ! i + 3 * int (Suc n)) mod 3329) [0..<m])"
    unfolding mac_step_def vector_mac_ref_def prod.case
    using assms m by (auto simp add: list_eq_iff_nth_eq mod_simps algebra_simps)
  finally show ?case by simp
qed

subsection \<open>Properties\<close>

text \<open>
  The benchmark's Montgomery reduction is total and exact on all integers: its result lies in
  \<open>[0, 3329)\<close> and is the argument divided by \<open>2^16\<close> modulo 3329; it is the reduction of the
  verification module brought into that range, although the two read the low half-word with
  different signs.
\<close>

theorem bench_reduction_refines:
  "0 \<le> montgomery_reduce a \<and> montgomery_reduce a < MODULUS_Q \<and>
   (montgomery_reduce a * 65536) mod MODULUS_Q = a mod MODULUS_Q \<and>
   montgomery_reduce a = montgomery_reduce_mlkem a mod MODULUS_Q"
proof -
  obtain u where u: "montgomery_reduce_mlkem a * 65536 = a - u * 3329" by (rule montgomery_mlkem_exact)
  have "(a - u * 3329) mod 3329 = a mod 3329" by (metis mod_mult_self3 diff_add_cancel add.commute)
  then have "(montgomery_reduce a * 65536) mod 3329 = (montgomery_reduce_mlkem a * 65536) mod 3329"
    using montgomery_reduce_exact(3) [of a] by (simp only: u)
  then have "montgomery_reduce a mod 3329 = montgomery_reduce_mlkem a mod 3329" by (rule mult_R_cancel)
  then show ?thesis using montgomery_reduce_exact [of a] by simp
qed

text \<open>
  A butterfly layer is 128 independent butterflies: coefficient pair \<open>(i, i + 128)\<close> of the
  result is the forward butterfly of that pair of the input, and for a twiddle prime to 3329 the
  inverse butterfly with the computed inverses gives every reduced input pair back, so the layer
  loses nothing.
\<close>

theorem butterfly_layer_invertible:
  assumes "ntt_butterfly_layer_ref poly twiddle = Inr r" "gcd twiddle MODULUS_Q = 1" "i < 128"
    "poly ! i \<in> {0..<MODULUS_Q}" "poly ! (i + 128) \<in> {0..<MODULUS_Q}"
  shows "length r = length poly \<and>
    (r ! i, r ! (i + 128)) = butterfly_forward MODULUS_Q twiddle (poly ! i) (poly ! (i + 128)) \<and>
    (\<exists>inv2 w_inv. pow_inv 2 MODULUS_Q = Inr inv2 \<and> pow_inv twiddle MODULUS_Q = Inr w_inv \<and>
      butterfly_inverse MODULUS_Q inv2 w_inv (r ! i, r ! (i + 128)) = (poly ! i, poly ! (i + 128)))"
proof -
  note l = butterfly_layer_refines [OF assms(1)]
  have two: "gcd 2 (3329::int) = 1" by (simp add: gcd_non_0_int)
  obtain i2 where i2: "pow_inv 2 3329 = Inr i2" "(2 * i2) mod 3329 = 1" by (rule pow_inv_spec [OF two]) simp
  obtain wi where wi: "pow_inv twiddle 3329 = Inr wi" "(twiddle * wi) mod 3329 = 1"
    by (rule pow_inv_spec [OF assms(2)]) simp
  have "butterfly_inverse 3329 i2 wi (butterfly_forward 3329 twiddle (poly ! i) (poly ! (i + 128))) =
      (poly ! i, poly ! (i + 128))"
    using assms(4,5) by (intro butterfly_identity wi(2) i2(2)) auto
  with i2(1) wi(1) l(1) l(2) [OF assms(3)] show ?thesis by simp
qed

theorem butterfly_layer_invertible_witness:
  "\<exists>r. ntt_butterfly_layer_ref (replicate 256 5) 1753 = Inr r \<and> length r = 256 \<and>
    (r ! 7, r ! 135) = butterfly_forward MODULUS_Q 1753 5 5"
proof -
  obtain r where r: "ntt_butterfly_layer_ref (replicate 256 5) 1753 = Inr r"
    by (simp add: ntt_butterfly_layer_ref_def del: upt_Suc)
  have "gcd 1753 (3329::int) = 1" by (simp add: gcd_non_0_int)
  from butterfly_layer_invertible [OF r this, of 7] r show ?thesis by simp
qed

text \<open>
  The round of the benchmark, written on unbounded integers with explicit masks, is the
  Keccak-f[1600] round of FIPS 202 on 64-bit words: for every state of 25 words and each of the 24
  round numbers the two give the same lanes.
\<close>

theorem keccak_round_is_fips202:
  assumes "length A = 25" "r < 24"
  shows "keccak_round_ref (map uint A) r = map uint (keccak_round A r)"
  using assms by (rule keccak_round_refines)

theorem keccak_round_is_fips202_witness:
  "keccak_round_ref (map uint (replicate 25 (7 :: 64 word))) 3 =
   map uint (keccak_round (replicate 25 7) 3)"
  by (rule keccak_round_is_fips202) simp_all

text \<open>
  Rejection sampling is filtering: the 256 coefficients are the first 256 of the 12-bit values
  of the byte stream that are below 3329, in order, padded with zeros when the stream runs out, and
  every coefficient is a residue modulo 3329.
\<close>

theorem sampling_is_filter:
  "let out = fst (sample_ntt_ref seed);
       accepted = take 256 (filter (\<lambda>c. c < MODULUS_Q) (candidates seed))
   in out = accepted @ replicate (256 - length accepted) 0 \<and> length out = 256 \<and>
      (\<forall>c \<in> set out. 0 \<le> c \<and> c < MODULUS_Q)"
proof -
  define acc where "acc = take 256 (filter (\<lambda>c. c < 3329) (candidates seed))"
  have acc: "0 \<le> c \<and> c < 3329" if "c \<in> set acc" for c
    using that candidates_nonneg [of c seed] by (auto simp add: acc_def dest: in_set_takeD)
  have len: "length acc \<le> 256" by (simp add: acc_def)
  have out: "fst (sample_ntt_ref seed) = acc @ replicate (256 - length acc) 0"
    by (simp only: sample_ntt_spec acc_def Let_def)
  have "length (acc @ replicate (256 - length acc) (0::int)) = 256" using len by simp
  moreover have "\<forall>c \<in> set (acc @ replicate (256 - length acc) 0). 0 \<le> c \<and> c < 3329"
    using acc by (auto simp add: set_replicate_conv_if)
  ultimately show ?thesis unfolding Let_def out acc_def [symmetric] by blast
qed

theorem sampling_is_filter_witness:
  "length (fst (sample_ntt_ref [0xFF, 0xFF, 0x01])) = 256 \<and> fst (sample_ntt_ref [0xFF, 0xFF, 0x01]) ! 0 = 31"
  using sampling_is_filter [of "[0xFF, 0xFF, 0x01]"] by (simp add: Let_def)

text \<open>
  The multiply-accumulate workload computes its closed form: on a request of at least 1024
  bytes with coefficients \<open>a\<close> and \<open>b\<close>, the oracle succeeds for every positive batch and, with
  \<open>n\<close> iterations in total, payload coefficient \<open>i\<close> is the sum of \<open>a i * (b i + 3 k)\<close> for
  \<open>k < n\<close>, modulo 3329.
\<close>

theorem bench_mac_closed_form:
  assumes "1024 \<le> length req" "0 < batch"
  shows "\<exists>h. bench_oracle MODE_BENCH_VECTOR_MAC req batch warmup p0 = Inr h \<and>
    br_status h = BENCH_STATUS_SUCCESS \<and> br_iterations_completed h = warmup + batch \<and>
    (\<forall>i < 256. coeff_at (br_payload h) 0 i =
      (\<Sum>k < nat (warmup + batch). coeff_at req 0 i * (coeff_at req 512 i + 3 * int k)) mod MODULUS_Q)"
proof -
  let ?n = "nat (warmup + batch)"
  let ?a = "map (\<lambda>i. coeff_at req 0 i mod 3329) [0..<256]"
  let ?b = "map (\<lambda>i. coeff_at req 512 i mod 3329) [0..<256]"
  define vals where "vals = map (\<lambda>i. (\<Sum>k<?n. ?a ! i * (?b ! i + 3 * int k)) mod 3329) [0..<256]"
  have reads: "read_poly req 0 = Inr ?a" "read_poly req 512 = Inr ?b"
    using assms(1) by (simp_all only: read_poly_spec)
  have loop: "fst (foldl (mac_step ?a) (replicate 256 0, ?b) [0..<?n]) = vals"
    by (subst mac_loop) (simp_all only: length_map length_upt fst_conv vals_def)
  have len: "length vals = 256" by (simp add: vals_def)
  have rng: "\<forall>v \<in> set vals. 0 \<le> v \<and> v < 65536"
  proof
    fix v
    assume "v \<in> set vals"
    then obtain x where "v = x mod 3329" unfolding vals_def set_map by blast
    then show "0 \<le> v \<and> v < 65536" using pos_mod_bound [of 3329 x] by simp
  qed
  have "length vals \<le> 1008" using len by simp
  with rng obtain payload where p: "emit_poly vals = Inr (payload, u32 (sum_list vals))"
    "\<And>i. i < length vals \<Longrightarrow> le_int (slice (i * 2) (i * 2 + 2) payload) = vals ! i"
    by (rule emit_poly_spec) (rule that)
  have v: "vals ! i = (\<Sum>k<?n. coeff_at req 0 i * (coeff_at req 512 i + 3 * int k)) mod 3329" if "i < 256" for i
  proof -
    have "vals ! i = (\<Sum>k<?n. (coeff_at req 0 i mod 3329) * (coeff_at req 512 i mod 3329 + 3 * int k)) mod 3329"
      unfolding vals_def using that by (simp only: nth_map length_upt nth_upt add_0 diff_zero)
    also have "\<dots> = (\<Sum>k<?n. ((coeff_at req 0 i mod 3329) * (coeff_at req 512 i mod 3329 + 3 * int k)) mod 3329) mod 3329"
      by (simp only: mod_sum_eq)
    also have "\<dots> = (\<Sum>k<?n. (coeff_at req 0 i * (coeff_at req 512 i + 3 * int k)) mod 3329) mod 3329"
      by (simp only: mod_mult_left_eq mod_mult_right_eq [symmetric, of _ "coeff_at req 512 i mod 3329 + _"]
          mod_add_left_eq) (simp only: mod_mult_right_eq)
    also have "\<dots> = (\<Sum>k<?n. coeff_at req 0 i * (coeff_at req 512 i + 3 * int k)) mod 3329"
      by (simp only: mod_sum_eq)
    finally show ?thesis .
  qed
  have "bench_mac req ?n = Inr (payload, u32 (sum_list vals))"
    unfolding bench_mac_def reads bindE_simps loop by (rule p(1))
  then have "bench_oracle 3 req batch warmup p0 = Inr \<lparr>br_status = 0, br_op_mode = 3,
      br_batch_size = batch, br_iterations_completed = warmup + batch,
      br_checksum = u32 (sum_list vals), br_payload = payload\<rparr>"
    using assms(2) by (simp add: bench_oracle_def Let_def)
  moreover have "\<forall>i < 256. coeff_at payload 0 i =
      (\<Sum>k<?n. coeff_at req 0 i * (coeff_at req 512 i + 3 * int k)) mod 3329"
    unfolding coeff_at_def [of payload] add_0 using p(2) v len by metis
  ultimately show ?thesis by simp
qed

theorem bench_mac_closed_form_witness:
  "\<exists>h. bench_oracle MODE_BENCH_VECTOR_MAC (replicate 1024 1) 2 1 0 = Inr h \<and>
    br_iterations_completed h = 3"
  using bench_mac_closed_form [of "replicate 1024 1" 2 1 0] by auto

end
