(* ===== verification/Host.thy ===== *)
theory Host
  imports PyStruct
begin

text \<open>
  The host side that every device graph (\<open>dr*_graph.py\<close>) repeats: the environment checks that
  refuse emulation, the runtime checks, and the dispatch of one request with its descriptor to the
  device.  The XRT runtime, its toolchain and the device program are not part of the repository's
  Python code: they are the record \<open>host\<close>, a parameter.  A result buffer is allocated zeroed with
  a fixed size, so the device's answer is what it wrote, cut or padded to that size.  Elapsed times
  and the clearing of staging arrays, which nothing reads afterwards, are left out.
\<close>

unbundle bit_operations_syntax

record host =
  ho_emulation_mode :: "string option"
  ho_xrt_ini :: "string option"
  ho_device_present :: bool
  ho_toolchain_present :: bool
  ho_program :: "bytes \<Rightarrow> bytes \<Rightarrow> bytes py"

text \<open>\<open>value and value.strip()\<close>: the variable is set to something other than white space.\<close>

definition white_space :: "char \<Rightarrow> bool" where
  "white_space c \<longleftrightarrow> (of_char c :: nat) \<in> {9, 10, 11, 12, 13, 28, 29, 30, 31, 32, 133, 160}"

definition is_set :: "string option \<Rightarrow> bool" where
  "is_set v \<longleftrightarrow> (case v of None \<Rightarrow> False | Some s \<Rightarrow> list_ex (\<lambda>c. \<not> white_space c) s)"

definition check_emulation_and_redirection_excluded :: "host \<Rightarrow> unit py" where
  "check_emulation_and_redirection_excluded h =
     (if is_set (ho_emulation_mode h) then Inl NativeBackendUnavailable
      else if is_set (ho_xrt_ini h) then Inl NativeBackendUnavailable else Inr ())"

definition require_hardware_runtime :: "host \<Rightarrow> unit py" where
  "require_hardware_runtime h = bindE (check_emulation_and_redirection_excluded h)
     (\<lambda>_. if ho_device_present h then Inr () else Inl NativeBackendUnavailable)"

definition load_iron :: "host \<Rightarrow> unit py" where
  "load_iron h = bindE (check_emulation_and_redirection_excluded h)
     (\<lambda>_. if ho_toolchain_present h then Inr () else Inl NativeBackendUnavailable)"

definition run_on_device :: "nat \<Rightarrow> host \<Rightarrow> bytes \<Rightarrow> bytes \<Rightarrow> bytes py" where
  "run_on_device result_bytes h desc req =
     bindE (ho_program h req desc) (\<lambda>out. Inr (take result_bytes (ljust result_bytes out)))"

text \<open>The call of the services that only load the toolchain.\<close>

definition device_run :: "nat \<Rightarrow> host \<Rightarrow> bytes \<Rightarrow> bytes \<Rightarrow> bytes py" where
  "device_run result_bytes h desc req =
     bindE (load_iron h) (\<lambda>_. run_on_device result_bytes h desc req)"

definition dispatch :: "nat \<Rightarrow> host \<Rightarrow> bytes \<Rightarrow> bytes \<Rightarrow> bytes py" where
  "dispatch result_bytes h desc req =
     bindE (require_hardware_runtime h) (\<lambda>_. bindE (load_iron h) (\<lambda>_. run_on_device result_bytes h desc req))"

text \<open>\<open>struct.unpack_from("<I", raw_res, off)\<close> on a result buffer that is long enough.\<close>

definition result_word :: "nat \<Rightarrow> bytes \<Rightarrow> int" where
  "result_word off raw = le_int (slice off (off + 4) raw)"

definition result_quad :: "nat \<Rightarrow> bytes \<Rightarrow> int" where
  "result_quad off raw = le_int (slice off (off + 8) raw)"

definition check_status :: "bytes \<Rightarrow> bytes py" where
  "check_status raw = (if result_word 8 raw \<noteq> 0 then Inl RuntimeError else Inr raw)"

text \<open>
  The shape of the operations that look up their parameters between the runtime checks and the
  call; they may also answer at once.
\<close>

definition with_device ::
  "nat \<Rightarrow> host \<Rightarrow> 'p py \<Rightarrow> ('p \<Rightarrow> (bytes py \<times> bytes \<times> (bytes \<Rightarrow> 'r py)) + 'r) \<Rightarrow> 'r py" where
  "with_device result_bytes h params job =
     bindE (require_hardware_runtime h) (\<lambda>_. bindE (load_iron h) (\<lambda>_. bindE params (\<lambda>p.
       case job p of
         Inr r \<Rightarrow> Inr r
       | Inl (desc, req, decode) \<Rightarrow> bindE desc (\<lambda>desc. bindE (run_on_device result_bytes h desc req) decode))))"

subsection \<open>Failing closed\<close>

definition iron_ok :: "host \<Rightarrow> bool" where
  "iron_ok h \<longleftrightarrow> \<not> is_set (ho_emulation_mode h) \<and> \<not> is_set (ho_xrt_ini h) \<and> ho_toolchain_present h"

definition hardware_ok :: "host \<Rightarrow> bool" where
  "hardware_ok h \<longleftrightarrow> iron_ok h \<and> ho_device_present h"

lemma load_iron_eq: "load_iron h = (if iron_ok h then Inr () else Inl NativeBackendUnavailable)"
  by (simp add: load_iron_def check_emulation_and_redirection_excluded_def iron_ok_def)

lemma dispatch_hardware: "\<not> hardware_ok h \<Longrightarrow> dispatch n h desc req = Inl NativeBackendUnavailable"
  by (auto simp add: dispatch_def require_hardware_runtime_def load_iron_eq iron_ok_def
      check_emulation_and_redirection_excluded_def hardware_ok_def)

lemma dispatch_ok: "hardware_ok h \<Longrightarrow> dispatch n h desc req = run_on_device n h desc req"
  by (auto simp add: dispatch_def require_hardware_runtime_def load_iron_eq iron_ok_def
      check_emulation_and_redirection_excluded_def hardware_ok_def)

lemma dispatch_Inr_iff:
  "dispatch n h desc req = Inr raw \<longleftrightarrow>
    hardware_ok h \<and> (\<exists>out. ho_program h req desc = Inr out \<and> raw = take n (ljust n out))"
  by (cases "hardware_ok h") (auto simp add: dispatch_ok dispatch_hardware run_on_device_def bindE_Inr_iff)

lemma with_device_Inr:
  assumes "with_device n h params job = Inr r" "\<And>p. job p \<noteq> Inr r"
  obtains p desc d req decode out where "iron_ok h" "params = Inr p" "job p = Inl (d, req, decode)" "d = Inr desc"
    "ho_program h req desc = Inr out" "decode (take n (ljust n out)) = Inr r"
proof -
  from assms(1) obtain p where i: "iron_ok h" and p: "params = Inr p" and
    j: "(case job p of Inr r \<Rightarrow> Inr r | Inl (desc, req, decode) \<Rightarrow> bindE desc (\<lambda>desc. bindE (run_on_device n h desc req) decode)) = Inr r"
    by (auto simp add: with_device_def bindE_Inr_iff load_iron_eq split: if_splits)
  show thesis
  proof (cases "job p")
    case (Inl a)
    with j i p that show ?thesis by (cases a) (auto simp add: bindE_Inr_iff run_on_device_def)
  next
    case (Inr r') with j assms(2) [of p] show ?thesis by simp
  qed
qed

lemma with_device_needs:
  assumes "with_device n h params job = Inr r" "\<And>p. job p \<noteq> Inr r"
  shows "iron_ok h \<and> (\<exists>req desc out. ho_program h req desc = Inr out)"
  using with_device_Inr [OF assms] by metis

lemma device_run_Inr_iff:
  "device_run n h desc req = Inr raw \<longleftrightarrow>
    iron_ok h \<and> (\<exists>out. ho_program h req desc = Inr out \<and> raw = take n (ljust n out))"
  by (auto simp add: device_run_def load_iron_eq run_on_device_def bindE_Inr_iff)

lemma length_device_run: "device_run n h desc req = Inr raw \<Longrightarrow> length raw = n"
  by (auto simp add: device_run_Inr_iff)

lemma length_dispatch: "dispatch n h desc req = Inr raw \<Longrightarrow> length raw = n"
  by (auto simp add: dispatch_Inr_iff)

lemma result_word_bounds: "0 \<le> result_word off raw" "result_word off raw < 4294967296"
proof -
  have "le_int (slice off (off + 4) raw) < 256 ^ length (slice off (off + 4) raw)" by (rule le_int_less)
  also have "\<dots> \<le> 256 ^ 4" by (rule power_increasing) simp_all
  finally show "result_word off raw < 4294967296" by (simp add: result_word_def)
qed (simp add: result_word_def)

text \<open>
  The contract of an operation offered by a graph: it answers only through the device.  Without
  the toolchain, or with emulation switched on, it raises; and when the device program fails it
  raises too, so no answer is ever computed on the host instead.
\<close>

locale device_operation =
  fixes operation :: "host \<Rightarrow> 'r py"
  assumes needs_device: "operation h = Inr r \<Longrightarrow>
    iron_ok h \<and> (\<exists>req desc out. ho_program h req desc = Inr out)"
begin

lemma fails_closed: "\<not> iron_ok h \<Longrightarrow> \<exists>e. operation h = Inl e"
  using needs_device by (cases "operation h") auto

lemma refuses_emulation: "is_set (ho_emulation_mode h) \<Longrightarrow> \<exists>e. operation h = Inl e"
  by (rule fails_closed) (simp add: iron_ok_def)

lemma no_host_fallback: "(\<And>req desc. ho_program h req desc = Inl (f req desc)) \<Longrightarrow> \<exists>e. operation h = Inl e"
  using needs_device by (cases "operation h") fastforce+

end

subsection \<open>Words in buffers\<close>

lemma struct_fits_words: "struct_fits (replicate n (U 4)) ws \<longleftrightarrow> length ws = n \<and> words_ok ws"
proof (induction n arbitrary: ws)
  case (Suc n)
  then show ?case by (cases ws) auto
qed auto

lemma struct_bytes_words: "struct_bytes (replicate (length ws) (U 4)) ws = words_bytes ws"
  by (induction ws) simp_all

lemma unpack_words_at:
  "words_ok ws \<Longrightarrow> off = length pre \<Longrightarrow> struct_unpack_from (replicate (length ws) (U 4)) (pre @ words_bytes ws @ rest) off = Inr ws"
  by (simp add: struct_unpack_from_def struct_unpack_words)

lemma result_word_nth: "words_ok ws \<Longrightarrow> i < length ws \<Longrightarrow> result_word (4 * i) (words_bytes ws @ rest) = ws ! i"
proof (induction ws arbitrary: i)
  case (Cons w ws)
  then show ?case
    by (cases i) (simp_all add: result_word_def slice_append_left slice_append_right slice_full le_int_bytes_id add.commute del: le_bytes.simps)
qed simp

end
