(* ===== verification/Provider.thy ===== *)
theory Provider
  imports Prelude
begin

text \<open>
  The OpenSSL provider prototype, \<open>dr23_openssl_provider.py\<close>: key objects, the advertised
  operation lists and the dispatch of the KEM and signature operations by algorithm name.  The
  silicon calls it dispatches to, the entropy reservoir and \<open>os.urandom\<close> are parameters, as the
  record \<open>device\<close> of functions that return a value or raise, and the record \<open>entropy\<close> of the
  answers one operation gets.  Algorithm names are ASCII.  The hybrid exchange is modelled with its session, in \<open>Qkd\<close>.
\<close>

subsection \<open>Strings\<close>

text \<open>\<open>algorithm.upper().replace("_", "-")\<close>\<close>

definition canonical_algo :: "string \<Rightarrow> string" where
  "canonical_algo s = map (\<lambda>c. if c = CHR ''_'' then CHR ''-'' else c) (upper s)"

subsection \<open>Constants\<close>

abbreviation (input) OSSL_OP_KEYMGMT :: int where "OSSL_OP_KEYMGMT \<equiv> 10"

abbreviation (input) OSSL_OP_SIGNATURE :: int where "OSSL_OP_SIGNATURE \<equiv> 12"

abbreviation (input) OSSL_OP_KEM :: int where "OSSL_OP_KEM \<equiv> 14"

subsection \<open>Key objects\<close>

record pqc_key =
  pk_algorithm :: string
  pk_pubkey :: bytes
  pk_privkey :: "bytes option"

definition key_zeroize :: "pqc_key \<Rightarrow> pqc_key" where
  "key_zeroize k = k\<lparr>pk_privkey := None\<rparr>"

text \<open>\<open>not key.privkey\<close>: absent or empty.\<close>

definition no_privkey :: "pqc_key \<Rightarrow> bool" where
  "no_privkey k \<longleftrightarrow> (case pk_privkey k of None \<Rightarrow> True | Some sk \<Rightarrow> sk = [])"

subsection \<open>The silicon calls and the entropy\<close>

record device =
  mlkem_keygen :: "nat \<Rightarrow> bytes \<Rightarrow> bytes \<Rightarrow> (bytes \<times> bytes) py"
  mlkem_encaps :: "nat \<Rightarrow> bytes \<Rightarrow> bytes \<Rightarrow> (bytes \<times> bytes) py"
  mlkem_decaps :: "nat \<Rightarrow> bytes \<Rightarrow> bytes \<Rightarrow> bytes py"
  mldsa_keygen :: "nat \<Rightarrow> bytes \<Rightarrow> (bytes \<times> bytes) py"
  mldsa44_sign :: "bytes \<Rightarrow> bytes \<Rightarrow> bytes \<Rightarrow> bytes py"
  mldsa_sign :: "nat \<Rightarrow> bytes \<Rightarrow> bytes \<Rightarrow> bytes py"
  mldsa_verify :: "nat \<Rightarrow> bytes \<Rightarrow> bytes \<Rightarrow> bytes \<Rightarrow> bool py"
  slhdsa_keygen :: "string \<Rightarrow> bytes option \<Rightarrow> (bytes \<times> bytes) py"
  slhdsa_sign :: "string \<Rightarrow> bytes \<Rightarrow> bytes \<Rightarrow> bytes option \<Rightarrow> bytes py"
  slhdsa_verify :: "string \<Rightarrow> bytes \<Rightarrow> bytes \<Rightarrow> bytes \<Rightarrow> bool py"
  fndsa_keygen :: "string \<Rightarrow> bytes \<Rightarrow> (bytes \<times> bytes) py"
  fndsa_sign :: "string \<Rightarrow> bytes \<Rightarrow> bytes \<Rightarrow> bytes \<Rightarrow> bytes \<Rightarrow> bytes py"
  fndsa_verify :: "string \<Rightarrow> bytes \<Rightarrow> bytes \<Rightarrow> bytes \<Rightarrow> bool py"

record entropy =
  drain_1 :: "bytes py"
  drain_2 :: "bytes py"
  urandom_1 :: bytes
  urandom_2 :: bytes

definition drain_or_urandom :: "entropy \<Rightarrow> bytes" where
  "drain_or_urandom ent = (case drain_1 ent of Inr s \<Rightarrow> s | Inl e \<Rightarrow> urandom_1 ent)"

subsection \<open>Advertised operations\<close>

definition kem_entry :: "string \<Rightarrow> string \<times> string" where
  "kem_entry a = (a, ''provider=phoenix_pqc,npu=aie2'')"

definition slh_entry :: "string \<Rightarrow> string \<times> string" where
  "slh_entry a = (a, ''provider=phoenix_pqc,npu=aie2,fips205=true'')"

definition slh_names :: "string list" where
  "slh_names = [''SLH-DSA-SHAKE-128S'', ''SLH-DSA-SHAKE-128F'', ''SLH-DSA-SHAKE-256S'', ''SLH-DSA-SHAKE-256F'']"

definition query_operation :: "int \<Rightarrow> (string \<times> string) list" where
  "query_operation operation_id =
     (if operation_id = OSSL_OP_KEM then
        map kem_entry [''ML-KEM-512'', ''ML-KEM-768'', ''ML-KEM-1024''] @
        [(''X25519-ML-KEM-768'', ''provider=phoenix_pqc,npu=aie2,hybrid=true''),
         (''QKD-ML-KEM-768'', ''provider=phoenix_pqc,npu=aie2,etsi_014=true'')]
      else if operation_id = OSSL_OP_SIGNATURE then
        map kem_entry [''ML-DSA-44'', ''ML-DSA-65'', ''ML-DSA-87''] @ map slh_entry slh_names
      else if operation_id = OSSL_OP_KEYMGMT then
        map kem_entry [''ML-KEM-512'', ''ML-KEM-768'', ''ML-KEM-1024'', ''ML-DSA-44'', ''ML-DSA-65'', ''ML-DSA-87''] @
        map slh_entry slh_names
      else [])"

subsection \<open>KEM operations\<close>

definition kem_keygen ::
  "device \<Rightarrow> entropy \<Rightarrow> string \<Rightarrow> bytes option \<Rightarrow> bytes option \<Rightarrow> pqc_key py" where
  "kem_keygen dev ent algorithm d_seed z_seed =
     (let (d, z) = (case (d_seed, z_seed) of
          (Some d, Some z) \<Rightarrow> (d, z)
        | _ \<Rightarrow> (case (drain_1 ent, drain_2 ent) of
            (Inr d, Inr z) \<Rightarrow> (d, z)
          | _ \<Rightarrow> (urandom_1 ent, urandom_2 ent)));
          algo = canonical_algo algorithm
      in bindE
        (if algo = ''ML-KEM-512'' then mlkem_keygen dev 512 d z
         else if algo = ''ML-KEM-768'' then mlkem_keygen dev 768 d z
         else if algo = ''ML-KEM-1024'' then mlkem_keygen dev 1024 d z
         else Inl ValueError)
        (\<lambda>(pk, sk). Inr \<lparr>pk_algorithm = algo, pk_pubkey = pk, pk_privkey = Some sk\<rparr>))"

definition kem_encapsulate ::
  "device \<Rightarrow> entropy \<Rightarrow> pqc_key \<Rightarrow> bytes option \<Rightarrow> (bytes \<times> bytes) py" where
  "kem_encapsulate dev ent key m_seed =
     (let m = (case m_seed of Some m \<Rightarrow> m | None \<Rightarrow> drain_or_urandom ent);
          algo = canonical_algo (pk_algorithm key)
      in if algo = ''ML-KEM-512'' then mlkem_encaps dev 512 (pk_pubkey key) m
         else if algo = ''ML-KEM-768'' then mlkem_encaps dev 768 (pk_pubkey key) m
         else if algo = ''ML-KEM-1024'' then mlkem_encaps dev 1024 (pk_pubkey key) m
         else Inl ValueError)"

definition kem_decapsulate :: "device \<Rightarrow> pqc_key \<Rightarrow> bytes \<Rightarrow> bytes py" where
  "kem_decapsulate dev key ciphertext =
     (if no_privkey key then Inl ValueError
      else let sk = the (pk_privkey key); algo = canonical_algo (pk_algorithm key)
      in if algo = ''ML-KEM-512'' then mlkem_decaps dev 512 sk ciphertext
         else if algo = ''ML-KEM-768'' then mlkem_decaps dev 768 sk ciphertext
         else if algo = ''ML-KEM-1024'' then mlkem_decaps dev 1024 sk ciphertext
         else Inl ValueError)"

subsection \<open>Signature operations\<close>

definition is_slhdsa :: "string \<Rightarrow> bool" where
  "is_slhdsa algo \<longleftrightarrow> contains ''SLH-DSA'' algo \<or> contains ''SPHINCS'' algo"

definition slhdsa_canonical :: "string \<Rightarrow> string" where
  "slhdsa_canonical algo =
     (if contains ''128S'' algo then ''SLH-DSA-SHAKE-128s''
      else if contains ''128F'' algo then ''SLH-DSA-SHAKE-128f''
      else if contains ''256S'' algo then ''SLH-DSA-SHAKE-256s'' else ''SLH-DSA-SHAKE-256f'')"

definition slhdsa_n :: "string \<Rightarrow> nat" where
  "slhdsa_n canonical = (if contains ''128'' canonical then 16 else 32)"

definition is_fndsa :: "string \<Rightarrow> bool" where
  "is_fndsa algo \<longleftrightarrow> contains ''FN-DSA'' algo \<or> contains ''FALCON'' algo"

definition fndsa_canonical :: "string \<Rightarrow> string" where
  "fndsa_canonical algo = (if contains ''512'' algo then ''FN-DSA-512'' else ''FN-DSA-1024'')"

text \<open>\<open>seed[:n] if seed else None\<close>\<close>

definition prefix_or_none :: "nat \<Rightarrow> bytes \<Rightarrow> bytes option" where
  "prefix_or_none n seed = (if seed = [] then None else Some (take n seed))"

definition signature_keygen :: "device \<Rightarrow> entropy \<Rightarrow> string \<Rightarrow> bytes option \<Rightarrow> pqc_key py" where
  "signature_keygen dev ent algorithm xi_seed =
     (let xi = (case xi_seed of Some s \<Rightarrow> s | None \<Rightarrow> drain_or_urandom ent);
          algo = canonical_algo algorithm
      in bindE
        (if is_slhdsa algo
         then slhdsa_keygen dev (slhdsa_canonical algo) (prefix_or_none (slhdsa_n (slhdsa_canonical algo)) xi)
         else if algo = ''ML-DSA-44'' then mldsa_keygen dev 44 xi
         else if algo = ''ML-DSA-65'' then mldsa_keygen dev 65 xi
         else if algo = ''ML-DSA-87'' then mldsa_keygen dev 87 xi
         else if is_fndsa algo then fndsa_keygen dev (fndsa_canonical algo) xi
         else Inl ValueError)
        (\<lambda>(pk, sk). Inr \<lparr>pk_algorithm = algo, pk_pubkey = pk, pk_privkey = Some sk\<rparr>))"

definition signature_sign :: "device \<Rightarrow> entropy \<Rightarrow> pqc_key \<Rightarrow> bytes \<Rightarrow> bytes option \<Rightarrow> bytes py" where
  "signature_sign dev ent key message rnd_seed =
     (if no_privkey key then Inl ValueError
      else let sk = the (pk_privkey key);
               rnd = (case rnd_seed of Some r \<Rightarrow> r | None \<Rightarrow> urandom_1 ent);
               algo = canonical_algo (pk_algorithm key)
      in if is_slhdsa algo
         then slhdsa_sign dev (slhdsa_canonical algo) sk message
                (prefix_or_none (slhdsa_n (slhdsa_canonical algo)) rnd)
         else if is_fndsa algo
         then fndsa_sign dev (fndsa_canonical algo) (pk_pubkey key) sk message
                (if 40 \<le> length rnd then take 40 rnd else rnd @ urandom_2 ent)
         else if algo = ''ML-DSA-44'' then mldsa44_sign dev sk message rnd
         else if algo = ''ML-DSA-65'' then mldsa_sign dev 65 sk message
         else if algo = ''ML-DSA-87'' then mldsa_sign dev 87 sk message
         else Inl ValueError)"

definition signature_verify :: "device \<Rightarrow> pqc_key \<Rightarrow> bytes \<Rightarrow> bytes \<Rightarrow> bool py" where
  "signature_verify dev key message signature =
     (let algo = canonical_algo (pk_algorithm key)
      in if is_slhdsa algo then slhdsa_verify dev (slhdsa_canonical algo) (pk_pubkey key) message signature
         else if is_fndsa algo then fndsa_verify dev (fndsa_canonical algo) (pk_pubkey key) message signature
         else if algo = ''ML-DSA-44'' then mldsa_verify dev 44 (pk_pubkey key) message signature
         else if algo = ''ML-DSA-65'' then mldsa_verify dev 65 (pk_pubkey key) message signature
         else if algo = ''ML-DSA-87'' then mldsa_verify dev 87 (pk_pubkey key) message signature
         else Inl ValueError)"

subsection \<open>Names\<close>

lemma upper_char_idem: "upper_char (upper_char c) = upper_char c"
proof (cases "97 \<le> (of_char c :: nat) \<and> of_char c \<le> (122 :: nat)")
  case True
  then have "(of_char c - 32 :: nat) mod 256 = of_char c - 32" by (intro mod_less) linarith
  with True show ?thesis by (auto simp add: upper_char_def Let_def of_char_of)
qed (auto simp add: upper_char_def Let_def)

lemma canonical_idem: "canonical_algo (canonical_algo s) = canonical_algo s"
proof -
  have u: "upper_char CHR ''-'' = CHR ''-''" by (simp add: upper_char_def)
  show ?thesis by (auto simp add: canonical_algo_def upper_def upper_char_idem u)
qed

lemma keygen_algorithm:
  "kem_keygen dev ent a d z = Inr k \<Longrightarrow> pk_algorithm k = canonical_algo a"
  "signature_keygen dev ent a x = Inr k \<Longrightarrow> pk_algorithm k = canonical_algo a"
  by (auto simp add: kem_keygen_def signature_keygen_def Let_def bindE_Inr_iff split: prod.splits)

definition echo_device :: device where
  "echo_device = \<lparr>mlkem_keygen = \<lambda>n d z. Inr (d, z), mlkem_encaps = \<lambda>n pk m. Inr (m, pk),
     mlkem_decaps = \<lambda>n sk ct. Inr ct, mldsa_keygen = \<lambda>n xi. Inr (xi, xi),
     mldsa44_sign = \<lambda>sk m r. Inr (m @ sk), mldsa_sign = \<lambda>n sk m. Inr (m @ sk),
     mldsa_verify = \<lambda>n pk m s. Inr (s = m @ pk), slhdsa_keygen = \<lambda>c x. Inr ([1], [1]),
     slhdsa_sign = \<lambda>c sk m r. Inr (m @ sk), slhdsa_verify = \<lambda>c pk m s. Inr (s = m @ pk),
     fndsa_keygen = \<lambda>c x. Inr (x, x), fndsa_sign = \<lambda>c pk sk m salt. Inr (m @ sk),
     fndsa_verify = \<lambda>c pk m s. Inr (s = m @ pk)\<rparr>"

definition fixed_entropy :: entropy where
  "fixed_entropy = \<lparr>drain_1 = Inr (replicate 32 5), drain_2 = Inl RuntimeError,
     urandom_1 = replicate 32 6, urandom_2 = replicate 32 7\<rparr>"

lemma kem_names: "set (map fst (query_operation OSSL_OP_KEM)) =
    {''ML-KEM-512'', ''ML-KEM-768'', ''ML-KEM-1024'', ''X25519-ML-KEM-768'', ''QKD-ML-KEM-768''}"
  by (simp add: query_operation_def kem_entry_def)

lemma fndsa_not_listed: "''FN-DSA-512'' \<notin> set (map fst (query_operation oid))"
proof (cases "oid = OSSL_OP_KEYMGMT")
  case True
  then show ?thesis by (simp add: query_operation_def kem_entry_def slh_entry_def slh_names_def)
qed (simp add: query_operation_def kem_entry_def slh_entry_def slh_names_def)

lemma canonical_names:
  "canonical_algo ''ML-KEM-512'' = ''ML-KEM-512''" "canonical_algo ''ML-KEM-768'' = ''ML-KEM-768''"
  "canonical_algo ''ML-KEM-1024'' = ''ML-KEM-1024''"
  "canonical_algo ''X25519-ML-KEM-768'' = ''X25519-ML-KEM-768''"
  "canonical_algo ''QKD-ML-KEM-768'' = ''QKD-ML-KEM-768''"
  by code_simp+

lemma hybrid_kem_rejected:
  "kem_keygen dev ent ''X25519-ML-KEM-768'' d z = Inl ValueError"
  "kem_keygen dev ent ''QKD-ML-KEM-768'' d z = Inl ValueError"
  by (simp_all add: kem_keygen_def Let_def canonical_names split: prod.splits)

lemma plain_kem_echo:
  "a \<in> {''ML-KEM-512'', ''ML-KEM-768'', ''ML-KEM-1024''} \<Longrightarrow>
    kem_keygen echo_device ent a d z \<noteq> Inl ValueError"
  by (elim insertE emptyE) (simp_all add: kem_keygen_def Let_def canonical_names echo_device_def split: prod.splits)

lemma plain_kem_accepted:
  "\<exists>dev ent. kem_keygen dev ent ''ML-KEM-512'' d z \<noteq> Inl ValueError"
  "\<exists>dev ent. kem_keygen dev ent ''ML-KEM-768'' d z \<noteq> Inl ValueError"
  "\<exists>dev ent. kem_keygen dev ent ''ML-KEM-1024'' d z \<noteq> Inl ValueError"
  using plain_kem_echo by blast+

subsection \<open>One family per name\<close>

text \<open>The device call of \<open>signature_keygen\<close>, and the three ML-DSA names.\<close>

definition keygen_call :: "device \<Rightarrow> string \<Rightarrow> bytes \<Rightarrow> (bytes \<times> bytes) py" where
  "keygen_call dev a xi =
     (if is_slhdsa a then slhdsa_keygen dev (slhdsa_canonical a) (prefix_or_none (slhdsa_n (slhdsa_canonical a)) xi)
      else if a = ''ML-DSA-44'' then mldsa_keygen dev 44 xi
      else if a = ''ML-DSA-65'' then mldsa_keygen dev 65 xi
      else if a = ''ML-DSA-87'' then mldsa_keygen dev 87 xi
      else if is_fndsa a then fndsa_keygen dev (fndsa_canonical a) xi else Inl ValueError)"

definition dsa_name :: "nat \<Rightarrow> string" where
  "dsa_name n = (if n = 44 then ''ML-DSA-44'' else if n = 65 then ''ML-DSA-65'' else ''ML-DSA-87'')"

lemma dsa_name_family:
  "\<not> is_slhdsa ''ML-DSA-44'' \<and> \<not> is_fndsa ''ML-DSA-44'' \<and> canonical_algo ''ML-DSA-44'' = ''ML-DSA-44''"
  "\<not> is_slhdsa ''ML-DSA-65'' \<and> \<not> is_fndsa ''ML-DSA-65'' \<and> canonical_algo ''ML-DSA-65'' = ''ML-DSA-65''"
  "\<not> is_slhdsa ''ML-DSA-87'' \<and> \<not> is_fndsa ''ML-DSA-87'' \<and> canonical_algo ''ML-DSA-87'' = ''ML-DSA-87''"
  by code_simp+

lemma dsa_name_cases:
  assumes "n \<in> {44, 65, 87}"
  shows "keygen_call dev (dsa_name n) xi = mldsa_keygen dev n xi"
    and "pk_algorithm k = dsa_name n \<Longrightarrow> signature_verify dev k m s = mldsa_verify dev n (pk_pubkey k) m s"
    and "pk_algorithm k = dsa_name n \<Longrightarrow> \<not> no_privkey k \<Longrightarrow> signature_sign dev ent k m r =
      (if n = 44 then mldsa44_sign dev (the (pk_privkey k)) m (case r of Some x \<Rightarrow> x | None \<Rightarrow> urandom_1 ent)
       else mldsa_sign dev n (the (pk_privkey k)) m)"
  using assms
  by (elim insertE emptyE;
      simp add: keygen_call_def dsa_name_def dsa_name_family signature_verify_def signature_sign_def Let_def)+

lemma keygen_call_fn:
  "\<not> is_slhdsa a \<Longrightarrow> is_fndsa a \<Longrightarrow> keygen_call dev a xi = fndsa_keygen dev (fndsa_canonical a) xi"
proof -
  assume a: "\<not> is_slhdsa a" "is_fndsa a"
  have "a \<noteq> ''ML-DSA-44''" "a \<noteq> ''ML-DSA-65''" "a \<noteq> ''ML-DSA-87''"
    using a(2) dsa_name_family by (blast dest: arg_cong [of _ _ is_fndsa])+
  with a show ?thesis by (simp only: keygen_call_def if_True if_False)
qed

lemma keygen_call_other:
  "keygen_call dev a xi = Inr x \<Longrightarrow> is_slhdsa a \<or> is_fndsa a \<or> (\<exists>n \<in> {44, 65, 87}. a = dsa_name n)"
  by (simp add: keygen_call_def dsa_name_def split: if_splits)

lemma keygen_made_pair:
  assumes "signature_keygen dev ent name xi = Inr k"
  obtains sk where "pk_privkey k = Some sk" "keygen_call dev (canonical_algo name)
    (case xi of Some s \<Rightarrow> s | None \<Rightarrow> drain_or_urandom ent) = Inr (pk_pubkey k, sk)"
proof -
  define r where "r = keygen_call dev (canonical_algo name) (case xi of Some s \<Rightarrow> s | None \<Rightarrow> drain_or_urandom ent)"
  have "bindE r (\<lambda>(pk, sk). Inr \<lparr>pk_algorithm = canonical_algo name, pk_pubkey = pk, pk_privkey = Some sk\<rparr>) = Inr k"
    using assms unfolding signature_keygen_def Let_def r_def keygen_call_def .
  then obtain pk sk where "r = Inr (pk, sk)"
    "k = \<lparr>pk_algorithm = canonical_algo name, pk_pubkey = pk, pk_privkey = Some sk\<rparr>"
    by (auto simp add: bindE_Inr_iff)
  then show ?thesis using that unfolding r_def by simp
qed

subsection \<open>Properties\<close>

text \<open>
  Names select devices consistently: the provider's key pair comes from one call of one device
  function, and every signature made or verified with the key goes to the same family under the
  same parameter set, with the two halves of that pair, whatever spelling (case, underscores) was
  used: the stored name is canonical and canonical names are fixed points.
\<close>

theorem provider_dispatch_consistent:
  assumes "signature_keygen dev ent name xi = Inr k"
  shows "pk_algorithm k = canonical_algo name \<and> (\<exists>sk. pk_privkey k = Some sk \<and>
    ((\<exists>c seed. slhdsa_keygen dev c seed = Inr (pk_pubkey k, sk) \<and>
        (\<forall>m s. signature_verify dev k m s = slhdsa_verify dev c (pk_pubkey k) m s) \<and>
        (sk \<noteq> [] \<longrightarrow> (\<forall>ent m r. \<exists>opt. signature_sign dev ent k m r = slhdsa_sign dev c sk m opt))) \<or>
     (\<exists>c seed. fndsa_keygen dev c seed = Inr (pk_pubkey k, sk) \<and>
        (\<forall>m s. signature_verify dev k m s = fndsa_verify dev c (pk_pubkey k) m s) \<and>
        (sk \<noteq> [] \<longrightarrow> (\<forall>ent m r. \<exists>salt. signature_sign dev ent k m r = fndsa_sign dev c (pk_pubkey k) sk m salt))) \<or>
     (\<exists>n seed. n \<in> {44, 65, 87} \<and> mldsa_keygen dev n seed = Inr (pk_pubkey k, sk) \<and>
        (\<forall>m s. signature_verify dev k m s = mldsa_verify dev n (pk_pubkey k) m s) \<and>
        (sk \<noteq> [] \<longrightarrow> (\<forall>ent m r. signature_sign dev ent k m r =
           (if n = 44 then mldsa44_sign dev sk m (case r of Some x \<Rightarrow> x | None \<Rightarrow> urandom_1 ent)
            else mldsa_sign dev n sk m))))))"
proof -
  define a where "a = canonical_algo name"
  have alg: "pk_algorithm k = a" unfolding a_def by (rule keygen_algorithm) (rule assms)
  have fix_a: "canonical_algo a = a" unfolding a_def by (rule canonical_idem)
  define xi' where "xi' = (case xi of Some s \<Rightarrow> s | None \<Rightarrow> drain_or_urandom ent)"
  obtain sk where sk: "pk_privkey k = Some sk" and
    gen: "keygen_call dev a xi' = Inr (pk_pubkey k, sk)"
    by (rule keygen_made_pair [OF assms, folded a_def xi'_def])
  note sign = signature_sign_def no_privkey_def sk alg fix_a Let_def
  note verify = signature_verify_def alg fix_a Let_def
  consider (slh) "is_slhdsa a" | (dsa) n where "\<not> is_slhdsa a" "n \<in> {44, 65, 87}" "a = dsa_name n"
    | (fn) "\<not> is_slhdsa a" "is_fndsa a" "\<forall>n \<in> {44, 65, 87}. a \<noteq> dsa_name n"
    using keygen_call_other [OF gen] by blast
  then show ?thesis
  proof cases
    case slh
    have "slhdsa_keygen dev (slhdsa_canonical a) (prefix_or_none (slhdsa_n (slhdsa_canonical a)) xi') =
        Inr (pk_pubkey k, sk)" using gen slh by (simp only: keygen_call_def if_True)
    moreover have "signature_verify dev k m s = slhdsa_verify dev (slhdsa_canonical a) (pk_pubkey k) m s" for m s
      using slh by (simp only: verify if_True)
    moreover have "\<exists>opt. signature_sign dev ent k m r = slhdsa_sign dev (slhdsa_canonical a) sk m opt"
      if "sk \<noteq> []" for ent m r using slh that by (simp only: sign if_True if_False option.simps option.sel) blast
    ultimately show ?thesis unfolding a_def [symmetric] by (intro conjI exI [of _ sk] disjI1 alg sk) blast
  next
    case (dsa n)
    note names = dsa_name_cases [OF dsa(2)]
    have "mldsa_keygen dev n xi' = Inr (pk_pubkey k, sk)" using gen names(1) by (simp only: dsa(3))
    moreover have "signature_verify dev k m s = mldsa_verify dev n (pk_pubkey k) m s" for m s
      by (rule names(2)) (simp only: alg dsa(3))
    moreover have "signature_sign dev ent k m r = (if n = 44 then mldsa44_sign dev sk m
        (case r of Some x \<Rightarrow> x | None \<Rightarrow> urandom_1 ent) else mldsa_sign dev n sk m)" if "sk \<noteq> []" for ent m r
      using names(3) [of k] that sk by (simp only: alg dsa(3) no_privkey_def option.simps option.sel simp_thms)
    ultimately show ?thesis unfolding a_def [symmetric]
      by (intro conjI exI [of _ sk] alg sk, intro disjI2 exI [of _ n] exI [of _ xi'] conjI dsa(2)) simp_all
  next
    case fn
    have "fndsa_keygen dev (fndsa_canonical a) xi' = Inr (pk_pubkey k, sk)"
      using gen fn keygen_call_fn by simp
    moreover have "signature_verify dev k m s = fndsa_verify dev (fndsa_canonical a) (pk_pubkey k) m s" for m s
      using fn by (simp only: verify if_True if_False)
    moreover have "\<exists>salt. signature_sign dev ent k m r = fndsa_sign dev (fndsa_canonical a) (pk_pubkey k) sk m salt"
      if "sk \<noteq> []" for ent m r using fn that by (simp only: sign if_True if_False option.simps option.sel) blast
    ultimately show ?thesis unfolding a_def [symmetric]
      by (intro conjI exI [of _ sk] alg sk) (rule disjI2, rule disjI1, blast)
  qed
qed

theorem provider_dispatch_consistent_witness:
  "\<exists>k. signature_keygen echo_device fixed_entropy ''ml_dsa_65'' None = Inr k \<and>
     pk_algorithm k = ''ML-DSA-65''"
proof -
  have c: "canonical_algo ''ml_dsa_65'' = ''ML-DSA-65''" by code_simp
  have "\<not> is_slhdsa ''ML-DSA-65''" by code_simp
  then obtain k where "signature_keygen echo_device fixed_entropy ''ml_dsa_65'' None = Inr k"
    by (simp add: signature_keygen_def Let_def c echo_device_def)
  with provider_dispatch_consistent [OF this] c show ?thesis by auto
qed

text \<open>
  What is advertised against what is dispatched: of the five KEM algorithms the provider
  lists, key generation accepts exactly the three plain ML-KEM ones and raises \<open>ValueError\<close> for
  the two hybrid ones whatever the device does; every listed signature algorithm reaches a device
  call; and FN-DSA reaches a device call although no list mentions it.
\<close>

theorem advertised_kems_exact:
  "(\<forall>a \<in> set (map fst (query_operation OSSL_OP_KEM)).
      (\<forall>dev ent. kem_keygen dev ent a d z = Inl ValueError) \<longleftrightarrow> a \<in> {''X25519-ML-KEM-768'', ''QKD-ML-KEM-768''}) \<and>
   (\<forall>a \<in> set (map fst (query_operation OSSL_OP_SIGNATURE)).
      is_slhdsa (canonical_algo a) \<or> canonical_algo a \<in> {''ML-DSA-44'', ''ML-DSA-65'', ''ML-DSA-87''}) \<and>
   (\<forall>oid. ''FN-DSA-512'' \<notin> set (map fst (query_operation oid))) \<and> is_fndsa (canonical_algo ''FN-DSA-512'')"
proof (intro conjI)
  show "\<forall>a \<in> set (map fst (query_operation OSSL_OP_KEM)).
      (\<forall>dev ent. kem_keygen dev ent a d z = Inl ValueError) \<longleftrightarrow> a \<in> {''X25519-ML-KEM-768'', ''QKD-ML-KEM-768''}"
    unfolding kem_names
    by (simp add: plain_kem_accepted hybrid_kem_rejected)
  show "\<forall>a \<in> set (map fst (query_operation OSSL_OP_SIGNATURE)).
      is_slhdsa (canonical_algo a) \<or> canonical_algo a \<in> {''ML-DSA-44'', ''ML-DSA-65'', ''ML-DSA-87''}"
    by code_simp
  show "\<forall>oid. ''FN-DSA-512'' \<notin> set (map fst (query_operation oid))"
    by (intro allI) (rule fndsa_not_listed)
  show "is_fndsa (canonical_algo ''FN-DSA-512'')" by code_simp
qed

theorem advertised_kems_exact_witness:
  "\<forall>dev ent. kem_keygen dev ent ''QKD-ML-KEM-768'' None None = Inl ValueError"
proof -
  have "''QKD-ML-KEM-768'' \<in> set (map fst (query_operation OSSL_OP_KEM))"
    unfolding kem_names by simp
  from bspec [OF conjunct1 [OF advertised_kems_exact [of None None]] this] show ?thesis by simp
qed

end
