(* ===== verification/Pkcs11.thy ===== *)
theory Pkcs11
  imports Provider
begin

text \<open>
  The token interface, \<open>dr23_pkcs11_hsm.py\<close>: a module object with its slots, its sessions and,
  per token, the login state, the key objects and the signing and verifying contexts.  Every
  \<open>C_*\<close> operation is one definition that returns its answer, or the exception it lets out,
  with the module afterwards; state that the code changes before an exception stays changed.
  The device and the entropy of an operation are parameters, as in \<open>Provider\<close>; the random
  number behind a session identifier is an argument.  A key object is shared between the object
  table and a context in the code; it is changed only by wiping, which empties both, so values
  are enough here.
\<close>

subsection \<open>Constants\<close>

abbreviation (input) CKR_OK :: int where "CKR_OK \<equiv> 0"
abbreviation (input) CKR_SLOT_ID_INVALID :: int where "CKR_SLOT_ID_INVALID \<equiv> 3"
abbreviation (input) CKR_FUNCTION_FAILED :: int where "CKR_FUNCTION_FAILED \<equiv> 6"
abbreviation (input) CKR_ARGUMENTS_BAD :: int where "CKR_ARGUMENTS_BAD \<equiv> 7"
abbreviation (input) CKR_PIN_INCORRECT :: int where "CKR_PIN_INCORRECT \<equiv> 160"
abbreviation (input) CKR_SESSION_HANDLE_INVALID :: int where "CKR_SESSION_HANDLE_INVALID \<equiv> 179"
abbreviation (input) CKR_SIGNATURE_INVALID :: int where "CKR_SIGNATURE_INVALID \<equiv> 192"
abbreviation (input) CKR_KEY_HANDLE_INVALID :: int where "CKR_KEY_HANDLE_INVALID \<equiv> 96"
abbreviation (input) CKR_MECHANISM_INVALID :: int where "CKR_MECHANISM_INVALID \<equiv> 112"
abbreviation (input) CKR_NOT_INITIALIZED :: int where "CKR_NOT_INITIALIZED \<equiv> 400"
abbreviation (input) CKR_ALREADY_INITIALIZED :: int where "CKR_ALREADY_INITIALIZED \<equiv> 401"
abbreviation (input) CKR_USER_NOT_LOGGED_IN :: int where "CKR_USER_NOT_LOGGED_IN \<equiv> 257"
abbreviation (input) CKR_USER_ALREADY_LOGGED_IN :: int where "CKR_USER_ALREADY_LOGGED_IN \<equiv> 256"

abbreviation (input) CKM_ML_KEM_KEY_PAIR_GEN :: int where "CKM_ML_KEM_KEY_PAIR_GEN \<equiv> 16385"
abbreviation (input) CKM_ML_KEM_ENCAPSULATE :: int where "CKM_ML_KEM_ENCAPSULATE \<equiv> 16386"
abbreviation (input) CKM_ML_KEM_DECAPSULATE :: int where "CKM_ML_KEM_DECAPSULATE \<equiv> 16387"
abbreviation (input) CKM_ML_DSA_KEY_PAIR_GEN :: int where "CKM_ML_DSA_KEY_PAIR_GEN \<equiv> 16401"
abbreviation (input) CKM_ML_DSA :: int where "CKM_ML_DSA \<equiv> 16402"
abbreviation (input) CKM_HYBRID_QKD_ML_KEM :: int where "CKM_HYBRID_QKD_ML_KEM \<equiv> 16417"

abbreviation (input) CKU_SO :: int where "CKU_SO \<equiv> 0"
abbreviation (input) CKU_USER :: int where "CKU_USER \<equiv> 1"

subsection \<open>State\<close>

record token =
  tk_user_pin :: string
  tk_so_pin :: string
  tk_logged_in :: bool
  tk_user_type :: "int option"
  tk_objects :: "int \<rightharpoonup> pqc_key"
  tk_sign_ctx :: "int \<rightharpoonup> pqc_key"
  tk_verify_ctx :: "int \<rightharpoonup> pqc_key"
  tk_next_handle :: int

definition new_token :: token where
  "new_token = \<lparr>tk_user_pin = ''123456'', tk_so_pin = ''87654321'', tk_logged_in = False,
     tk_user_type = None, tk_objects = Map.empty, tk_sign_ctx = Map.empty,
     tk_verify_ctx = Map.empty, tk_next_handle = 1000\<rparr>"

text \<open>
  The call of the life-cycle engine at the end of the code's method looks up a function that the
  imported module does not define; the handler swallows the exception, so the call has no effect.
\<close>

definition token_zeroize :: "token \<Rightarrow> token" where
  "token_zeroize t = t\<lparr>tk_objects := Map.empty, tk_sign_ctx := Map.empty,
     tk_verify_ctx := Map.empty, tk_logged_in := False, tk_user_type := None\<rparr>"

text \<open>Slots in the order of insertion; sessions by identifier.\<close>

record hsm =
  h_initialized :: bool
  h_tokens :: "(int \<times> token) list"
  h_sessions :: "int \<rightharpoonup> int"

definition new_hsm :: hsm where
  "new_hsm = \<lparr>h_initialized = False, h_tokens = [], h_sessions = Map.empty\<rparr>"

fun set_slot :: "int \<Rightarrow> token \<Rightarrow> (int \<times> token) list \<Rightarrow> (int \<times> token) list" where
  "set_slot s t [] = [(s, t)]"
| "set_slot s t ((s', t') # ts) = (if s = s' then (s, t) # ts else (s', t') # set_slot s t ts)"

definition put_token :: "int \<Rightarrow> token \<Rightarrow> hsm \<Rightarrow> hsm" where
  "put_token s t h = h\<lparr>h_tokens := set_slot s t (h_tokens h)\<rparr>"

subsection \<open>Module and session operations\<close>

definition C_Initialize :: "hsm \<Rightarrow> int py \<times> hsm" where
  "C_Initialize h =
     (if h_initialized h then (Inr CKR_ALREADY_INITIALIZED, h)
      else (Inr CKR_OK, put_token 0 new_token (h\<lparr>h_initialized := True\<rparr>)))"

definition C_Finalize :: "hsm \<Rightarrow> int py \<times> hsm" where
  "C_Finalize h =
     (if \<not> h_initialized h then (Inr CKR_NOT_INITIALIZED, h)
      else (Inr CKR_OK, h\<lparr>h_tokens := [], h_sessions := Map.empty, h_initialized := False\<rparr>))"

definition C_GetSlotList :: "hsm \<Rightarrow> (int \<times> int list) py \<times> hsm" where
  "C_GetSlotList h =
     (if \<not> h_initialized h then (Inr (CKR_NOT_INITIALIZED, []), h)
      else (Inr (CKR_OK, map fst (h_tokens h)), h))"

text \<open>Of the token's description the model keeps the flags, the only number.\<close>

definition C_GetTokenInfo :: "int \<Rightarrow> hsm \<Rightarrow> (int \<times> int option) py \<times> hsm" where
  "C_GetTokenInfo slot_id h =
     (if \<not> h_initialized h then (Inr (CKR_NOT_INITIALIZED, None), h)
      else if map_of (h_tokens h) slot_id = None then (Inr (CKR_SLOT_ID_INVALID, None), h)
      else (Inr (CKR_OK, Some 1037), h))"

definition C_OpenSession :: "int \<Rightarrow> int \<Rightarrow> hsm \<Rightarrow> (int \<times> int) py \<times> hsm" where
  "C_OpenSession uuid slot_id h =
     (if \<not> h_initialized h then (Inr (CKR_NOT_INITIALIZED, 0), h)
      else if map_of (h_tokens h) slot_id = None then (Inr (CKR_SLOT_ID_INVALID, 0), h)
      else let session_id = uuid AND 0x7FFFFFFF
        in (Inr (CKR_OK, session_id), h\<lparr>h_sessions := (h_sessions h)(session_id \<mapsto> slot_id)\<rparr>))"

definition C_CloseSession :: "int \<Rightarrow> hsm \<Rightarrow> int py \<times> hsm" where
  "C_CloseSession session_id h =
     (if \<not> h_initialized h then (Inr CKR_NOT_INITIALIZED, h)
      else case h_sessions h session_id of
        None \<Rightarrow> (Inr CKR_SESSION_HANDLE_INVALID, h)
      | Some slot_id \<Rightarrow>
          let h' = h\<lparr>h_sessions := (h_sessions h)(session_id := None)\<rparr>
          in (Inr CKR_OK, (case map_of (h_tokens h) slot_id of
                None \<Rightarrow> h' | Some t \<Rightarrow> put_token slot_id (token_zeroize t) h')))"

text \<open>
  The prologue that the remaining operations share: the initialisation check, the session check
  and the token lookup \<open>self.tokens[self.sessions[session_id]]\<close>.  \<open>err\<close> builds the answer from a
  return code; \<open>body\<close> gets the token and returns its answer and the token afterwards.
\<close>

definition with_token ::
  "(int \<Rightarrow> 'r) \<Rightarrow> int \<Rightarrow> (token \<Rightarrow> 'r py \<times> token) \<Rightarrow> hsm \<Rightarrow> 'r py \<times> hsm" where
  "with_token err session_id body h =
     (if \<not> h_initialized h then (Inr (err CKR_NOT_INITIALIZED), h)
      else case h_sessions h session_id of
        None \<Rightarrow> (Inr (err CKR_SESSION_HANDLE_INVALID), h)
      | Some slot_id \<Rightarrow> (case map_of (h_tokens h) slot_id of
          None \<Rightarrow> (Inl KeyError, h)
        | Some t \<Rightarrow> (case body t of (r, t') \<Rightarrow> (r, put_token slot_id t' h))))"

definition token_login :: "int \<Rightarrow> string \<Rightarrow> token \<Rightarrow> int py \<times> token" where
  "token_login user_type pin t =
     (if tk_logged_in t then (Inr CKR_USER_ALREADY_LOGGED_IN, t)
      else if user_type = CKU_USER \<and> pin = tk_user_pin t
      then (Inr CKR_OK, t\<lparr>tk_logged_in := True, tk_user_type := Some CKU_USER\<rparr>)
      else if user_type = CKU_SO \<and> pin = tk_so_pin t
      then (Inr CKR_OK, t\<lparr>tk_logged_in := True, tk_user_type := Some CKU_SO\<rparr>)
      else (Inr CKR_PIN_INCORRECT, t))"

definition C_Login :: "int \<Rightarrow> int \<Rightarrow> string \<Rightarrow> hsm \<Rightarrow> int py \<times> hsm" where
  "C_Login session_id user_type pin = with_token (\<lambda>rv. rv) session_id (token_login user_type pin)"

definition C_Logout :: "int \<Rightarrow> hsm \<Rightarrow> int py \<times> hsm" where
  "C_Logout session_id = with_token (\<lambda>rv. rv) session_id (\<lambda>t. (Inr CKR_OK, token_zeroize t))"

subsection \<open>Keys\<close>

text \<open>The algorithm argument is a name or a dictionary with up to three recognised keys.\<close>

datatype algorithm_arg =
    Algo_Name string
  | Algo_Dict "(string \<times> string) list"

definition algo_name :: "algorithm_arg \<Rightarrow> string" where
  "algo_name a = (case a of
      Algo_Name s \<Rightarrow> s
    | Algo_Dict d \<Rightarrow> (case map_of d ''param'' of Some s \<Rightarrow> s
        | None \<Rightarrow> (case map_of d ''algorithm'' of Some s \<Rightarrow> s
            | None \<Rightarrow> (case map_of d ''name'' of Some s \<Rightarrow> s | None \<Rightarrow> ''ML-DSA-44''))))"

definition token_generate ::
  "device \<Rightarrow> entropy \<Rightarrow> int \<Rightarrow> algorithm_arg \<Rightarrow> token \<Rightarrow> (int \<times> int \<times> int) py \<times> token" where
  "token_generate dev ent mechanism algorithm t =
     (if \<not> tk_logged_in t then (Inr (CKR_USER_NOT_LOGGED_IN, 0, 0), t)
      else let algo = canonical_algo (algo_name algorithm);
               generated =
                 (if mechanism = CKM_ML_KEM_KEY_PAIR_GEN \<or> mechanism = CKM_HYBRID_QKD_ML_KEM
                  then Some (kem_keygen dev ent algo None None)
                  else if mechanism = CKM_ML_DSA_KEY_PAIR_GEN
                  then Some (signature_keygen dev ent algo None) else None)
      in case generated of
           None \<Rightarrow> (Inr (CKR_MECHANISM_INVALID, 0, 0), t)
         | Some (Inl e) \<Rightarrow> (Inl e, t)
         | Some (Inr key) \<Rightarrow>
             let pub_handle = tk_next_handle t; priv_handle = tk_next_handle t + 1
             in (Inr (CKR_OK, pub_handle, priv_handle),
                 t\<lparr>tk_next_handle := tk_next_handle t + 2,
                   tk_objects := (tk_objects t)
                     (pub_handle \<mapsto> \<lparr>pk_algorithm = algo, pk_pubkey = pk_pubkey key, pk_privkey = None\<rparr>,
                      priv_handle \<mapsto> \<lparr>pk_algorithm = algo, pk_pubkey = pk_pubkey key,
                        pk_privkey = pk_privkey key\<rparr>)\<rparr>))"

definition C_GenerateKeyPair ::
  "device \<Rightarrow> entropy \<Rightarrow> int \<Rightarrow> int \<Rightarrow> algorithm_arg \<Rightarrow> hsm \<Rightarrow> (int \<times> int \<times> int) py \<times> hsm" where
  "C_GenerateKeyPair dev ent session_id mechanism algorithm =
     with_token (\<lambda>rv. (rv, 0, 0)) session_id (token_generate dev ent mechanism algorithm)"

definition token_sign_init :: "int \<Rightarrow> int \<Rightarrow> int \<Rightarrow> token \<Rightarrow> int py \<times> token" where
  "token_sign_init session_id mechanism privkey_handle t =
     (case tk_objects t privkey_handle of
        None \<Rightarrow> (Inr CKR_KEY_HANDLE_INVALID, t)
      | Some key \<Rightarrow>
          if mechanism \<noteq> CKM_ML_DSA then (Inr CKR_MECHANISM_INVALID, t)
          else (Inr CKR_OK, t\<lparr>tk_sign_ctx := (tk_sign_ctx t)(session_id \<mapsto> key)\<rparr>))"

definition C_SignInit :: "int \<Rightarrow> int \<Rightarrow> int \<Rightarrow> hsm \<Rightarrow> int py \<times> hsm" where
  "C_SignInit session_id mechanism privkey_handle =
     with_token (\<lambda>rv. rv) session_id (token_sign_init session_id mechanism privkey_handle)"

definition token_sign ::
  "device \<Rightarrow> entropy \<Rightarrow> int \<Rightarrow> bytes \<Rightarrow> token \<Rightarrow> (int \<times> bytes) py \<times> token" where
  "token_sign dev ent session_id message t =
     (case tk_sign_ctx t session_id of
        None \<Rightarrow> (Inr (CKR_FUNCTION_FAILED, []), t)
      | Some key \<Rightarrow>
          (bindE (signature_sign dev ent key message None) (\<lambda>sig. Inr (CKR_OK, sig)),
           t\<lparr>tk_sign_ctx := (tk_sign_ctx t)(session_id := None)\<rparr>))"

definition C_Sign :: "device \<Rightarrow> entropy \<Rightarrow> int \<Rightarrow> bytes \<Rightarrow> hsm \<Rightarrow> (int \<times> bytes) py \<times> hsm" where
  "C_Sign dev ent session_id message =
     with_token (\<lambda>rv. (rv, [])) session_id (token_sign dev ent session_id message)"

definition token_verify_init :: "int \<Rightarrow> int \<Rightarrow> int \<Rightarrow> token \<Rightarrow> int py \<times> token" where
  "token_verify_init session_id mechanism pubkey_handle t =
     (case tk_objects t pubkey_handle of
        None \<Rightarrow> (Inr CKR_KEY_HANDLE_INVALID, t)
      | Some key \<Rightarrow>
          if mechanism \<noteq> CKM_ML_DSA then (Inr CKR_MECHANISM_INVALID, t)
          else (Inr CKR_OK, t\<lparr>tk_verify_ctx := (tk_verify_ctx t)(session_id \<mapsto> key)\<rparr>))"

definition C_VerifyInit :: "int \<Rightarrow> int \<Rightarrow> int \<Rightarrow> hsm \<Rightarrow> int py \<times> hsm" where
  "C_VerifyInit session_id mechanism pubkey_handle =
     with_token (\<lambda>rv. rv) session_id (token_verify_init session_id mechanism pubkey_handle)"

definition token_verify :: "device \<Rightarrow> int \<Rightarrow> bytes \<Rightarrow> bytes \<Rightarrow> token \<Rightarrow> int py \<times> token" where
  "token_verify dev session_id message signature t =
     (case tk_verify_ctx t session_id of
        None \<Rightarrow> (Inr CKR_FUNCTION_FAILED, t)
      | Some key \<Rightarrow>
          (bindE (signature_verify dev key message signature)
             (\<lambda>valid. Inr (if valid then CKR_OK else CKR_SIGNATURE_INVALID)),
           t\<lparr>tk_verify_ctx := (tk_verify_ctx t)(session_id := None)\<rparr>))"

definition C_Verify :: "device \<Rightarrow> int \<Rightarrow> bytes \<Rightarrow> bytes \<Rightarrow> hsm \<Rightarrow> int py \<times> hsm" where
  "C_Verify dev session_id message signature =
     with_token (\<lambda>rv. rv) session_id (token_verify dev session_id message signature)"

definition token_derive ::
  "device \<Rightarrow> entropy \<Rightarrow> int \<Rightarrow> int \<Rightarrow> bytes option \<Rightarrow> token \<Rightarrow> (int \<times> bytes \<times> bytes) py \<times> token" where
  "token_derive dev ent mechanism key_handle ciphertext_in t =
     (case tk_objects t key_handle of
        None \<Rightarrow> (Inr (CKR_KEY_HANDLE_INVALID, [], []), t)
      | Some key \<Rightarrow>
          if mechanism = CKM_ML_KEM_ENCAPSULATE
          then (bindE (kem_encapsulate dev ent key None) (\<lambda>(ct, ss). Inr (CKR_OK, ct, ss)), t)
          else if mechanism = CKM_ML_KEM_DECAPSULATE
          then (case ciphertext_in of
              None \<Rightarrow> (Inr (CKR_ARGUMENTS_BAD, [], []), t)
            | Some ct \<Rightarrow> if ct = [] then (Inr (CKR_ARGUMENTS_BAD, [], []), t)
                else (bindE (kem_decapsulate dev key ct) (\<lambda>ss. Inr (CKR_OK, ct, ss)), t))
          else (Inr (CKR_MECHANISM_INVALID, [], []), t))"

definition C_DeriveKey ::
  "device \<Rightarrow> entropy \<Rightarrow> int \<Rightarrow> int \<Rightarrow> int \<Rightarrow> bytes option \<Rightarrow> hsm \<Rightarrow> (int \<times> bytes \<times> bytes) py \<times> hsm" where
  "C_DeriveKey dev ent session_id mechanism key_handle ciphertext_in =
     with_token (\<lambda>rv. (rv, [], [])) session_id (token_derive dev ent mechanism key_handle ciphertext_in)"

subsection \<open>Calls and reachable states\<close>

datatype hsm_call =
    Initialize
  | Finalize
  | GetSlotList
  | GetTokenInfo int
  | OpenSession int int
  | CloseSession int
  | Login int int string
  | Logout int
  | GenerateKeyPair int int algorithm_arg
  | SignInit int int int
  | Sign int bytes
  | VerifyInit int int int
  | Verify int bytes bytes
  | DeriveKey int int int "bytes option"

definition only_code :: "('r \<Rightarrow> int) \<Rightarrow> 'r py \<times> hsm \<Rightarrow> int py \<times> hsm" where
  "only_code f rh = (bindE (fst rh) (\<lambda>r. Inr (f r)), snd rh)"

fun call_hsm :: "device \<Rightarrow> entropy \<Rightarrow> hsm_call \<Rightarrow> hsm \<Rightarrow> int py \<times> hsm" where
  "call_hsm dev ent Initialize h = C_Initialize h"
| "call_hsm dev ent Finalize h = C_Finalize h"
| "call_hsm dev ent GetSlotList h = only_code fst (C_GetSlotList h)"
| "call_hsm dev ent (GetTokenInfo slot_id) h = only_code fst (C_GetTokenInfo slot_id h)"
| "call_hsm dev ent (OpenSession uuid slot_id) h = only_code fst (C_OpenSession uuid slot_id h)"
| "call_hsm dev ent (CloseSession s) h = C_CloseSession s h"
| "call_hsm dev ent (Login s u pin) h = C_Login s u pin h"
| "call_hsm dev ent (Logout s) h = C_Logout s h"
| "call_hsm dev ent (GenerateKeyPair s m a) h = only_code fst (C_GenerateKeyPair dev ent s m a h)"
| "call_hsm dev ent (SignInit s m k) h = C_SignInit s m k h"
| "call_hsm dev ent (Sign s msg) h = only_code fst (C_Sign dev ent s msg h)"
| "call_hsm dev ent (VerifyInit s m k) h = C_VerifyInit s m k h"
| "call_hsm dev ent (Verify s msg sig) h = C_Verify dev s msg sig h"
| "call_hsm dev ent (DeriveKey s m k ct) h = only_code fst (C_DeriveKey dev ent s m k ct h)"

inductive hsm_reachable :: "hsm \<Rightarrow> bool" where
  start: "hsm_reachable new_hsm"
| call: "hsm_reachable h \<Longrightarrow> hsm_reachable (snd (call_hsm dev ent c h))"

subsection \<open>Well-formed tokens and modules\<close>

definition token_ok :: "token \<Rightarrow> bool" where
  "token_ok t \<longleftrightarrow>
     (\<not> tk_logged_in t \<longrightarrow> tk_objects t = Map.empty) \<and>
     (tk_logged_in t \<longleftrightarrow> tk_user_type t \<noteq> None) \<and>
     ran (tk_sign_ctx t) \<subseteq> ran (tk_objects t) \<and>
     ran (tk_verify_ctx t) \<subseteq> ran (tk_objects t) \<and>
     even (tk_next_handle t) \<and> 1000 \<le> tk_next_handle t \<and>
     (\<forall>k key. tk_objects t k = Some key \<longrightarrow> 1000 \<le> k \<and> k < tk_next_handle t \<and> (even k \<longrightarrow> pk_privkey key = None))"

definition hsm_ok :: "hsm \<Rightarrow> bool" where
  "hsm_ok h \<longleftrightarrow>
     (if h_initialized h
      then (\<exists>t. h_tokens h = [(0, t)] \<and> token_ok t) \<and> ran (h_sessions h) \<subseteq> {0}
      else h_tokens h = [] \<and> h_sessions h = Map.empty)"

lemma token_ok_new: "token_ok new_token"
  by (simp add: token_ok_def new_token_def)

lemma token_ok_zeroize: "token_ok t \<Longrightarrow> token_ok (token_zeroize t)"
  by (simp add: token_ok_def token_zeroize_def)

lemma set_slot_same: "map_of ts s = Some t \<Longrightarrow> set_slot s t ts = ts"
  by (induction ts) (auto split: if_splits)

lemma put_token_same [simp]: "map_of (h_tokens h) s = Some t \<Longrightarrow> put_token s t h = h"
  by (simp add: put_token_def set_slot_same)

lemma map_of_set_slot [simp]: "map_of (set_slot s t ts) = (map_of ts)(s \<mapsto> t)"
  by (induction s t ts rule: set_slot.induct) (auto simp add: fun_eq_iff)

lemma put_token_sel [simp]:
  "h_initialized (put_token s t h) = h_initialized h"
  "h_sessions (put_token s t h) = h_sessions h"
  "map_of (h_tokens (put_token s t h)) = (map_of (h_tokens h))(s \<mapsto> t)"
  by (simp_all add: put_token_def)

lemma hsm_okE:
  assumes "hsm_ok h" "h_sessions h s = Some slot"
  obtains t where "h_initialized h" "slot = 0" "h_tokens h = [(0, t)]" "token_ok t"
  using assms by (auto simp add: hsm_ok_def ran_def split: if_splits)

lemma hsm_ok_put:
  assumes "hsm_ok h" "h_sessions h s = Some slot" "token_ok t"
  shows "hsm_ok (put_token slot t h)"
proof -
  from assms(1,2) obtain t0 where "h_initialized h" "slot = 0" "h_tokens h = [(0, t0)]"
    by (rule hsm_okE)
  with assms show ?thesis by (simp add: hsm_ok_def put_token_def)
qed

subsection \<open>The contract of an operation on a token\<close>

text \<open>
  An operation behind the shared prologue promises that its body keeps a token well-formed; the
  prologue then gives the rest: nothing happens before initialisation or without a session, a
  session never dangles, and the module stays well-formed.
\<close>

locale token_operation =
  fixes err :: "int \<Rightarrow> 'r" and session_id :: int and body :: "token \<Rightarrow> 'r py \<times> token"
  assumes body_ok: "token_ok t \<Longrightarrow> token_ok (snd (body t))"
begin

lemma not_initialized:
  "\<not> h_initialized h \<Longrightarrow> with_token err session_id body h = (Inr (err CKR_NOT_INITIALIZED), h)"
  by (simp add: with_token_def)

lemma no_session:
  "h_initialized h \<Longrightarrow> h_sessions h session_id = None \<Longrightarrow>
    with_token err session_id body h = (Inr (err CKR_SESSION_HANDLE_INVALID), h)"
  by (simp add: with_token_def)

lemma on_token:
  assumes "hsm_ok h" "h_sessions h session_id = Some slot"
  obtains t where "h_tokens h = [(0, t)]" "token_ok t" "slot = 0"
    "with_token err session_id body h = (fst (body t), put_token 0 (snd (body t)) h)"
  using hsm_okE [OF assms] assms(2)
  by (metis (no_types, lifting) map_of_Cons_code(2) option.simps(5) split_beta with_token_def)

lemma keeps_ok: "hsm_ok h \<Longrightarrow> hsm_ok (snd (with_token err session_id body h))"
proof (cases "h_initialized h \<and> h_sessions h session_id \<noteq> None")
  case True
  assume ok: "hsm_ok h"
  from True obtain slot where s: "h_sessions h session_id = Some slot" by blast
  from ok s obtain t where "token_ok t" "slot = 0"
    "with_token err session_id body h = (fst (body t), put_token 0 (snd (body t)) h)"
    by (rule on_token)
  with ok s show ?thesis by (simp add: body_ok hsm_ok_put)
qed (auto simp add: with_token_def)

end

lemma token_ok_add_pair:
  assumes ok: "token_ok t" and "tk_logged_in t" "pk_privkey pub = None"
  shows "token_ok (t\<lparr>tk_next_handle := tk_next_handle t + 2,
    tk_objects := (tk_objects t)(tk_next_handle t \<mapsto> pub, tk_next_handle t + 1 \<mapsto> priv)\<rparr>)"
proof -
  define n where "n = tk_next_handle t"
  define ob where "ob = tk_objects t"
  have old: "1000 \<le> k \<and> k < n \<and> (even k \<longrightarrow> pk_privkey key = None)" if "ob k = Some key" for k key
    using ok that by (simp add: token_ok_def n_def ob_def)
  have n: "even n" "1000 \<le> n" using ok by (simp_all add: token_ok_def n_def)
  have fresh: "ob n = None" "ob (n + 1) = None" using old [of n] old [of "n + 1"] by fastforce+
  have ran: "ran ob \<subseteq> ran (ob(n \<mapsto> pub, n + 1 \<mapsto> priv))" using fresh by (auto simp add: ran_map_upd)
  have new: "1000 \<le> k \<and> k < n + 2 \<and> (even k \<longrightarrow> pk_privkey key = None)"
    if "(ob(n \<mapsto> pub, n + 1 \<mapsto> priv)) k = Some key" for k key
    using that old [of k key] n assms(3) by (auto split: if_splits)
  have "ran (tk_sign_ctx t) \<subseteq> ran ob" "ran (tk_verify_ctx t) \<subseteq> ran ob" "tk_user_type t \<noteq> None"
    using ok assms(2) by (simp_all add: token_ok_def ob_def)
  with ran new n assms(2) show ?thesis
    unfolding token_ok_def n_def [symmetric] ob_def [symmetric]
    by (simp del: fun_upd_apply) (meson subset_trans)
qed

lemma token_ok_generate: "token_ok t \<Longrightarrow> token_ok (snd (token_generate dev ent m a t))"
  by (simp add: token_generate_def Let_def token_ok_add_pair split: option.splits sum.splits)

lemma token_ok_sign_init: "token_ok t \<Longrightarrow> token_ok (snd (token_sign_init s m k t))"
  by (auto simp add: token_sign_init_def token_ok_def ran_def split: option.splits if_splits)

lemma token_ok_verify_init: "token_ok t \<Longrightarrow> token_ok (snd (token_verify_init s m k t))"
  by (auto simp add: token_verify_init_def token_ok_def ran_def split: option.splits if_splits)

lemma token_ok_sign: "token_ok t \<Longrightarrow> token_ok (snd (token_sign dev ent s m t))"
  by (auto simp add: token_sign_def token_ok_def ran_def split: option.splits if_splits)

lemma token_ok_verify: "token_ok t \<Longrightarrow> token_ok (snd (token_verify dev s m sig t))"
  by (auto simp add: token_verify_def token_ok_def ran_def split: option.splits if_splits)

lemma token_derive_state [simp]: "snd (token_derive dev ent m k ct t) = t"
  by (simp add: token_derive_def split: option.splits)

lemma token_ok_login: "token_ok t \<Longrightarrow> token_ok (snd (token_login u pin t))"
  by (auto simp add: token_login_def token_ok_def)

interpretation op_login: token_operation "\<lambda>rv. rv" s "token_login u pin" for s u pin
  by unfold_locales (rule token_ok_login)

interpretation op_logout: token_operation "\<lambda>rv. rv" s "\<lambda>t. (Inr CKR_OK, token_zeroize t)" for s
  by unfold_locales (simp add: token_ok_zeroize)

interpretation op_generate: token_operation "\<lambda>rv. (rv, 0, 0)" s "token_generate dev ent m a" for s dev ent m a
  by unfold_locales (rule token_ok_generate)

interpretation op_sign_init: token_operation "\<lambda>rv. rv" s "token_sign_init s m k" for s m k
  by unfold_locales (rule token_ok_sign_init)

interpretation op_sign: token_operation "\<lambda>rv. (rv, [])" s "token_sign dev ent s m" for s dev ent m
  by unfold_locales (rule token_ok_sign)

interpretation op_verify_init: token_operation "\<lambda>rv. rv" s "token_verify_init s m k" for s m k
  by unfold_locales (rule token_ok_verify_init)

interpretation op_verify: token_operation "\<lambda>rv. rv" s "token_verify dev s m sig" for s dev m sig
  by unfold_locales (rule token_ok_verify)

interpretation op_derive: token_operation "\<lambda>rv. (rv, [], [])" s "token_derive dev ent m k ct" for s dev ent m k ct
  by unfold_locales simp

lemmas session_operations = C_Login_def C_Logout_def C_GenerateKeyPair_def C_SignInit_def
  C_Sign_def C_VerifyInit_def C_Verify_def C_DeriveKey_def

lemma initialize_ok: "hsm_ok h \<Longrightarrow> hsm_ok (snd (C_Initialize h))"
  by (simp add: hsm_ok_def C_Initialize_def put_token_def token_ok_new)

lemma finalize_ok: "hsm_ok h \<Longrightarrow> hsm_ok (snd (C_Finalize h))"
  by (simp add: hsm_ok_def C_Finalize_def)

lemma open_ok: "hsm_ok h \<Longrightarrow> hsm_ok (snd (C_OpenSession uuid slot h))"
  by (auto simp add: hsm_ok_def C_OpenSession_def Let_def ran_def split: if_splits)

lemma close_ok:
  assumes "hsm_ok h"
  shows "hsm_ok (snd (C_CloseSession s h))"
proof (cases "h_initialized h \<and> h_sessions h s \<noteq> None")
  case True
  then obtain slot where "h_sessions h s = Some slot" by blast
  moreover from assms this obtain t where "slot = 0" "h_tokens h = [(0, t)]" "token_ok t" "h_initialized h"
    by (rule hsm_okE)
  moreover from assms \<open>h_initialized h\<close> have "ran ((h_sessions h)(s := None)) \<subseteq> {0}"
    by (auto simp add: hsm_ok_def ran_def split: if_splits)
  ultimately show ?thesis
    by (simp add: C_CloseSession_def Let_def hsm_ok_def put_token_def token_ok_zeroize)
qed (use assms in \<open>auto simp add: C_CloseSession_def\<close>)

lemma only_code_state [simp]: "snd (only_code f rh) = snd rh"
  by (simp add: only_code_def)

lemma getters_state [simp]: "snd (C_GetSlotList h) = h" "snd (C_GetTokenInfo slot h) = h"
  by (simp_all add: C_GetSlotList_def C_GetTokenInfo_def)

lemma call_keeps_ok: "hsm_ok h \<Longrightarrow> hsm_ok (snd (call_hsm dev ent c h))"
  by (cases c)
    (simp_all add: session_operations initialize_ok finalize_ok open_ok close_ok
      op_login.keeps_ok op_logout.keeps_ok op_generate.keeps_ok op_sign_init.keeps_ok
      op_sign.keeps_ok op_verify_init.keeps_ok op_verify.keeps_ok op_derive.keeps_ok)

lemma reachable_ok: "hsm_reachable h \<Longrightarrow> hsm_ok h"
  by (induction rule: hsm_reachable.induct) (simp_all add: call_keeps_ok, simp add: hsm_ok_def new_hsm_def)

lemma token_ok_logged_out:
  "token_ok t \<Longrightarrow> \<not> tk_logged_in t \<Longrightarrow>
    tk_objects t = Map.empty \<and> tk_sign_ctx t = Map.empty \<and> tk_verify_ctx t = Map.empty"
  by (auto simp add: token_ok_def ran_def fun_eq_iff)

lemma with_token_cases:
  obtains "\<not> h_initialized h" "with_token err s body h = (Inr (err CKR_NOT_INITIALIZED), h)"
  | "h_initialized h" "h_sessions h s = None"
    "with_token err s body h = (Inr (err CKR_SESSION_HANDLE_INVALID), h)"
  | slot where "h_initialized h" "h_sessions h s = Some slot" "map_of (h_tokens h) slot = None"
    "with_token err s body h = (Inl KeyError, h)"
  | slot t where "h_initialized h" "h_sessions h s = Some slot" "map_of (h_tokens h) slot = Some t"
    "with_token err s body h = (fst (body t), put_token slot (snd (body t)) h)"
proof (cases "h_initialized h")
  case True
  note init = this
  show ?thesis
  proof (cases "h_sessions h s")
    case (Some slot)
    with that(3,4) init show ?thesis
      by (cases "map_of (h_tokens h) slot") (simp_all add: with_token_def split: prod.splits)
  qed (use that(2) init in \<open>simp add: with_token_def\<close>)
qed (use that(1) in \<open>simp add: with_token_def\<close>)

text \<open>A body that changes the token only when it grants the request.\<close>

definition grants :: "('r \<Rightarrow> int) \<Rightarrow> 'r py \<Rightarrow> bool" where
  "grants f r \<longleftrightarrow> (\<forall>x. r = Inr x \<longrightarrow> f x = CKR_OK \<or> f x = CKR_SIGNATURE_INVALID)"

lemma grants_simps [simp]:
  "grants f (Inl e)"
  "grants f (Inr x) \<longleftrightarrow> f x = CKR_OK \<or> f x = CKR_SIGNATURE_INVALID"
  by (simp_all add: grants_def)

lemma with_token_refused:
  assumes "\<And>t. snd (body t) = t \<or> grants f (fst (body t))"
    and "\<not> grants f (fst (with_token err s body h))"
  shows "snd (with_token err s body h) = h"
proof (cases rule: with_token_cases [of h err s body])
  case (4 slot t)
  then have "snd (body t) = t" using assms by (metis fst_conv)
  with 4 show ?thesis by simp
qed simp_all

lemma token_bodies_grant:
  "snd (token_login u pin t) = t \<or> grants id (fst (token_login u pin t))"
  "snd (token_generate dev ent m a t) = t \<or> grants fst (fst (token_generate dev ent m a t))"
  "snd (token_sign_init s m k t) = t \<or> grants id (fst (token_sign_init s m k t))"
  "snd (token_sign dev ent s msg t) = t \<or> grants fst (fst (token_sign dev ent s msg t))"
  "snd (token_verify_init s m k t) = t \<or> grants id (fst (token_verify_init s m k t))"
  "snd (token_verify dev s msg sig t) = t \<or> grants id (fst (token_verify dev s msg sig t))"
  by (auto simp add: token_login_def token_generate_def Let_def token_sign_init_def token_sign_def
      token_verify_init_def token_verify_def bindE_def split: option.splits sum.splits)

lemma revoked_state:
  assumes ok: "hsm_ok h" and "h_sessions h s \<noteq> None"
    and h': "h' \<in> {snd (C_Logout s h), snd (C_CloseSession s h)}" and s': "h_sessions h' s' \<noteq> None"
  shows "\<exists>t. h_initialized h' \<and> h_sessions h' s' = Some 0 \<and> h_tokens h' = [(0, token_zeroize t)]"
proof -
  obtain slot where slot: "h_sessions h s = Some slot" using assms(2) by blast
  obtain t where t: "h_initialized h" "slot = 0" "h_tokens h = [(0, t)]" by (rule hsm_okE [OF ok slot])
  have "h_initialized h' \<and> h_tokens h' = [(0, token_zeroize t)]"
    using h' t slot by (auto simp add: C_Logout_def C_CloseSession_def with_token_def put_token_def)
  moreover have "hsm_ok h'"
    using h' ok close_ok op_logout.keeps_ok by (auto simp add: C_Logout_def)
  ultimately show ?thesis using s' hsm_okE by (metis not_Some_eq)
qed

lemma grants_only_code: "grants id (fst (only_code f rh)) \<longleftrightarrow> grants f (fst rh)"
  by (cases "fst rh") (simp_all add: only_code_def)

lemma refused_call: "\<not> grants id (fst (call_hsm dev ent c h)) \<Longrightarrow> snd (call_hsm dev ent c h) = h"
proof (cases c)
  case Initialize
  then show "\<not> grants id (fst (call_hsm dev ent c h)) \<Longrightarrow> ?thesis" by (simp add: C_Initialize_def split: if_splits)
next
  case Finalize
  then show "\<not> grants id (fst (call_hsm dev ent c h)) \<Longrightarrow> ?thesis" by (simp add: C_Finalize_def split: if_splits)
next
  case (OpenSession uuid slot)
  then show "\<not> grants id (fst (call_hsm dev ent c h)) \<Longrightarrow> ?thesis"
    by (simp add: C_OpenSession_def Let_def only_code_def split: if_splits)
next
  case (CloseSession s)
  then show "\<not> grants id (fst (call_hsm dev ent c h)) \<Longrightarrow> ?thesis"
    by (simp add: C_CloseSession_def Let_def split: if_splits option.splits)
qed (simp_all add: session_operations grants_only_code with_token_refused [where f = id]
    with_token_refused [where f = fst] token_bodies_grant)

lemma sign_without_context:
  "h_initialized h \<Longrightarrow> h_sessions h s = Some slot \<Longrightarrow> map_of (h_tokens h) slot = Some t \<Longrightarrow>
    tk_sign_ctx t s = None \<Longrightarrow> C_Sign dev ent s msg h = (Inr (CKR_FUNCTION_FAILED, []), h)"
  by (simp add: C_Sign_def with_token_def token_sign_def)

subsection \<open>A worked session\<close>

definition run_calls :: "device \<Rightarrow> entropy \<Rightarrow> hsm_call list \<Rightarrow> hsm \<Rightarrow> hsm" where
  "run_calls dev ent cs h = foldl (\<lambda>h c. snd (call_hsm dev ent c h)) h cs"

lemma reachable_run: "hsm_reachable h \<Longrightarrow> hsm_reachable (run_calls dev ent cs h)"
  by (induction cs arbitrary: h) (simp_all add: run_calls_def hsm_reachable.call)

definition demo_opened :: hsm where
  "demo_opened = run_calls echo_device fixed_entropy [Initialize, OpenSession 7 0, OpenSession 8 0] new_hsm"

definition demo_armed :: hsm where
  "demo_armed = run_calls echo_device fixed_entropy
     [Login 7 CKU_USER ''123456'', GenerateKeyPair 7 CKM_ML_DSA_KEY_PAIR_GEN (Algo_Name ''ML-DSA-65''),
      SignInit 7 CKM_ML_DSA 1001] demo_opened"

definition demo_key :: pqc_key where
  "demo_key = \<lparr>pk_algorithm = ''ML-DSA-65'', pk_pubkey = replicate 32 5, pk_privkey = Some (replicate 32 5)\<rparr>"

lemma demo_opened_state:
  "demo_opened = \<lparr>h_initialized = True, h_tokens = [(0, new_token)], h_sessions = [7 \<mapsto> 0, 8 \<mapsto> 0]\<rparr>"
  by (simp add: demo_opened_def run_calls_def C_Initialize_def C_OpenSession_def put_token_def new_hsm_def Let_def)

lemma demo_names:
  "canonical_algo ''ML-DSA-65'' = ''ML-DSA-65''" "\<not> is_slhdsa ''ML-DSA-65''" "\<not> is_fndsa ''ML-DSA-65''"
  by code_simp+

lemma demo_keygen: "signature_keygen echo_device fixed_entropy ''ML-DSA-65'' None = Inr demo_key"
  by (simp add: signature_keygen_def Let_def demo_names echo_device_def demo_key_def drain_or_urandom_def fixed_entropy_def)

lemma demo_signature: "signature_sign echo_device fixed_entropy demo_key [1, 2] None = Inr (1 # 2 # replicate 32 5)"
  by (simp add: signature_sign_def Let_def demo_names echo_device_def demo_key_def no_privkey_def)

lemma demo_armed_facts:
  "h_sessions demo_armed = [7 \<mapsto> 0, 8 \<mapsto> 0]" "h_initialized demo_armed"
  "\<exists>t. h_tokens demo_armed = [(0, t)] \<and> tk_sign_ctx t = [7 \<mapsto> demo_key] \<and> tk_logged_in t \<and> tk_next_handle t = 1002"
  by (simp_all add: demo_armed_def run_calls_def demo_opened_state session_operations with_token_def
      token_login_def token_generate_def token_sign_init_def put_token_def Let_def new_token_def algo_name_def
      demo_names demo_keygen) (simp_all add: demo_key_def)

lemma demo_reachable: "hsm_reachable demo_opened" "hsm_reachable demo_armed"
  unfolding demo_armed_def demo_opened_def by (intro reachable_run hsm_reachable.start)+

subsection \<open>Properties\<close>

text \<open>
  C3. State invariant, for every sequence of calls with any device, entropy and arguments: an
  uninitialised module holds no token and no session; an initialised one holds exactly slot 0,
  every session refers to it, so the token lookup never raises; a token that is not logged in holds
  no key object and no context; contexts refer to resident key objects; and private keys sit only
  under odd handles below the next one.
\<close>

theorem token_invariant:
  assumes "hsm_reachable h"
  shows "if h_initialized h
    then \<exists>t. h_tokens h = [(0, t)] \<and> (\<forall>s slot. h_sessions h s = Some slot \<longrightarrow> slot = 0) \<and>
      (\<not> tk_logged_in t \<longrightarrow> tk_objects t = Map.empty \<and> tk_sign_ctx t = Map.empty \<and> tk_verify_ctx t = Map.empty) \<and>
      ran (tk_sign_ctx t) \<union> ran (tk_verify_ctx t) \<subseteq> ran (tk_objects t) \<and>
      (\<forall>k key. tk_objects t k = Some key \<longrightarrow> 1000 \<le> k \<and> k < tk_next_handle t \<and> (even k \<longrightarrow> pk_privkey key = None))
    else h_tokens h = [] \<and> h_sessions h = Map.empty"
proof (cases "h_initialized h")
  case True
  with reachable_ok [OF assms] obtain t where t: "h_tokens h = [(0, t)]" "token_ok t"
    and s: "ran (h_sessions h) \<subseteq> {0}" by (auto simp add: hsm_ok_def)
  have "\<forall>s slot. h_sessions h s = Some slot \<longrightarrow> slot = 0" using s by (auto simp add: ran_def)
  moreover have "ran (tk_sign_ctx t) \<union> ran (tk_verify_ctx t) \<subseteq> ran (tk_objects t)"
    "\<forall>k key. tk_objects t k = Some key \<longrightarrow> 1000 \<le> k \<and> k < tk_next_handle t \<and> (even k \<longrightarrow> pk_privkey key = None)"
    using t(2) unfolding token_ok_def by blast+
  ultimately show ?thesis
    using True t(1) token_ok_logged_out [OF t(2)] by (intro if_P [THEN iffD2] exI [of _ t]) simp_all
qed (use reachable_ok [OF assms] in \<open>simp add: hsm_ok_def\<close>)

theorem token_invariant_witness:
  "\<exists>t. h_tokens demo_armed = [(0, t)] \<and> ran (tk_sign_ctx t) \<subseteq> ran (tk_objects t)"
  using token_invariant [OF demo_reachable(2)] demo_armed_facts(2) by auto

text \<open>
  C2. Signing: in any reachable state a successful \<open>C_Sign\<close> signs with a key that is resident on
  a logged-in token, returns the provider's signature for it, and consumes the context: the next
  \<open>C_Sign\<close> of that session fails and changes nothing, whatever its message.  An attempt that
  raises consumes the context as well.
\<close>

theorem sign_needs_login_once:
  assumes "hsm_reachable h" "C_Sign dev ent s msg h = (r, h')" "r \<noteq> Inr (CKR_NOT_INITIALIZED, [])"
    "r \<noteq> Inr (CKR_SESSION_HANDLE_INVALID, [])" "r \<noteq> Inr (CKR_FUNCTION_FAILED, [])"
  shows "\<exists>t key. h_tokens h = [(0, t)] \<and> tk_logged_in t \<and> key \<in> ran (tk_objects t) \<and>
    r = bindE (signature_sign dev ent key msg None) (\<lambda>sig. Inr (CKR_OK, sig)) \<and>
    C_Sign dev' ent' s msg' h' = (Inr (CKR_FUNCTION_FAILED, []), h')"
proof -
  have ok: "hsm_ok h" by (rule reachable_ok) fact
  have "h_initialized h"
    using assms(2,3) op_sign.not_initialized [of h s dev ent msg] unfolding C_Sign_def by (metis Pair_inject)
  have "h_sessions h s \<noteq> None"
    using assms(2,4) op_sign.no_session [OF \<open>h_initialized h\<close>, of s dev ent msg]
    unfolding C_Sign_def by (metis Pair_inject)
  then obtain slot where s: "h_sessions h s = Some slot" by blast
  from op_sign.on_token [OF ok s, of dev ent msg] obtain t where t: "h_tokens h = [(0, t)]" "token_ok t" "slot = 0"
    and run: "C_Sign dev ent s msg h = (fst (token_sign dev ent s msg t), put_token 0 (snd (token_sign dev ent s msg t)) h)"
    unfolding C_Sign_def by blast
  obtain key where key: "tk_sign_ctx t s = Some key"
    using assms(2,5) run by (auto simp add: token_sign_def split: option.splits)
  define t' where "t' = t\<lparr>tk_sign_ctx := (tk_sign_ctx t)(s := None)\<rparr>"
  have r: "r = bindE (signature_sign dev ent key msg None) (\<lambda>sig. Inr (CKR_OK, sig))" and h': "h' = put_token 0 t' h"
    using assms(2) run key by (simp_all add: token_sign_def t'_def)
  have res: "key \<in> ran (tk_objects t)" using t(2) key unfolding token_ok_def by (blast intro: ranI)
  then have "tk_logged_in t" using t(2) by (auto simp add: token_ok_def)
  moreover have "C_Sign dev' ent' s msg' h' = (Inr (CKR_FUNCTION_FAILED, []), h')"
    using sign_without_context [of h' s 0 t'] \<open>h_initialized h\<close> s t(3) by (simp add: h' t'_def)
  ultimately show ?thesis using t(1) res r by blast
qed

theorem sign_needs_login_once_witness:
  "\<exists>h'. C_Sign echo_device fixed_entropy 7 [1, 2] demo_armed = (Inr (CKR_OK, 1 # 2 # replicate 32 5), h') \<and>
     C_Sign echo_device fixed_entropy 7 [3] h' = (Inr (CKR_FUNCTION_FAILED, []), h')"
proof -
  obtain h' where run: "C_Sign echo_device fixed_entropy 7 [1, 2] demo_armed = (Inr (CKR_OK, 1 # 2 # replicate 32 5), h')"
    using demo_armed_facts by (auto simp add: C_Sign_def with_token_def token_sign_def demo_signature)
  from sign_needs_login_once [OF demo_reachable(2) run, of echo_device fixed_entropy "[3]"]
  have "C_Sign echo_device fixed_entropy 7 [3] h' = (Inr (CKR_FUNCTION_FAILED, []), h')" by simp blast
  with run show ?thesis by blast
qed

text \<open>
  C35. Revocation: after one session logs out or is closed, whatever the other sessions of the slot
  had prepared is gone: signing and verifying fail for want of a context, every handle is invalid
  for signing, verifying and deriving, and key generation asks for a login.
\<close>

theorem logout_revokes_all_sessions:
  assumes "hsm_reachable h" "h_sessions h s \<noteq> None"
    and "h' \<in> {snd (C_Logout s h), snd (C_CloseSession s h)}" "h_sessions h' s' \<noteq> None"
  shows "(C_Sign dev ent s' msg h' = (Inr (CKR_FUNCTION_FAILED, []), h')) \<and>
    (C_Verify dev s' msg sig h' = (Inr CKR_FUNCTION_FAILED, h')) \<and>
    (C_SignInit s' m k h' = (Inr CKR_KEY_HANDLE_INVALID, h')) \<and>
    (C_VerifyInit s' m k h' = (Inr CKR_KEY_HANDLE_INVALID, h')) \<and>
    (C_DeriveKey dev ent s' m k ct h' = (Inr (CKR_KEY_HANDLE_INVALID, [], []), h')) \<and>
    (C_GenerateKeyPair dev ent s' m a h' = (Inr (CKR_USER_NOT_LOGGED_IN, 0, 0), h'))"
proof (intro conjI)
  obtain t where t: "h_initialized h'" "h_sessions h' s' = Some 0" "h_tokens h' = [(0, token_zeroize t)]"
    using revoked_state [OF reachable_ok [OF assms(1)] assms(2,3,4)] by blast
  note ops = session_operations with_token_def token_zeroize_def token_sign_def token_verify_def
    token_sign_init_def token_verify_init_def token_derive_def token_generate_def
  show "C_Sign dev ent s' msg h' = (Inr (CKR_FUNCTION_FAILED, []), h')"
    and "C_Verify dev s' msg sig h' = (Inr CKR_FUNCTION_FAILED, h')"
    and "C_SignInit s' m k h' = (Inr CKR_KEY_HANDLE_INVALID, h')"
    and "C_VerifyInit s' m k h' = (Inr CKR_KEY_HANDLE_INVALID, h')"
    and "C_DeriveKey dev ent s' m k ct h' = (Inr (CKR_KEY_HANDLE_INVALID, [], []), h')"
    and "C_GenerateKeyPair dev ent s' m a h' = (Inr (CKR_USER_NOT_LOGGED_IN, 0, 0), h')"
    using t by (simp_all add: ops)
qed

theorem logout_revokes_all_sessions_witness:
  "C_Sign echo_device fixed_entropy 7 [1] (snd (C_Logout 8 demo_armed)) =
     (Inr (CKR_FUNCTION_FAILED, []), snd (C_Logout 8 demo_armed))"
proof (rule logout_revokes_all_sessions [OF demo_reachable(2), of 8, THEN conjunct1])
  show "h_sessions (snd (C_Logout 8 demo_armed)) 7 \<noteq> None"
    using demo_armed_facts by (auto simp add: C_Logout_def with_token_def)
qed (simp_all add: demo_armed_facts)

text \<open>
  Refusals have no effect: in any state, reachable or not, an operation that answers with a
  return code other than success and invalid signature leaves the module exactly as it was; in
  particular any number of wrong PINs changes nothing and no login is ever locked out.
\<close>

theorem refused_calls_change_nothing:
  assumes "fst (call_hsm dev ent c h) = Inr rv" "rv \<noteq> CKR_OK" "rv \<noteq> CKR_SIGNATURE_INVALID"
  shows "snd (call_hsm dev ent c h) = h"
  using assms by (intro refused_call) (simp add: grants_def)

theorem refused_calls_change_nothing_witness:
  "snd (call_hsm echo_device fixed_entropy (Login 7 CKU_USER ''000000'') demo_opened) = demo_opened"
  by (rule refused_calls_change_nothing [where rv = CKR_PIN_INCORRECT])
    (simp_all add: demo_opened_state C_Login_def with_token_def token_login_def new_token_def)

text \<open>
  C9. Availability: from any reachable initialised state, whatever the other sessions did before,
  a session whose user knows the PIN gets a signature: logging out, logging in, generating a pair,
  initialising with the private handle and signing all succeed, and the answer is the provider's
  signature under the generated key, provided the device generates and signs.
\<close>

theorem user_can_always_sign:
  assumes "hsm_reachable h" "h_sessions h s \<noteq> None" "h_tokens h = [(0, t)]"
    and "signature_keygen dev ent (canonical_algo name) None = Inr key"
    and "signature_sign dev ent \<lparr>pk_algorithm = canonical_algo name, pk_pubkey = pk_pubkey key,
           pk_privkey = pk_privkey key\<rparr> msg None = Inr sig"
  shows "\<exists>h1 h2 h3 h4 h5 pub priv.
    C_Logout s h = (Inr CKR_OK, h1) \<and>
    C_Login s CKU_USER (tk_user_pin t) h1 = (Inr CKR_OK, h2) \<and>
    C_GenerateKeyPair dev ent s CKM_ML_DSA_KEY_PAIR_GEN (Algo_Name name) h2 = (Inr (CKR_OK, pub, priv), h3) \<and>
    C_SignInit s CKM_ML_DSA priv h3 = (Inr CKR_OK, h4) \<and>
    C_Sign dev ent s msg h4 = (Inr (CKR_OK, sig), h5)"
proof -
  obtain slot where s: "h_sessions h s = Some slot" using assms(2) by blast
  have init: "h_initialized h" and slot: "slot = 0"
    using hsm_okE [OF reachable_ok [OF assms(1)] s] by blast+
  show ?thesis
    using s slot init assms(3,4,5)
    by (simp add: session_operations with_token_def token_zeroize_def token_login_def token_generate_def
        algo_name_def token_sign_init_def token_sign_def put_token_def Let_def)
qed

theorem user_can_always_sign_witness:
  "\<exists>h1 h2 h3 h4 h5 pub priv.
    C_Logout 7 demo_opened = (Inr CKR_OK, h1) \<and>
    C_Login 7 CKU_USER ''123456'' h1 = (Inr CKR_OK, h2) \<and>
    C_GenerateKeyPair echo_device fixed_entropy 7 CKM_ML_DSA_KEY_PAIR_GEN (Algo_Name ''ML-DSA-65'') h2 =
      (Inr (CKR_OK, pub, priv), h3) \<and>
    C_SignInit 7 CKM_ML_DSA priv h3 = (Inr CKR_OK, h4) \<and>
    C_Sign echo_device fixed_entropy 7 [1, 2] h4 = (Inr (CKR_OK, 1 # 2 # replicate 32 5), h5)"
proof -
  have "h_tokens demo_opened = [(0, new_token)]" "h_sessions demo_opened 7 \<noteq> None"
    by (simp_all add: demo_opened_state)
  moreover have "signature_keygen echo_device fixed_entropy (canonical_algo ''ML-DSA-65'') None = Inr demo_key"
    by (simp add: demo_names demo_keygen)
  moreover have "\<lparr>pk_algorithm = canonical_algo ''ML-DSA-65'', pk_pubkey = pk_pubkey demo_key,
      pk_privkey = pk_privkey demo_key\<rparr> = demo_key" by (simp add: demo_names demo_key_def)
  moreover have "tk_user_pin new_token = ''123456''" by (simp add: new_token_def)
  ultimately show ?thesis
    using user_can_always_sign [OF demo_reachable(1), of 7 new_token echo_device fixed_entropy "''ML-DSA-65''" demo_key "[1, 2]"]
      demo_signature by metis
qed

end
