(* ===== verification/Services.thy ===== *)
theory Services
  imports Host PyHash Provider
begin

text \<open>
  The device-resident ML-KEM and ML-DSA services that the provider dispatches to: the ABI modules
  \<open>dr5\<close>, \<open>dr6\<close> and \<open>dr7\<close> of ML-KEM-512, which validate request and result record, and the
  \<open>run_*\<close> functions of the graphs \<open>dr5\<close> to \<open>dr8\<close> and \<open>dr11\<close> to \<open>dr15\<close>.  The device program is the
  parameter of \<open>Host\<close>.  \<open>silicon_device\<close> puts them together as the provider's device.
\<close>

unbundle bit_operations_syntax

subsection \<open>Terminal records of ML-KEM-512\<close>

text \<open>
  The header of 20 bytes (magic, request identifier, status, length, CRC-32) and the payload, as
  \<open>unpack_result\<close> of the three ABI modules checks them, in the order of its checks.
\<close>

definition unpack_terminal :: "int \<Rightarrow> nat \<Rightarrow> bytes \<Rightarrow> int option \<Rightarrow> bytes py" where
  "unpack_terminal magic payload_bytes raw_result expected_request_id =
     (if length raw_result < 20 + payload_bytes then Inl ValueError
      else let w = struct_unpack [U 4, U 4, U 4, U 4, U 4] (take 20 raw_result);
               payload = slice 20 (20 + payload_bytes) raw_result
      in if w ! 0 \<noteq> magic then Inl ValueError
         else if expected_request_id \<noteq> None \<and> expected_request_id \<noteq> Some (w ! 1) then Inl ValueError
         else if w ! 2 \<noteq> 0 then Inl RuntimeError
         else if w ! 3 \<noteq> int payload_bytes then Inl ValueError
         else if w ! 4 \<noteq> crc32 payload then Inl ValueError
         else Inr payload)"

definition kem512_descriptor :: "int \<Rightarrow> int \<Rightarrow> bytes py" where
  "kem512_descriptor opcode request_id =
     struct_pack [U 1, U 1, U 1, U 1, U 1, U 1, U 1, U 1, U 4, U 4]
       [1, opcode, 0x52, 0, 2, 3, 5, 0, request_id, 0]"

definition dr5_validate_request :: "bytes \<Rightarrow> bytes \<Rightarrow> int \<Rightarrow> (bytes \<times> bytes) py" where
  "dr5_validate_request d z request_id =
     (if length d \<noteq> 32 then Inl ValueError
      else if length z \<noteq> 32 then Inl ValueError
      else bindE (kem512_descriptor 0x51 request_id) (\<lambda>desc. Inr (desc, d @ z)))"

definition dr5_unpack_result :: "bytes \<Rightarrow> int option \<Rightarrow> (bytes \<times> bytes) py" where
  "dr5_unpack_result raw_result expected =
     bindE (unpack_terminal 0x4735524D 2432 raw_result expected)
       (\<lambda>payload. Inr (take 800 payload, slice 800 2432 payload))"

definition dr6_validate_request :: "bytes \<Rightarrow> bytes \<Rightarrow> int \<Rightarrow> (bytes \<times> bytes) py" where
  "dr6_validate_request ek m request_id =
     (if length ek \<noteq> 800 then Inl ValueError
      else if length m \<noteq> 32 then Inl ValueError
      else bindE (kem512_descriptor 0x61 request_id) (\<lambda>desc. Inr (desc, ek @ m)))"

definition dr6_unpack_result :: "bytes \<Rightarrow> int option \<Rightarrow> (bytes \<times> bytes) py" where
  "dr6_unpack_result raw_result expected =
     bindE (unpack_terminal 0x4736524D 800 raw_result expected)
       (\<lambda>payload. Inr (take 768 payload, slice 768 800 payload))"

definition dr7_validate_request :: "bytes \<Rightarrow> bytes \<Rightarrow> int \<Rightarrow> (bytes \<times> bytes) py" where
  "dr7_validate_request dk c request_id =
     (if length dk \<noteq> 1632 then Inl ValueError
      else if length c \<noteq> 768 then Inl ValueError
      else bindE (kem512_descriptor 0x71 request_id) (\<lambda>desc. Inr (desc, dk @ c)))"

definition dr7_unpack_result :: "bytes \<Rightarrow> int option \<Rightarrow> bytes py" where
  "dr7_unpack_result raw_result expected = unpack_terminal 0x4737524D 32 raw_result expected"

subsection \<open>ML-KEM-512 services\<close>

text \<open>\<open>except Exception as exc: raise NativeBackendUnavailable(...) from exc\<close>\<close>

definition or_unavailable :: "'a py \<Rightarrow> 'a py" where
  "or_unavailable r = (case r of Inl e \<Rightarrow> Inl NativeBackendUnavailable | Inr x \<Rightarrow> Inr x)"

definition run_mlkem512_keygen :: "host \<Rightarrow> bytes \<Rightarrow> bytes \<Rightarrow> int \<Rightarrow> (bytes \<times> bytes) py" where
  "run_mlkem512_keygen h d z request_id =
     bindE (dr5_validate_request d z request_id) (\<lambda>(desc, req).
       bindE (or_unavailable (device_run 2452 h desc req)) (\<lambda>raw.
         or_unavailable (dr5_unpack_result raw (Some request_id))))"

definition run_mlkem512_encaps :: "host \<Rightarrow> bytes \<Rightarrow> bytes \<Rightarrow> int \<Rightarrow> (bytes \<times> bytes) py" where
  "run_mlkem512_encaps h ek m request_id =
     bindE (dr6_validate_request ek m request_id) (\<lambda>(desc, req).
       bindE (or_unavailable (device_run 820 h desc req)) (\<lambda>raw.
         or_unavailable (dr6_unpack_result raw (Some request_id))))"

definition run_mlkem512_decaps :: "host \<Rightarrow> bytes \<Rightarrow> bytes \<Rightarrow> int \<Rightarrow> bytes py" where
  "run_mlkem512_decaps h dk c request_id =
     bindE (dr7_validate_request dk c request_id) (\<lambda>(desc, req).
       bindE (or_unavailable (device_run 52 h desc req)) (\<lambda>raw.
         or_unavailable (dr7_unpack_result raw (Some request_id))))"

subsection \<open>ML-KEM-768 and ML-KEM-1024 services\<close>

definition dr8_descriptor :: "byte \<Rightarrow> byte \<Rightarrow> int \<Rightarrow> bytes py" where
  "dr8_descriptor param op req_id =
     bindE (to_bytes_le 4 req_id) (\<lambda>r. Inr ([0x01, 0x71, 0x52, 0, param, op, 0x08, 0] @ r @ zeros 4))"

text \<open>Two fields written from offset 0 on; a field of another length shifts what follows.\<close>

definition two_fields :: "nat \<Rightarrow> nat \<Rightarrow> bytes \<Rightarrow> bytes \<Rightarrow> bytes" where
  "two_fields n1 n a b = assign_slice n1 n b (assign_slice 0 n1 a (zeros n))"

definition dr8_call :: "host \<Rightarrow> nat \<Rightarrow> byte \<Rightarrow> byte \<Rightarrow> bytes \<Rightarrow> int \<Rightarrow> bytes py" where
  "dr8_call h result_bytes param op req_buf req_id =
     bindE (dr8_descriptor param op req_id) (\<lambda>desc.
       bindE (device_run result_bytes h desc req_buf) check_status)"

definition run_mlkem768_keygen :: "host \<Rightarrow> bytes \<Rightarrow> bytes \<Rightarrow> int \<Rightarrow> (bytes \<times> bytes) py" where
  "run_mlkem768_keygen h d z req_id =
     bindE (dr8_call h 3616 0x04 0x01 (two_fields 32 64 d z) req_id)
       (\<lambda>res. Inr (slice 32 1216 res, slice 1216 3616 res))"

definition run_mlkem768_encaps :: "host \<Rightarrow> bytes \<Rightarrow> bytes \<Rightarrow> int \<Rightarrow> (bytes \<times> bytes) py" where
  "run_mlkem768_encaps h ek m req_id =
     bindE (dr8_call h 1152 0x04 0x02 (two_fields 1184 1216 ek m) req_id)
       (\<lambda>res. Inr (slice 32 1120 res, slice 1120 1152 res))"

definition run_mlkem768_decaps :: "host \<Rightarrow> bytes \<Rightarrow> bytes \<Rightarrow> int \<Rightarrow> bytes py" where
  "run_mlkem768_decaps h dk c req_id =
     bindE (dr8_call h 52 0x04 0x03 (two_fields 2400 3488 dk c) req_id) (\<lambda>res. Inr (slice 20 52 res))"

definition run_mlkem1024_keygen :: "host \<Rightarrow> bytes \<Rightarrow> bytes \<Rightarrow> int \<Rightarrow> (bytes \<times> bytes) py" where
  "run_mlkem1024_keygen h d z req_id =
     bindE (dr8_call h 4768 0x05 0x01 (two_fields 32 64 d z) req_id)
       (\<lambda>res. Inr (slice 32 1600 res, slice 1600 4768 res))"

definition run_mlkem1024_encaps :: "host \<Rightarrow> bytes \<Rightarrow> bytes \<Rightarrow> int \<Rightarrow> (bytes \<times> bytes) py" where
  "run_mlkem1024_encaps h ek m req_id =
     bindE (dr8_call h 1632 0x05 0x02 (two_fields 1568 1600 ek m) req_id)
       (\<lambda>res. Inr (slice 32 1600 res, slice 1600 1632 res))"

definition run_mlkem1024_decaps :: "host \<Rightarrow> bytes \<Rightarrow> bytes \<Rightarrow> int \<Rightarrow> bytes py" where
  "run_mlkem1024_decaps h dk c req_id =
     bindE (dr8_call h 52 0x05 0x03 (two_fields 3168 4736 dk c) req_id) (\<lambda>res. Inr (slice 20 52 res))"

subsection \<open>ML-DSA services\<close>

definition dsa_descriptor :: "byte \<Rightarrow> byte \<Rightarrow> byte \<Rightarrow> int \<Rightarrow> bytes py" where
  "dsa_descriptor milestone op aux request_id =
     bindE (to_bytes_le 4 request_id)
       (\<lambda>r. Inr ([0x01, 0x71, 0x52, milestone, 0x04, op, milestone, aux] @ r @ zeros 4))"

definition dsa_call :: "host \<Rightarrow> nat \<Rightarrow> byte \<Rightarrow> byte \<Rightarrow> byte \<Rightarrow> bytes \<Rightarrow> int \<Rightarrow> bytes py" where
  "dsa_call h result_bytes milestone op aux req_buf request_id =
     bindE (load_iron h) (\<lambda>_. bindE (dsa_descriptor milestone op aux request_id) (\<lambda>desc.
       run_on_device result_bytes h desc req_buf))"

text \<open>The message representative: computed on the host, or the first 64 bytes given.\<close>

definition sign_mu :: "bytes \<Rightarrow> bytes \<Rightarrow> bool \<Rightarrow> bytes" where
  "sign_mu sk m_or_mu external_mu =
     (if \<not> external_mu then shake256 (slice 64 128 sk @ m_or_mu) 64 else take 64 m_or_mu)"

definition verify_mu :: "bytes \<Rightarrow> bytes \<Rightarrow> bool \<Rightarrow> bytes" where
  "verify_mu pk m_or_mu external_mu =
     (if \<not> external_mu then shake256 (shake256 pk 64 @ m_or_mu) 64 else take 64 m_or_mu)"

text \<open>\<open>buf[off : off + min(len(x), n)] = x[:n]\<close>\<close>

definition place_upto :: "nat \<Rightarrow> nat \<Rightarrow> bytes \<Rightarrow> bytes \<Rightarrow> bytes" where
  "place_upto off n x buf = assign_slice off (off + min (length x) n) (take n x) buf"

definition run_mldsa44_keygen :: "host \<Rightarrow> bytes \<Rightarrow> int \<Rightarrow> (bytes \<times> bytes) py" where
  "run_mldsa44_keygen h seed request_id =
     bindE (dsa_call h 3892 0x0B 0x01 0 (assign_slice 0 32 seed (zeros 32)) request_id) (\<lambda>raw.
       bindE (check_status raw) (\<lambda>_. Inr (slice 20 1332 raw, slice 1332 3892 raw)))"

definition run_mldsa44_sign :: "host \<Rightarrow> bytes \<Rightarrow> bytes \<Rightarrow> bytes \<Rightarrow> bool \<Rightarrow> int \<Rightarrow> bytes py" where
  "run_mldsa44_sign h sk m_or_mu rnd external_mu request_id =
     (let req_buf = assign_slice 0 2560 (take 2560 sk) (zeros 2656);
          req_buf = place_upto 2560 64 (sign_mu sk m_or_mu external_mu) req_buf;
          req_buf = place_upto 2624 32 rnd req_buf
      in bindE (dsa_call h 2444 0x0C 0x02 1 req_buf request_id) (\<lambda>raw.
           bindE (check_status raw) (\<lambda>_. Inr (slice 20 2440 raw))))"

definition run_mldsa44_verify :: "host \<Rightarrow> bytes \<Rightarrow> bytes \<Rightarrow> bytes \<Rightarrow> bool \<Rightarrow> int \<Rightarrow> bool py" where
  "run_mldsa44_verify h pk m_or_mu sig external_mu request_id =
     (let req_buf = assign_slice 0 1312 (take 1312 pk) (zeros 3796);
          req_buf = place_upto 1312 64 (verify_mu pk m_or_mu external_mu) req_buf;
          req_buf = place_upto 1376 2420 sig req_buf
      in bindE (dsa_call h 28 0x0D 0x03 1 req_buf request_id) (\<lambda>raw. Inr (result_word 20 raw = 1)))"

definition run_mldsa65_keygen :: "host \<Rightarrow> bytes \<Rightarrow> int \<Rightarrow> (bytes \<times> bytes) py" where
  "run_mldsa65_keygen h seed request_id =
     bindE (dsa_call h 6008 0x0E 0x01 0x65 (assign_slice 0 32 (take 32 seed) (zeros 32)) request_id)
       (\<lambda>raw. Inr (slice 20 1972 raw, slice 1972 6004 raw))"

definition run_mldsa65_sign :: "host \<Rightarrow> bytes \<Rightarrow> bytes \<Rightarrow> bool \<Rightarrow> int \<Rightarrow> bytes py" where
  "run_mldsa65_sign h sk msg_or_mu external_mu request_id =
     (let req_buf = assign_slice 0 4032 (take 4032 sk) (zeros 4096);
          req_buf = place_upto 4032 64 (sign_mu sk msg_or_mu external_mu) req_buf
      in bindE (dsa_call h 3336 0x0E 0x02 1 req_buf request_id) (\<lambda>raw. Inr (slice 20 3329 raw)))"

definition run_mldsa65_verify :: "host \<Rightarrow> bytes \<Rightarrow> bytes \<Rightarrow> bytes \<Rightarrow> bool \<Rightarrow> int \<Rightarrow> bool py" where
  "run_mldsa65_verify h pk sig m_or_mu external_mu request_id =
     (if length pk \<noteq> 1952 \<or> length sig \<noteq> 3309 then Inr False
      else let req_buf = assign_slice 0 1952 (take 1952 pk) (zeros 5376);
               req_buf = place_upto 1952 64 (verify_mu pk m_or_mu external_mu) req_buf;
               req_buf = place_upto 2016 3309 sig req_buf
      in bindE (dsa_call h 64 0x0E 0x03 1 req_buf request_id) (\<lambda>raw. Inr (raw ! 20 = 1)))"

definition run_mldsa87_keygen :: "host \<Rightarrow> bytes \<Rightarrow> int \<Rightarrow> (bytes \<times> bytes) py" where
  "run_mldsa87_keygen h seed request_id =
     bindE (dsa_call h 7512 0x0F 0x01 0 (assign_slice 0 (min (length seed) 32) (take 32 seed) (zeros 32)) request_id)
       (\<lambda>raw. Inr (slice 20 2612 raw, slice 2612 7508 raw))"

definition run_mldsa87_sign :: "host \<Rightarrow> bytes \<Rightarrow> bytes \<Rightarrow> bool \<Rightarrow> int \<Rightarrow> bytes py" where
  "run_mldsa87_sign h sk msg_or_mu external_mu request_id =
     (let req_buf = assign_slice 0 4896 (take 4896 sk) (zeros 4960);
          req_buf = place_upto 4896 64 (sign_mu sk msg_or_mu external_mu) req_buf
      in bindE (dsa_call h 4656 0x0F 0x02 1 req_buf request_id) (\<lambda>raw. Inr (slice 20 4647 raw)))"

definition run_mldsa87_verify :: "host \<Rightarrow> bytes \<Rightarrow> bytes \<Rightarrow> bytes \<Rightarrow> bool \<Rightarrow> int \<Rightarrow> bool py" where
  "run_mldsa87_verify h pk sig msg_or_mu external_mu request_id =
     (let req_buf = assign_slice 0 2592 (take 2592 pk) (zeros 7300);
          req_buf = place_upto 2592 64 (verify_mu pk msg_or_mu external_mu) req_buf;
          req_buf = place_upto 2656 4627 sig req_buf
      in bindE (dsa_call h 64 0x0F 0x03 (if external_mu then 1 else 0) req_buf request_id)
           (\<lambda>raw. Inr (raw ! 20 = 1)))"

subsection \<open>The provider's device\<close>

text \<open>
  The provider's device made of the services, with the request identifiers that default to 1.  The
  two hash-based and lattice families that other graphs serve are taken from \<open>other\<close>.
\<close>

definition silicon_device :: "host \<Rightarrow> device \<Rightarrow> device" where
  "silicon_device h other = other\<lparr>
     mlkem_keygen := \<lambda>n d z. if n = 512 then run_mlkem512_keygen h d z 1
       else if n = 768 then run_mlkem768_keygen h d z 1 else run_mlkem1024_keygen h d z 1,
     mlkem_encaps := \<lambda>n ek m. if n = 512 then run_mlkem512_encaps h ek m 1
       else if n = 768 then run_mlkem768_encaps h ek m 1 else run_mlkem1024_encaps h ek m 1,
     mlkem_decaps := \<lambda>n dk c. if n = 512 then run_mlkem512_decaps h dk c 1
       else if n = 768 then run_mlkem768_decaps h dk c 1 else run_mlkem1024_decaps h dk c 1,
     mldsa_keygen := \<lambda>n xi. if n = 44 then run_mldsa44_keygen h xi 1
       else if n = 65 then run_mldsa65_keygen h xi 1 else run_mldsa87_keygen h xi 1,
     mldsa44_sign := \<lambda>sk m rnd. run_mldsa44_sign h sk m rnd False 1,
     mldsa_sign := \<lambda>n sk m. if n = 65 then run_mldsa65_sign h sk m False 1 else run_mldsa87_sign h sk m False 1,
     mldsa_verify := \<lambda>n pk m s. if n = 44 then run_mldsa44_verify h pk m s False 1
       else if n = 65 then run_mldsa65_verify h pk s m False 1 else run_mldsa87_verify h pk s m False 1\<rparr>"

subsection \<open>Library\<close>

lemma or_unavailable_Inr [simp]: "or_unavailable r = Inr x \<longleftrightarrow> r = Inr x"
  by (simp add: or_unavailable_def split: sum.splits)

lemma check_status_Inr: "check_status raw = Inr x \<longleftrightarrow> x = raw \<and> result_word 8 raw = 0"
  by (auto simp add: check_status_def)

lemma dsa_call_Inr: "dsa_call h n ms op aux req rid = Inr raw \<Longrightarrow>
    iron_ok h \<and> (\<exists>req desc out. ho_program h req desc = Inr out)"
  by (auto simp add: dsa_call_def load_iron_eq bindE_Inr_iff run_on_device_def split: if_splits)

lemma dr8_call_Inr: "dr8_call h n par op req rid = Inr raw \<Longrightarrow>
    iron_ok h \<and> (\<exists>req desc out. ho_program h req desc = Inr out)"
  by (auto simp add: dr8_call_def bindE_Inr_iff device_run_Inr_iff)

lemmas mldsa_services = run_mldsa44_keygen_def run_mldsa44_sign_def run_mldsa44_verify_def
  run_mldsa65_keygen_def run_mldsa65_sign_def run_mldsa65_verify_def
  run_mldsa87_keygen_def run_mldsa87_sign_def run_mldsa87_verify_def

lemmas mlkem_services = run_mlkem512_keygen_def run_mlkem512_encaps_def run_mlkem512_decaps_def
  run_mlkem768_keygen_def run_mlkem768_encaps_def run_mlkem768_decaps_def
  run_mlkem1024_keygen_def run_mlkem1024_encaps_def run_mlkem1024_decaps_def

lemma mlkem_needs_device:
  "run_mlkem512_keygen h a b r = Inr x \<Longrightarrow> iron_ok h \<and> (\<exists>req desc out. ho_program h req desc = Inr out)"
  "run_mlkem512_encaps h a b r = Inr x \<Longrightarrow> iron_ok h \<and> (\<exists>req desc out. ho_program h req desc = Inr out)"
  "run_mlkem512_decaps h a b r = Inr y \<Longrightarrow> iron_ok h \<and> (\<exists>req desc out. ho_program h req desc = Inr out)"
  "run_mlkem768_keygen h a b r = Inr x \<Longrightarrow> iron_ok h \<and> (\<exists>req desc out. ho_program h req desc = Inr out)"
  "run_mlkem768_encaps h a b r = Inr x \<Longrightarrow> iron_ok h \<and> (\<exists>req desc out. ho_program h req desc = Inr out)"
  "run_mlkem768_decaps h a b r = Inr y \<Longrightarrow> iron_ok h \<and> (\<exists>req desc out. ho_program h req desc = Inr out)"
  "run_mlkem1024_keygen h a b r = Inr x \<Longrightarrow> iron_ok h \<and> (\<exists>req desc out. ho_program h req desc = Inr out)"
  "run_mlkem1024_encaps h a b r = Inr x \<Longrightarrow> iron_ok h \<and> (\<exists>req desc out. ho_program h req desc = Inr out)"
  "run_mlkem1024_decaps h a b r = Inr y \<Longrightarrow> iron_ok h \<and> (\<exists>req desc out. ho_program h req desc = Inr out)"
  unfolding mlkem_services by (auto simp add: bindE_Inr_iff device_run_Inr_iff dest: dr8_call_Inr)

lemma mldsa_needs_device:
  "run_mldsa44_keygen h a r = Inr x \<Longrightarrow> iron_ok h \<and> (\<exists>req desc out. ho_program h req desc = Inr out)"
  "run_mldsa44_sign h a b rnd ext r = Inr y \<Longrightarrow> iron_ok h \<and> (\<exists>req desc out. ho_program h req desc = Inr out)"
  "run_mldsa44_verify h a b c ext r = Inr v \<Longrightarrow> iron_ok h \<and> (\<exists>req desc out. ho_program h req desc = Inr out)"
  "run_mldsa65_keygen h a r = Inr x \<Longrightarrow> iron_ok h \<and> (\<exists>req desc out. ho_program h req desc = Inr out)"
  "run_mldsa65_sign h a b ext r = Inr y \<Longrightarrow> iron_ok h \<and> (\<exists>req desc out. ho_program h req desc = Inr out)"
  "run_mldsa65_verify h a b c ext r = Inr True \<Longrightarrow> iron_ok h \<and> (\<exists>req desc out. ho_program h req desc = Inr out)"
  "run_mldsa87_keygen h a r = Inr x \<Longrightarrow> iron_ok h \<and> (\<exists>req desc out. ho_program h req desc = Inr out)"
  "run_mldsa87_sign h a b ext r = Inr y \<Longrightarrow> iron_ok h \<and> (\<exists>req desc out. ho_program h req desc = Inr out)"
  "run_mldsa87_verify h a b c ext r = Inr v \<Longrightarrow> iron_ok h \<and> (\<exists>req desc out. ho_program h req desc = Inr out)"
  unfolding mldsa_services Let_def by (auto simp add: bindE_Inr_iff split: if_splits dest: dsa_call_Inr)

interpretation kem512_keygen: device_operation "\<lambda>h. run_mlkem512_keygen h d z r" for d z r
  by unfold_locales (rule mlkem_needs_device)

interpretation kem512_encaps: device_operation "\<lambda>h. run_mlkem512_encaps h ek m r" for ek m r
  by unfold_locales (rule mlkem_needs_device)

interpretation kem512_decaps: device_operation "\<lambda>h. run_mlkem512_decaps h dk c r" for dk c r
  by unfold_locales (rule mlkem_needs_device)

interpretation kem768_keygen: device_operation "\<lambda>h. run_mlkem768_keygen h d z r" for d z r
  by unfold_locales (rule mlkem_needs_device)

interpretation kem1024_keygen: device_operation "\<lambda>h. run_mlkem1024_keygen h d z r" for d z r
  by unfold_locales (rule mlkem_needs_device)

interpretation dsa44_verify: device_operation "\<lambda>h. run_mldsa44_verify h pk m s ext r" for pk m s ext r
  by unfold_locales (rule mldsa_needs_device)

interpretation dsa87_verify: device_operation "\<lambda>h. run_mldsa87_verify h pk s m ext r" for pk s m ext r
  by unfold_locales (rule mldsa_needs_device)

text \<open>The terminal record that a kernel writes.\<close>

definition terminal_record :: "int \<Rightarrow> int \<Rightarrow> bytes \<Rightarrow> bytes" where
  "terminal_record magic request_id payload =
     le_bytes 4 magic @ le_bytes 4 request_id @ le_bytes 4 0 @ le_bytes 4 (int (length payload)) @
     le_bytes 4 (crc32 payload) @ payload"

lemma five_words: "length hdr = 20 \<Longrightarrow> hdr = words_bytes (struct_unpack [U 4, U 4, U 4, U 4, U 4] hdr)"
proof -
  assume len: "length hdr = 20"
  have le: "le_bytes 4 (le_int (take 4 (drop i hdr))) = take 4 (drop i hdr)" if "i + 4 \<le> 20" for i
    using that len le_bytes_int [of "take 4 (drop i hdr)"] by simp
  have "hdr = take 4 hdr @ drop 4 hdr" by simp
  also have "drop 4 hdr = take 4 (drop 4 hdr) @ drop 8 hdr" using append_take_drop_id [of 4 "drop 4 hdr"] by simp
  also have "drop 8 hdr = take 4 (drop 8 hdr) @ drop 12 hdr" using append_take_drop_id [of 4 "drop 8 hdr"] by simp
  also have "drop 12 hdr = take 4 (drop 12 hdr) @ drop 16 hdr" using append_take_drop_id [of 4 "drop 12 hdr"] by simp
  also have "drop 16 hdr = take 4 (drop 16 hdr)" using len by simp
  finally have "hdr = take 4 hdr @ take 4 (drop 4 hdr) @ take 4 (drop 8 hdr) @ take 4 (drop 12 hdr) @ take 4 (drop 16 hdr)" .
  moreover have "words_bytes (struct_unpack [U 4, U 4, U 4, U 4, U 4] hdr) =
      take 4 hdr @ take 4 (drop 4 hdr) @ take 4 (drop 8 hdr) @ take 4 (drop 12 hdr) @ take 4 (drop 16 hdr)"
    using le [of 0] le [of 4] le [of 8] le [of 12] le [of 16] by simp
  ultimately show ?thesis by simp
qed

lemma unpack_terminal_exact:
  assumes "0 \<le> magic" "magic < 2 ^ 32" "n < 2 ^ 32"
  shows "unpack_terminal magic n raw (Some rid) = Inr payload \<longleftrightarrow>
    length payload = n \<and> 0 \<le> rid \<and> rid < 2 ^ 32 \<and> (\<exists>rest. raw = terminal_record magic rid payload @ rest)"
proof
  assume acc: "unpack_terminal magic n raw (Some rid) = Inr payload"
  define w where "w = struct_unpack [U 4, U 4, U 4, U 4, U 4] (take 20 raw)"
  from acc have len: "20 + n \<le> length raw"
    by (auto simp add: unpack_terminal_def split: if_splits)
  with acc have f: "w ! 0 = magic" "w ! 1 = rid" "w ! 2 = 0" "w ! 3 = int n" "w ! 4 = crc32 payload"
    and p: "payload = slice 20 (20 + n) raw"
    by (auto simp add: unpack_terminal_def Let_def w_def simp del: struct_unpack.simps split: if_splits)
  have lw: "length w = 5" by (simp add: w_def)
  have "w = [w ! 0, w ! 1, w ! 2, w ! 3, w ! 4]"
    using lw by (intro nth_equalityI) (auto simp add: less_Suc_eq nth_Cons' numeral_eq_Suc)
  then have w: "w = [magic, rid, 0, int n, crc32 payload]" by (simp only: f)
  have "take 20 raw = words_bytes w" unfolding w_def by (rule five_words) (use len in simp)
  moreover have "raw = take 20 raw @ payload @ drop (20 + n) raw"
    using len append_take_drop_id [of 20 raw] append_take_drop_id [of n "drop 20 raw"]
    by (simp add: p slice_def add.commute)
  moreover have "length payload = n" using len by (simp add: p)
  moreover have "words_ok w"
    using words_ok_unpack [of 5 "take 20 raw"] by (simp add: w_def numeral_eq_Suc)
  ultimately show "length payload = n \<and> 0 \<le> rid \<and> rid < 2 ^ 32 \<and> (\<exists>rest. raw = terminal_record magic rid payload @ rest)"
    unfolding terminal_record_def by (simp add: w) metis
next
  assume "length payload = n \<and> 0 \<le> rid \<and> rid < 2 ^ 32 \<and> (\<exists>rest. raw = terminal_record magic rid payload @ rest)"
  then obtain rest where lp: "length payload = n" "0 \<le> rid" "rid < 2 ^ 32"
    and raw: "raw = terminal_record magic rid payload @ rest" by blast
  define ws where "ws = [magic, rid, 0, int n, crc32 payload]"
  have raw': "raw = words_bytes ws @ payload @ rest" by (simp add: raw terminal_record_def ws_def lp)
  have ok: "words_ok ws" using assms lp crc32_range [of payload] by (simp add: ws_def)
  have l: "length (words_bytes ws) = 20" by (simp add: ws_def)
  then have "take 20 raw = words_bytes ws" "slice 20 (20 + n) raw = payload" "20 + n \<le> length raw"
    using lp by (simp_all add: raw' slice_def)
  moreover have "struct_unpack [U 4, U 4, U 4, U 4, U 4] (words_bytes ws) = ws"
    using struct_unpack_words [OF ok, of "[]"] by (simp add: ws_def numeral_eq_Suc)
  ultimately show "unpack_terminal magic n raw (Some rid) = Inr payload"
    by (simp add: unpack_terminal_def Let_def ws_def del: struct_unpack.simps)
qed

lemma unpack_split:
  assumes "0 \<le> magic" "magic < 2 ^ 32" "m + n < 2 ^ 32"
  shows "bindE (unpack_terminal magic (m + n) raw (Some rid)) (\<lambda>p. Inr (take m p, slice m (m + n) p)) = Inr (a, b) \<longleftrightarrow>
    length a = m \<and> length b = n \<and> 0 \<le> rid \<and> rid < 2 ^ 32 \<and> (\<exists>rest. raw = terminal_record magic rid (a @ b) @ rest)"
    (is "?l \<longleftrightarrow> ?r")
proof
  assume ?l
  then obtain p where p: "unpack_terminal magic (m + n) raw (Some rid) = Inr p" "a = take m p" "b = slice m (m + n) p"
    by (auto simp add: bindE_Inr_iff)
  from p(1) have e: "length p = m + n" "0 \<le> rid" "rid < 2 ^ 32" "\<exists>rest. raw = terminal_record magic rid p @ rest"
    using unpack_terminal_exact [OF assms] by simp_all
  then have "a @ b = p" "length a = m" "length b = n" using p by (simp_all add: slice_def)
  with e show ?r by simp
next
  assume ?r
  then have "unpack_terminal magic (m + n) raw (Some rid) = Inr (a @ b)"
    using unpack_terminal_exact [OF assms] by simp
  with \<open>?r\<close> show ?l by (simp add: slice_def)
qed

text \<open>A service of \<open>dr8\<close> on a device that answers a request with status 0.\<close>

lemma dr8_call_answer:
  assumes "iron_ok h" "length out = n" "result_word 8 out = 0"
    and "ho_program h req [0x01, 0x71, 0x52, 0, par, op, 0x08, 0, 1, 0, 0, 0, 0, 0, 0, 0] = Inr out"
  shows "dr8_call h n par op req 1 = Inr out"
proof -
  have "le_bytes 4 1 @ zeros 4 = [1, 0, 0, 0, 0, 0, 0, 0]" by (simp add: zeros_def numeral_eq_Suc)
  then have "dr8_descriptor par op 1 = Inr [0x01, 0x71, 0x52, 0, par, op, 0x08, 0, 1, 0, 0, 0, 0, 0, 0, 0]"
    by (simp add: dr8_descriptor_def to_bytes_le_def)
  then show ?thesis
    using assms by (simp add: dr8_call_def device_run_def load_iron_eq run_on_device_def ljust_id check_status_def)
qed

lemma two_fields_exact: "length a = n1 \<Longrightarrow> length b = n - n1 \<Longrightarrow> n1 \<le> n \<Longrightarrow> two_fields n1 n a b = a @ b"
  by (simp add: two_fields_def assign_slice_def)

subsection \<open>Properties\<close>

text \<open>
  The ML-KEM-512 services accept exactly the records their kernels write for this request: a
  result is unpacked to keys, ciphertext or secret if and only if it starts with the record of this
  magic number, request identifier, status 0, length and CRC-32 over that very payload, cut at the
  fixed sizes; every other result raises.
\<close>

theorem kem512_results_exact:
  "(dr5_unpack_result raw (Some rid) = Inr (ek, dk) \<longleftrightarrow> length ek = 800 \<and> length dk = 1632
      \<and> 0 \<le> rid \<and> rid < 2 ^ 32 \<and> (\<exists>rest. raw = terminal_record 0x4735524D rid (ek @
      dk) @ rest)) \<and>
    (dr6_unpack_result raw (Some rid) = Inr (ct, ss) \<longleftrightarrow> length ct = 768 \<and> length ss =
      32 \<and> 0 \<le> rid \<and> rid < 2 ^ 32 \<and> (\<exists>rest. raw = terminal_record 0x4736524D rid (ct
      @ ss) @ rest)) \<and>
    (dr7_unpack_result raw (Some rid) = Inr ss \<longleftrightarrow> length ss = 32 \<and> 0 \<le> rid \<and>
      rid < 2 ^ 32 \<and> (\<exists>rest. raw = terminal_record 0x4737524D rid ss @ rest))"
proof (intro conjI)
  note cut = unpack_split [of "0x4735524D" 800 1632] unpack_split [of "0x4736524D" 768 32]
  show "dr5_unpack_result raw (Some rid) = Inr (ek, dk) \<longleftrightarrow>
     length ek = 800 \<and> length dk = 1632 \<and> 0 \<le> rid \<and> rid < 2 ^ 32 \<and>
     (\<exists>rest. raw = terminal_record 0x4735524D rid (ek @ dk) @ rest)"
    using cut(1) by (simp add: dr5_unpack_result_def)
  show "dr6_unpack_result raw (Some rid) = Inr (ct, ss) \<longleftrightarrow>
     length ct = 768 \<and> length ss = 32 \<and> 0 \<le> rid \<and> rid < 2 ^ 32 \<and>
     (\<exists>rest. raw = terminal_record 0x4736524D rid (ct @ ss) @ rest)"
    using cut(2) by (simp add: dr6_unpack_result_def)
  show "dr7_unpack_result raw (Some rid) = Inr ss \<longleftrightarrow>
     length ss = 32 \<and> 0 \<le> rid \<and> rid < 2 ^ 32 \<and> (\<exists>rest. raw = terminal_record 0x4737524D rid ss @ rest)"
    unfolding dr7_unpack_result_def by (simp add: unpack_terminal_exact)
qed

text \<open>
  C8. The stack keeps a correct KEM correct: if the device program answers the three requests that
  the ML-KEM-768 services build, with the keys, the ciphertext and the secrets of a KEM whose
  decapsulation inverts its encapsulation, at the offsets that the services read, then the
  provider's key generation, encapsulation and decapsulation over that device succeed and both
  sides get the same secret, whatever the spelling of the algorithm.
\<close>

theorem provider_kem768_roundtrip:
  assumes "iron_ok h" "canonical_algo name = ''ML-KEM-768''"
    and sizes: "length d = 32" "length z = 32" "length m = 32" "length ek = 1184" "length dk = 2400"
      "length ct = 1088" "length ss = 32" "length hdr = 32" "result_word 8 hdr = 0" "length hdr2 = 20" "result_word 8 hdr2 = 0"
    and "ho_program h (d @ z) [0x01, 0x71, 0x52, 0, 0x04, 0x01, 0x08, 0, 1, 0, 0, 0, 0, 0, 0, 0] = Inr (hdr @ ek @ dk)"
    and "ho_program h (ek @ m) [0x01, 0x71, 0x52, 0, 0x04, 0x02, 0x08, 0, 1, 0, 0, 0, 0, 0, 0, 0] = Inr (hdr @ ct @ ss)"
    and "ho_program h (dk @ ct) [0x01, 0x71, 0x52, 0, 0x04, 0x03, 0x08, 0, 1, 0, 0, 0, 0, 0, 0, 0] = Inr (hdr2 @ ss)"
  shows "\<exists>key. kem_keygen (silicon_device h other) ent name (Some d) (Some z) = Inr key \<and>
    kem_encapsulate (silicon_device h other) ent key (Some m) = Inr (ct, ss) \<and>
    kem_decapsulate (silicon_device h other) key ct = Inr ss"
proof -
  have w: "result_word 8 (x @ y) = result_word 8 x" if "12 \<le> length x" for x y
    using that by (simp add: result_word_def slice_append_left)
  have kg: "run_mlkem768_keygen h d z 1 = Inr (ek, dk)"
    using dr8_call_answer [OF assms(1), of "hdr @ ek @ dk" 3616 "d @ z" 4 1] assms
    by (simp add: run_mlkem768_keygen_def two_fields_exact w slice_def)
  have en: "run_mlkem768_encaps h ek m 1 = Inr (ct, ss)"
    using dr8_call_answer [OF assms(1), of "hdr @ ct @ ss" 1152 "ek @ m" 4 2] assms
    by (simp add: run_mlkem768_encaps_def two_fields_exact w slice_def)
  have de: "run_mlkem768_decaps h dk ct 1 = Inr ss"
    using dr8_call_answer [OF assms(1), of "hdr2 @ ss" 52 "dk @ ct" 4 3] assms
    by (simp add: run_mlkem768_decaps_def two_fields_exact w slice_def)
  have c: "canonical_algo ''ML-KEM-768'' = ''ML-KEM-768''" by (rule canonical_names)
  have "dk \<noteq> []" using assms by auto
  then show ?thesis
    by (simp add: kem_keygen_def kem_encapsulate_def kem_decapsulate_def Let_def assms(2) c silicon_device_def
        no_privkey_def kg en de)
qed

definition echo_kem :: host where
  "echo_kem = \<lparr>ho_emulation_mode = Some '' '', ho_xrt_ini = None, ho_device_present = True,
     ho_toolchain_present = True, ho_program = \<lambda>req desc. Inr (
       if length req = 64 then zeros 32 @ replicate 1184 3 @ replicate 2400 4
       else if length req = 1216 then zeros 32 @ (drop 1184 req @ zeros 1056) @ drop 1184 req
       else zeros 20 @ take 32 (drop 2400 req))\<rparr>"

theorem provider_kem768_roundtrip_witness:
  "\<exists>key ct. kem_keygen (silicon_device echo_kem echo_device) fixed_entropy ''ml_kem_768'' (Some (zeros 32)) (Some (zeros 32)) = Inr key \<and>
    kem_encapsulate (silicon_device echo_kem echo_device) fixed_entropy key (Some (replicate 32 9)) = Inr (ct, replicate 32 9) \<and>
    kem_decapsulate (silicon_device echo_kem echo_device) key ct = Inr (replicate 32 9)"
proof -
  have "\<exists>key. kem_keygen (silicon_device echo_kem echo_device) fixed_entropy ''ml_kem_768'' (Some (zeros 32)) (Some (zeros 32)) = Inr key \<and>
    kem_encapsulate (silicon_device echo_kem echo_device) fixed_entropy key (Some (replicate 32 9)) =
      Inr (replicate 32 9 @ zeros 1056, replicate 32 9) \<and>
    kem_decapsulate (silicon_device echo_kem echo_device) key (replicate 32 9 @ zeros 1056) = Inr (replicate 32 9)"
  proof (rule provider_kem768_roundtrip [of _ _ "zeros 32" "zeros 32" "replicate 32 9" "replicate 1184 3" "replicate 2400 4"
        "replicate 32 9 @ zeros 1056" "replicate 32 9" "zeros 32" "zeros 20"])
    show "iron_ok echo_kem" by (simp add: iron_ok_def echo_kem_def is_set_def white_space_def)
    show "canonical_algo ''ml_kem_768'' = ''ML-KEM-768''" by code_simp
  qed (simp_all add: echo_kem_def result_word_def)
  then show ?thesis by blast
qed

end
