(* ===== verification/Vpn.thy ===== *)
theory Vpn
  imports Host PyHash
begin

text \<open>
  The VPN co-processor: the descriptor of \<open>dr24_ipsec_wireguard_abi.py\<close>, and of
  \<open>dr24_ipsec_wireguard_graph.py\<close> the four operations dispatched to the device and the four
  reference routines (key combination, packet encapsulation and decapsulation, rekeying).
\<close>

unbundle bit_operations_syntax

subsection \<open>Descriptor\<close>

abbreviation (input) MAGIC_DESC_DR24 :: int where "MAGIC_DESC_DR24 \<equiv> 0x01244957"
abbreviation (input) MODE_RFC9370_COMBINE :: int where "MODE_RFC9370_COMBINE \<equiv> 0"
abbreviation (input) MODE_WIREGUARD_ENCAPS :: int where "MODE_WIREGUARD_ENCAPS \<equiv> 1"
abbreviation (input) MODE_WIREGUARD_DECAPS :: int where "MODE_WIREGUARD_DECAPS \<equiv> 2"
abbreviation (input) MODE_ASYNC_REKEY :: int where "MODE_ASYNC_REKEY \<equiv> 3"

record dr24_descriptor =
  d24_operation_mode :: int
  d24_payload_len :: int
  d24_seq_num :: int
  d24_epoch :: int
  d24_kem_mode :: int

abbreviation (input) eight_words :: "field list" where
  "eight_words \<equiv> [U 4, U 4, U 4, U 4, U 4, U 4, U 4, U 4]"

definition pack_dr24_descriptor :: "dr24_descriptor \<Rightarrow> bytes py" where
  "pack_dr24_descriptor d = struct_pack_into eight_words (zeros 32) 0
     [MAGIC_DESC_DR24, d24_operation_mode d, d24_payload_len d, d24_seq_num d AND 0xFFFFFFFF,
      drop_bit 32 (d24_seq_num d) AND 0xFFFFFFFF, d24_epoch d, d24_kem_mode d, 0]"

definition unpack_dr24_descriptor :: "bytes \<Rightarrow> dr24_descriptor py" where
  "unpack_dr24_descriptor data =
     (if length data < 32 then Inl ValueError
      else bindE (struct_unpack_from eight_words data 0) (\<lambda>w.
        if w ! 0 \<noteq> MAGIC_DESC_DR24 then Inl ValueError
        else Inr \<lparr>d24_operation_mode = w ! 1, d24_payload_len = w ! 2,
          d24_seq_num = w ! 3 OR push_bit 32 (w ! 4), d24_epoch = w ! 5, d24_kem_mode = w ! 6\<rparr>))"

subsection \<open>Operations on the device\<close>

abbreviation (input) REQ_BYTES :: nat where "REQ_BYTES \<equiv> 8192"
abbreviation (input) RESULT_BYTES :: nat where "RESULT_BYTES \<equiv> 8192"

definition on_dr24 ::
  "host \<Rightarrow> dr24_descriptor \<Rightarrow> bytes \<Rightarrow> (bytes \<Rightarrow> 'r py) \<Rightarrow> 'r py" where
  "on_dr24 h d req_buf decode =
     bindE (require_hardware_runtime h) (\<lambda>_. bindE (load_iron h) (\<lambda>_.
       bindE (pack_dr24_descriptor d) (\<lambda>desc. bindE (run_on_device RESULT_BYTES h desc req_buf) decode)))"

definition combine_request :: "bytes \<Rightarrow> bytes \<Rightarrow> bytes \<Rightarrow> bytes \<Rightarrow> bytes" where
  "combine_request k_classic k_pqc k_qkd ni_nr =
     assign_slice 96 160 (take 64 ni_nr)
       (assign_slice 64 96 (if k_qkd \<noteq> [] then take 32 k_qkd else zeros 32)
         (assign_slice 32 64 (take 32 k_pqc)
           (assign_slice 0 32 (take 32 k_classic) (zeros REQ_BYTES))))"

definition three_keys :: "bytes \<Rightarrow> bytes \<times> bytes \<times> bytes" where
  "three_keys raw = (slice 16 48 raw, slice 48 80 raw, slice 80 112 raw)"

definition rfc9370_combine_on_aie2 ::
  "host \<Rightarrow> bytes \<Rightarrow> bytes \<Rightarrow> bytes \<Rightarrow> bytes \<Rightarrow> int \<Rightarrow> (bytes \<times> bytes \<times> bytes) py" where
  "rfc9370_combine_on_aie2 h k_classic k_pqc k_qkd ni_nr epoch =
     on_dr24 h \<lparr>d24_operation_mode = MODE_RFC9370_COMBINE, d24_payload_len = 160, d24_seq_num = 0,
         d24_epoch = epoch, d24_kem_mode = 1\<rparr> (combine_request k_classic k_pqc k_qkd ni_nr)
       (\<lambda>raw. bindE (check_status raw) (\<lambda>_. Inr (three_keys raw)))"

text \<open>Two 32-byte keys and a payload behind them, the request of both packet operations.\<close>

definition packet_request :: "bytes \<Rightarrow> bytes \<Rightarrow> bytes \<Rightarrow> bytes" where
  "packet_request ske ska payload =
     assign_slice 64 (64 + length payload) payload
       (assign_slice 32 64 (take 32 ska) (assign_slice 0 32 (take 32 ske) (zeros REQ_BYTES)))"

definition wireguard_encaps_on_aie2 :: "host \<Rightarrow> bytes \<Rightarrow> bytes \<Rightarrow> int \<Rightarrow> bytes \<Rightarrow> int \<Rightarrow> bytes py" where
  "wireguard_encaps_on_aie2 h ske ska seq_num plaintext epoch =
     on_dr24 h \<lparr>d24_operation_mode = MODE_WIREGUARD_ENCAPS, d24_payload_len = int (length plaintext),
         d24_seq_num = seq_num, d24_epoch = epoch, d24_kem_mode = 1\<rparr> (packet_request ske ska plaintext)
       (\<lambda>raw. bindE (check_status raw) (\<lambda>_. Inr (slice 16 (16 + nat (result_word 12 raw)) raw)))"

definition wireguard_decaps_on_aie2 :: "host \<Rightarrow> bytes \<Rightarrow> bytes \<Rightarrow> bytes \<Rightarrow> int \<Rightarrow> (int \<times> bytes \<times> int) py" where
  "wireguard_decaps_on_aie2 h ske ska packet epoch =
     on_dr24 h \<lparr>d24_operation_mode = MODE_WIREGUARD_DECAPS, d24_payload_len = int (length packet),
         d24_seq_num = 0, d24_epoch = epoch, d24_kem_mode = 1\<rparr> (packet_request ske ska packet)
       (\<lambda>raw. let status = result_word 8 raw
         in if status \<noteq> 0 then Inr (0, [], status)
            else Inr (result_quad 16 raw, slice 32 (32 + nat (result_quad 24 raw)) raw, status))"

definition async_rekey_on_aie2 :: "host \<Rightarrow> bytes \<Rightarrow> bytes \<Rightarrow> int \<Rightarrow> (bytes \<times> bytes \<times> bytes) py" where
  "async_rekey_on_aie2 h skd rekey_seed epoch =
     on_dr24 h \<lparr>d24_operation_mode = MODE_ASYNC_REKEY, d24_payload_len = 64, d24_seq_num = 0,
         d24_epoch = epoch, d24_kem_mode = 1\<rparr>
       (assign_slice 32 64 (take 32 rekey_seed) (assign_slice 0 32 (take 32 skd) (zeros REQ_BYTES)))
       (\<lambda>raw. bindE (check_status raw) (\<lambda>_. Inr (three_keys raw)))"

subsection \<open>Reference routines\<close>

definition split_keys :: "bytes \<Rightarrow> bytes \<times> bytes \<times> bytes" where
  "split_keys derived = (slice 0 32 derived, slice 32 64 derived, slice 64 96 derived)"

definition ref_rfc9370_combine :: "bytes \<Rightarrow> bytes \<Rightarrow> bytes \<Rightarrow> bytes \<Rightarrow> bytes \<times> bytes \<times> bytes" where
  "ref_rfc9370_combine k_classic k_pqc k_qkd ni_nr =
     (let combo = assign_slice 32 64 (take 32 k_pqc) (assign_slice 0 32 (take 32 k_classic) (zeros 160));
          combo = (if k_qkd \<noteq> [] then assign_slice 64 96 (take 32 k_qkd) combo else combo);
          combo = assign_slice 96 160 (take 64 ni_nr) combo
      in split_keys (shake256 combo 96))"

definition xor_zip :: "bytes \<Rightarrow> bytes \<Rightarrow> bytes" where
  "xor_zip xs ys = map (\<lambda>(a, b). a XOR b) (zip xs ys)"

definition ref_wireguard_encaps :: "bytes \<Rightarrow> bytes \<Rightarrow> int \<Rightarrow> bytes \<Rightarrow> bytes py" where
  "ref_wireguard_encaps ske ska seq_num plaintext =
     bindE (struct_pack [U 8] [seq_num]) (\<lambda>seq_bytes.
       let keystream = shake256 (take 32 ske @ seq_bytes) (length plaintext);
           ciphertext = xor_zip plaintext keystream;
           tag = shake256 (take 32 ska @ seq_bytes @ ciphertext) 16
       in Inr (seq_bytes @ tag @ ciphertext))"

definition ref_wireguard_decaps :: "bytes \<Rightarrow> bytes \<Rightarrow> bytes \<Rightarrow> int \<times> bytes \<times> int" where
  "ref_wireguard_decaps ske ska packet =
     (if length packet < 24 then (0, [], 1)
      else let seq_num = le_int (take 8 packet);
               tag = slice 8 24 packet;
               ciphertext = drop 24 packet;
               seq_bytes = take 8 packet;
               expected_tag = shake256 (take 32 ska @ seq_bytes @ ciphertext) 16
      in if tag \<noteq> expected_tag then (seq_num, [], 2)
         else let keystream = shake256 (take 32 ske @ seq_bytes) (length ciphertext)
              in (seq_num, xor_zip ciphertext keystream, 0))"

definition ref_async_rekey :: "bytes \<Rightarrow> bytes \<Rightarrow> bytes \<times> bytes \<times> bytes" where
  "ref_async_rekey skd rekey_seed = split_keys (shake256 (take 32 skd @ take 32 rekey_seed) 96)"

subsection \<open>Library\<close>

lemma on_dr24_needs_device:
  "on_dr24 h d req decode = Inr r \<Longrightarrow> iron_ok h \<and> (\<exists>req desc out. ho_program h req desc = Inr out)"
  by (auto simp add: on_dr24_def bindE_Inr_iff run_on_device_def load_iron_eq split: if_splits)

interpretation op_combine: device_operation "\<lambda>h. rfc9370_combine_on_aie2 h kc kp kq n e" for kc kp kq n e
  by unfold_locales (rule on_dr24_needs_device, simp add: rfc9370_combine_on_aie2_def)

interpretation op_encaps: device_operation "\<lambda>h. wireguard_encaps_on_aie2 h ske ska n pt e" for ske ska n pt e
  by unfold_locales (rule on_dr24_needs_device, simp add: wireguard_encaps_on_aie2_def)

interpretation op_decaps: device_operation "\<lambda>h. wireguard_decaps_on_aie2 h ske ska pkt e" for ske ska pkt e
  by unfold_locales (rule on_dr24_needs_device, simp add: wireguard_decaps_on_aie2_def)

interpretation op_rekey: device_operation "\<lambda>h. async_rekey_on_aie2 h skd seed e" for skd seed e
  by unfold_locales (rule on_dr24_needs_device, simp add: async_rekey_on_aie2_def)

lemma length_xor_zip [simp]: "length (xor_zip xs ys) = min (length xs) (length ys)"
  by (simp add: xor_zip_def)

lemma xor_zip_cancel: "length xs \<le> length ys \<Longrightarrow> xor_zip (xor_zip xs ys) ys = xs"
  by (rule nth_equalityI) (simp_all add: xor_zip_def xor.assoc)

lemma int_low_high: "(n :: int) AND 0xFFFFFFFF OR push_bit 32 (drop_bit 32 n AND 0xFFFFFFFF) = n mod 2 ^ 64"
proof -
  have m: "(x :: int) AND 0xFFFFFFFF = take_bit 32 x" for x
    using take_bit_eq_mask [of 32 x] by (simp add: mask_eq_exp_minus_1)
  have "take_bit 32 n OR push_bit 32 (take_bit 32 (drop_bit 32 n)) = take_bit 64 n"
    by (rule bit_eqI) (auto simp add: bit_simps)
  then show ?thesis by (simp add: m take_bit_eq_mod)
qed

text \<open>
  A packed descriptor is read back with the sequence number reduced modulo 2^64: the mask in the
  code drops higher bits, and the sign, without an error.
\<close>

lemma dr24_descriptor_reads_back:
  assumes "pack_dr24_descriptor d = Inr b"
  shows "length b = 32" "unpack_dr24_descriptor (b @ rest) = Inr (d\<lparr>d24_seq_num := d24_seq_num d mod 2 ^ 64\<rparr>)"
proof -
  note packed = packed_once [OF assms [unfolded pack_dr24_descriptor_def]]
  show "length b = 32" using packed(1) by simp
  with packed(2) [of rest] show "unpack_dr24_descriptor (b @ rest) = Inr (d\<lparr>d24_seq_num := d24_seq_num d mod 2 ^ 64\<rparr>)"
    by (simp add: unpack_dr24_descriptor_def int_low_high [simplified])
qed

lemma seq_bytes: "struct_pack [U 8] [n] = (if 0 \<le> n \<and> n < 2 ^ 64 then Inr (le_bytes 8 n) else Inl StructError)"
  by simp

text \<open>An absent quantum key and an all-zero one give the same session keys.\<close>

lemma absent_qkd_is_zero_key:
  assumes "length kc = 32" "length kp = 32" "length n = 64"
  shows "ref_rfc9370_combine kc kp [] n = ref_rfc9370_combine kc kp (zeros 32) n"
  using assms by (simp add: ref_rfc9370_combine_def Let_def assign_slice_def)

subsection \<open>Properties\<close>

text \<open>
  C31. Packets: decapsulation answers status 0 with a sequence number and a plaintext exactly when
  the packet is the one encapsulation makes of them under the same keys.  So every encapsulated
  packet is accepted and decrypted, a packet changed in any byte is rejected unless it is itself an
  encapsulation, distinct plaintexts never share a packet, and acceptance depends on nothing else:
  the same packet is accepted again however often it is presented.
\<close>

theorem wireguard_accepts_exactly:
  "ref_wireguard_decaps ske ska packet = (seq_num, plaintext, 0) \<longleftrightarrow>
   ref_wireguard_encaps ske ska seq_num plaintext = Inr packet"
proof
  assume acc: "ref_wireguard_decaps ske ska packet = (seq_num, plaintext, 0)"
  define sb where "sb = take 8 packet"
  define ct where "ct = drop 24 packet"
  have len: "24 \<le> length packet" using acc by (auto simp add: ref_wireguard_decaps_def split: if_splits)
  with acc have tag: "slice 8 24 packet = shake256 (take 32 ska @ sb @ ct) 16"
    and n: "seq_num = le_int sb" and pt: "plaintext = xor_zip ct (shake256 (take 32 ske @ sb) (length ct))"
    by (auto simp add: ref_wireguard_decaps_def Let_def sb_def ct_def split: if_splits)
  have "length sb = 8" using len by (simp add: sb_def)
  then have sb: "le_bytes 8 seq_num = sb" using le_bytes_int [of sb] n by simp
  have "seq_num < 2 ^ 64" using le_int_less [of sb] n \<open>length sb = 8\<close> by simp
  moreover have "0 \<le> seq_num" using n by simp
  moreover have "xor_zip plaintext (shake256 (take 32 ske @ sb) (length plaintext)) = ct"
    by (simp add: pt xor_zip_cancel)
  moreover have "packet = sb @ slice 8 24 packet @ ct"
    using append_take_drop_id [of 8 packet] append_take_drop_id [of 16 "drop 8 packet"]
    by (simp add: sb_def ct_def slice_def)
  ultimately show "ref_wireguard_encaps ske ska seq_num plaintext = Inr packet"
    using sb tag by (simp add: ref_wireguard_encaps_def Let_def del: struct_pack.simps add: seq_bytes)
next
  assume enc: "ref_wireguard_encaps ske ska seq_num plaintext = Inr packet"
  define sb where "sb = le_bytes 8 seq_num"
  define ct where "ct = xor_zip plaintext (shake256 (take 32 ske @ sb) (length plaintext))"
  from enc have n: "0 \<le> seq_num" "seq_num < 2 ^ 64"
    and p: "packet = sb @ shake256 (take 32 ska @ sb @ ct) 16 @ ct"
    by (auto simp add: ref_wireguard_encaps_def Let_def seq_bytes sb_def ct_def
        simp del: struct_pack.simps split: if_splits)
  have "length sb = 8" by (simp add: sb_def)
  moreover have "le_int sb = seq_num" using n by (simp add: sb_def le_int_bytes_id)
  moreover have "xor_zip ct (shake256 (take 32 ske @ sb) (length ct)) = plaintext"
    by (simp add: ct_def xor_zip_cancel)
  ultimately show "ref_wireguard_decaps ske ska packet = (seq_num, plaintext, 0)"
    by (simp add: ref_wireguard_decaps_def Let_def p slice_def)
qed

end
