(* ===== verification/Lms.thy ===== *)
theory Lms
  imports Host PyHash
begin

text \<open>
  The hash-based signature verifier: the descriptor of \<open>dr28_lms_verifier_abi.py\<close>, and of
  \<open>dr28_lms_verifier_graph.py\<close> the three operations dispatched to the device and the reference
  routines (one-time leaf recovery, path traversal, verification and the fixture generator, whose
  random generator is the list of the byte strings it hands out).
\<close>

unbundle bit_operations_syntax

subsection \<open>Descriptor\<close>

abbreviation (input) MAGIC_DESC_DR28 :: int where "MAGIC_DESC_DR28 \<equiv> 0x01284C4D"
abbreviation (input) LMS_SHA256_M32_H5 :: int where "LMS_SHA256_M32_H5 \<equiv> 5"
abbreviation (input) LMOTS_SHA256_N32_W4 :: int where "LMOTS_SHA256_N32_W4 \<equiv> 3"
abbreviation (input) MODE_VERIFY_LMS_SIGNATURE :: int where "MODE_VERIFY_LMS_SIGNATURE \<equiv> 0"
abbreviation (input) MODE_RECOVER_LMOTS_LEAF :: int where "MODE_RECOVER_LMOTS_LEAF \<equiv> 1"
abbreviation (input) MODE_MERKLE_PATH_TRAVERSE :: int where "MODE_MERKLE_PATH_TRAVERSE \<equiv> 2"

record dr28_descriptor =
  d28_operation_mode :: int
  d28_msg_len :: int
  d28_epoch :: int
  d28_lms_type :: int
  d28_lmots_type :: int

definition pack_dr28_descriptor :: "dr28_descriptor \<Rightarrow> bytes py" where
  "pack_dr28_descriptor d = struct_pack_into [U 4, U 4, U 4, U 4, U 4, U 4, U 4, U 4] (zeros 32) 0
     [MAGIC_DESC_DR28, d28_operation_mode d, d28_msg_len d, d28_epoch d, d28_lms_type d,
      d28_lmots_type d, 0, 0]"

definition unpack_dr28_descriptor :: "bytes \<Rightarrow> dr28_descriptor py" where
  "unpack_dr28_descriptor data =
     (if length data < 32 then Inl ValueError
      else bindE (struct_unpack_from [U 4, U 4, U 4, U 4, U 4, U 4, U 4, U 4] data 0) (\<lambda>w.
        if w ! 0 \<noteq> MAGIC_DESC_DR28 then Inl ValueError
        else Inr \<lparr>d28_operation_mode = w ! 1, d28_msg_len = w ! 2, d28_epoch = w ! 3,
          d28_lms_type = w ! 4, d28_lmots_type = w ! 5\<rparr>))"

interpretation dr28: descriptor_codec pack_dr28_descriptor unpack_dr28_descriptor 32
proof
  fix d b rest
  assume "pack_dr28_descriptor d = Inr b"
  note packed = packed_once [OF this [unfolded pack_dr28_descriptor_def]]
  show "length b = 32" using packed(1) by simp
  then show "unpack_dr28_descriptor (b @ rest) = Inr d"
    using packed(2) [of rest] by (simp add: unpack_dr28_descriptor_def)
qed

subsection \<open>Operations on the device\<close>

definition lms_descriptor :: "int \<Rightarrow> nat \<Rightarrow> int \<Rightarrow> dr28_descriptor" where
  "lms_descriptor mode msg_len epoch = \<lparr>d28_operation_mode = mode, d28_msg_len = int msg_len,
     d28_epoch = epoch, d28_lms_type = LMS_SHA256_M32_H5, d28_lmots_type = LMOTS_SHA256_N32_W4\<rparr>"

definition dispatch_dr28 :: "host \<Rightarrow> bytes \<Rightarrow> bytes \<Rightarrow> bytes py" where
  "dispatch_dr28 h desc_bytes req_buf = dispatch 8192 h desc_bytes req_buf"

definition verify_lms_signature_on_aie2 ::
  "host \<Rightarrow> bytes \<Rightarrow> bytes \<Rightarrow> int \<Rightarrow> bytes \<Rightarrow> bytes \<Rightarrow> bytes \<Rightarrow> bytes \<Rightarrow> int \<Rightarrow> (bool \<times> bytes) py" where
  "verify_lms_signature_on_aie2 h I t1_expected q C y_sigs auth_path msg epoch =
     bindE (pack_dr28_descriptor (lms_descriptor MODE_VERIFY_LMS_SIGNATURE (length msg) epoch)) (\<lambda>desc.
       let buf = assign_slice 16 48 (take 32 t1_expected) (assign_slice 0 16 (take 16 I) (zeros 8192))
       in bindE (struct_pack_into [U 4] buf 48 [q]) (\<lambda>buf.
         let buf = assign_slice 52 84 (take 32 C) buf;
             buf = assign_slice 84 2228 (take 2144 y_sigs) buf;
             buf = assign_slice 2228 2388 (take 160 auth_path) buf;
             buf = assign_slice 2388 (2388 + length msg) msg buf
         in bindE (dispatch_dr28 h desc buf) (\<lambda>raw. Inr (result_word 8 raw = 0, slice 16 48 raw))))"

definition recover_lmots_leaf_on_aie2 ::
  "host \<Rightarrow> bytes \<Rightarrow> int \<Rightarrow> bytes \<Rightarrow> bytes \<Rightarrow> bytes \<Rightarrow> int \<Rightarrow> bytes py" where
  "recover_lmots_leaf_on_aie2 h I q C y_sigs msg epoch =
     bindE (pack_dr28_descriptor (lms_descriptor MODE_RECOVER_LMOTS_LEAF (length msg) epoch)) (\<lambda>desc.
       bindE (struct_pack_into [U 4] (assign_slice 0 16 (take 16 I) (zeros 8192)) 16 [q]) (\<lambda>buf.
         let buf = assign_slice 20 52 (take 32 C) buf;
             buf = assign_slice 52 2196 (take 2144 y_sigs) buf;
             buf = assign_slice 2196 (2196 + length msg) msg buf
         in bindE (dispatch_dr28 h desc buf) (\<lambda>raw. Inr (slice 16 48 raw))))"

definition merkle_path_traverse_on_aie2 ::
  "host \<Rightarrow> bytes \<Rightarrow> int \<Rightarrow> bytes \<Rightarrow> bytes \<Rightarrow> int \<Rightarrow> bytes py" where
  "merkle_path_traverse_on_aie2 h I q leaf_kc auth_path epoch =
     bindE (pack_dr28_descriptor (lms_descriptor MODE_MERKLE_PATH_TRAVERSE 0 epoch)) (\<lambda>desc.
       bindE (struct_pack_into [U 4] (assign_slice 0 16 (take 16 I) (zeros 8192)) 16 [q]) (\<lambda>buf.
         let buf = assign_slice 20 52 (take 32 leaf_kc) buf;
             buf = assign_slice 52 212 (take 160 auth_path) buf
         in bindE (dispatch_dr28 h desc buf) (\<lambda>raw. Inr (slice 16 48 raw))))"

subsection \<open>Reference routines\<close>

text \<open>\<open>struct.pack\<close> with a big-endian format of unsigned fields, given by their widths.\<close>

fun pack_be :: "nat list \<Rightarrow> int list \<Rightarrow> bytes py" where
  "pack_be (n # ns) (v # vs) =
     (if 0 \<le> v \<and> v < 256 ^ n then bindE (pack_be ns vs) (\<lambda>bs. Inr (be_bytes n v @ bs)) else Inl StructError)"
| "pack_be [] [] = Inr []"
| "pack_be _ _ = Inl StructError"

definition header :: "bytes \<Rightarrow> int \<Rightarrow> int \<Rightarrow> bytes py" where
  "header I q tag = bindE (pack_be [4, 2] [q, tag]) (\<lambda>bs. Inr (take 16 I @ bs))"

text \<open>The digits of a digest in base 16 with their checksum: 64 digits and 3 of the checksum.\<close>

definition digit_step :: "nat list \<times> nat \<Rightarrow> byte \<Rightarrow> nat list \<times> nat" where
  "digit_step acc b =
     (let hi = unat (drop_bit 4 b AND 0x0F); lo = unat (b AND 0x0F)
      in (fst acc @ [hi, lo], snd acc + ((15 - hi) + (15 - lo))))"

definition coefficients :: "bytes \<Rightarrow> nat list" where
  "coefficients Q =
     (let acc = foldl digit_step ([], 0) Q; csum = push_bit 4 (snd acc)
      in fst acc @ [drop_bit 12 csum AND 0x0F, drop_bit 8 csum AND 0x0F, drop_bit 4 csum AND 0x0F])"

definition chain_step :: "bytes \<Rightarrow> nat \<Rightarrow> bytes \<Rightarrow> nat \<Rightarrow> bytes" where
  "chain_step prefix i cur j = sha256 (prefix @ be_bytes 2 (int i) @ be_bytes 1 (int j) @ cur)"

definition hash_chain :: "bytes \<Rightarrow> nat \<Rightarrow> nat \<Rightarrow> nat \<Rightarrow> bytes \<Rightarrow> bytes" where
  "hash_chain prefix i from to cur = foldl (chain_step prefix i) cur [from..<to]"

definition ref_lmots_recover_leaf :: "bytes \<Rightarrow> int \<Rightarrow> bytes \<Rightarrow> bytes \<Rightarrow> bytes \<Rightarrow> bytes py" where
  "ref_lmots_recover_leaf I q C y_sigs msg =
     bindE (header I q 0x83) (\<lambda>q_hdr.
       let Q = sha256 (q_hdr @ take 32 C @ msg); a = coefficients Q
       in bindE (pack_be [4] [q]) (\<lambda>qb.
         let prefix = take 16 I @ qb;
             z_parts = map (\<lambda>i. hash_chain prefix i (a ! i) 15 (slice (i * 32) ((i + 1) * 32) y_sigs)) [0..<67]
         in bindE (header I q 0x80) (\<lambda>pkey_hdr. Inr (sha256 (pkey_hdr @ concat z_parts)))))"

definition path_step :: "bytes \<Rightarrow> bytes \<Rightarrow> int \<times> bytes \<Rightarrow> nat \<Rightarrow> (int \<times> bytes) py" where
  "path_step I auth_path st i =
     (let parent_id = fst st div 2; sibling = slice (i * 32) ((i + 1) * 32) auth_path
      in bindE (header I parent_id 0x81) (\<lambda>intr_hdr.
        Inr (parent_id,
          if fst st mod 2 = 1 then sha256 (intr_hdr @ sibling @ snd st)
          else sha256 (intr_hdr @ snd st @ sibling))))"

definition ref_lms_traverse_path :: "bytes \<Rightarrow> int \<Rightarrow> bytes \<Rightarrow> bytes \<Rightarrow> nat \<Rightarrow> bytes py" where
  "ref_lms_traverse_path I q leaf_kc auth_path h =
     (let node_id = 2 ^ h + q
      in bindE (header I node_id 0x82) (\<lambda>leaf_hdr.
        bindE (foldE (path_step I auth_path) (node_id, sha256 (leaf_hdr @ take 32 leaf_kc)) [0..<h])
          (\<lambda>st. Inr (snd st))))"

definition ref_lms_verify ::
  "bytes \<Rightarrow> bytes \<Rightarrow> int \<Rightarrow> bytes \<Rightarrow> bytes \<Rightarrow> bytes \<Rightarrow> bytes \<Rightarrow> nat \<Rightarrow> bool py" where
  "ref_lms_verify I t1_expected q C y_sigs auth_path msg h =
     bindE (ref_lmots_recover_leaf I q C y_sigs msg) (\<lambda>leaf_kc.
       bindE (ref_lms_traverse_path I q leaf_kc auth_path h) (\<lambda>calc_root. Inr (calc_root = t1_expected)))"

text \<open>\<open>C\<close>, \<open>x\<close> and \<open>auth_path\<close> are what the random generator returns, in this order.\<close>

definition ref_lms_generate_test_fixture ::
  "bytes \<Rightarrow> int \<Rightarrow> bytes \<Rightarrow> bytes \<Rightarrow> bytes list \<Rightarrow> bytes \<Rightarrow> nat \<Rightarrow> (bytes \<times> bytes \<times> bytes \<times> bytes) py" where
  "ref_lms_generate_test_fixture I q msg C x auth_path h =
     bindE (header I q 0x83) (\<lambda>q_hdr.
       let Q = sha256 (q_hdr @ C @ msg); a = coefficients Q
       in bindE (pack_be [4] [q]) (\<lambda>qb.
         let prefix = take 16 I @ qb;
             y_sigs = concat (map (\<lambda>i. hash_chain prefix i 0 (a ! i) (x ! i)) [0..<67])
         in bindE (ref_lmots_recover_leaf I q C y_sigs msg) (\<lambda>leaf_kc.
           bindE (ref_lms_traverse_path I q leaf_kc auth_path h) (\<lambda>root.
             Inr (C, y_sigs, auth_path, root)))))"

subsection \<open>Library\<close>

lemma lms_device_calls:
  "verify_lms_signature_on_aie2 h I t1 q C y ap msg e = Inr r \<Longrightarrow> iron_ok h \<and> (\<exists>req desc out. ho_program h req desc = Inr out)"
  "recover_lmots_leaf_on_aie2 h I q C y msg e = Inr r' \<Longrightarrow> iron_ok h \<and> (\<exists>req desc out. ho_program h req desc = Inr out)"
  "merkle_path_traverse_on_aie2 h I q leaf ap e = Inr r' \<Longrightarrow> iron_ok h \<and> (\<exists>req desc out. ho_program h req desc = Inr out)"
  by (auto simp add: verify_lms_signature_on_aie2_def recover_lmots_leaf_on_aie2_def
      merkle_path_traverse_on_aie2_def Let_def bindE_Inr_iff dispatch_dr28_def dispatch_Inr_iff hardware_ok_def)

interpretation op_verify_lms: device_operation "\<lambda>h. verify_lms_signature_on_aie2 h I t1 q C y ap msg e"
  for I t1 q C y ap msg e
  by unfold_locales (rule lms_device_calls)

interpretation op_recover_leaf: device_operation "\<lambda>h. recover_lmots_leaf_on_aie2 h I q C y msg e" for I q C y msg e
  by unfold_locales (rule lms_device_calls)

interpretation op_traverse: device_operation "\<lambda>h. merkle_path_traverse_on_aie2 h I q leaf ap e" for I q leaf ap e
  by unfold_locales (rule lms_device_calls)

lemma length_chain_step [simp]: "length (chain_step p i cur j) = 32"
  by (simp add: chain_step_def)

lemma length_hash_chain: "length cur = 32 \<Longrightarrow> length (hash_chain p i a b cur) = 32"
proof -
  have "length (foldl (chain_step p i) cur js) = 32" if "length cur = 32" for js
    using that by (cases js rule: rev_cases) simp_all
  then show "length cur = 32 \<Longrightarrow> ?thesis" by (simp add: hash_chain_def)
qed

lemma hash_chain_split: "a \<le> b \<Longrightarrow> b \<le> c \<Longrightarrow> hash_chain p i b c (hash_chain p i a b cur) = hash_chain p i a c cur"
  unfolding hash_chain_def by (metis foldl_append le_add_diff_inverse upt_add_eq_append)

text \<open>Digits and their checksum.\<close>

definition nibbles :: "byte \<Rightarrow> nat list" where
  "nibbles b = [unat (drop_bit 4 b AND 0x0F), unat (b AND 0x0F)]"

definition digits :: "bytes \<Rightarrow> nat list" where
  "digits Q = concat (map nibbles Q)"

definition checksum :: "nat list \<Rightarrow> nat" where
  "checksum ds = sum_list (map (\<lambda>d. 15 - d) ds)"

lemma and_15: "(n :: nat) AND 15 = n mod 16"
  using take_bit_eq_mask [of 4 n] by (simp add: mask_eq_exp_minus_1 take_bit_eq_mod)

lemma unat_div_16: "unat (b :: byte) div 16 < 16"
proof -
  have "unat b < 2 ^ LENGTH(8)" by (rule unsigned_less)
  then show ?thesis by (intro less_mult_imp_div_less) simp
qed

lemma nibbles_eq: "nibbles b = [unat b div 16, unat b mod 16]"
proof -
  have "unat (b AND 0x0F) = unat b mod 16" "unat (drop_bit 4 b AND 0x0F) = unat b div 16 mod 16"
    by (simp_all add: unsigned_and_eq unsigned_drop_bit_eq drop_bit_eq_div and_15 unat_div_distrib)
  then show ?thesis using unat_div_16 [of b] by (simp add: nibbles_def)
qed

lemma nibbles_inject: "nibbles b = nibbles b' \<Longrightarrow> b = b'"
  unfolding nibbles_eq by (metis div_mult_mod_eq list.inject unsigned_word_eqI)

lemma digits_simps [simp]: "digits [] = []" "digits (b # Q) = nibbles b @ digits Q"
  by (simp_all add: digits_def)

lemma length_digits [simp]: "length (digits Q) = 2 * length Q"
  by (induction Q) (simp_all add: nibbles_def)

lemma digits_le: "d \<in> set (digits Q) \<Longrightarrow> d \<le> 15"
proof (induction Q)
  case (Cons b Q)
  have "unat b div 16 \<le> 15" using unat_div_16 [of b] by simp
  then show ?case using Cons by (auto simp add: nibbles_eq)
qed simp

lemma digits_inject: "digits Q = digits Q' \<Longrightarrow> Q = Q'"
proof (induction Q arbitrary: Q')
  case (Cons b Q)
  then obtain b' Q'' where Q': "Q' = b' # Q''" by (cases Q') (auto simp add: nibbles_def)
  with Cons.prems have "nibbles b = nibbles b'" "digits Q = digits Q''" by (simp_all add: nibbles_def)
  with Cons.IH nibbles_inject Q' show ?case by blast
next
  case Nil
  then show ?case by (cases Q') (simp_all add: nibbles_def)
qed

lemma digit_fold: "foldl digit_step (ds, c) Q = (ds @ digits Q, c + checksum (digits Q))"
  by (induction Q arbitrary: ds c) (simp_all add: digit_step_def Let_def nibbles_def checksum_def)

lemma checksum_le: "checksum ds \<le> 15 * length ds"
  by (induction ds) (simp_all add: checksum_def)

lemma coefficients_eq:
  assumes "length Q = 32"
  shows "coefficients Q = digits Q @
    [checksum (digits Q) div 256, checksum (digits Q) div 16 mod 16, checksum (digits Q) mod 16]"
proof -
  define c where "c = checksum (digits Q)"
  have "c \<le> 960" using checksum_le [of "digits Q"] assms by (simp add: c_def)
  then have "c div 256 mod 16 = c div 256" by simp
  then show ?thesis
    by (simp add: coefficients_def Let_def digit_fold and_15 drop_bit_eq_div push_bit_eq_mult c_def [symmetric]
        div_mult2_eq [of "c * 16" 16 256, simplified] div_mult2_eq [of "c * 16" 16 16, simplified])
qed

lemma length_coefficients: "length Q = 32 \<Longrightarrow> length (coefficients Q) = 67"
  by (simp add: coefficients_eq)

lemma coefficients_le:
  assumes "length Q = 32" "i < 67"
  shows "coefficients Q ! i \<le> 15"
proof -
  define c where "c = checksum (digits Q)"
  have "c \<le> 960" using checksum_le [of "digits Q"] assms by (simp add: c_def)
  then have "c div 256 \<le> 15" "c div 16 mod 16 \<le> 15" "c mod 16 \<le> 15" by simp_all
  then have "\<forall>d \<in> set (coefficients Q). d \<le> 15"
    using digits_le by (auto simp add: coefficients_eq assms c_def [symmetric])
  then show ?thesis using assms length_coefficients by simp
qed

text \<open>The public key of a one-time key pair, as RFC 8554 defines it: every chain run to its end.\<close>

definition lmots_public_key :: "bytes \<Rightarrow> int \<Rightarrow> bytes list \<Rightarrow> bytes" where
  "lmots_public_key I q x =
     sha256 (take 16 I @ be_bytes 4 q @ be_bytes 2 0x80 @
       concat (map (\<lambda>i. hash_chain (take 16 I @ be_bytes 4 q) i 0 15 (x ! i)) [0..<67]))"

lemma header_eq:
  "header I q tag = (if 0 \<le> q \<and> q < 2 ^ 32 \<and> 0 \<le> tag \<and> tag < 65536
     then Inr (take 16 I @ be_bytes 4 q @ be_bytes 2 tag) else Inl StructError)"
  by (simp add: header_def)

lemma signed_leaf_recovers:
  assumes "0 \<le> q" "q < 2 ^ 32" "length C = 32" "\<And>i. i < 67 \<Longrightarrow> length (x ! i) = 32"
    and a: "a = coefficients (sha256 (take 16 I @ be_bytes 4 q @ be_bytes 2 0x83 @ C @ msg))"
  shows "ref_lmots_recover_leaf I q C
    (concat (map (\<lambda>i. hash_chain (take 16 I @ be_bytes 4 q) i 0 (a ! i) (x ! i)) [0..<67])) msg =
    Inr (lmots_public_key I q x)"
proof -
  define p where "p = take 16 I @ be_bytes 4 q"
  define y where "y = concat (map (\<lambda>i. hash_chain p i 0 (a ! i) (x ! i)) [0..<67])"
  have chain: "hash_chain p i (a ! i) 15 (slice (i * 32) ((i + 1) * 32) y) = hash_chain p i 0 15 (x ! i)"
    if "i < 67" for i
  proof -
    have "slice (i * 32) ((i + 1) * 32) y = hash_chain p i 0 (a ! i) (x ! i)"
      unfolding y_def using that assms(4) by (intro slice_concat_fixed) (simp_all add: length_hash_chain)
    moreover have "a ! i \<le> 15" unfolding a using that by (intro coefficients_le) simp_all
    ultimately show ?thesis by (simp add: hash_chain_split)
  qed
  have "map (\<lambda>i. hash_chain p i (a ! i) 15 (slice (i * 32) ((i + 1) * 32) y)) [0..<67] =
    map (\<lambda>i. hash_chain p i 0 15 (x ! i)) [0..<67]"
    using chain by (intro map_cong refl) (simp only: set_upt atLeastLessThan_iff)
  moreover have "ref_lmots_recover_leaf I q C y msg = Inr (sha256 (take 16 I @ be_bytes 4 q @ be_bytes 2 0x80 @
      concat (map (\<lambda>i. hash_chain p i (a ! i) 15 (slice (i * 32) ((i + 1) * 32) y)) [0..<67])))"
    using assms(1,2,3) unfolding ref_lmots_recover_leaf_def header_eq Let_def
    by (simp add: p_def [symmetric] a [symmetric] del: upt_Suc upt_rec_numeral)
  ultimately have "ref_lmots_recover_leaf I q C y msg = Inr (lmots_public_key I q x)"
    by (simp only: lmots_public_key_def p_def)
  then show ?thesis by (simp only: y_def p_def)
qed

text \<open>The inputs that a path traversal hashes, from the leaf up.\<close>

fun path_queries :: "bytes \<Rightarrow> int \<Rightarrow> bytes \<Rightarrow> nat \<Rightarrow> bytes \<Rightarrow> bytes list" where
  "path_queries I node path 0 cur = []"
| "path_queries I node path (Suc h) cur =
     (let m = take 16 I @ be_bytes 4 (node div 2) @ be_bytes 2 0x81 @
        (if node mod 2 = 1 then take 32 path @ cur else cur @ take 32 path)
      in m # path_queries I (node div 2) (drop 32 path) h (sha256 m))"

definition lms_queries :: "bytes \<Rightarrow> int \<Rightarrow> bytes \<Rightarrow> bytes \<Rightarrow> nat \<Rightarrow> bytes list" where
  "lms_queries I q leaf path h =
     (let m = take 16 I @ be_bytes 4 (2 ^ h + q) @ be_bytes 2 0x82 @ take 32 leaf
      in m # path_queries I (2 ^ h + q) path h (sha256 m))"

definition last_hash :: "bytes \<Rightarrow> bytes list \<Rightarrow> bytes" where
  "last_hash cur ms = (if ms = [] then cur else sha256 (last ms))"

lemma last_hash_simps [simp]: "last_hash cur [] = cur" "last_hash cur (m # ms) = last_hash (sha256 m) ms"
  by (simp_all add: last_hash_def)

lemma path_fold:
  "0 \<le> node \<Longrightarrow> node < 2 ^ 32 \<Longrightarrow>
    \<exists>node'. foldE (path_step I path) (node, cur) [k..<k + h] =
      Inr (node', last_hash cur (path_queries I node (drop (32 * k) path) h cur))"
proof (induction h arbitrary: node cur k)
  case (Suc h)
  define m where "m = take 16 I @ be_bytes 4 (node div 2) @ be_bytes 2 0x81 @
    (if node mod 2 = 1 then take 32 (drop (32 * k) path) @ cur else cur @ take 32 (drop (32 * k) path))"
  have nd: "0 \<le> node div 2" "node div 2 < 2 ^ 32" using Suc.prems by simp_all
  have "path_step I path (node, cur) k = Inr (node div 2, sha256 m)"
    using nd by (simp add: path_step_def Let_def header_eq m_def slice_def mult.commute)
  moreover have "[k..<k + Suc h] = k # [Suc k..<Suc k + h]" by (simp add: upt_conv_Cons)
  moreover from Suc.IH [OF nd, of "sha256 m" "Suc k"] obtain node' where
    "foldE (path_step I path) (node div 2, sha256 m) [Suc k..<Suc k + h] =
      Inr (node', last_hash (sha256 m) (path_queries I (node div 2) (drop (32 * Suc k) path) h (sha256 m)))" by blast
  ultimately show ?case by (simp add: m_def [symmetric] Let_def add.commute)
qed simp

lemma traverse_queries:
  assumes "ref_lms_traverse_path I q leaf path h = Inr root"
  shows "root = sha256 (last (lms_queries I q leaf path h))"
proof -
  have n: "0 \<le> 2 ^ h + q" "2 ^ h + q < 2 ^ 32"
    using assms by (auto simp add: ref_lms_traverse_path_def Let_def header_eq split: if_splits)
  define m where "m = take 16 I @ be_bytes 4 (2 ^ h + q) @ be_bytes 2 0x82 @ take 32 leaf"
  obtain node' where "foldE (path_step I path) (2 ^ h + q, sha256 m) [0..<h] =
      Inr (node', last_hash (sha256 m) (path_queries I (2 ^ h + q) path h (sha256 m)))"
    using path_fold [OF n, of I path "sha256 m" 0 h] by auto
  with assms n have "root = last_hash (sha256 m) (path_queries I (2 ^ h + q) path h (sha256 m))"
    by (simp add: ref_lms_traverse_path_def Let_def header_eq m_def)
  then show ?thesis by (simp add: lms_queries_def Let_def m_def [symmetric] last_hash_def)
qed

lemma path_collision:
  assumes "length cur = 32" "length cur' = 32" "32 * h \<le> length path" "32 * h \<le> length path'"
    and "last_hash cur (path_queries I node path h cur) = last_hash cur' (path_queries I node path' h cur')"
    and "cur \<noteq> cur' \<or> take (32 * h) path \<noteq> take (32 * h) path'"
  shows "\<exists>i < h. path_queries I node path h cur ! i \<noteq> path_queries I node path' h cur' ! i \<and>
    sha256 (path_queries I node path h cur ! i) = sha256 (path_queries I node path' h cur' ! i)"
  using assms
proof (induction h arbitrary: node path path' cur cur')
  case (Suc h)
  define query where "query = (\<lambda>p c. take 16 I @ be_bytes 4 (node div 2) @ be_bytes 2 0x81 @
    (if node mod 2 = 1 then take 32 p @ c else c @ take 32 p))"
  let ?m = "query path cur" and ?m' = "query path' cur'"
  have q: "path_queries I node p (Suc h) c = query p c # path_queries I (node div 2) (drop 32 p) h (sha256 (query p c))"
    for p c by (simp add: Let_def query_def)
  have split: "take (32 * Suc h) p = take 32 p @ take (32 * h) (drop 32 p)" for p :: bytes
    by (simp add: take_add)
  show ?case
  proof (cases "?m \<noteq> ?m' \<and> sha256 ?m = sha256 ?m'")
    case True
    then show ?thesis unfolding q by (intro exI [of _ 0]) simp
  next
    case False
    have "sha256 ?m \<noteq> sha256 ?m' \<or> take (32 * h) (drop 32 path) \<noteq> take (32 * h) (drop 32 path')"
    proof (cases "?m = ?m'")
      case True
      then have "cur = cur' \<and> take 32 path = take 32 path'"
        using Suc.prems(1-4) by (auto simp add: query_def split: if_splits)
      then show ?thesis using Suc.prems(6) unfolding split by auto
    qed (use False in simp)
    moreover have "32 * h \<le> length (drop 32 path)" "32 * h \<le> length (drop 32 path')"
      using Suc.prems(3,4) by simp_all
    moreover have "last_hash (sha256 ?m) (path_queries I (node div 2) (drop 32 path) h (sha256 ?m)) =
      last_hash (sha256 ?m') (path_queries I (node div 2) (drop 32 path') h (sha256 ?m'))"
      using Suc.prems(5) unfolding q by simp
    ultimately obtain i where "i < h"
      "path_queries I (node div 2) (drop 32 path) h (sha256 ?m) ! i \<noteq>
         path_queries I (node div 2) (drop 32 path') h (sha256 ?m') ! i"
      "sha256 (path_queries I (node div 2) (drop 32 path) h (sha256 ?m) ! i) =
         sha256 (path_queries I (node div 2) (drop 32 path') h (sha256 ?m') ! i)"
      using Suc.IH [of "sha256 ?m" "sha256 ?m'" "drop 32 path" "drop 32 path'" "node div 2"] by auto
    then show ?thesis unfolding q by (intro exI [of _ "Suc i"]) simp
  qed
qed simp

lemma checksum_anti:
  "list_all2 (\<le>) ds' ds \<Longrightarrow> \<forall>d \<in> set ds. d \<le> 15 \<Longrightarrow> checksum ds \<le> checksum ds'"
  by (induction rule: list_all2_induct) (auto simp add: checksum_def)

lemma checksum_strict:
  "list_all2 (\<le>) ds' ds \<Longrightarrow> \<forall>d \<in> set ds. d \<le> 15 \<Longrightarrow> checksum ds = checksum ds' \<Longrightarrow> ds' = ds"
proof (induction rule: list_all2_induct)
  case (Cons d' ds' d ds)
  have "checksum ds \<le> checksum ds'" using Cons.hyps(2) Cons.prems(1) by (intro checksum_anti) simp_all
  moreover have "15 - d + checksum ds = 15 - d' + checksum ds'" using Cons.prems(2) by (simp add: checksum_def)
  ultimately have "d' = d" "checksum ds = checksum ds'" using Cons.hyps(1) Cons.prems(1) by auto
  with Cons show ?case by simp
qed simp

lemma path_queries_take: "path_queries I node (take (32 * h) path) h cur = path_queries I node path h cur"
proof (induction h arbitrary: node path cur)
  case (Suc h)
  have "take 32 (take (32 * Suc h) path) = take 32 path" "drop 32 (take (32 * Suc h) path) = take (32 * h) (drop 32 path)"
    by (simp_all add: drop_take)
  then show ?case by (simp only: path_queries.simps Let_def Suc.IH)
qed simp

subsection \<open>Properties\<close>

text \<open>
  Signing and verifying: a generated fixture verifies, and not by accident of construction:
  the leaf that verification recovers from the signature is the one-time public key that RFC 8554
  defines, so it does not depend on the signed message, and signatures of any two messages by the
  same key recover the same leaf.  This holds for every leaf number that fits its field, beyond the
  number of leaves of the tree too, which the code never compares.
\<close>

theorem lms_fixture_verifies:
  assumes "length C = 32" "\<And>i. i < 67 \<Longrightarrow> length (x ! i) = 32"
    and "ref_lms_generate_test_fixture I q msg C x auth_path h = Inr (C', y_sigs, auth_path', root)"
  shows "(ref_lms_verify I root q C' y_sigs auth_path' msg h = Inr True) \<and>
    (ref_lmots_recover_leaf I q C' y_sigs msg = Inr (lmots_public_key I q x)) \<and>
    (ref_lms_traverse_path I q (lmots_public_key I q x) auth_path' h = Inr root)"
proof (intro conjI)
  define a where "a = coefficients (sha256 (take 16 I @ be_bytes 4 q @ be_bytes 2 0x83 @ C @ msg))"
  define y where "y = concat (map (\<lambda>i. hash_chain (take 16 I @ be_bytes 4 q) i 0 (a ! i) (x ! i)) [0..<67])"
  have q: "0 \<le> q" "q < 2 ^ 32"
    using assms(3) by (auto simp add: ref_lms_generate_test_fixture_def header_eq split: if_splits)
  have leaf: "ref_lmots_recover_leaf I q C y msg = Inr (lmots_public_key I q x)"
    unfolding y_def by (rule signed_leaf_recovers) (use q assms(1,2) a_def in auto)
  have gen: "ref_lms_generate_test_fixture I q msg C x auth_path h =
      bindE (ref_lmots_recover_leaf I q C y msg) (\<lambda>leaf_kc.
        bindE (ref_lms_traverse_path I q leaf_kc auth_path h) (\<lambda>root. Inr (C, y, auth_path, root)))"
    using q unfolding ref_lms_generate_test_fixture_def header_eq Let_def y_def a_def
    by (simp del: upt_Suc upt_rec_numeral)
  from assms(3) have out: "C' = C" "y_sigs = y" "auth_path' = auth_path"
    and root: "ref_lms_traverse_path I q (lmots_public_key I q x) auth_path h = Inr root"
    unfolding gen leaf by (auto simp add: bindE_Inr_iff)
  show "ref_lmots_recover_leaf I q C' y_sigs msg = Inr (lmots_public_key I q x)" using leaf by (simp add: out)
  show "ref_lms_traverse_path I q (lmots_public_key I q x) auth_path' h = Inr root" using root by (simp add: out)
  show "ref_lms_verify I root q C' y_sigs auth_path' msg h = Inr True"
    by (simp add: ref_lms_verify_def out leaf root)
qed

theorem lms_fixture_verifies_witness:
  "\<exists>C y path root. ref_lms_generate_test_fixture (zeros 16) 40 [1] (zeros 32) (replicate 67 (zeros 32)) (zeros 160) 5 =
     Inr (C, y, path, root) \<and> ref_lms_verify (zeros 16) root 40 C y path [1] 5 = Inr True"
proof -
  define x where "x = replicate 67 (zeros 32)"
  define a where "a = coefficients (sha256 (take 16 (zeros 16) @ be_bytes 4 40 @ be_bytes 2 0x83 @ zeros 32 @ [1]))"
  define y where "y = concat (map (\<lambda>i. hash_chain (take 16 (zeros 16) @ be_bytes 4 40) i 0 (a ! i) (x ! i)) [0..<67])"
  have x: "i < 67 \<Longrightarrow> length (x ! i) = 32" for i by (simp add: x_def)
  have leaf: "ref_lmots_recover_leaf (zeros 16) 40 (zeros 32) y [1] = Inr (lmots_public_key (zeros 16) 40 x)"
    unfolding y_def by (rule signed_leaf_recovers) (use x a_def in auto)
  have "\<exists>node'. foldE (path_step (zeros 16) (zeros 160)) (72, cur) [0..<0 + 5] =
      Inr (node', last_hash cur (path_queries (zeros 16) 72 (drop (32 * 0) (zeros 160)) 5 cur))" for cur
    by (rule path_fold) simp_all
  from this [of "sha256 (take 16 (zeros 16) @ be_bytes 4 72 @ be_bytes 2 0x82 @ take 32 (lmots_public_key (zeros 16) 40 x))"]
  have "\<exists>root. ref_lms_traverse_path (zeros 16) 40 (lmots_public_key (zeros 16) 40 x) (zeros 160) 5 = Inr root"
    by (auto simp add: ref_lms_traverse_path_def Let_def header_eq simp del: upt_rec_numeral path_queries.simps)
  then obtain root where root: "ref_lms_traverse_path (zeros 16) 40 (lmots_public_key (zeros 16) 40 x) (zeros 160) 5 = Inr root"
    by blast
  have gen: "ref_lms_generate_test_fixture (zeros 16) 40 [1] (zeros 32) x (zeros 160) 5 = Inr (zeros 32, y, zeros 160, root)"
    unfolding ref_lms_generate_test_fixture_def header_eq Let_def
    by (simp add: leaf [unfolded y_def a_def, simplified] root y_def a_def del: upt_Suc upt_rec_numeral)
  with lms_fixture_verifies [OF _ x gen] show ?thesis by (auto simp add: x_def)
qed

text \<open>
  C32. The checksum makes the one-time signature one-way in at least one chain: for two different
  digests some chain position of the second lies strictly beyond the first's, so the signature of
  one message never contains the chain values that a signature of another needs.
\<close>

theorem lmots_checksum_protects:
  assumes "length Q = 32" "length Q' = 32" "Q \<noteq> Q'"
  shows "\<exists>i < 67. coefficients Q' ! i < coefficients Q ! i"
proof (rule ccontr)
  assume "\<not> ?thesis"
  then have le: "coefficients Q ! i \<le> coefficients Q' ! i" if "i < 67" for i using that not_less by blast
  define c where "c = checksum (digits Q)"
  define c' where "c' = checksum (digits Q')"
  have "c \<le> 960" "c' \<le> 960"
    using checksum_le [of "digits Q"] checksum_le [of "digits Q'"] assms by (simp_all add: c_def c'_def)
  have len: "length (digits Q) = 64" "length (digits Q') = 64" using assms by simp_all
  have "digits Q ! i \<le> digits Q' ! i" if "i < 64" for i
    using le [of i] that len by (simp add: coefficients_eq assms nth_append)
  then have dom: "list_all2 (\<le>) (digits Q) (digits Q')" using len by (simp add: list_all2_conv_all_nth)
  have "c' \<le> c" unfolding c_def c'_def using dom digits_le by (intro checksum_anti) blast+
  moreover have "c div 256 \<le> c' div 256" "c div 16 mod 16 \<le> c' div 16 mod 16" "c mod 16 \<le> c' mod 16"
    using le [of 64] le [of 65] le [of 66] len
    by (simp_all add: coefficients_eq assms nth_append c_def c'_def)
  moreover have "n = 256 * (n div 256) + 16 * (n div 16 mod 16) + n mod 16" for n :: nat
  proof -
    have "n div 256 = n div 16 div 16" using div_mult2_eq [of n 16 16] by simp
    then show ?thesis using div_mult_mod_eq [of n 16] div_mult_mod_eq [of "n div 16" 16] by linarith
  qed
  from this [of c] this [of c'] have "c \<le> c'" using calculation by linarith
  ultimately have "c = c'" by simp
  then have "digits Q = digits Q'" using dom digits_le unfolding c_def c'_def by (intro checksum_strict) simp_all
  with assms(3) digits_inject show False by blast
qed

theorem lmots_checksum_protects_witness:
  "\<exists>i < 67. coefficients (replicate 32 1) ! i < coefficients (zeros 32) ! i"
proof (rule lmots_checksum_protects)
  show "zeros 32 \<noteq> replicate 32 1" by (auto simp add: zeros_def)
qed simp_all

text \<open>
  A root binds its leaf and its path: as long as the traversals do not themselves hash two
  different inputs to the same value, the same leaf number leads to the same root exactly when the
  leaves and the used parts of the authentication paths are equal.
\<close>

theorem lms_root_binds_leaf:
  assumes "ref_lms_traverse_path I q leaf path h = Inr root" "ref_lms_traverse_path I q leaf' path' h = Inr root'"
    and "length leaf = 32" "length leaf' = 32" "32 * h \<le> length path" "32 * h \<le> length path'"
    and "\<And>i. i \<le> h \<Longrightarrow> sha256 (lms_queries I q leaf path h ! i) = sha256 (lms_queries I q leaf' path' h ! i) \<Longrightarrow>
      lms_queries I q leaf path h ! i = lms_queries I q leaf' path' h ! i"
  shows "root = root' \<longleftrightarrow> leaf = leaf' \<and> take (32 * h) path = take (32 * h) path'"
proof
  define m where "m = (\<lambda>l. take 16 I @ be_bytes 4 (2 ^ h + q) @ be_bytes 2 0x82 @ take 32 (l :: bytes))"
  have qs: "lms_queries I q l p h = m l # path_queries I (2 ^ h + q) p h (sha256 (m l))" for l p
    by (simp add: lms_queries_def Let_def m_def)
  assume "root = root'"
  then have hash: "last_hash (sha256 (m leaf)) (path_queries I (2 ^ h + q) path h (sha256 (m leaf))) =
      last_hash (sha256 (m leaf')) (path_queries I (2 ^ h + q) path' h (sha256 (m leaf')))"
    using traverse_queries [OF assms(1)] traverse_queries [OF assms(2)] unfolding qs
    by (simp add: last_hash_def split: if_splits)
  have no: "\<not> (sha256 (m leaf) \<noteq> sha256 (m leaf') \<or> take (32 * h) path \<noteq> take (32 * h) path')"
  proof
    assume "sha256 (m leaf) \<noteq> sha256 (m leaf') \<or> take (32 * h) path \<noteq> take (32 * h) path'"
    from path_collision [OF _ _ assms(5,6) hash this] obtain i where "i < h"
      "path_queries I (2 ^ h + q) path h (sha256 (m leaf)) ! i \<noteq> path_queries I (2 ^ h + q) path' h (sha256 (m leaf')) ! i"
      "sha256 (path_queries I (2 ^ h + q) path h (sha256 (m leaf)) ! i) =
         sha256 (path_queries I (2 ^ h + q) path' h (sha256 (m leaf')) ! i)" by auto
    with assms(7) [of "Suc i"] show False unfolding qs by simp
  qed
  then have "m leaf = m leaf'" using assms(7) [of 0] unfolding qs by simp
  then show "leaf = leaf' \<and> take (32 * h) path = take (32 * h) path'" using no assms(3,4) by (simp add: m_def)
next
  assume eq: "leaf = leaf' \<and> take (32 * h) path = take (32 * h) path'"
  then have "lms_queries I q leaf path h = lms_queries I q leaf' path' h"
    unfolding lms_queries_def Let_def
    by (metis path_queries_take)
  then show "root = root'" using traverse_queries [OF assms(1)] traverse_queries [OF assms(2)] by simp
qed

theorem lms_root_binds_leaf_witness:
  "\<exists>root. ref_lms_traverse_path (zeros 16) 1 (zeros 32) (zeros 32) 1 = Inr root \<and>
     ref_lms_traverse_path (zeros 16) 1 (zeros 32) (zeros 32 @ [7]) 1 = Inr root"
proof -
  have run: "\<exists>root. ref_lms_traverse_path (zeros 16) 1 (zeros 32) path 1 = Inr root" for path
    by (simp add: ref_lms_traverse_path_def Let_def header_eq path_step_def)
  obtain r1 where r1: "ref_lms_traverse_path (zeros 16) 1 (zeros 32) (zeros 32) 1 = Inr r1" using run by blast
  obtain r2 where r2: "ref_lms_traverse_path (zeros 16) 1 (zeros 32) (zeros 32 @ [7]) 1 = Inr r2" using run by blast
  have "lms_queries (zeros 16) 1 (zeros 32) (zeros 32) 1 = lms_queries (zeros 16) 1 (zeros 32) (zeros 32 @ [7]) 1"
    by (simp add: lms_queries_def Let_def)
  then have "r1 = r2" using lms_root_binds_leaf [OF r1 r2] by simp
  with r1 r2 show ?thesis by blast
qed

end
