(* ===== verification/Masking.thy ===== *)
theory Masking
  imports Host PyHash
begin

text \<open>
  Masking: the descriptor of \<open>dr25_masking_prng_abi.py\<close>, and of \<open>dr25_masking_prng_graph.py\<close>
  the operations dispatched to the device and the reference routines.  Polynomials are numpy arrays
  of type \<open>uint16\<close>: lists of 16-bit words, with numpy's wrap-around, its error for a Python integer
  that does not fit the array's type, its broadcasting of arrays of length 1 and its remainder by
  zero, which is zero.  A tuple of shares is the list of the shares.
\<close>

unbundle bit_operations_syntax

type_synonym u16 = "16 word"
type_synonym u32 = "32 word"

subsection \<open>Descriptor\<close>

abbreviation (input) MAGIC_DESC_DR25 :: int where "MAGIC_DESC_DR25 \<equiv> 0x01254D53"
abbreviation (input) MODE_PRNG_EXPAND :: int where "MODE_PRNG_EXPAND \<equiv> 0"
abbreviation (input) MODE_MASK_1ST_ORDER :: int where "MODE_MASK_1ST_ORDER \<equiv> 1"
abbreviation (input) MODE_MASK_2ND_ORDER :: int where "MODE_MASK_2ND_ORDER \<equiv> 2"
abbreviation (input) MODE_UNMASK_1ST_ORDER :: int where "MODE_UNMASK_1ST_ORDER \<equiv> 3"
abbreviation (input) MODE_UNMASK_2ND_ORDER :: int where "MODE_UNMASK_2ND_ORDER \<equiv> 4"
abbreviation (input) MODE_MASKED_ADD_1ST :: int where "MODE_MASKED_ADD_1ST \<equiv> 5"
abbreviation (input) MODE_SNI_REFRESH_1ST :: int where "MODE_SNI_REFRESH_1ST \<equiv> 7"
abbreviation (input) MODE_SNI_REFRESH_2ND :: int where "MODE_SNI_REFRESH_2ND \<equiv> 8"
abbreviation (input) MODULUS_MLKEM :: int where "MODULUS_MLKEM \<equiv> 3329"
abbreviation (input) MODULUS_MLDSA :: int where "MODULUS_MLDSA \<equiv> 8380417"

record dr25_descriptor =
  d25_operation_mode :: int
  d25_modulus :: int
  d25_num_coeffs :: int
  d25_epoch :: int
  d25_reserved :: int

definition pack_dr25_descriptor :: "int \<Rightarrow> int \<Rightarrow> int \<Rightarrow> int \<Rightarrow> bytes py" where
  "pack_dr25_descriptor operation_mode modulus num_coeffs epoch =
     struct_pack_into [U 4, U 4, U 4, U 4, U 4, U 4, U 4, U 4] (zeros 32) 0
       [MAGIC_DESC_DR25, operation_mode, modulus, num_coeffs, epoch, 0, 0, 0]"

definition unpack_dr25_descriptor :: "bytes \<Rightarrow> dr25_descriptor py" where
  "unpack_dr25_descriptor data =
     (if length data < 32 then Inl ValueError
      else bindE (struct_unpack_from [U 4, U 4, U 4, U 4, U 4, U 4, U 4, U 4] data 0) (\<lambda>w.
        if w ! 0 \<noteq> MAGIC_DESC_DR25 then Inl ValueError
        else Inr \<lparr>d25_operation_mode = w ! 1, d25_modulus = w ! 2, d25_num_coeffs = w ! 3,
          d25_epoch = w ! 4, d25_reserved = w ! 5\<rparr>))"

subsection \<open>Arrays\<close>

definition u16_bytes :: "u16 list \<Rightarrow> bytes" where
  "u16_bytes xs = concat (map (\<lambda>x. le_bytes 2 (uint x)) xs)"

fun u16_frombuffer :: "bytes \<Rightarrow> u16 list py" where
  "u16_frombuffer [] = Inr []"
| "u16_frombuffer [b] = Inl ValueError"
| "u16_frombuffer (b0 # b1 # bs) =
     bindE (u16_frombuffer bs) (\<lambda>xs. Inr (word_of_int (le_int [b0, b1]) # xs))"

definition scalar16 :: "int \<Rightarrow> u16 py" where
  "scalar16 m = (if 0 \<le> m \<and> m < 65536 then Inr (word_of_int m) else Inl OverflowError)"

definition scalar32 :: "int \<Rightarrow> u32 py" where
  "scalar32 m = (if 0 \<le> m \<and> m < 4294967296 then Inr (word_of_int m) else Inl OverflowError)"

definition np_map2 :: "('a \<Rightarrow> 'b \<Rightarrow> 'c) \<Rightarrow> 'a list \<Rightarrow> 'b list \<Rightarrow> 'c list py" where
  "np_map2 f xs ys =
     (if length xs = length ys then Inr (map2 f xs ys)
      else if length xs = 1 then Inr (map (f (xs ! 0)) ys)
      else if length ys = 1 then Inr (map (\<lambda>x. f x (ys ! 0)) xs)
      else Inl ValueError)"

definition np_mod :: "'w::len word \<Rightarrow> 'w word \<Rightarrow> 'w word" where
  "np_mod x m = (if m = 0 then 0 else x mod m)"

definition as_u32 :: "u16 list \<Rightarrow> u32 list" where
  "as_u32 xs = map ucast xs"

definition as_u16 :: "u32 list \<Rightarrow> u16 list" where
  "as_u16 xs = map ucast xs"

subsection \<open>Operations on the device\<close>

definition dispatch_dr25 :: "host \<Rightarrow> bytes \<Rightarrow> bytes \<Rightarrow> bytes py" where
  "dispatch_dr25 h desc_bytes req_buf = bindE (dispatch 8192 h desc_bytes req_buf) check_status"

text \<open>The polynomials one behind the other, each in a window of the first one's size.\<close>

definition poly_request :: "u16 list list \<Rightarrow> bytes" where
  "poly_request polys = (let poly_bytes = length (polys ! 0) * 2
     in foldl (\<lambda>buf k. assign_slice (k * poly_bytes) ((k + 1) * poly_bytes) (u16_bytes (polys ! k)) buf)
          (zeros 8192) [0..<length polys])"

definition poly_result :: "nat \<Rightarrow> nat \<Rightarrow> bytes \<Rightarrow> u16 list list py" where
  "poly_result count poly_bytes raw =
     mapE (\<lambda>k. u16_frombuffer (slice (16 + k * poly_bytes) (16 + (k + 1) * poly_bytes) raw)) [0..<count]"

definition on_polys :: "host \<Rightarrow> int \<Rightarrow> int \<Rightarrow> int \<Rightarrow> u16 list list \<Rightarrow> nat \<Rightarrow> u16 list list py" where
  "on_polys h mode modulus epoch polys count =
     bindE (pack_dr25_descriptor mode modulus (int (length (polys ! 0))) epoch) (\<lambda>desc.
       bindE (dispatch_dr25 h desc (poly_request polys)) (poly_result count (length (polys ! 0) * 2)))"

definition prng_expand_mask_on_aie2 :: "host \<Rightarrow> bytes \<Rightarrow> int \<Rightarrow> int \<Rightarrow> nat \<Rightarrow> int \<Rightarrow> u16 list py" where
  "prng_expand_mask_on_aie2 h seed domain_sep modulus num_coeffs epoch =
     bindE (pack_dr25_descriptor MODE_PRNG_EXPAND modulus (int num_coeffs) epoch) (\<lambda>desc.
       bindE (struct_pack_into [U 4] (assign_slice 0 32 (take 32 seed) (zeros 8192)) 32 [domain_sep]) (\<lambda>buf.
         bindE (dispatch_dr25 h desc buf) (\<lambda>raw. u16_frombuffer (slice 16 (16 + num_coeffs * 2) raw))))"

definition mask_1st_order_on_aie2 :: "host \<Rightarrow> u16 list \<Rightarrow> u16 list \<Rightarrow> int \<Rightarrow> int \<Rightarrow> u16 list list py" where
  "mask_1st_order_on_aie2 h s msk modulus epoch = on_polys h MODE_MASK_1ST_ORDER modulus epoch [s, msk] 2"

definition mask_2nd_order_on_aie2 ::
  "host \<Rightarrow> u16 list \<Rightarrow> u16 list \<Rightarrow> u16 list \<Rightarrow> int \<Rightarrow> int \<Rightarrow> u16 list list py" where
  "mask_2nd_order_on_aie2 h s mask1 mask2 modulus epoch =
     on_polys h MODE_MASK_2ND_ORDER modulus epoch [s, mask1, mask2] 3"

definition unmask_1st_order_on_aie2 :: "host \<Rightarrow> u16 list \<Rightarrow> u16 list \<Rightarrow> int \<Rightarrow> int \<Rightarrow> u16 list list py" where
  "unmask_1st_order_on_aie2 h s0 s1 modulus epoch = on_polys h MODE_UNMASK_1ST_ORDER modulus epoch [s0, s1] 1"

definition unmask_2nd_order_on_aie2 ::
  "host \<Rightarrow> u16 list \<Rightarrow> u16 list \<Rightarrow> u16 list \<Rightarrow> int \<Rightarrow> int \<Rightarrow> u16 list list py" where
  "unmask_2nd_order_on_aie2 h s0 s1 s2 modulus epoch =
     on_polys h MODE_UNMASK_2ND_ORDER modulus epoch [s0, s1, s2] 1"

definition masked_add_1st_order_on_aie2 ::
  "host \<Rightarrow> u16 list \<Rightarrow> u16 list \<Rightarrow> u16 list \<Rightarrow> u16 list \<Rightarrow> int \<Rightarrow> int \<Rightarrow> u16 list list py" where
  "masked_add_1st_order_on_aie2 h a0 a1 b0 b1 modulus epoch =
     on_polys h MODE_MASKED_ADD_1ST modulus epoch [a0, a1, b0, b1] 2"

definition sni_refresh_1st_order_on_aie2 ::
  "host \<Rightarrow> u16 list \<Rightarrow> u16 list \<Rightarrow> u16 list \<Rightarrow> int \<Rightarrow> int \<Rightarrow> u16 list list py" where
  "sni_refresh_1st_order_on_aie2 h s0 s1 r modulus epoch =
     on_polys h MODE_SNI_REFRESH_1ST modulus epoch [s0, s1, r] 2"

definition sni_refresh_2nd_order_on_aie2 ::
  "host \<Rightarrow> u16 list \<Rightarrow> u16 list \<Rightarrow> u16 list \<Rightarrow> u16 list \<Rightarrow> u16 list \<Rightarrow> u16 list \<Rightarrow> int \<Rightarrow> int \<Rightarrow> u16 list list py" where
  "sni_refresh_2nd_order_on_aie2 h s0 s1 s2 r01 r02 r12 modulus epoch =
     on_polys h MODE_SNI_REFRESH_2ND modulus epoch [s0, s1, s2, r01, r02, r12] 3"

subsection \<open>Reference routines\<close>

definition ref_prng_expand_mask :: "bytes \<Rightarrow> int \<Rightarrow> int \<Rightarrow> nat \<Rightarrow> u16 list py" where
  "ref_prng_expand_mask seed domain_sep modulus num_coeffs =
     bindE (struct_pack [U 4] [domain_sep]) (\<lambda>ds.
       let raw_bytes = shake128 (take 32 seed @ ds) (num_coeffs * 2)
       in mapE (\<lambda>i. let val = uint (raw_bytes ! (2 * i)) OR push_bit 8 (uint (raw_bytes ! (2 * i + 1)))
            in if modulus = 0 then Inl ZeroDivisionError else scalar16 (val mod modulus)) [0..<num_coeffs])"

definition ref_mask_1st_order :: "u16 list \<Rightarrow> u16 list \<Rightarrow> int \<Rightarrow> (u16 list \<times> u16 list) py" where
  "ref_mask_1st_order s msk modulus =
     bindE (scalar16 modulus) (\<lambda>m.
       bindE (np_map2 (\<lambda>a b. np_mod (a + m - b) m) s msk) (\<lambda>s0.
         Inr (s0, map (\<lambda>b. np_mod b m) msk)))"

definition ref_mask_2nd_order ::
  "u16 list \<Rightarrow> u16 list \<Rightarrow> u16 list \<Rightarrow> int \<Rightarrow> (u16 list \<times> u16 list \<times> u16 list) py" where
  "ref_mask_2nd_order s mask1 mask2 modulus =
     bindE (scalar16 (2 * modulus)) (\<lambda>m2.
       bindE (np_map2 (\<lambda>a b. a + m2 - b) s mask1) (\<lambda>d.
         bindE (np_map2 (\<lambda>a b. a - b) d mask2) (\<lambda>d.
           bindE (scalar16 modulus) (\<lambda>m.
             Inr (map (\<lambda>a. np_mod a m) d, map (\<lambda>b. np_mod b m) mask1, map (\<lambda>b. np_mod b m) mask2)))))"

definition ref_unmask_1st_order :: "u16 list \<Rightarrow> u16 list \<Rightarrow> int \<Rightarrow> u16 list py" where
  "ref_unmask_1st_order s0 s1 modulus =
     bindE (np_map2 (+) (as_u32 s0) (as_u32 s1)) (\<lambda>t.
       bindE (scalar32 modulus) (\<lambda>m. Inr (as_u16 (map (\<lambda>a. np_mod a m) t))))"

definition ref_unmask_2nd_order :: "u16 list \<Rightarrow> u16 list \<Rightarrow> u16 list \<Rightarrow> int \<Rightarrow> u16 list py" where
  "ref_unmask_2nd_order s0 s1 s2 modulus =
     bindE (np_map2 (+) (as_u32 s0) (as_u32 s1)) (\<lambda>t.
       bindE (np_map2 (+) t (as_u32 s2)) (\<lambda>t.
         bindE (scalar32 modulus) (\<lambda>m. Inr (as_u16 (map (\<lambda>a. np_mod a m) t)))))"

definition ref_masked_add_1st ::
  "u16 list \<Rightarrow> u16 list \<Rightarrow> u16 list \<Rightarrow> u16 list \<Rightarrow> int \<Rightarrow> (u16 list \<times> u16 list) py" where
  "ref_masked_add_1st a0 a1 b0 b1 modulus =
     bindE (np_map2 (+) (as_u32 a0) (as_u32 b0)) (\<lambda>c0.
       bindE (scalar32 modulus) (\<lambda>m.
         bindE (np_map2 (+) (as_u32 a1) (as_u32 b1)) (\<lambda>c1.
           Inr (as_u16 (map (\<lambda>a. np_mod a m) c0), as_u16 (map (\<lambda>a. np_mod a m) c1)))))"

definition ref_sni_refresh_1st :: "u16 list \<Rightarrow> u16 list \<Rightarrow> u16 list \<Rightarrow> int \<Rightarrow> (u16 list \<times> u16 list) py" where
  "ref_sni_refresh_1st s0 s1 r modulus =
     bindE (np_map2 (+) (as_u32 s0) (as_u32 r)) (\<lambda>t0.
       bindE (scalar32 modulus) (\<lambda>m.
         bindE (np_map2 (\<lambda>a b. a + m - np_mod b m) (as_u32 s1) (as_u32 r)) (\<lambda>t1.
           Inr (as_u16 (map (\<lambda>a. np_mod a m) t0), as_u16 (map (\<lambda>a. np_mod a m) t1)))))"

definition ref_sni_refresh_2nd ::
  "u16 list \<Rightarrow> u16 list \<Rightarrow> u16 list \<Rightarrow> u16 list \<Rightarrow> u16 list \<Rightarrow> u16 list \<Rightarrow> int \<Rightarrow>
     (u16 list \<times> u16 list \<times> u16 list) py" where
  "ref_sni_refresh_2nd s0 s1 s2 r01 r02 r12 modulus =
     bindE (scalar32 modulus) (\<lambda>m.
       let m01 = map (\<lambda>a. np_mod a m) (as_u32 r01);
           m02 = map (\<lambda>a. np_mod a m) (as_u32 r02);
           m12 = map (\<lambda>a. np_mod a m) (as_u32 r12)
       in bindE (bindE (np_map2 (+) (as_u32 s0) m01) (\<lambda>t. np_map2 (+) t m02)) (\<lambda>t0.
          bindE (bindE (np_map2 (\<lambda>a b. a + m - b) (as_u32 s1) m01) (\<lambda>t. np_map2 (+) t m12)) (\<lambda>t1.
          bindE (scalar32 (2 * modulus)) (\<lambda>m2.
          bindE (bindE (np_map2 (\<lambda>a b. a + m2 - b) (as_u32 s2) m02) (\<lambda>t. np_map2 (-) t m12)) (\<lambda>t2.
            Inr (as_u16 (map (\<lambda>a. np_mod a m) t0), as_u16 (map (\<lambda>a. np_mod a m) t1),
              as_u16 (map (\<lambda>a. np_mod a m) t2)))))))"

subsection \<open>Library\<close>

lemma masking_device_call:
  "on_polys h mode modulus epoch polys count = Inr r \<Longrightarrow>
    iron_ok h \<and> (\<exists>req desc out. ho_program h req desc = Inr out)"
  "prng_expand_mask_on_aie2 h seed ds modulus n epoch = Inr r' \<Longrightarrow>
    iron_ok h \<and> (\<exists>req desc out. ho_program h req desc = Inr out)"
  by (auto simp add: on_polys_def prng_expand_mask_on_aie2_def dispatch_dr25_def bindE_Inr_iff dispatch_Inr_iff hardware_ok_def)

interpretation op_prng: device_operation "\<lambda>h. prng_expand_mask_on_aie2 h seed ds q n e" for seed ds q n e
  by unfold_locales (rule masking_device_call)

interpretation op_on_polys: device_operation "\<lambda>h. on_polys h mode q e polys count" for mode q e polys count
  by unfold_locales (rule masking_device_call)

text \<open>Values of words under the wrap-around, and the remainder.\<close>

lemma uint_u16: "uint (x :: u16) < 65536"
proof -
  have "uint x < 2 ^ LENGTH(16)" by (rule unsigned_less)
  then show ?thesis by simp
qed

lemma uint_u32_of_u16 [simp]: "uint (ucast (x :: u16) :: u32) = uint x"
  using uint_u16 [of x] by (simp add: unsigned_ucast_eq take_bit_int_eq_self_iff)

lemma uint_np_mod: "m \<noteq> 0 \<Longrightarrow> uint (np_mod x m) = uint x mod uint m"
  by (simp add: np_mod_def uint_mod_distrib)

lemma scalar16_Inr: "scalar16 q = Inr m \<longleftrightarrow> 0 \<le> q \<and> q < 65536 \<and> m = word_of_int q"
  by (auto simp add: scalar16_def)

lemma scalar32_Inr: "scalar32 q = Inr m \<longleftrightarrow> 0 \<le> q \<and> q < 4294967296 \<and> m = word_of_int q"
  by (auto simp add: scalar32_def)

lemma np_map2_same: "length xs = length ys \<Longrightarrow> np_map2 f xs ys = Inr (map2 f xs ys)"
  by (simp add: np_map2_def)

lemma length_as [simp]: "length (as_u32 xs) = length xs" "length (as_u16 ys) = length ys"
  by (simp_all add: as_u32_def as_u16_def)

lemma nth_as [simp]:
  "i < length xs \<Longrightarrow> as_u32 xs ! i = ucast (xs ! i)" "i < length ys \<Longrightarrow> as_u16 ys ! i = ucast (ys ! i)"
  by (simp_all add: as_u32_def as_u16_def)

text \<open>What each element-wise expression of the routines is worth.\<close>

lemma mask_element:
  assumes "0 < q" "k * q \<le> 65536" "uint (a :: u16) < q" "uint b < k * q" "0 < k" "k * q < 65536"
    and "uint a + k * q - uint b < 65536"
  shows "uint (a + word_of_int (k * q) - b) = uint a + k * q - uint b"
proof -
  have "0 \<le> uint a + k * q - uint b" using assms(3,4) uint_nonnegative [of a] by linarith
  with assms show ?thesis by (simp add: uint_word_ariths uint_word_of_int mod_simps)
qed

lemma sum_element:
  "uint (x :: u32) + uint y < 4294967296 \<Longrightarrow> uint (x + y) = uint x + uint y"
  by (simp add: uint_word_ariths)

lemma diff_element: "uint (y :: u32) \<le> uint x \<Longrightarrow> uint (x - y) = uint x - uint y"
proof -
  assume le: "uint y \<le> uint x"
  have "uint x < 2 ^ LENGTH(32)" by (rule unsigned_less)
  then have "uint x < 4294967296" by simp
  then have "uint x - uint y < 4294967296" using uint_nonnegative [of y] by linarith
  with le show ?thesis by (simp add: uint_word_ariths)
qed

lemma uint_scalar32: "0 \<le> q \<Longrightarrow> q < 4294967296 \<Longrightarrow> uint (word_of_int q :: u32) = q"
  by (simp add: uint_word_of_int)

lemma np_mod_scalar32:
  assumes "0 < q" "q < 4294967296"
  shows "uint (np_mod x (word_of_int q :: u32)) = uint x mod q"
proof -
  have "word_of_int q \<noteq> (0 :: u32)" using assms uint_scalar32 [of q] by (metis less_imp_le unsigned_0 less_irrefl)
  then show ?thesis using assms by (simp add: uint_np_mod uint_scalar32)
qed

lemma np_mod_scalar16:
  assumes "0 < q" "q < 65536"
  shows "uint (np_mod x (word_of_int q :: u16)) = uint x mod q"
proof -
  have u: "uint (word_of_int q :: u16) = q" using assms by (simp add: uint_word_of_int)
  then have "word_of_int q \<noteq> (0 :: u16)" using assms by (metis unsigned_0 less_irrefl)
  then show ?thesis by (simp add: uint_np_mod u)
qed

lemma u16_of_reduced:
  assumes "0 < q" "q \<le> 65536"
  shows "uint (ucast (np_mod x (word_of_int q :: u32)) :: u16) = uint x mod q"
proof -
  have "0 \<le> uint x mod q" "uint x mod q < q" using assms(1) by simp_all
  then have "0 \<le> uint x mod q" "uint x mod q < 65536" using assms(2) by linarith+
  then show ?thesis using assms by (simp add: unsigned_ucast_eq take_bit_int_eq_self np_mod_scalar32)
qed

text \<open>The routines on polynomials of one length, as arithmetic modulo \<open>q\<close>.\<close>

definition residue :: "int \<Rightarrow> int \<Rightarrow> u16" where
  "residue q v = word_of_int (v mod q)"

lemma residue_shift: "v = w + q * k \<Longrightarrow> residue q v = residue q w"
  by (simp add: residue_def)

lemma mod_as_minus: "(x :: int) mod q = x - q * (x div q)"
  by (simp add: minus_mult_div_eq_mod)

lemma uint_residue:
  assumes "0 < q" "q \<le> 65536"
  shows "uint (residue q v) = v mod q"
proof -
  have "0 \<le> v mod q" "v mod q < q" using assms(1) by simp_all
  then have "0 \<le> v mod q" "v mod q < 65536" using assms(2) by linarith+
  then show ?thesis by (simp add: residue_def uint_word_of_int)
qed

lemma reduced_u32: "0 < q \<Longrightarrow> q \<le> 65536 \<Longrightarrow> (ucast (np_mod x (word_of_int q :: u32)) :: u16) = residue q (uint x)"
  by (simp add: word_uint_eq_iff u16_of_reduced uint_residue)

lemma reduced_u16: "0 < q \<Longrightarrow> q < 65536 \<Longrightarrow> np_mod x (word_of_int q :: u16) = residue q (uint x)"
  by (simp add: word_uint_eq_iff np_mod_scalar16 uint_residue)

lemma unmask_1st:
  assumes "0 < q" "q \<le> 65536" "length s1 = length s0"
  shows "ref_unmask_1st_order s0 s1 q = Inr (map (\<lambda>i. residue q (uint (s0 ! i) + uint (s1 ! i))) [0..<length s0])"
proof -
  have add: "uint (ucast a + ucast b :: u32) = uint a + uint b" for a b :: u16
    using uint_u16 [of a] uint_u16 [of b] by (subst sum_element) simp_all
  have "as_u16 (map (\<lambda>a. np_mod a (word_of_int q)) (map2 (+) (as_u32 s0) (as_u32 s1))) =
      map (\<lambda>i. residue q (uint (s0 ! i) + uint (s1 ! i))) [0..<length s0]"
    using assms by (intro nth_equalityI) (simp_all add: reduced_u32 add)
  then show ?thesis using assms by (simp add: ref_unmask_1st_order_def np_map2_same scalar32_def)
qed

lemma unmask_2nd:
  assumes "0 < q" "q \<le> 65536" "length s1 = length s0" "length s2 = length s0"
  shows "ref_unmask_2nd_order s0 s1 s2 q =
    Inr (map (\<lambda>i. residue q (uint (s0 ! i) + uint (s1 ! i) + uint (s2 ! i))) [0..<length s0])"
proof -
  have add: "uint (ucast a + ucast b + ucast c :: u32) = uint a + uint b + uint c" for a b c :: u16
    using uint_u16 [of a] uint_u16 [of b] uint_u16 [of c] by (simp add: sum_element)
  have "as_u16 (map (\<lambda>a. np_mod a (word_of_int q)) (map2 (+) (map2 (+) (as_u32 s0) (as_u32 s1)) (as_u32 s2))) =
      map (\<lambda>i. residue q (uint (s0 ! i) + uint (s1 ! i) + uint (s2 ! i))) [0..<length s0]"
    using assms by (intro nth_equalityI) (simp_all add: reduced_u32 add)
  then show ?thesis using assms by (simp add: ref_unmask_2nd_order_def np_map2_same scalar32_def)
qed

lemma refresh_1st:
  assumes "0 < q" "q \<le> 65536" "length s1 = length s0" "length r = length s0"
  shows "ref_sni_refresh_1st s0 s1 r q =
    Inr (map (\<lambda>i. residue q (uint (s0 ! i) + uint (r ! i))) [0..<length s0],
      map (\<lambda>i. residue q (uint (s1 ! i) - uint (r ! i))) [0..<length s0])"
proof -
  have add: "uint (ucast a + ucast b :: u32) = uint a + uint b" for a b :: u16
    using uint_u16 [of a] uint_u16 [of b] by (subst sum_element) simp_all
  have sub: "uint (ucast a + word_of_int q - np_mod (ucast b) (word_of_int q) :: u32) = uint a + q - uint b mod q"
    for a b :: u16
  proof -
    have s: "uint (ucast a + word_of_int q :: u32) = uint a + q"
      using uint_u16 [of a] assms by (simp add: sum_element uint_scalar32)
    have "uint b mod q < q" using assms by simp
    then have "uint b mod q \<le> uint a + q" using uint_nonnegative [of a] by linarith
    moreover have "uint (np_mod (ucast b) (word_of_int q) :: u32) = uint b mod q"
      using assms by (simp add: np_mod_scalar32)
    ultimately show ?thesis by (simp add: diff_element s)
  qed
  have shift: "residue q (a + q - b mod q) = residue q (a - b)" for a b
    by (rule residue_shift [of _ _ _ "1 + b div q"]) (simp add: mod_as_minus algebra_simps)
  have "as_u16 (map (\<lambda>a. np_mod a (word_of_int q)) (map2 (+) (as_u32 s0) (as_u32 r))) =
      map (\<lambda>i. residue q (uint (s0 ! i) + uint (r ! i))) [0..<length s0]"
    using assms by (intro nth_equalityI) (simp_all add: reduced_u32 add)
  moreover have "as_u16 (map (\<lambda>a. np_mod a (word_of_int q))
      (map2 (\<lambda>a b. a + word_of_int q - np_mod b (word_of_int q)) (as_u32 s1) (as_u32 r))) =
      map (\<lambda>i. residue q (uint (s1 ! i) - uint (r ! i))) [0..<length s0]"
    using assms by (intro nth_equalityI) (simp_all add: reduced_u32 sub shift)
  ultimately show ?thesis using assms by (simp add: ref_sni_refresh_1st_def np_map2_same scalar32_def)
qed

lemma refresh_2nd_elements:
  fixes a b c :: u16
  assumes "0 < q" "q \<le> 65536"
  defines "m \<equiv> \<lambda>x :: u16. np_mod (ucast x) (word_of_int q :: u32)"
  shows "uint (ucast a + m b + m c) = uint a + uint b mod q + uint c mod q"
    and "uint (ucast a + word_of_int q - m b + m c) = uint a + q - uint b mod q + uint c mod q"
    and "uint (ucast a + word_of_int (2 * q) - m b - m c) = uint a + 2 * q - uint b mod q - uint c mod q"
proof -
  define A B C where "A = uint a" and "B = uint b mod q" and "C = uint c mod q"
  have range: "0 \<le> A" "A < 65536" "0 \<le> B" "B < q" "0 \<le> C" "C < q"
    using assms uint_u16 [of a] by (simp_all add: A_def B_def C_def)
  have m: "uint (m b) = B" "uint (m c) = C" and A: "uint (ucast a :: u32) = A"
    using assms by (simp_all add: m_def np_mod_scalar32 A_def B_def C_def)
  have q: "uint (word_of_int q :: u32) = q" "uint (word_of_int (2 * q) :: u32) = 2 * q"
    using assms by (simp_all only: uint_scalar32)
  have 1: "uint (ucast a + m b) = A + B" using range assms(2) by (subst sum_element) (simp_all only: m A)
  show "uint (ucast a + m b + m c) = uint a + uint b mod q + uint c mod q"
    using range assms(2) by (subst sum_element) (simp_all only: 1 m A_def B_def C_def)
  have 2: "uint (ucast a + word_of_int q :: u32) = A + q"
    using range assms(2) by (subst sum_element) (simp_all only: q A)
  have 3: "uint (ucast a + word_of_int q - m b) = A + q - B"
    using range by (subst diff_element) (simp_all only: 2 m)
  show "uint (ucast a + word_of_int q - m b + m c) = uint a + q - uint b mod q + uint c mod q"
    using range assms(2) by (subst sum_element) (simp_all only: 3 m A_def B_def C_def)
  have 4: "uint (ucast a + word_of_int (2 * q) :: u32) = A + 2 * q"
    using range assms(2) by (subst sum_element) (simp_all only: q A)
  have 5: "uint (ucast a + word_of_int (2 * q) - m b) = A + 2 * q - B"
    using range by (subst diff_element) (simp_all only: 4 m)
  show "uint (ucast a + word_of_int (2 * q) - m b - m c) = uint a + 2 * q - uint b mod q - uint c mod q"
    using range by (subst diff_element) (simp_all only: 5 m A_def B_def C_def)
qed

lemma refresh_2nd:
  assumes "0 < q" "q \<le> 65536" "length s1 = length s0" "length s2 = length s0"
    "length r01 = length s0" "length r02 = length s0" "length r12 = length s0"
  shows "ref_sni_refresh_2nd s0 s1 s2 r01 r02 r12 q =
    Inr (map (\<lambda>i. residue q (uint (s0 ! i) + uint (r01 ! i) + uint (r02 ! i))) [0..<length s0],
      map (\<lambda>i. residue q (uint (s1 ! i) - uint (r01 ! i) + uint (r12 ! i))) [0..<length s0],
      map (\<lambda>i. residue q (uint (s2 ! i) - uint (r02 ! i) - uint (r12 ! i))) [0..<length s0])"
proof -
  note el = refresh_2nd_elements [OF assms(1,2)]
  have r1: "residue q (a + x mod q + y mod q) = residue q (a + x + y)" for a x y
    by (rule residue_shift [of _ _ _ "- (x div q) - y div q"]) (simp add: mod_as_minus algebra_simps)
  have r2: "residue q (a + q - x mod q + y mod q) = residue q (a - x + y)" for a x y
    by (rule residue_shift [of _ _ _ "1 + x div q - y div q"]) (simp add: mod_as_minus algebra_simps)
  have r3: "residue q (a + 2 * q - x mod q - y mod q) = residue q (a - x - y)" for a x y
    by (rule residue_shift [of _ _ _ "2 + x div q + y div q"]) (simp add: mod_as_minus algebra_simps)
  have m: "map (\<lambda>a. np_mod a (word_of_int q :: u32)) (as_u32 r) = map (\<lambda>x. np_mod (ucast x) (word_of_int q)) r" for r
    by (simp add: as_u32_def)
  have s: "np_map2 f xs ys = Inr (map (\<lambda>i. f (xs ! i) (ys ! i)) [0..<length s0])"
    if "length xs = length s0" "length ys = length s0" for f :: "u32 \<Rightarrow> u32 \<Rightarrow> u32" and xs ys
    using that by (simp add: np_map2_same) (intro nth_equalityI; simp)
  have "scalar32 q = Inr (word_of_int q)" "scalar32 (2 * q) = Inr (word_of_int (2 * q))"
    using assms(1,2) by (simp_all add: scalar32_def)
  then show ?thesis
    unfolding ref_sni_refresh_2nd_def Let_def m
    using assms(3-7) by (simp add: s) (intro conjI nth_equalityI;
      simp add: reduced_u32 el el(3) [simplified] r1 r2 r3 assms(1,2))
qed

lemma sum16: "uint (x :: u16) + uint y < 65536 \<Longrightarrow> uint (x + y) = uint x + uint y"
  by (simp add: uint_word_ariths)

lemma diff16: "uint (y :: u16) \<le> uint x \<Longrightarrow> uint (x - y) = uint x - uint y"
proof -
  assume le: "uint y \<le> uint x"
  have "uint x - uint y < 65536" using uint_u16 [of x] uint_nonnegative [of y] by linarith
  with le show ?thesis by (simp add: uint_word_ariths)
qed

lemma mask_elements:
  fixes a b c :: u16
  assumes "uint a < q" "uint b < q" "uint c < q"
  shows "2 * q \<le> 65536 \<Longrightarrow> uint (a + word_of_int q - b) = uint a + q - uint b"
    and "3 * q \<le> 65536 \<Longrightarrow> uint (a + word_of_int (2 * q) - b - c) = uint a + 2 * q - uint b - uint c"
proof -
  note nn = uint_nonnegative [of a] uint_nonnegative [of b] uint_nonnegative [of c]
  have w: "uint (word_of_int k :: u16) = k" if "0 \<le> k" "k < 65536" for k using that by (simp add: uint_word_of_int)
  have "0 \<le> q" using assms(1) nn(1) by linarith
  {
    assume "2 * q \<le> 65536"
    moreover from this have 1: "uint (a + word_of_int q) = uint a + q"
      using assms nn \<open>0 \<le> q\<close> w [of q] by (subst sum16) simp_all
    ultimately show "uint (a + word_of_int q - b) = uint a + q - uint b"
      using assms nn by (subst diff16) (simp_all only: 1)
  }
  assume "3 * q \<le> 65536"
  moreover from this have 1: "uint (a + word_of_int (2 * q)) = uint a + 2 * q"
    using assms nn \<open>0 \<le> q\<close> w [of "2 * q"] by (subst sum16) simp_all
  moreover from this have 2: "uint (a + word_of_int (2 * q) - b) = uint a + 2 * q - uint b"
    using assms nn by (subst diff16) (simp_all only: 1)
  ultimately show "uint (a + word_of_int (2 * q) - b - c) = uint a + 2 * q - uint b - uint c"
    using assms nn by (subst diff16) (simp_all only: 2)
qed

abbreviation (input) reduced :: "int \<Rightarrow> u16 list \<Rightarrow> bool" where
  "reduced q xs \<equiv> \<forall>x \<in> set xs. uint x < q"

lemma mask_1st:
  assumes "0 < q" "2 * q \<le> 65536" "length mk = length s" "reduced q s" "reduced q mk"
  shows "ref_mask_1st_order s mk q = Inr (map (\<lambda>i. residue q (uint (s ! i) - uint (mk ! i))) [0..<length s], mk)"
proof -
  have "np_mod (s ! i + word_of_int q - mk ! i) (word_of_int q) = residue q (uint (s ! i) - uint (mk ! i))"
    if "i < length s" for i
  proof -
    have "uint (s ! i) < q" "uint (mk ! i) < q" using assms(3,4,5) that by simp_all
    then have "uint (s ! i + word_of_int q - mk ! i) = uint (s ! i) + q - uint (mk ! i)"
      using assms(2) by (intro mask_elements(1) [where c = "s ! i"])
    then have "np_mod (s ! i + word_of_int q - mk ! i) (word_of_int q) = residue q (uint (s ! i) + q - uint (mk ! i))"
      using assms(1,2) by (simp only: reduced_u16)
    then show ?thesis by (simp only: residue_shift [of _ "uint (s ! i) - uint (mk ! i)" q 1])
  qed
  moreover have "map (\<lambda>b. np_mod b (word_of_int q)) mk = mk"
    using assms(1,2,5) by (intro map_idI) (simp add: reduced_u16 residue_def)
  ultimately show ?thesis using assms
    by (simp add: ref_mask_1st_order_def np_map2_same scalar16_def) (intro nth_equalityI; simp)
qed

lemma mask_2nd:
  assumes "0 < q" "3 * q \<le> 65536" "length m1 = length s" "length m2 = length s"
    "reduced q s" "reduced q m1" "reduced q m2"
  shows "ref_mask_2nd_order s m1 m2 q =
    Inr (map (\<lambda>i. residue q (uint (s ! i) - uint (m1 ! i) - uint (m2 ! i))) [0..<length s], m1, m2)"
proof -
  have "np_mod (s ! i + word_of_int (2 * q) - m1 ! i - m2 ! i) (word_of_int q) =
      residue q (uint (s ! i) - uint (m1 ! i) - uint (m2 ! i))" if "i < length s" for i
  proof -
    have "uint (s ! i) < q" "uint (m1 ! i) < q" "uint (m2 ! i) < q" using assms(3-7) that by simp_all
    then have "uint (s ! i + word_of_int (2 * q) - m1 ! i - m2 ! i) =
        uint (s ! i) + 2 * q - uint (m1 ! i) - uint (m2 ! i)"
      using assms(2) by (intro mask_elements(2))
    then show ?thesis using assms(1,2)
      by (simp only: reduced_u16) (intro residue_shift [of _ _ _ 2], simp)
  qed
  moreover have "map (\<lambda>b. np_mod b (word_of_int q)) m = m" if "reduced q m" for m
    using that assms(1,2) by (intro map_idI) (simp add: reduced_u16 residue_def)
  moreover have "scalar16 (2 * q) = Inr (word_of_int (2 * q))" "scalar16 q = Inr (word_of_int q)"
    using assms(1,2) by (simp_all add: scalar16_def)
  ultimately show ?thesis using assms
    by (simp add: ref_mask_2nd_order_def np_map2_same) (intro nth_equalityI; simp)
qed

subsection \<open>Refreshing\<close>

text \<open>
  The contract between a sharing and its refresh: refreshing well-formed shares with fresh
  randomness succeeds, gives well-formed shares and leaves the recombined polynomial as it was.
\<close>

locale refreshable =
  fixes recombine :: "int \<Rightarrow> 's \<Rightarrow> u16 list py"
    and refresh :: "int \<Rightarrow> 's \<Rightarrow> 'r \<Rightarrow> 's py"
    and shares :: "nat \<Rightarrow> 's \<Rightarrow> bool"
    and fresh :: "nat \<Rightarrow> 'r \<Rightarrow> bool"
  assumes refresh_keeps: "0 < q \<Longrightarrow> q \<le> 65536 \<Longrightarrow> shares n s \<Longrightarrow> fresh n r \<Longrightarrow>
    \<exists>s'. refresh q s r = Inr s' \<and> shares n s' \<and> recombine q s' = recombine q s"
begin

lemma many_refreshes:
  "0 < q \<Longrightarrow> q \<le> 65536 \<Longrightarrow> shares n s \<Longrightarrow> list_all (fresh n) rs \<Longrightarrow>
    \<exists>s'. foldE (refresh q) s rs = Inr s' \<and> shares n s' \<and> recombine q s' = recombine q s"
proof (induction rs arbitrary: s)
  case (Cons r rs)
  from refresh_keeps [of q n s r] Cons.prems obtain s1 where
    1: "refresh q s r = Inr s1" "shares n s1" "recombine q s1 = recombine q s" by auto
  from Cons.IH [of s1] Cons.prems 1(2) obtain s2 where
    "foldE (refresh q) s1 rs = Inr s2" "shares n s2" "recombine q s2 = recombine q s1" by auto
  with 1 show ?case by simp
qed simp

end

definition unmask1 :: "int \<Rightarrow> u16 list \<times> u16 list \<Rightarrow> u16 list py" where
  "unmask1 q sh = ref_unmask_1st_order (fst sh) (snd sh) q"

definition refresh1 :: "int \<Rightarrow> u16 list \<times> u16 list \<Rightarrow> u16 list \<Rightarrow> (u16 list \<times> u16 list) py" where
  "refresh1 q sh r = ref_sni_refresh_1st (fst sh) (snd sh) r q"

definition unmask2 :: "int \<Rightarrow> u16 list \<times> u16 list \<times> u16 list \<Rightarrow> u16 list py" where
  "unmask2 q sh = ref_unmask_2nd_order (fst sh) (fst (snd sh)) (snd (snd sh)) q"

definition refresh2 :: "int \<Rightarrow> u16 list \<times> u16 list \<times> u16 list \<Rightarrow> u16 list \<times> u16 list \<times> u16 list \<Rightarrow>
    (u16 list \<times> u16 list \<times> u16 list) py" where
  "refresh2 q sh r = ref_sni_refresh_2nd (fst sh) (fst (snd sh)) (snd (snd sh)) (fst r) (fst (snd r)) (snd (snd r)) q"

lemma refreshed_sum1:
  assumes "0 < q" "q \<le> 65536"
  shows "residue q (uint (residue q (a + r)) + uint (residue q (b - r))) = residue q (a + b)"
  using assms by (simp add: uint_residue) (simp add: residue_def mod_simps)

lemma refreshed_sum2:
  assumes "0 < q" "q \<le> 65536"
  shows "residue q (uint (residue q (a + r + t)) + uint (residue q (b - r + u)) + uint (residue q (c - t - u))) =
    residue q (a + b + c)"
proof -
  have "((a + r + t) mod q + (b - r + u) mod q + (c - t - u) mod q) mod q =
      ((a + r + t) + (b - r + u) + (c - t - u)) mod q"
    by (intro mod_add_cong) simp_all
  also have "\<dots> = (a + b + c) mod q" by (simp add: algebra_simps)
  finally show ?thesis using assms by (simp add: uint_residue) (simp only: residue_def)
qed

lemma split_sum:
  assumes "0 < q" "q \<le> 65536"
  shows "residue q (uint (residue q (v - w)) + w) = residue q v"
    and "residue q (uint (residue q (v - w - x)) + w + x) = residue q v"
proof -
  have 1: "((v - w) mod q + w) mod q = v mod q" by (simp add: mod_add_left_eq)
  have "((v - w - x) mod q + (w + x)) mod q = (v - w - x + (w + x)) mod q" by (rule mod_add_left_eq)
  with 1 assms show "residue q (uint (residue q (v - w)) + w) = residue q v"
    "residue q (uint (residue q (v - w - x)) + w + x) = residue q v"
    by (simp_all add: uint_residue add.assoc) (simp_all only: residue_def)
qed

interpretation first_order: refreshable unmask1 refresh1
  "\<lambda>n sh. length (fst sh) = n \<and> length (snd sh) = n" "\<lambda>n r. length r = n"
  by unfold_locales
    (auto simp add: unmask1_def refresh1_def refresh_1st unmask_1st refreshed_sum1 cong: map_cong)

interpretation second_order: refreshable unmask2 refresh2
  "\<lambda>n sh. length (fst sh) = n \<and> length (fst (snd sh)) = n \<and> length (snd (snd sh)) = n"
  "\<lambda>n r. length (fst r) = n \<and> length (fst (snd r)) = n \<and> length (snd (snd r)) = n"
  by unfold_locales
    (auto simp add: unmask2_def refresh2_def refresh_2nd unmask_2nd refreshed_sum2 cong: map_cong)

subsection \<open>Properties\<close>

text \<open>
  C33. Masking keeps the secret through any number of refreshes: a reduced polynomial split with
  reduced masks and refreshed with any list of random polynomials of its length, reduced or not, is what
  unmasking returns: for first order with every modulus \<open>q\<close> with \<open>2 q\<close> at most \<open>2^16\<close>, and for second order
  with every one with \<open>3 q\<close> at most \<open>2^16\<close>; ML-KEM's modulus is one of them.
\<close>

theorem masking_keeps_secret:
  assumes "0 < q" "2 * q \<le> 65536" "\<forall>x \<in> set s. uint x < q"
    and "length m1 = length s" "\<forall>x \<in> set m1. uint x < q" "length m2 = length s" "\<forall>x \<in> set m2. uint x < q"
    and "list_all (\<lambda>r. length r = length s) rs"
    and "list_all (\<lambda>r. length (fst r) = length s \<and> length (fst (snd r)) = length s \<and> length (snd (snd r)) = length s) rs2"
  shows "(bindE (bindE (ref_mask_1st_order s m1 q) (\<lambda>sh. foldE (refresh1 q) sh rs)) (unmask1 q) = Inr s) \<and>
    (3 * q \<le> 65536 \<longrightarrow>
      bindE (bindE (ref_mask_2nd_order s m1 m2 q) (\<lambda>sh. foldE (refresh2 q) sh rs2)) (unmask2 q) = Inr s)"
proof (intro conjI impI)
  have q: "q \<le> 65536" using assms(1,2) by simp
  have unreduced: "residue q (uint (s ! i)) = s ! i" if "i < length s" for i
    using that assms(3) by (simp add: residue_def)
  define s0 where "s0 = map (\<lambda>i. residue q (uint (s ! i) - uint (m1 ! i))) [0..<length s]"
  have split: "ref_mask_1st_order s m1 q = Inr (s0, m1)"
    unfolding s0_def by (rule mask_1st) (use assms in auto)
  have "unmask1 q (s0, m1) = Inr s"
    using assms(1,4) q
    by (simp add: unmask1_def unmask_1st s0_def, intro nth_equalityI) (simp_all add: split_sum unreduced)
  then show "bindE (bindE (ref_mask_1st_order s m1 q) (\<lambda>sh. foldE (refresh1 q) sh rs)) (unmask1 q) = Inr s"
    using first_order.many_refreshes [OF assms(1) q, of "(s0, m1)" "length s" rs] assms(4,8)
    by (auto simp add: split s0_def)
  assume q3: "3 * q \<le> 65536"
  define t0 where "t0 = map (\<lambda>i. residue q (uint (s ! i) - uint (m1 ! i) - uint (m2 ! i))) [0..<length s]"
  have split2: "ref_mask_2nd_order s m1 m2 q = Inr (t0, m1, m2)"
    unfolding t0_def by (rule mask_2nd) (use assms q3 in auto)
  have "unmask2 q (t0, m1, m2) = Inr s"
    using assms(1,4,6) q
    by (simp add: unmask2_def unmask_2nd t0_def, intro nth_equalityI) (simp_all add: split_sum unreduced)
  then show "bindE (bindE (ref_mask_2nd_order s m1 m2 q) (\<lambda>sh. foldE (refresh2 q) sh rs2)) (unmask2 q) = Inr s"
    using second_order.many_refreshes [OF assms(1) q, of "(t0, m1, m2)" "length s" rs2] assms(4,6,9)
    by (auto simp add: split2 t0_def)
qed

theorem masking_keeps_secret_witness:
  "(bindE (bindE (ref_mask_1st_order [5, 7] [1, 3328] MODULUS_MLKEM) (\<lambda>sh. foldE (refresh1 MODULUS_MLKEM) sh [[65535, 2]]))
     (unmask1 MODULUS_MLKEM) = Inr [5, 7]) \<and>
   (bindE (bindE (ref_mask_2nd_order [5, 7] [1, 3328] [1, 2] MODULUS_MLKEM)
     (\<lambda>sh. foldE (refresh2 MODULUS_MLKEM) sh [([65535, 2], [0, 9], [4, 4])])) (unmask2 MODULUS_MLKEM) = Inr [5, 7])"
  using masking_keeps_secret [of MODULUS_MLKEM "[5, 7]" "[1, 3328]" "[1, 2]" "[[65535, 2]]" "[([65535, 2], [0, 9], [4, 4])]"]
  by simp

text \<open>
  One share alone says nothing: for every reduced secret coefficient and every possible value
  of the first share there is exactly one reduced mask that produces it, so over uniform masks the
  share is uniform and independent of the secret; the second share is the mask itself.
\<close>

theorem single_share_hides_secret:
  assumes "0 < q" "2 * q \<le> 65536" "0 \<le> a" "a < q" "0 \<le> c" "c < q"
  shows "\<exists>!m. 0 \<le> m \<and> m < q \<and>
    ref_mask_1st_order [word_of_int a] [word_of_int m] q = Inr ([word_of_int c], [word_of_int m])"
proof -
  have u: "uint (word_of_int x :: u16) = x" if "0 \<le> x" "x < q" for x
    using that assms(2) by (simp add: uint_word_of_int)
  have run: "ref_mask_1st_order [word_of_int a] [word_of_int m] q = Inr ([residue q (a - m)], [word_of_int m])"
    if "0 \<le> m" "m < q" for m
    using mask_1st [of q "[word_of_int m]" "[word_of_int a]"] that assms by (simp add: u)
  have hit: "residue q (a - m) = word_of_int c \<longleftrightarrow> (a - m) mod q = c" for m
    using assms by (simp add: word_uint_eq_iff uint_residue u)
  have "(a - m) mod q = c \<longleftrightarrow> m = (a - c) mod q" if "0 \<le> m" "m < q" for m
  proof
    assume "(a - m) mod q = c"
    then have "(a - c) mod q = (a - (a - m)) mod q" by (simp add: mod_diff_right_eq flip: \<open>(a - m) mod q = c\<close>)
    with that show "m = (a - c) mod q" by simp
  next
    assume "m = (a - c) mod q"
    then have "(a - m) mod q = (a - (a - c)) mod q" by (simp add: mod_diff_right_eq)
    with assms(5,6) show "(a - m) mod q = c" by simp
  qed
  moreover have "0 \<le> (a - c) mod q" "(a - c) mod q < q" using assms(1) by simp_all
  ultimately show ?thesis by (intro ex1I [of _ "(a - c) mod q"]) (auto simp add: run hit)
qed

theorem single_share_hides_secret_witness:
  "\<exists>!m. 0 \<le> m \<and> m < MODULUS_MLKEM \<and>
    ref_mask_1st_order [word_of_int 5] [word_of_int m] MODULUS_MLKEM = Inr ([word_of_int 7], [word_of_int m])"
  by (rule single_share_hides_secret) simp_all

text \<open>
  Limits of the 16-bit arrays: with ML-DSA's modulus, which the interface names, both masking
  routines raise and unmasking truncates the sum of the shares; and with ML-KEM's modulus a mask that is
  not reduced wraps around, so that unmasking returns another secret without an error.
\<close>

theorem masking_sixteen_bit_limits:
  "(ref_mask_1st_order s mk MODULUS_MLDSA = Inl OverflowError) \<and>
    (ref_mask_2nd_order s mk mk' MODULUS_MLDSA = Inl OverflowError) \<and>
    (ref_unmask_1st_order [65535] [1] MODULUS_MLDSA = Inr [0]) \<and>
    (bindE (ref_mask_1st_order [0] [3330] MODULUS_MLKEM) (unmask1 MODULUS_MLKEM) = Inr [2285])"
proof (intro conjI)
  show "ref_mask_1st_order s mk MODULUS_MLDSA = Inl OverflowError"
    "ref_mask_2nd_order s mk mk' MODULUS_MLDSA = Inl OverflowError"
    by (simp_all add: ref_mask_1st_order_def ref_mask_2nd_order_def scalar16_def)
  show "ref_unmask_1st_order [65535] [1] MODULUS_MLDSA = Inr [0]"
    "bindE (ref_mask_1st_order [0] [3330] MODULUS_MLKEM) (unmask1 MODULUS_MLKEM) = Inr [2285]"
    by code_simp+
qed

end
