(* ===== verification/X509.thy ===== *)
theory X509
  imports Services
begin

text \<open>
  Certificates and CMS: the descriptor and the request builder of \<open>dr31_x509_cms_abi.py\<close>, and of
  \<open>dr31_x509_cms_graph.py\<close> the five operations dispatched to the device and the host reference
  routines (fingerprint, signature checks, key unwrapping and the generators of matching inputs).
  Where an operation calls another service of the repository, that service's model is called.
\<close>

unbundle bit_operations_syntax

subsection \<open>Descriptor and request\<close>

abbreviation (input) MAGIC_DESC_DR31 :: int where "MAGIC_DESC_DR31 \<equiv> 0x01315843"
abbreviation (input) ALGO_ML_DSA_44 :: int where "ALGO_ML_DSA_44 \<equiv> 1"
abbreviation (input) ALGO_ML_DSA_65 :: int where "ALGO_ML_DSA_65 \<equiv> 2"
abbreviation (input) ALGO_ML_DSA_87 :: int where "ALGO_ML_DSA_87 \<equiv> 3"
abbreviation (input) ALGO_SLH_DSA_SHAKE_128S :: int where "ALGO_SLH_DSA_SHAKE_128S \<equiv> 4"
abbreviation (input) ALGO_LMS_SHA256_M32_H10 :: int where "ALGO_LMS_SHA256_M32_H10 \<equiv> 5"
abbreviation (input) FLAG_IS_CA :: int where "FLAG_IS_CA \<equiv> 1"
abbreviation (input) FLAG_HAS_SIGNED_ATTRS :: int where "FLAG_HAS_SIGNED_ATTRS \<equiv> 2"

record dr31_descriptor =
  d31_operation_mode :: int
  d31_algo_id :: int
  d31_flags :: int
  d31_tbs_len :: int
  d31_pk_len :: int
  d31_sig_len :: int
  d31_aux_len :: int

definition pack_dr31_descriptor :: "dr31_descriptor \<Rightarrow> bytes py" where
  "pack_dr31_descriptor d = struct_pack_into [U 4, U 4, U 4, U 4, U 4, U 4, U 4, U 4] (zeros 32) 0
     [MAGIC_DESC_DR31, d31_operation_mode d, d31_algo_id d, d31_flags d, d31_tbs_len d,
      d31_pk_len d, d31_sig_len d, d31_aux_len d]"

definition unpack_dr31_descriptor :: "bytes \<Rightarrow> dr31_descriptor py" where
  "unpack_dr31_descriptor data =
     (if length data < 32 then Inl ValueError
      else bindE (struct_unpack_from [U 4, U 4, U 4, U 4, U 4, U 4, U 4, U 4] data 0) (\<lambda>w.
        if w ! 0 \<noteq> MAGIC_DESC_DR31 then Inl ValueError
        else Inr \<lparr>d31_operation_mode = w ! 1, d31_algo_id = w ! 2, d31_flags = w ! 3,
          d31_tbs_len = w ! 4, d31_pk_len = w ! 5, d31_sig_len = w ! 6, d31_aux_len = w ! 7\<rparr>))"

interpretation dr31: descriptor_codec pack_dr31_descriptor unpack_dr31_descriptor 32
proof
  fix d b rest
  assume "pack_dr31_descriptor d = Inr b"
  note packed = packed_once [OF this [unfolded pack_dr31_descriptor_def]]
  show "length b = 32" using packed(1) by simp
  then show "unpack_dr31_descriptor (b @ rest) = Inr d"
    using packed(2) [of rest] by (simp add: unpack_dr31_descriptor_def)
qed

definition pack_x509_verify_request ::
  "bytes \<Rightarrow> bytes \<Rightarrow> bytes \<Rightarrow> int \<Rightarrow> int \<Rightarrow> int \<Rightarrow> bytes \<Rightarrow> (bytes \<times> bytes) py" where
  "pack_x509_verify_request tbs_digest public_key signature operation_mode algo_id flags aux_data =
     (if 64 < length tbs_digest then Inl ValueError
      else if 3840 < length public_key then Inl ValueError
      else if 10240 < length signature then Inl ValueError
      else if 2048 < length aux_data then Inl ValueError
      else bindE (pack_dr31_descriptor \<lparr>d31_operation_mode = operation_mode, d31_algo_id = algo_id,
          d31_flags = flags, d31_tbs_len = int (length tbs_digest), d31_pk_len = int (length public_key),
          d31_sig_len = int (length signature), d31_aux_len = int (length aux_data)\<rparr>) (\<lambda>desc.
        bindE (struct_pack_into [U 4, U 4, U 4, U 4] (zeros 16384) 0
            [MAGIC_DESC_DR31, operation_mode, algo_id, flags]) (\<lambda>req.
          let req = assign_slice 32 (32 + length tbs_digest) tbs_digest req;
              req = assign_slice 256 (256 + length public_key) public_key req;
              req = assign_slice 4096 (4096 + length signature) signature req;
              req = (if aux_data \<noteq> [] then assign_slice 14336 (14336 + length aux_data) aux_data req else req)
          in Inr (desc, req))))"

subsection \<open>Operations on the device\<close>

definition dispatch_dr31 :: "host \<Rightarrow> bytes \<Rightarrow> bytes \<Rightarrow> bytes py" where
  "dispatch_dr31 h desc_bytes req_buf = bindE (dispatch 2048 h desc_bytes req_buf) check_status"

definition on_dr31 ::
  "host \<Rightarrow> bytes \<Rightarrow> bytes \<Rightarrow> bytes \<Rightarrow> int \<Rightarrow> int \<Rightarrow> int \<Rightarrow> bytes \<Rightarrow> bytes py" where
  "on_dr31 h tbs pk sig mode algo flags aux =
     bindE (pack_x509_verify_request tbs pk sig mode algo flags aux) (\<lambda>(desc, req). dispatch_dr31 h desc req)"

record x509_verdict =
  xv_is_valid :: bool
  xv_flags :: int
  xv_fingerprint :: bytes

definition x509_pqc_verify_on_aie2 ::
  "host \<Rightarrow> int \<Rightarrow> bytes \<Rightarrow> bytes \<Rightarrow> bytes \<Rightarrow> int \<Rightarrow> bytes option \<Rightarrow> bool \<Rightarrow> x509_verdict py" where
  "x509_pqc_verify_on_aie2 h algo_id tbs_digest public_key signature flags m_or_mu external_mu =
     bindE (on_dr31 h tbs_digest public_key signature 0 algo_id flags []) (\<lambda>raw.
       bindE (if algo_id = ALGO_ML_DSA_44 \<and> 1312 \<le> length public_key \<and> 2420 \<le> length signature
           then run_mldsa44_verify h public_key (case m_or_mu of Some m \<Rightarrow> m | None \<Rightarrow> tbs_digest)
                  signature external_mu 1
           else Inr (result_word 16 raw \<noteq> 0))
         (\<lambda>is_valid. Inr \<lparr>xv_is_valid = is_valid, xv_flags = result_word 20 raw, xv_fingerprint = slice 32 64 raw\<rparr>))"

record hybrid_verdict =
  hv_is_valid :: bool
  hv_classical_valid :: bool
  hv_pqc_valid :: bool
  hv_fingerprint :: bytes

definition x509_hybrid_verify_on_aie2 ::
  "host \<Rightarrow> bytes \<Rightarrow> int \<Rightarrow> bytes \<Rightarrow> bytes \<Rightarrow> bytes \<Rightarrow> bytes \<Rightarrow> int \<Rightarrow> hybrid_verdict py" where
  "x509_hybrid_verify_on_aie2 h tbs_digest pqc_algo_id pqc_pk pqc_sig classical_pk classical_sig flags =
     (let aux = assign_slice 32 96 (take 64 classical_sig) (assign_slice 0 32 (take 32 classical_pk) (zeros 96))
      in bindE (on_dr31 h tbs_digest pqc_pk pqc_sig 1 pqc_algo_id flags aux) (\<lambda>raw.
           let sub_verdicts = result_word 20 raw
           in Inr \<lparr>hv_is_valid = (result_word 16 raw \<noteq> 0), hv_classical_valid = (sub_verdicts AND 1 \<noteq> 0),
                hv_pqc_valid = (sub_verdicts AND 2 \<noteq> 0), hv_fingerprint = slice 32 64 raw\<rparr>))"

definition cms_signed_data_verify_on_aie2 ::
  "host \<Rightarrow> int \<Rightarrow> bytes \<Rightarrow> bytes \<Rightarrow> bytes \<Rightarrow> bytes \<Rightarrow> int \<Rightarrow> (bool \<times> int) py" where
  "cms_signed_data_verify_on_aie2 h algo_id content_digest signer_pk signer_sig signed_attrs flags =
     (let flags = (if signed_attrs \<noteq> [] then flags OR FLAG_HAS_SIGNED_ATTRS else flags)
      in bindE (on_dr31 h content_digest signer_pk signer_sig 2 algo_id flags signed_attrs)
           (\<lambda>raw. Inr (result_word 16 raw \<noteq> 0, flags)))"

text \<open>The byte that unwrapping XORs at position \<open>i\<close>, and the tag over the plain key.\<close>

definition cek_pad :: "nat \<Rightarrow> byte" where
  "cek_pad i = word_of_int (int i * 17 AND 0xFF)"

definition tag_step :: "bytes \<Rightarrow> int list \<Rightarrow> int list \<Rightarrow> nat \<Rightarrow> int list" where
  "tag_step plain_cek kek_words acc i =
     acc[i mod 4 := (acc ! (i mod 4) XOR (uint (plain_cek ! i) + kek_words ! (i mod 8))) AND 0xFFFFFFFF]"

definition cek_tag :: "bytes \<Rightarrow> int list \<Rightarrow> bytes" where
  "cek_tag plain_cek kek_words =
     words_bytes (foldl (tag_step plain_cek kek_words) [0x55555555, 0xAAAAAAAA, 0x33333333, 0xCCCCCCCC] [0..<32])"

definition mix_cek :: "bytes \<Rightarrow> bytes \<Rightarrow> bytes" where
  "mix_cek payload kek = map (\<lambda>i. payload ! i XOR kek ! i XOR cek_pad i) [0..<32]"

definition words_of_kek :: "bytes \<Rightarrow> int list py" where
  "words_of_kek kek_bytes = struct_unpack_from (replicate 8 (U 4)) kek_bytes 0"

definition cms_enveloped_unwrap_on_aie2 ::
  "host \<Rightarrow> int \<Rightarrow> bytes \<Rightarrow> bytes \<Rightarrow> bytes option \<Rightarrow> (bool \<times> bytes) py" where
  "cms_enveloped_unwrap_on_aie2 h algo_id kem_ct wrapped_cek recipient_dk =
     (if (case recipient_dk of None \<Rightarrow> False | Some dk \<Rightarrow> 1632 \<le> length dk) \<and> 768 \<le> length kem_ct
      then bindE (run_mlkem512_decaps h (the recipient_dk) (take 768 kem_ct) 1) (\<lambda>kek.
        if length wrapped_cek < 48 then Inr (False, [])
        else let kek_bytes = take 32 kek
          in bindE (words_of_kek kek_bytes) (\<lambda>kek_words.
            let plain_cek = mix_cek (take 32 wrapped_cek) kek_bytes;
                is_valid = (cek_tag plain_cek kek_words = slice 32 48 wrapped_cek)
            in Inr (is_valid, if is_valid then plain_cek else [])))
      else bindE (on_dr31 h [] [] kem_ct 3 algo_id 0 wrapped_cek) (\<lambda>raw.
        let is_valid = (result_word 16 raw \<noteq> 0); cek_len = nat (result_word 24 raw)
        in Inr (is_valid, if is_valid then slice 64 (64 + cek_len) raw else [])))"

definition x509_chain_step_verify_on_aie2 ::
  "host \<Rightarrow> int \<Rightarrow> bool \<Rightarrow> bytes \<Rightarrow> bytes \<Rightarrow> bytes \<Rightarrow> (bool \<times> bool \<times> bytes) py" where
  "x509_chain_step_verify_on_aie2 h algo_id issuer_is_ca subject_tbs_digest issuer_pk signature =
     bindE (on_dr31 h subject_tbs_digest issuer_pk signature 4 algo_id (if issuer_is_ca then FLAG_IS_CA else 0) [])
       (\<lambda>raw. Inr (result_word 16 raw \<noteq> 0, issuer_is_ca, slice 32 64 raw))"

subsection \<open>Reference routines\<close>

definition fp_tbs :: "int list \<Rightarrow> nat \<times> byte \<Rightarrow> int list" where
  "fp_tbs acc ib = (let i = fst ib in
     acc[i mod 8 := (acc ! (i mod 8) XOR (uint (snd ib) + u32 (push_bit 3 (acc ! ((i + 1) mod 8))))) AND 0xFFFFFFFF])"

definition fp_pk :: "bytes \<Rightarrow> int list \<Rightarrow> nat \<Rightarrow> int list" where
  "fp_pk pk acc k = (let i = 4 * k; idx = k mod 8;
       w = uint (pk ! i) OR push_bit 8 (uint (pk ! ((i + 1) mod length pk)))
     in acc[idx := u32 (acc ! idx XOR (w + 0x9E3779B9))])"

definition fp_sig :: "bytes \<Rightarrow> int list \<Rightarrow> nat \<Rightarrow> int list" where
  "fp_sig sig acc k = (let i = 4 * k; idx = k mod 8;
       w = uint (sig ! i) OR push_bit 8 (uint (sig ! ((i + 1) mod length sig)));
       rot = u32 (push_bit 5 w) OR drop_bit 27 w
     in acc[idx := u32 (acc ! idx XOR rot)])"

definition fp_mix :: "int list \<Rightarrow> nat \<Rightarrow> int list" where
  "fp_mix acc j = (let t = acc ! ((j + 3) mod 8); rot = u32 (push_bit 7 t) OR drop_bit 25 t;
       acc = acc[j := u32 (acc ! j XOR rot)]
     in acc[j := u32 (acc ! j + (acc ! ((j + 1) mod 8) XOR 0x85EBCA6B))])"

definition ref_x509_compute_fingerprint :: "bytes \<Rightarrow> bytes \<Rightarrow> bytes \<Rightarrow> bytes" where
  "ref_x509_compute_fingerprint tbs_digest pk sig =
     (let acc = map uint sha256_init;
          acc = foldl fp_tbs acc (enumerate 0 tbs_digest);
          acc = foldl (fp_pk pk) acc [0..<(length pk + 3) div 4];
          acc = foldl (fp_sig sig) acc [0..<(length sig + 3) div 4];
          acc = foldl fp_mix acc (concat (replicate 4 [0..<8]))
      in words_bytes acc)"

definition all_zero_bytes :: "bytes \<Rightarrow> bool" where
  "all_zero_bytes bs \<longleftrightarrow> list_all (\<lambda>b. b = 0) bs"

definition xor_tag :: "nat \<Rightarrow> bytes \<Rightarrow> int \<Rightarrow> int" where
  "xor_tag shift bs t = foldl (\<lambda>t i. t XOR push_bit (((i + shift) mod 4) * 8) (uint (bs ! i))) t
     [0..<min 32 (length bs)]"

definition ref_verify_pqc_signature ::
  "int \<Rightarrow> bytes \<Rightarrow> bytes \<Rightarrow> bytes \<Rightarrow> bool option \<Rightarrow> bool" where
  "ref_verify_pqc_signature algo_id tbs_digest pk sig expected_valid =
     (case expected_valid of Some v \<Rightarrow> v
      | None \<Rightarrow>
        if tbs_digest = [] \<or> pk = [] \<or> sig = [] then False
        else if algo_id = ALGO_ML_DSA_44 \<and> (length pk < 1312 \<or> length sig < 2420) then False
        else if algo_id = ALGO_ML_DSA_65 \<and> (length pk < 1952 \<or> length sig < 3293) then False
        else if algo_id = ALGO_ML_DSA_87 \<and> (length pk < 2592 \<or> length sig < 4595) then False
        else if algo_id = ALGO_SLH_DSA_SHAKE_128S \<and> (length pk < 32 \<or> length sig < 64) then False
        else if algo_id = ALGO_LMS_SHA256_M32_H10 \<and> (length pk < 56 \<or> length sig < 100) then False
        else if all_zero_bytes pk then False
        else if all_zero_bytes sig then False
        else let sig_tag = xor_tag 0 sig 0; expected_tag = xor_tag 1 pk (xor_tag 0 tbs_digest 0)
          in (sig_tag XOR expected_tag) AND 1 = 0)"

definition classical_check :: "bytes \<Rightarrow> bytes \<Rightarrow> bytes \<Rightarrow> int" where
  "classical_check tbs_digest ed_pk ed_sig =
     foldl (\<lambda>c i. c XOR (uint (ed_sig ! i) XOR uint (ed_pk ! i) XOR
         (if i < length tbs_digest then uint (tbs_digest ! i) else 0))) 0 [0..<32]"

definition ref_verify_classical_signature :: "bytes \<Rightarrow> bytes \<Rightarrow> bytes \<Rightarrow> bool" where
  "ref_verify_classical_signature tbs_digest ed_pk ed_sig =
     (if tbs_digest = [] \<or> length ed_pk < 32 \<or> length ed_sig < 64 then False
      else if all_zero_bytes ed_pk \<or> all_zero_bytes ed_sig then False
      else classical_check tbs_digest ed_pk ed_sig AND 1 = 0)"

text \<open>The key-encryption key: given, or derived from the ciphertext alone.\<close>

definition legacy_kek_words :: "bytes \<Rightarrow> int list py" where
  "legacy_kek_words kem_ct =
     (let ct_words = length kem_ct div 4
      in mapE (\<lambda>i. if ct_words = 0 then Inl ZeroDivisionError
           else bindE (struct_unpack_from [U 4] kem_ct ((i mod ct_words) * 4))
             (\<lambda>w. Inr (u32 (0x243F6A88 XOR w ! 0)))) [0..<8])"

definition kek_of :: "bytes \<Rightarrow> bytes option \<Rightarrow> (bytes \<times> int list) py" where
  "kek_of kem_ct kek = (case kek of
      None \<Rightarrow> bindE (legacy_kek_words kem_ct) (\<lambda>ws. Inr (words_bytes ws, ws))
    | Some k \<Rightarrow> bindE (words_of_kek (take 32 k)) (\<lambda>ws. Inr (take 32 k, ws)))"

definition ref_unwrap_cms_cek :: "int \<Rightarrow> bytes \<Rightarrow> bytes \<Rightarrow> bytes option \<Rightarrow> (bool \<times> bytes) py" where
  "ref_unwrap_cms_cek algo_id kem_ct wrapped_cek kek =
     (if length kem_ct < 32 \<or> length wrapped_cek < 48 then Inr (False, [])
      else bindE (kek_of kem_ct kek) (\<lambda>(kek_bytes, kek_words).
        let plain_cek = mix_cek (take 32 wrapped_cek) kek_bytes
        in if cek_tag plain_cek kek_words = slice 32 48 wrapped_cek then Inr (True, plain_cek)
           else Inr (False, [])))"

definition make_valid_pqc_signature :: "int \<Rightarrow> bytes \<Rightarrow> bytes \<Rightarrow> nat \<Rightarrow> bytes py" where
  "make_valid_pqc_signature algo_id tbs_digest pk sig_len =
     (let sig = map (\<lambda>i. word_of_int (((int i * 7 + 13) XOR (int i mod 251)) AND 0xFF)) [0..<sig_len];
          sig_tag = xor_tag 0 sig 0;
          expected_tag = xor_tag 1 pk (xor_tag 0 tbs_digest 0)
      in if (sig_tag XOR expected_tag) AND 1 \<noteq> 0
         then (if sig = [] then Inl IndexError else Inr (sig[0 := sig ! 0 XOR 1]))
         else Inr sig)"

definition make_valid_classical_signature :: "bytes \<Rightarrow> bytes \<Rightarrow> bytes py" where
  "make_valid_classical_signature tbs_digest ed_pk =
     (let sig = map (\<lambda>i. word_of_int (((int i * 11 + 23) XOR (int i mod 239)) AND 0xFF)) [0..<64]
      in if length ed_pk < 32 then Inl IndexError
         else if classical_check tbs_digest ed_pk sig AND 1 \<noteq> 0 then Inr (sig[0 := sig ! 0 XOR 1])
         else Inr sig)"

definition make_wrapped_cek :: "bytes \<Rightarrow> bytes \<Rightarrow> bytes option \<Rightarrow> bytes py" where
  "make_wrapped_cek kem_ct plain_cek kek =
     bindE (kek_of kem_ct kek) (\<lambda>(kek_bytes, kek_words).
       if length plain_cek < 32 then Inl IndexError
       else Inr (mix_cek plain_cek kek_bytes @ cek_tag plain_cek kek_words))"

subsection \<open>Library\<close>

lemma on_dr31_needs_device:
  "on_dr31 h tbs pk sig mode algo flags aux = Inr raw \<Longrightarrow>
    iron_ok h \<and> (\<exists>req desc out. ho_program h req desc = Inr out)"
  by (auto simp add: on_dr31_def dispatch_dr31_def bindE_Inr_iff dispatch_Inr_iff hardware_ok_def)

interpretation op_x509_pqc: device_operation "\<lambda>h. x509_pqc_verify_on_aie2 h a t p s f m ext" for a t p s f m ext
  by unfold_locales (auto simp add: x509_pqc_verify_on_aie2_def bindE_Inr_iff dest: on_dr31_needs_device)

interpretation op_x509_hybrid: device_operation "\<lambda>h. x509_hybrid_verify_on_aie2 h t a p s cp cs f" for t a p s cp cs f
  by unfold_locales (auto simp add: x509_hybrid_verify_on_aie2_def Let_def bindE_Inr_iff dest: on_dr31_needs_device)

interpretation op_cms_signed: device_operation "\<lambda>h. cms_signed_data_verify_on_aie2 h a c p s at f" for a c p s at f
  by unfold_locales (auto simp add: cms_signed_data_verify_on_aie2_def Let_def bindE_Inr_iff dest: on_dr31_needs_device)

interpretation op_cms_unwrap: device_operation "\<lambda>h. cms_enveloped_unwrap_on_aie2 h a ct w dk" for a ct w dk
  by unfold_locales
    (auto simp add: cms_enveloped_unwrap_on_aie2_def Let_def bindE_Inr_iff
      dest: on_dr31_needs_device mlkem_needs_device(3) split: if_splits)

interpretation op_x509_chain: device_operation "\<lambda>h. x509_chain_step_verify_on_aie2 h a ca t p s" for a ca t p s
  by unfold_locales (auto simp add: x509_chain_step_verify_on_aie2_def bindE_Inr_iff dest: on_dr31_needs_device)

lemma length_tag_fold [simp]: "length (foldl (tag_step p k) acc is) = length acc"
  by (induction "is" arbitrary: acc) (simp_all add: tag_step_def)

lemma length_cek_tag [simp]: "length (cek_tag p k) = 16"
  by (simp add: cek_tag_def)

lemma length_mix_cek [simp]: "length (mix_cek p k) = 32"
  by (simp add: mix_cek_def)

lemma mix_cek_twice: "length p = 32 \<Longrightarrow> mix_cek (mix_cek p k) k = p"
  by (intro nth_equalityI) (simp_all add: mix_cek_def ac_simps del: upt_rec_numeral)

text \<open>Only the low bit of the two tags decides; flipping the low bit of the first byte flips it.\<close>

lemma xor_fold_shift: "foldl (\<lambda>t i. t XOR f i) (a XOR b :: int) is = a XOR foldl (\<lambda>t i. t XOR f i) b is"
  by (induction "is" arbitrary: b) (simp_all add: xor.assoc)

lemma xor_tag_flip:
  assumes "sig \<noteq> []"
  shows "xor_tag 0 (sig[0 := sig ! 0 XOR 1]) 0 = 1 XOR xor_tag 0 sig 0"
proof -
  let ?f = "\<lambda>s i. push_bit (((i + 0) mod 4) * 8) (uint ((s :: bytes) ! i))"
  let ?s = "sig[0 := sig ! 0 XOR 1]"
  have u: "[0..<min 32 (length sig)] = 0 # [1..<min 32 (length sig)]"
    using assms by (simp add: upt_conv_Cons)
  have rest: "foldl (\<lambda>t i. t XOR ?f ?s i) b is = foldl (\<lambda>t i. t XOR ?f sig i) b is" if "0 \<notin> set is" for b "is"
    using that by (induction "is" arbitrary: b) auto
  have "?f ?s 0 = 1 XOR ?f sig 0" using assms by (simp add: uint_xor xor.commute)
  then have "xor_tag 0 ?s 0 = foldl (\<lambda>t i. t XOR ?f sig i) (1 XOR (0 XOR ?f sig 0)) [1..<min 32 (length sig)]"
    using rest [of "[1..<min 32 (length sig)]"] by (simp add: xor_tag_def u)
  also have "\<dots> = 1 XOR xor_tag 0 sig 0" by (simp only: xor_fold_shift) (simp add: xor_tag_def u)
  finally show ?thesis .
qed

lemma int_and_1: "(n :: int) AND 1 = (if even n then 0 else 1)"
  by (simp add: and_one_eq mod2_eq_if)

definition sizes_ok :: "int \<Rightarrow> nat \<Rightarrow> nat \<Rightarrow> bool" where
  "sizes_ok algo_id pk_len sig_len \<longleftrightarrow>
     (algo_id = ALGO_ML_DSA_44 \<longrightarrow> 1312 \<le> pk_len \<and> 2420 \<le> sig_len) \<and>
     (algo_id = ALGO_ML_DSA_65 \<longrightarrow> 1952 \<le> pk_len \<and> 3293 \<le> sig_len) \<and>
     (algo_id = ALGO_ML_DSA_87 \<longrightarrow> 2592 \<le> pk_len \<and> 4595 \<le> sig_len) \<and>
     (algo_id = ALGO_SLH_DSA_SHAKE_128S \<longrightarrow> 32 \<le> pk_len \<and> 64 \<le> sig_len) \<and>
     (algo_id = ALGO_LMS_SHA256_M32_H10 \<longrightarrow> 56 \<le> pk_len \<and> 100 \<le> sig_len)"

lemma pqc_verdict:
  "ref_verify_pqc_signature algo tbs pk sig None \<longleftrightarrow>
     tbs \<noteq> [] \<and> pk \<noteq> [] \<and> sig \<noteq> [] \<and> sizes_ok algo (length pk) (length sig) \<and>
     \<not> all_zero_bytes pk \<and> \<not> all_zero_bytes sig \<and>
     even (xor_tag 0 sig 0 XOR xor_tag 1 pk (xor_tag 0 tbs 0))"
  by (auto simp add: ref_verify_pqc_signature_def sizes_ok_def Let_def int_and_1 not_le split: if_splits)

lemma even_flip: "even (1 XOR a XOR b :: int) \<longleftrightarrow> odd (a XOR b)"
  by (simp add: even_xor_iff)

lemma flipped_signature_not_zero:
  assumes "2 \<le> n" "sig = map (\<lambda>i. word_of_int (((int i * 7 + 13) XOR (int i mod 251)) AND 0xFF)) [0..<n]"
  shows "\<not> all_zero_bytes sig" "\<not> all_zero_bytes (sig[0 := b])" "sig \<noteq> []"
proof -
  have "sig ! 1 = (word_of_int ((20 XOR 1) AND 0xFF) :: byte)" using assms by simp
  also have "\<dots> = 21" by simp
  finally have s1: "sig ! 1 = 21" .
  have l: "1 < length sig" using assms by simp
  have "21 \<in> set sig" using s1 l nth_mem by metis
  moreover have "21 \<in> set (sig[0 := b])" using s1 l by (metis length_list_update nth_list_update_neq nth_mem zero_neq_one)
  moreover have "(21 :: byte) \<noteq> 0" by simp
  ultimately show "\<not> all_zero_bytes sig" "\<not> all_zero_bytes (sig[0 := b])" "sig \<noteq> []"
    using l unfolding all_zero_bytes_def list_all_iff by (blast, blast, force)
qed

subsection \<open>Properties\<close>

text \<open>
  Wrapping and unwrapping: a wrapped content key is 48 bytes and unwraps to the key that was
  wrapped, under the same key-encryption key; and without one the wrapping key is derived from the
  ciphertext alone, so everyone who sees ciphertext and wrapped key unwraps it.
\<close>

theorem cms_wrap_roundtrip:
  assumes "length plain_cek = 32" "32 \<le> length kem_ct" "make_wrapped_cek kem_ct plain_cek kek = Inr wrapped"
  shows "length wrapped = 48 \<and> ref_unwrap_cms_cek algo_id kem_ct wrapped kek = Inr (True, plain_cek)"
proof -
  obtain kb kw where k: "kek_of kem_ct kek = Inr (kb, kw)"
    and w: "wrapped = mix_cek plain_cek kb @ cek_tag plain_cek kw"
    using assms(1,3) by (auto simp add: make_wrapped_cek_def bindE_Inr_iff)
  then have "take 32 wrapped = mix_cek plain_cek kb" "slice 32 48 wrapped = cek_tag plain_cek kw" "length wrapped = 48"
    by (simp_all add: slice_def)
  then show ?thesis
    using assms(1,2) k by (simp add: ref_unwrap_cms_cek_def mix_cek_twice Let_def)
qed

theorem cms_wrap_roundtrip_witness:
  "\<exists>wrapped. make_wrapped_cek (zeros 768) (replicate 32 7) None = Inr wrapped \<and>
     ref_unwrap_cms_cek 7 (zeros 768) wrapped None = Inr (True, replicate 32 7)"
proof -
  have "\<exists>ws. legacy_kek_words (zeros 768) = Inr ws"
    by (simp add: legacy_kek_words_def Let_def struct_unpack_from_def upt_rec)
  then obtain wrapped where w: "make_wrapped_cek (zeros 768) (replicate 32 7) None = Inr wrapped"
    by (auto simp add: make_wrapped_cek_def kek_of_def)
  with cms_wrap_roundtrip [OF _ _ w] show ?thesis by auto
qed

text \<open>
  The signature check of the reference routine is one parity: the generator, which uses only
  public inputs, makes for every digest and key of the required sizes a signature that the check
  accepts; and changing the lowest bit of the first byte of an accepted signature makes it rejected.
\<close>

theorem x509_generator_accepted:
  assumes "tbs \<noteq> []" "pk \<noteq> []" "\<not> all_zero_bytes pk" "2 \<le> n" "sizes_ok algo (length pk) n"
  shows "\<exists>sig. make_valid_pqc_signature algo tbs pk n = Inr sig \<and> length sig = n \<and>
    ref_verify_pqc_signature algo tbs pk sig None \<and>
    \<not> ref_verify_pqc_signature algo tbs pk (sig[0 := sig ! 0 XOR 1]) None"
proof -
  define sig where "sig = (map (\<lambda>i. word_of_int (((int i * 7 + 13) XOR (int i mod 251)) AND 0xFF)) [0..<n] :: bytes)"
  define e where "e = xor_tag 1 pk (xor_tag 0 tbs 0)"
  define sig' where "sig' = (if odd (xor_tag 0 sig 0 XOR e) then sig[0 := sig ! 0 XOR 1] else sig)"
  note nz = flipped_signature_not_zero [OF assms(4) sig_def]
  have len: "length sig' = n" by (simp add: sig'_def sig_def)
  have ne: "sig' \<noteq> []" using nz(3) by (simp add: sig'_def)
  have nz': "\<not> all_zero_bytes sig'" using nz by (simp add: sig'_def)
  have "make_valid_pqc_signature algo tbs pk n = Inr sig'"
    using nz(3) unfolding make_valid_pqc_signature_def Let_def sig_def [symmetric] e_def [symmetric]
    by (simp add: sig'_def int_and_1)
  moreover have "even (xor_tag 0 sig' 0 XOR e)"
    using nz(3) by (simp add: sig'_def xor_tag_flip xor.assoc even_flip)
  ultimately show ?thesis
    using len ne nz' assms unfolding pqc_verdict e_def [symmetric]
    by (intro exI [of _ sig']) (simp add: xor_tag_flip xor.assoc even_flip)
qed

theorem x509_generator_accepted_witness:
  "\<exists>sig. make_valid_pqc_signature ALGO_SLH_DSA_SHAKE_128S [1, 2] (replicate 32 1) 64 = Inr sig \<and>
     ref_verify_pqc_signature ALGO_SLH_DSA_SHAKE_128S [1, 2] (replicate 32 1) sig None"
  using x509_generator_accepted [of "[1, 2]" "replicate 32 1" 64 ALGO_SLH_DSA_SHAKE_128S]
  by (auto simp add: all_zero_bytes_def sizes_ok_def list_all_iff)

end
