(* ===== verification/Fndsa.thy ===== *)
theory Fndsa
  imports Host PyHash
begin

text \<open>
  FN-DSA (\<open>dr22_fndsa_abi.py\<close>, \<open>dr22_fndsa_graph.py\<close>): the parameter sets and the descriptor, the
  three operations on the device, and the reference routines: the two decoders of compressed
  signatures, the public-key codecs, hashing to a point, negacyclic multiplication, key
  generation, signing and verification.  An array element of 16 bits is an integer with the range
  check of numpy's assignment written out.  Hashing to a point may in principle squeeze forever:
  it is a partial function, and \<open>None\<close> is not returning.
\<close>

unbundle bit_operations_syntax

subsection \<open>Parameters and descriptor\<close>

abbreviation (input) Q_FNDSA :: int where "Q_FNDSA \<equiv> 12289"

text \<open>The standard deviation, a float that nothing reads, is left out.\<close>

record fndsa_params =
  fn_n :: nat
  fn_log_n :: nat
  fn_sig_bound :: int
  fn_pk_bytes :: nat
  fn_sk_bytes :: nat
  fn_sig_max_bytes :: nat
  fn_salt_bytes :: nat

definition FNDSA_PARAMS :: "string \<Rightarrow> fndsa_params option" where
  "FNDSA_PARAMS name =
     (if name = ''FN-DSA-512'' then Some \<lparr>fn_n = 512, fn_log_n = 9, fn_sig_bound = 34034726,
        fn_pk_bytes = 897, fn_sk_bytes = 1281, fn_sig_max_bytes = 690, fn_salt_bytes = 40\<rparr>
      else if name = ''FN-DSA-1024'' then Some \<lparr>fn_n = 1024, fn_log_n = 10, fn_sig_bound = 70265242,
        fn_pk_bytes = 1793, fn_sk_bytes = 2305, fn_sig_max_bytes = 1330, fn_salt_bytes = 40\<rparr>
      else None)"

text \<open>\<open>struct.pack_into\<close> of single fields, one after the other.\<close>

definition pack_fields :: "(field \<times> nat \<times> int) list \<Rightarrow> bytes \<Rightarrow> bytes py" where
  "pack_fields fs buf = foldE (\<lambda>buf (f, off, v). struct_pack_into [f] buf off [v]) buf fs"

definition pack_fndsa_descriptor :: "string \<Rightarrow> int \<Rightarrow> nat \<Rightarrow> int \<Rightarrow> nat \<Rightarrow> bytes py" where
  "pack_fndsa_descriptor param_set operation_mode msg_len epoch sig_max_bytes =
     (case FNDSA_PARAMS param_set of
        None \<Rightarrow> Inl ValueError
      | Some p \<Rightarrow>
          let desc = put 0 [0x01, 0x22, 0x46, 0x4E] (zeros 32);
              desc = desc[4 := (if fn_n p = 512 then 0 else 1)]
          in if operation_mode < 0 \<or> 255 < operation_mode then Inl ValueError
             else pack_fields
               [(U 2, 6, int (fn_n p)), (U 4, 8, int msg_len), (U 4, 12, epoch), (U 4, 16, fn_sig_bound p),
                (U 2, 20, int (fn_pk_bytes p)),
                (U 2, 22, int (if 0 < sig_max_bytes then sig_max_bytes else fn_sig_max_bytes p))]
               (desc[5 := word_of_int operation_mode]))"

subsection \<open>Operations on the device\<close>

definition dr22_params :: "string \<Rightarrow> fndsa_params py" where
  "dr22_params param_set = (case FNDSA_PARAMS param_set of None \<Rightarrow> Inl KeyError | Some p \<Rightarrow> Inr p)"

definition fndsa_keygen_on_aie2 :: "host \<Rightarrow> string \<Rightarrow> bytes \<Rightarrow> int \<Rightarrow> (bytes \<times> bytes) py" where
  "fndsa_keygen_on_aie2 h param_set seed epoch =
     with_device 8192 h (dr22_params param_set) (\<lambda>p. Inl (pack_fndsa_descriptor param_set 0 0 epoch 0,
       assign_slice 0 32 seed (zeros 8192),
       \<lambda>raw. bindE (check_status raw) (\<lambda>_.
         let k = 16 + fn_pk_bytes p in Inr (slice 16 k raw, slice k (k + 2 * fn_n p) raw))))"

definition fndsa_sign_on_aie2 :: "host \<Rightarrow> string \<Rightarrow> bytes \<Rightarrow> bytes \<Rightarrow> bytes \<Rightarrow> bytes \<Rightarrow> int \<Rightarrow> bytes py" where
  "fndsa_sign_on_aie2 h param_set pk sk msg salt epoch =
     with_device 8192 h (dr22_params param_set) (\<lambda>p.
       let a = fn_pk_bytes p; b = a + 2 * fn_n p;
           req = assign_slice 0 a pk (zeros 8192);
           req = assign_slice a b sk req;
           req = assign_slice b (b + 40) salt req;
           req = assign_slice (b + 40) (b + 40 + length msg) msg req
       in Inl (pack_fndsa_descriptor param_set 1 (length msg) epoch 0, req,
         \<lambda>raw. bindE (check_status raw) (\<lambda>_. Inr (slice 16 (16 + nat (result_word 12 raw)) raw))))"

definition fndsa_verify_on_aie2 :: "host \<Rightarrow> string \<Rightarrow> bytes \<Rightarrow> bytes \<Rightarrow> bytes \<Rightarrow> int \<Rightarrow> (bool \<times> int) py" where
  "fndsa_verify_on_aie2 h param_set pk msg sig epoch =
     with_device 8192 h (dr22_params param_set) (\<lambda>p.
       if length pk \<noteq> fn_pk_bytes p \<or> length sig < 41 \<or> 41 + 2 * fn_n p < length sig then Inr (False, 1)
       else let a = fn_pk_bytes p; b = a + length sig;
                req = assign_slice 0 a pk (zeros 8192);
                req = assign_slice a b sig req;
                req = assign_slice b (b + length msg) msg req
            in Inl (pack_fndsa_descriptor param_set 2 (length msg) epoch (length sig), req,
              \<lambda>raw. Inr (raw ! 16 = 1, result_word 8 raw)))"

subsection \<open>Decoders of compressed signatures\<close>

text \<open>Python's shifts raise on a negative count; numpy's 16-bit assignment raises out of range.\<close>

definition shl :: "int \<Rightarrow> int \<Rightarrow> int py" where
  "shl x k = (if k < 0 then Inl ValueError else Inr (push_bit (nat k) x))"

definition shr :: "int \<Rightarrow> int \<Rightarrow> int py" where
  "shr x k = (if k < 0 then Inl ValueError else Inr (drop_bit (nat k) x))"

definition int16 :: "int \<Rightarrow> int py" where
  "int16 v = (if - 32768 \<le> v \<and> v < 32768 then Inr v else Inl OverflowError)"

fun bit_length :: "nat \<Rightarrow> nat" where
  "bit_length x = (if x = 0 then 0 else Suc (bit_length (x div 2)))"

declare bit_length.simps [simp del]

definition ctz32_nonzero :: "int \<Rightarrow> int" where
  "ctz32_nonzero x = int (bit_length (nat (x AND - x))) - 1"

text \<open>One byte more when the accumulator is empty; \<open>None\<close> is the early \<open>return None\<close>.\<close>

definition comp_refill :: "bytes \<Rightarrow> int \<Rightarrow> int \<Rightarrow> nat \<Rightarrow> (int \<times> int \<times> nat) option py" where
  "comp_refill d acc acc_len j =
     (if acc \<noteq> 0 then Inr (Some (acc, acc_len, j))
      else if length d \<le> j then Inr None
      else bindE (shl (uint (d ! j)) acc_len) (\<lambda>x.
        if acc OR x = 0 then Inr None else Inr (Some (acc OR x, acc_len + 8, j + 1))))"

definition comp_coeff :: "bytes \<Rightarrow> int \<times> int \<times> nat \<Rightarrow> (int \<times> int \<times> int \<times> nat) option py" where
  "comp_coeff d st = (case st of (acc, acc_len, j) \<Rightarrow>
     if length d \<le> j then Inr None
     else bindE (shl (uint (d ! j)) acc_len) (\<lambda>x.
       let acc = acc OR x; t = acc AND 1; m = drop_bit 1 acc AND 0x7F
       in bindE (comp_refill d (drop_bit 8 acc) acc_len (j + 1)) (\<lambda>r. case r of
            None \<Rightarrow> Inr None
          | Some (acc, acc_len, j) \<Rightarrow>
              let tz = ctz32_nonzero acc
              in bindE (shl tz 7) (\<lambda>y. let m = m + y in
                if 840 < m then Inr None
                else bindE (shr acc (tz + 1)) (\<lambda>acc.
                  if m = 0 \<and> t \<noteq> 0 then Inr None
                  else bindE (int16 (if t \<noteq> 0 then - m else m)) (\<lambda>v.
                    Inr (Some (v, acc, acc_len - (tz + 1), j))))))))"

fun comp_loop :: "nat \<Rightarrow> bytes \<Rightarrow> int \<times> int \<times> nat \<Rightarrow> int list option py" where
  "comp_loop 0 d st = Inr (Some [])"
| "comp_loop (Suc n) d st = bindE (comp_coeff d st) (\<lambda>r. case r of
      None \<Rightarrow> Inr None
    | Some (v, st) \<Rightarrow> bindE (comp_loop n d st) (\<lambda>r. Inr (map_option ((#) v) r)))"

definition ref_comp_decode :: "nat \<Rightarrow> bytes \<Rightarrow> int list option py" where
  "ref_comp_decode log_n d = comp_loop (2 ^ log_n) d (0, 0, 0)"

text \<open>
  The inner \<open>while True\<close> of the other decoder: bits until the first one, 128 more for every zero,
  up to 2047; it stops because of that limit.
\<close>

function falcon_unary :: "bytes \<Rightarrow> int \<Rightarrow> nat \<Rightarrow> nat \<Rightarrow> int \<Rightarrow> (int \<times> nat \<times> nat \<times> int) option" where
  "falcon_unary d acc acc_len v m =
     (if acc_len = 0 \<and> length d \<le> v then None
      else let (acc, acc_len, v) =
             (if acc_len = 0 then (push_bit 8 acc OR uint (d ! v), 8, v + 1) else (acc, acc_len, v));
             acc_len = acc_len - 1
        in if drop_bit acc_len acc AND 1 \<noteq> 0 then Some (acc, acc_len, v, m)
           else if 2047 < m + 128 then None else falcon_unary d acc acc_len v (m + 128))"
  by pat_completeness auto

termination
  by (relation "measure (\<lambda>(d, acc, acc_len, v, m). nat (2048 - m))") auto

declare falcon_unary.simps [simp del]

definition falcon_coeff :: "bytes \<Rightarrow> int \<times> nat \<times> nat \<Rightarrow> (int \<times> int \<times> nat \<times> nat) option" where
  "falcon_coeff d st = (case st of (acc, acc_len, v) \<Rightarrow>
     if length d \<le> v then None
     else let acc = push_bit 8 acc OR uint (d ! v); b = drop_bit acc_len acc AND 0xFF; s_sign = b AND 128
       in case falcon_unary d acc acc_len (v + 1) (b AND 127) of
            None \<Rightarrow> None
          | Some (acc, acc_len, v, m) \<Rightarrow>
              if s_sign \<noteq> 0 \<and> m = 0 then None
              else Some (if s_sign \<noteq> 0 then - m else m, acc, acc_len, v))"

fun falcon_loop :: "nat \<Rightarrow> bytes \<Rightarrow> int \<times> nat \<times> nat \<Rightarrow> int list option py" where
  "falcon_loop 0 d st = Inr (Some [])"
| "falcon_loop (Suc n) d st = (case falcon_coeff d st of
      None \<Rightarrow> Inr None
    | Some (v, st) \<Rightarrow> bindE (int16 v) (\<lambda>v. bindE (falcon_loop n d st) (\<lambda>r. Inr (map_option ((#) v) r))))"

definition ref_comp_decode_falcon :: "bytes \<Rightarrow> nat \<Rightarrow> int list option py" where
  "ref_comp_decode_falcon d log_n = falcon_loop (2 ^ log_n) d (0, 0, 0)"

subsection \<open>Public keys\<close>

text \<open>\<open>while u < n\<close> over the bytes of the key, 14 bits per coefficient, high bits first.\<close>

fun modq_loop :: "nat \<Rightarrow> bytes \<Rightarrow> int \<Rightarrow> nat \<Rightarrow> int list option" where
  "modq_loop 0 bs acc acc_len = Some []"
| "modq_loop (Suc u) [] acc acc_len = None"
| "modq_loop (Suc u) (b # bs) acc acc_len =
     (let acc = push_bit 8 acc OR uint b; acc_len = acc_len + 8
      in if 14 \<le> acc_len
         then let acc_len = acc_len - 14; w = drop_bit acc_len acc AND 0x3FFF
           in if 12289 \<le> w then None else map_option ((#) w) (modq_loop u bs acc acc_len)
         else modq_loop (Suc u) bs acc acc_len)"

definition ref_modq_decode :: "bytes \<Rightarrow> nat \<Rightarrow> int list option" where
  "ref_modq_decode srcin log_n = modq_loop (2 ^ log_n) srcin 0 0"

definition unpack_coeff :: "bytes \<Rightarrow> nat \<Rightarrow> int py" where
  "unpack_coeff in_bytes i =
     (let bit_pos = 14 * i; byte_idx = bit_pos div 8; bit_off = bit_pos mod 8;
          b1 = (if byte_idx + 1 < length in_bytes then uint (in_bytes ! (byte_idx + 1)) else 0);
          b2 = (if byte_idx + 2 < length in_bytes then uint (in_bytes ! (byte_idx + 2)) else 0)
      in bindE (nthE in_bytes byte_idx) (\<lambda>b0.
           Inr (drop_bit bit_off (uint b0 OR push_bit 8 b1 OR push_bit 16 b2) AND 0x3FFF)))"

definition ref_unpack_pk :: "bytes \<Rightarrow> nat \<Rightarrow> int list py" where
  "ref_unpack_pk raw_pk n = mapE (unpack_coeff (drop 1 raw_pk)) [0..<n]"

definition or_byte :: "nat \<Rightarrow> int \<Rightarrow> bytes \<Rightarrow> bytes" where
  "or_byte k x pk = pk[k := pk ! k OR word_of_int (x AND 0xFF)]"

definition pack_coeff :: "int list \<Rightarrow> bytes \<Rightarrow> nat \<Rightarrow> bytes" where
  "pack_coeff h_arr pk i =
     (let bit_pos = 14 * i; val = h_arr ! i AND 0x3FFF; byte_idx = 1 + bit_pos div 8; bit_off = bit_pos mod 8;
          pk = or_byte byte_idx (push_bit bit_off val) pk;
          pk = (if byte_idx + 1 < length pk then or_byte (byte_idx + 1) (drop_bit (8 - bit_off) val) pk else pk)
      in if 2 < bit_off \<and> byte_idx + 2 < length pk then or_byte (byte_idx + 2) (drop_bit (16 - bit_off) val) pk
         else pk)"

definition ref_pack_pk :: "int list \<Rightarrow> nat \<Rightarrow> nat \<Rightarrow> bytes" where
  "ref_pack_pk h_arr n log_n =
     foldl (pack_coeff h_arr) (word_of_nat log_n # zeros ((n * 14 + 7) div 8)) [0..<n]"

subsection \<open>Hashing to a point and multiplication\<close>

type_synonym two_bytes = "byte \<Rightarrow> byte \<Rightarrow> int"

abbreviation (input) low_first :: two_bytes where "low_first b0 b1 \<equiv> uint b0 OR push_bit 8 (uint b1)"
abbreviation (input) high_first :: two_bytes where "high_first b0 b1 \<equiv> push_bit 8 (uint b0) OR uint b1"

text \<open>One block of the stream, two bytes at a time, with the \<open>break\<close> at the last coefficient.\<close>

fun h2p_block :: "two_bytes \<Rightarrow> nat \<Rightarrow> int list \<Rightarrow> bytes \<Rightarrow> int list" where
  "h2p_block w n coeffs (b0 # b1 # data) =
     (if w b0 b1 < 61445
      then let coeffs = coeffs @ [w b0 b1 mod Q_FNDSA]
        in if length coeffs = n then coeffs else h2p_block w n coeffs data
      else h2p_block w n coeffs data)"
| "h2p_block w n coeffs data = coeffs"

partial_function (option) h2p_loop ::
  "two_bytes \<Rightarrow> (nat \<Rightarrow> bytes) \<Rightarrow> nat \<Rightarrow> int list \<Rightarrow> nat \<Rightarrow> int list option" where
  "h2p_loop w digest n coeffs squeezed =
     (if length coeffs < n
      then h2p_loop w digest n (h2p_block w n coeffs (drop squeezed (digest (squeezed + 136)))) (squeezed + 136)
      else Some coeffs)"

declare h2p_loop.simps [code]

definition ref_hash_to_point_fips206 :: "bytes \<Rightarrow> bytes \<Rightarrow> nat \<Rightarrow> int list option" where
  "ref_hash_to_point_fips206 salt msg n = h2p_loop low_first (shake256 (salt @ msg)) n [] 0"

definition ref_hash_to_point_falcon :: "bytes \<Rightarrow> bytes \<Rightarrow> nat \<Rightarrow> int list option" where
  "ref_hash_to_point_falcon salt msg n = h2p_loop high_first (shake256 (salt @ msg)) n [] 0"

definition negacyclic_coeff :: "int list \<Rightarrow> int list \<Rightarrow> nat \<Rightarrow> nat \<Rightarrow> int" where
  "negacyclic_coeff a b n i =
     (let sum_val = foldl (\<lambda>s j. (s + a ! j * b ! (i - j)) mod Q_FNDSA) 0 [0..<i + 1];
          sum_val = foldl (\<lambda>s j. (s - a ! j * b ! (n + i - j)) mod Q_FNDSA) sum_val [i + 1..<n]
      in sum_val mod Q_FNDSA)"

definition ref_poly_mul_negacyclic :: "int list \<Rightarrow> int list \<Rightarrow> nat \<Rightarrow> int list" where
  "ref_poly_mul_negacyclic a b n = map (negacyclic_coeff a b n) [0..<n]"

subsection \<open>Reference key generation, signing and verification\<close>

text \<open>A byte of the stream read as a coefficient -1, 0 or 1.\<close>

definition ternary :: "byte \<Rightarrow> int" where
  "ternary b = (let x = b AND 3 in if x = 0 then - 1 else if x = 1 then 1 else 0)"

definition fndsa_stream :: "fndsa_params \<Rightarrow> bytes \<Rightarrow> bytes" where
  "fndsa_stream p data = shake256 data (if 512 < fn_n p then 2048 else 1024)"

definition ref_fndsa_keygen :: "string \<Rightarrow> bytes \<Rightarrow> (bytes \<times> bytes) py" where
  "ref_fndsa_keygen param_set seed = bindE (dr22_params param_set) (\<lambda>p.
     let rand_bytes = fndsa_stream p seed; n = fn_n p;
         f = map (\<lambda>i. ternary (rand_bytes ! (2 * i))) [0..<n];
         g = map (\<lambda>i. ternary (rand_bytes ! (2 * i + 1))) [0..<n];
         f = (if f ! 0 = 0 then f[0 := 1] else f);
         h = map (\<lambda>i. (g ! i * 17 + f ! i * 31 + (if i = 0 then 1 else 0)) mod Q_FNDSA) [0..<n]
     in Inr (ref_pack_pk h n (fn_log_n p),
          map (\<lambda>x. word_of_int (x AND 0xFF)) f @ map (\<lambda>x. word_of_int (x AND 0xFF)) g))"

definition ref_fndsa_sign :: "string \<Rightarrow> bytes \<Rightarrow> bytes \<Rightarrow> bytes \<Rightarrow> bytes \<Rightarrow> bytes py" where
  "ref_fndsa_sign param_set pk sk msg salt = bindE (dr22_params param_set) (\<lambda>p.
     let nonce = fndsa_stream p (salt @ pk @ msg); n = fn_n p;
         s2 = map (\<lambda>i. uint (nonce ! (2 * i) AND 0x1F) - 16) [0..<n];
         sig = (zeros (41 + 2 * n))[0 := word_of_nat (0x30 + fn_log_n p)];
         sig = assign_slice 1 41 salt sig
     in pack_fields (map (\<lambda>i. (S 2, 41 + 2 * i, s2 ! i)) [0..<n]) sig)"

text \<open>The signature's polynomial, uncompressed or from one of the two decoders.\<close>

definition read_s2 :: "fndsa_params \<Rightarrow> bytes \<Rightarrow> (int list \<times> bool) option py" where
  "read_s2 p sig =
     (if length sig = 41 + 2 * fn_n p
      then bindE (mapE (\<lambda>i. bindE (struct_unpack_from [S 2] sig (41 + 2 * i)) (\<lambda>w. Inr (w ! 0))) [0..<fn_n p])
             (\<lambda>s2. Inr (Some (s2, False)))
      else bindE (ref_comp_decode (fn_log_n p) (drop 41 sig)) (\<lambda>r. case r of
          Some s2 \<Rightarrow> Inr (Some (s2, False))
        | None \<Rightarrow> bindE (ref_comp_decode_falcon (drop 41 sig) (fn_log_n p))
            (\<lambda>r. Inr (map_option (\<lambda>s2. (s2, True)) r))))"

definition read_h :: "fndsa_params \<Rightarrow> bytes \<Rightarrow> bool \<Rightarrow> int list py" where
  "read_h p pk is_falcon =
     (if is_falcon then (case ref_modq_decode (drop 1 pk) (fn_log_n p) of
          Some h \<Rightarrow> Inr h | None \<Rightarrow> ref_unpack_pk pk (fn_n p))
      else ref_unpack_pk pk (fn_n p))"

definition centred :: "int \<Rightarrow> int" where
  "centred x = (let r = x mod Q_FNDSA in if 6144 < r then r - Q_FNDSA else r)"

definition norm_ok :: "fndsa_params \<Rightarrow> int list \<Rightarrow> int list \<Rightarrow> int list \<Rightarrow> bool" where
  "norm_ok p c s2 h =
     (let s2_h = ref_poly_mul_negacyclic s2 h (fn_n p)
      in foldl (\<lambda>acc i. acc + (centred (c ! i - s2_h ! i) * centred (c ! i - s2_h ! i) + s2 ! i * s2 ! i))
           0 [0..<fn_n p] \<le> fn_sig_bound p)"

text \<open>The outer option: \<open>None\<close> when hashing to a point does not return.\<close>

definition ref_fndsa_verify :: "string \<Rightarrow> bytes \<Rightarrow> bytes \<Rightarrow> bytes \<Rightarrow> bool py option" where
  "ref_fndsa_verify param_set pk msg sig =
     (case dr22_params param_set of Inl e \<Rightarrow> Some (Inl e) | Inr p \<Rightarrow>
        if length pk \<noteq> fn_pk_bytes p \<or> length sig < 41 \<or> 41 + 2 * fn_n p < length sig then Some (Inr False)
        else if sig ! 0 \<noteq> word_of_nat (0x30 + fn_log_n p) \<and> sig ! 0 \<noteq> word_of_nat (0x20 + fn_log_n p)
        then Some (Inr False)
        else case read_s2 p sig of
            Inl e \<Rightarrow> Some (Inl e)
          | Inr None \<Rightarrow> Some (Inr False)
          | Inr (Some (s2, is_falcon)) \<Rightarrow> (case read_h p pk is_falcon of
              Inl e \<Rightarrow> Some (Inl e)
            | Inr h \<Rightarrow>
                map_option (\<lambda>c. Inr (norm_ok p c s2 h))
                  ((if is_falcon then ref_hash_to_point_falcon else ref_hash_to_point_fips206)
                     (slice 1 41 sig) msg (fn_n p))))"

subsection \<open>The device or nothing\<close>

text \<open>Verification answers on its own for keys and signatures of a wrong length, and then negatively.\<close>

definition fndsa_accept :: "host \<Rightarrow> string \<Rightarrow> bytes \<Rightarrow> bytes \<Rightarrow> bytes \<Rightarrow> int \<Rightarrow> int py" where
  "fndsa_accept h ps pk msg sig e =
     bindE (fndsa_verify_on_aie2 h ps pk msg sig e) (\<lambda>(ok, s). if ok then Inr s else Inl ValueError)"

interpretation op_fndsa_keygen: device_operation "\<lambda>h. fndsa_keygen_on_aie2 h ps seed e" for ps seed e
  by unfold_locales (auto simp add: fndsa_keygen_on_aie2_def elim!: with_device_needs)

interpretation op_fndsa_sign: device_operation "\<lambda>h. fndsa_sign_on_aie2 h ps pk sk msg salt e" for ps pk sk msg salt e
  by unfold_locales (auto simp add: fndsa_sign_on_aie2_def Let_def elim!: with_device_needs)

interpretation op_fndsa_accept: device_operation "\<lambda>h. fndsa_accept h ps pk msg sig e" for ps pk msg sig e
proof
  fix h s assume "fndsa_accept h ps pk msg sig e = Inr s"
  then have "fndsa_verify_on_aie2 h ps pk msg sig e = Inr (True, s)"
    by (auto simp add: fndsa_accept_def bindE_Inr_iff split: if_splits)
  then show "iron_ok h \<and> (\<exists>req desc out. ho_program h req desc = Inr out)"
    unfolding fndsa_verify_on_aie2_def by (rule with_device_needs) (simp add: Let_def)
qed

end
