(* ===== verification/Bitstream.thy ===== *)
theory Bitstream
  imports PyStruct
begin

text \<open>
  Streams of bits: the bits of a byte string in either order, the compressed coefficient and the
  contract of a decoder of a sequence of them (the locale \<open>coefficient_decoder\<close>), with what it
  decodes; integers read as streams.
\<close>

unbundle bit_operations_syntax

subsection \<open>Streams of bits\<close>

text \<open>The bits of a byte string, low bit of each byte first or high bit first.\<close>

definition bits_le :: "bytes \<Rightarrow> bool list" where
  "bits_le d = concat (map (\<lambda>b. map (bit b) [0..<8]) d)"

definition bits_be :: "bytes \<Rightarrow> bool list" where
  "bits_be d = concat (map (\<lambda>b. map (bit b) (rev [0..<8])) d)"

text \<open>The compressed coefficient: sign, the seven low bits in the stream's order, and the rest in unary.\<close>

definition coeff_bits :: "nat list \<Rightarrow> int \<Rightarrow> bool list" where
  "coeff_bits order v = (v < 0) # map (bit \<bar>v\<bar>) order @ replicate (nat (\<bar>v\<bar> div 128)) False @ [True]"

fun decode_all :: "('st \<Rightarrow> (int \<times> 'st) option) \<Rightarrow> nat \<Rightarrow> 'st \<Rightarrow> int list option" where
  "decode_all step 0 st = Some []"
| "decode_all step (Suc n) st = (case step st of
      None \<Rightarrow> None
    | Some (v, st) \<Rightarrow> map_option ((#) v) (decode_all step n st))"

text \<open>
  The contract of a decoder of such streams: from a state that stands at position \<open>p\<close> it reads the
  code word of a value within the limit, whenever there is one, and stands behind it afterwards.
\<close>

locale coefficient_decoder =
  fixes step :: "bytes \<Rightarrow> 'st \<Rightarrow> (int \<times> 'st) option"
    and stream :: "bytes \<Rightarrow> bool list"
    and code :: "int \<Rightarrow> bool list"
    and limit :: int
    and stands :: "bytes \<Rightarrow> 'st \<Rightarrow> nat \<Rightarrow> bool"
  assumes refuses: "stands d st p \<Longrightarrow> step d st = None \<Longrightarrow> \<bar>v\<bar> \<le> limit \<Longrightarrow> drop p (stream d) \<noteq> code v @ rest"
    and reads: "stands d st p \<Longrightarrow> step d st = Some (v, st') \<Longrightarrow>
      \<bar>v\<bar> \<le> limit \<and> (\<exists>q. stands d st' q \<and> drop p (stream d) = code v @ drop q (stream d))"
    and prefix_free: "code v @ r = code v' @ r' \<Longrightarrow> v = v' \<and> r = r'"
begin

lemma decodes:
  "stands d st p \<Longrightarrow> decode_all (step d) n st = Some s \<longleftrightarrow>
    length s = n \<and> (\<forall>v \<in> set s. \<bar>v\<bar> \<le> limit) \<and> (\<exists>rest. drop p (stream d) = concat (map code s) @ rest)"
proof (induction n arbitrary: st p s)
  case (Suc n)
  show ?case
  proof (cases "step d st")
    case None
    then show ?thesis using refuses [OF Suc.prems None] by (cases s) auto
  next
    case (Some vst)
    obtain v st' where vst: "vst = (v, st')" by (cases vst)
    from reads [OF Suc.prems Some [unfolded vst]] obtain q where
      q: "\<bar>v\<bar> \<le> limit" "stands d st' q" "drop p (stream d) = code v @ drop q (stream d)" by blast
    show ?thesis
    proof (cases s)
      case (Cons x xs)
      have "(\<exists>rest. drop p (stream d) = concat (map code s) @ rest) \<longleftrightarrow>
          x = v \<and> (\<exists>rest. drop q (stream d) = concat (map code xs) @ rest)"
        using q(3) prefix_free [of v "drop q (stream d)" x] by (simp add: Cons) metis
      with Suc.IH [OF q(2), of xs] q(1) show ?thesis by (auto simp add: Some vst Cons)
    qed (simp add: Some vst)
  qed
qed auto

end

lemma unary_prefix_free:
  "replicate k False @ True # r = replicate k' False @ True # r' \<Longrightarrow> k = k' \<and> r = r'"
proof (induction k arbitrary: k')
  case 0 then show ?case by (cases k') auto
next
  case (Suc k) then show ?case by (cases k') auto
qed

lemma coeff_bits_prefix_free:
  assumes "coeff_bits order v @ r = coeff_bits order v' @ r'" "set order = {..<7}"
  shows "v = v' \<and> r = r'"
proof -
  have neg: "v < 0 \<longleftrightarrow> v' < 0" and low: "map (bit \<bar>v\<bar>) order = map (bit \<bar>v'\<bar>) order"
    and tail: "replicate (nat (\<bar>v\<bar> div 128)) False @ True # r = replicate (nat (\<bar>v'\<bar> div 128)) False @ True # r'"
    using assms(1) by (simp_all add: coeff_bits_def append_eq_append_conv)
  from unary_prefix_free [OF tail] have hi: "nat (\<bar>v\<bar> div 128) = nat (\<bar>v'\<bar> div 128)" and r: "r = r'" by simp_all
  have "\<forall>i < 7. bit \<bar>v\<bar> i = bit \<bar>v'\<bar> i" using low assms(2) by (simp add: map_eq_conv)
  then have "take_bit 7 \<bar>v\<bar> = take_bit 7 \<bar>v'\<bar>" by (intro bit_eqI) (simp only: bit_take_bit_iff, blast)
  then have "\<bar>v\<bar> mod 128 = \<bar>v'\<bar> mod 128" by (simp add: take_bit_eq_mod)
  moreover have "\<bar>v\<bar> div 128 = \<bar>v'\<bar> div 128"
    using hi by (subst (asm) eq_nat_nat_iff) (simp_all add: pos_imp_zdiv_nonneg_iff)
  ultimately have "\<bar>v\<bar> = \<bar>v'\<bar>" by (metis mult_div_mod_eq)
  with neg r show ?thesis by arith
qed

lemma split_at_coeff:
  assumes "p + 9 + k \<le> N"
  shows "map \<beta> [p..<N] = \<beta> p # map \<beta> [p + 1..<p + 8] @ map \<beta> [p + 8..<p + 8 + k] @ \<beta> (p + 8 + k) # map \<beta> [p + 9 + k..<N]"
proof -
  have "[p..<N] = [p..<p + 8 + k + 1] @ [p + 9 + k..<N]"
    using upt_add_eq_append [of p "p + 8 + k + 1" "N - (p + 8 + k + 1)"] assms by (simp add: add.commute add.left_commute)
  also have "[p..<p + 8 + k + 1] = [p..<p + 8 + k] @ [p + 8 + k]" by (metis Suc_eq_plus1 le_add1 add.assoc upt_Suc_append)
  also have "[p..<p + 8 + k] = [p..<p + 8] @ [p + 8..<p + 8 + k]" by (rule upt_add_eq_append) simp
  also have "[p..<p + 8] = p # [p + 1..<p + 8]" by (simp add: upt_conv_Cons)
  finally show ?thesis by simp
qed

lemma coeff_at:
  assumes "length order = 7"
  defines "k \<equiv> \<lambda>v. nat (\<bar>v\<bar> div 128)"
  shows "map \<beta> [p..<N] = coeff_bits order v @ rest \<longleftrightarrow>
    p + 9 + k v \<le> N \<and> (\<beta> p \<longleftrightarrow> v < 0) \<and> map \<beta> [p + 1..<p + 8] = map (bit \<bar>v\<bar>) order \<and>
    (\<forall>i < k v. \<not> \<beta> (p + 8 + i)) \<and> \<beta> (p + 8 + k v) \<and> rest = map \<beta> [p + 9 + k v..<N]" (is "?l \<longleftrightarrow> ?r")
proof (cases "p + 9 + k v \<le> N")
  case True
  have code: "coeff_bits order v = (v < 0) # map (bit \<bar>v\<bar>) order @ replicate (k v) False @ [True]"
    by (simp add: coeff_bits_def k_def)
  have "map \<beta> [p + 8..<p + 8 + k v] = replicate (k v) False \<longleftrightarrow> (\<forall>i < k v. \<not> \<beta> (p + 8 + i))"
    by (simp add: list_eq_iff_nth_eq)
  moreover have "length (map \<beta> [p + 1..<p + 8]) = length (map (bit \<bar>v\<bar>) order)" using assms(1) by simp
  ultimately show ?thesis
    unfolding split_at_coeff [OF True] code append_Cons append_assoc list.inject
    using True by (simp only: append_eq_append_conv append_Cons append_Nil list.inject length_map length_upt length_replicate
        add_diff_cancel_left' simp_thms) auto
next
  case False
  have "length (coeff_bits order v) = 9 + k v" using assms(1) by (simp add: coeff_bits_def k_def)
  then have "?l \<Longrightarrow> N - p = 9 + k v + length rest"
    by (metis length_append length_map length_upt)
  with False show ?thesis by linarith
qed

lemma bit_le_int:
  "bit (le_int (b # d)) i \<longleftrightarrow> (if i < 8 then bit b i else bit (le_int d) (i - 8))"
proof -
  have "uint b AND push_bit 8 (le_int d) = 0"
    by (rule bit_eqI) (auto simp add: bit_simps dest: bit_imp_le_length)
  then have "le_int (b # d) = uint b OR push_bit 8 (le_int d)"
    using disjunctive_add_eq_or [of "uint b" "push_bit 8 (le_int d)"] by (simp add: push_bit_eq_mult mult.commute)
  then show ?thesis by (auto simp add: bit_simps dest: bit_imp_le_length)
qed

lemma bits_le_int: "bits_le d = map (bit (le_int d)) [0..<8 * length d]"
proof (induction d)
  case (Cons b d)
  have "[0..<8 * length (b # d)] = [0..<8] @ map (\<lambda>i. i + 8) [0..<8 * length d]"
    using upt_add_eq_append [of 0 8 "8 * length d"] by (simp add: map_add_upt add.commute del: upt_Suc upt_rec_numeral)
  moreover have "map (bit (le_int (b # d))) [0..<8] = map (bit b) [0..<8]"
    by (rule map_cong) (simp_all add: bit_le_int del: le_int.simps)
  moreover have "bits_le (b # d) = map (bit b) [0..<8] @ bits_le d" by (simp add: bits_le_def del: upt_Suc upt_rec_numeral)
  ultimately show ?case
    using Cons by (simp add: bit_le_int comp_def del: upt_Suc upt_rec_numeral le_int.simps)
qed (simp add: bits_le_def)

text \<open>The code word of \<open>v\<close> at position \<open>p\<close> of a stream \<open>\<beta>\<close> of \<open>N\<close> bits; its seven low bits are \<open>low\<close>.\<close>

definition codes :: "(nat \<Rightarrow> bool) \<Rightarrow> nat \<Rightarrow> int \<Rightarrow> nat \<Rightarrow> int \<Rightarrow> bool" where
  "codes \<beta> N low p v \<longleftrightarrow> (let k = nat (\<bar>v\<bar> div 128) in
     p + 9 + k \<le> N \<and> (\<beta> p \<longleftrightarrow> v < 0) \<and> \<bar>v\<bar> mod 128 = low \<and> (\<forall>i < k. \<not> \<beta> (p + 8 + i)) \<and> \<beta> (p + 8 + k))"

text \<open>Once the first one in the unary part is known, the code word is determined.\<close>

lemma codes_iff:
  assumes "\<beta> (p + 8 + k)" "\<forall>i < k. \<not> \<beta> (p + 8 + i)" "p + 9 + k \<le> N" "0 \<le> low" "low < 128"
  shows "codes \<beta> N low p v \<longleftrightarrow> \<bar>v\<bar> = low + 128 * int k \<and> (\<beta> p \<longleftrightarrow> v < 0)"
proof
  assume c: "codes \<beta> N low p v"
  then have "\<not> nat (\<bar>v\<bar> div 128) < k" "\<not> k < nat (\<bar>v\<bar> div 128)"
    using assms(1,2) by (auto simp add: codes_def Let_def)
  then have "nat (\<bar>v\<bar> div 128) = k" by simp
  then have "\<bar>v\<bar> div 128 = int k" by auto
  moreover have "\<bar>v\<bar> mod 128 = low" using c by (simp add: codes_def Let_def)
  ultimately have "\<bar>v\<bar> = low + 128 * int k" using mult_div_mod_eq [of 128 "\<bar>v\<bar>"] by simp
  with c show "\<bar>v\<bar> = low + 128 * int k \<and> (\<beta> p \<longleftrightarrow> v < 0)" by (simp add: codes_def Let_def)
next
  assume v: "\<bar>v\<bar> = low + 128 * int k \<and> (\<beta> p \<longleftrightarrow> v < 0)"
  then have "\<bar>v\<bar> div 128 = int k" "\<bar>v\<bar> mod 128 = low" using assms(4,5) by simp_all
  with v assms(1-3) show "codes \<beta> N low p v" by (simp add: codes_def Let_def)
qed

lemma codes_behind_zeros:
  assumes "codes \<beta> N low p v" "\<forall>i < n. p + 8 + i < N \<longrightarrow> \<not> \<beta> (p + 8 + i)" "N \<le> p + 8 + n \<or> \<bar>v\<bar> < 128 * int n"
  shows False
proof -
  let ?k = "nat (\<bar>v\<bar> div 128)"
  have k: "p + 9 + ?k \<le> N" "\<beta> (p + 8 + ?k)" using assms(1) by (simp_all add: codes_def Let_def)
  have "n \<le> ?k"
  proof (rule ccontr)
    assume "\<not> n \<le> ?k"
    moreover have "p + 8 + ?k < N" using k(1) by simp
    ultimately show False using assms(2) k(2) by simp
  qed
  moreover have "?k < n"
    using assms(3)
  proof
    assume "\<bar>v\<bar> < 128 * int n"
    then have "\<bar>v\<bar> div 128 < int n"
      using mult_div_mod_eq [of 128 "\<bar>v\<bar>"] pos_mod_sign [of 128 "\<bar>v\<bar>"] by linarith
    then show ?thesis by (simp add: nat_less_iff)
  next
    assume "N \<le> p + 8 + n" with k(1) show ?thesis by linarith
  qed
  ultimately show False by simp
qed

lemma bit_le_int_nth: "j < length d \<Longrightarrow> i < 8 \<Longrightarrow> bit (le_int d) (8 * j + i) = bit (d ! j) i"
proof (induction d arbitrary: j)
  case (Cons b d)
  then show ?case by (cases j) (simp_all add: bit_le_int del: le_int.simps)
qed simp

lemma append_byte:
  assumes "j < length d" "p \<le> 8 * j"
  shows "drop_bit p (take_bit (8 * j) (le_int d)) OR push_bit (8 * j - p) (uint (d ! j)) =
    drop_bit p (take_bit (8 * j + 8) (le_int d))"
proof (rule bit_eqI)
  fix i
  have "bit (uint (d ! j)) (i - (8 * j - p)) \<longleftrightarrow> bit (le_int d) (p + i)"
    if "8 * j \<le> p + i" "p + i < 8 * j + 8"
    using bit_le_int_nth [OF assms(1), of "p + i - 8 * j"] that assms(2) by (simp add: bit_simps add.commute)
  moreover have "\<not> bit (uint (d ! j)) (i - (8 * j - p))" if "8 * j + 8 \<le> p + i"
    using that assms(2) by (auto simp add: bit_simps dest: bit_imp_le_length)
  ultimately show "bit (drop_bit p (take_bit (8 * j) (le_int d)) OR push_bit (8 * j - p) (uint (d ! j))) i \<longleftrightarrow>
      bit (drop_bit p (take_bit (8 * j + 8) (le_int d))) i"
    using assms(2) by (cases "8 * j \<le> p + i"; cases "p + i < 8 * j + 8") (auto simp add: bit_simps)
qed

lemma codes_at:
  assumes "length order = 7" "stream = map \<beta> [0..<N]" "p \<le> N"
    "\<And>v. p + 8 \<le> N \<Longrightarrow> map \<beta> [p + 1..<p + 8] = map (bit \<bar>v\<bar>) order \<longleftrightarrow> \<bar>v\<bar> mod 128 = low"
  shows "drop p stream = coeff_bits order v @ rest \<longleftrightarrow>
    codes \<beta> N low p v \<and> rest = drop (p + 9 + nat (\<bar>v\<bar> div 128)) stream"
proof -
  have d: "drop q stream = map \<beta> [q..<N]" for q by (simp add: assms(2) drop_map)
  show ?thesis unfolding d coeff_at [OF assms(1)] codes_def Let_def using assms(4) [of v] by auto
qed

lemma le_low_bits:
  "map (bit L) [p + 1..<p + 8] = map (bit \<bar>v\<bar>) [0..<7] \<longleftrightarrow> \<bar>v\<bar> mod 128 = take_bit 7 (drop_bit (p + 1) L)" for L :: int
proof -
  have "\<bar>v\<bar> mod 128 = take_bit 7 \<bar>v\<bar>" by (simp add: take_bit_eq_mod)
  moreover have "take_bit 7 \<bar>v\<bar> = take_bit 7 (drop_bit (p + 1) L) \<longleftrightarrow> (\<forall>i < 7. bit \<bar>v\<bar> i = bit L (p + 1 + i))"
    unfolding bit_eq_iff bit_take_bit_iff bit_drop_bit_eq comp_def by (auto simp add: possible_bit_int)
  moreover have "map (bit L) [p + 1..<p + 8] = map (bit \<bar>v\<bar>) [0..<7] \<longleftrightarrow> (\<forall>i < 7. bit L (p + 1 + i) = bit \<bar>v\<bar> i)"
    by (simp add: list_eq_iff_nth_eq del: upt_Suc upt_rec_numeral)
  ultimately show ?thesis by auto
qed

lemma bits_be_nth: "j < length d \<Longrightarrow> i < 8 \<Longrightarrow> bits_be d ! (8 * j + i) \<longleftrightarrow> bit (d ! j) (7 - i)"
proof (induction d arbitrary: j)
  case (Cons b d)
  have e: "bits_be (b # d) = map (bit b) (rev [0..<8]) @ bits_be d" by (simp add: bits_be_def del: upt_Suc upt_rec_numeral)
  show ?case
  proof (cases j)
    case 0
    then show ?thesis using Cons.prems(2) by (simp add: e nth_append rev_nth del: upt_Suc upt_rec_numeral)
  next
    case (Suc j')
    then show ?thesis using Cons by (simp add: e nth_append del: upt_Suc upt_rec_numeral)
  qed
qed simp

lemma length_bits_be [simp]: "length (bits_be d) = 8 * length d"
  by (induction d) (simp_all add: bits_be_def)

lemma be_int_take_Suc:
  "v < length d \<Longrightarrow> be_int (take (Suc v) d) = push_bit 8 (be_int (take v d)) OR uint (d ! v)"
proof -
  assume v: "v < length d"
  have "be_int (take (Suc v) d) = le_int (d ! v # rev (take v d))" by (simp add: be_int_def take_Suc_conv_app_nth v)
  moreover have "bit (le_int (d ! v # rev (take v d))) i \<longleftrightarrow> bit (push_bit 8 (be_int (take v d)) OR uint (d ! v)) i" for i
    by (auto simp add: bit_le_int be_int_def bit_simps dest: bit_imp_le_length simp del: le_int.simps)
  ultimately show ?thesis by (simp add: bit_eq_iff del: le_int.simps)
qed

lemma bit_be_int:
  "v \<le> length d \<Longrightarrow> i < 8 * v \<Longrightarrow> bit (be_int (take v d)) i \<longleftrightarrow> bits_be d ! (8 * v - 1 - i)"
proof (induction v arbitrary: i)
  case (Suc v)
  then have v: "v < length d" by simp
  show ?case
  proof (cases "i < 8")
    case True
    have "8 * Suc v - 1 - i = 8 * v + (7 - i)" using True by simp
    then have "bits_be d ! (8 * Suc v - 1 - i) \<longleftrightarrow> bit (d ! v) i" using bits_be_nth [OF v, of "7 - i"] True by simp
    then show ?thesis using True by (simp add: be_int_take_Suc [OF v] bit_simps)
  next
    case False
    then have "bits_be d ! (8 * Suc v - 1 - i) = bits_be d ! (8 * v - 1 - (i - 8))" by simp
    moreover have "bit (be_int (take v d)) (i - 8) \<longleftrightarrow> bits_be d ! (8 * v - 1 - (i - 8))"
      using Suc.prems False by (intro Suc.IH) simp_all
    moreover have "\<not> bit (d ! v) i" using False by (auto dest: bit_imp_le_length)
    ultimately show ?thesis using False by (simp add: be_int_take_Suc [OF v] bit_simps)
  qed
qed simp

lemma drop_bit_and_one: "drop_bit n x AND 1 \<noteq> 0 \<longleftrightarrow> bit x n" for x :: int
  by (simp add: and_one_eq mod_2_eq_odd bit_iff_odd_drop_bit)

end
