(* ===== verification/FndsaCodec.thy ===== *)
theory FndsaCodec
  imports Fndsa Bitstream
begin

text \<open>
  The codecs of FN-DSA: both decoders of compressed signatures implement the contract of
  \<open>Bitstream\<close> and decode exactly the sequences of code words; the public-key codec is a round trip.
\<close>

unbundle bit_operations_syntax

subsection \<open>The little-endian decoder\<close>

lemma bit_length_power: "bit_length (2 ^ k) = Suc k"
  by (induction k) (simp_all add: bit_length.simps)

lemma odd_and_minus: "odd (y :: int) \<Longrightarrow> y AND - y = 1"
proof -
  assume "odd y"
  moreover from this have "(- y) div 2 = NOT (y div 2)"
    by (simp add: not_int_def) presburger
  ultimately show ?thesis by (subst and_int_rec) simp
qed

lemma ctz_lowest:
  assumes "0 < x"
  obtains k where "ctz32_nonzero x = int k" "bit x k" "\<forall>i < k. \<not> bit x i"
proof -
  have ex: "\<exists>k. bit x k" using assms bit_eq_iff [of x 0] by auto
  define k where "k = (LEAST k. bit x k)"
  have k: "bit x k" and low: "\<forall>i < k. \<not> bit x i"
    using LeastI_ex [OF ex] not_less_Least [of _ "bit x"] unfolding k_def by blast+
  define y where "y = drop_bit k x"
  have "odd y" using k by (simp add: y_def bit_iff_odd_drop_bit)
  have x: "x = push_bit k y"
  proof (rule bit_eqI)
    fix n
    have "bit x n \<Longrightarrow> k \<le> n" using low by (meson linorder_not_less)
    then show "bit x n \<longleftrightarrow> bit (push_bit k y) n" by (auto simp add: y_def bit_simps)
  qed
  have "x AND - x = push_bit k (y AND - y)" unfolding x push_bit_and push_bit_minus ..
  then have "x AND - x = 2 ^ k" using odd_and_minus [OF \<open>odd y\<close>] by (simp add: push_bit_eq_mult)
  then have "ctz32_nonzero x = int k"
    by (simp add: ctz32_nonzero_def bit_length_power nat_power_eq)
  then show ?thesis by (rule that) (use k low in blast)+
qed

definition comp_stands :: "bytes \<Rightarrow> int \<times> int \<times> nat \<Rightarrow> nat \<Rightarrow> bool" where
  "comp_stands d st p \<longleftrightarrow> (case st of (acc, acc_len, j) \<Rightarrow>
     j \<le> length d \<and> acc = drop_bit p (take_bit (8 * j) (le_int d)) \<and>
     int p + acc_len = 8 * int j \<and> 0 \<le> acc_len \<and> acc_len \<le> 7)"

lemma comp_refill_cases:
  assumes "q \<le> 8 * j" "j \<le> length d" "acc = drop_bit q (take_bit (8 * j) (le_int d))" "acc_len = 8 * int j - int q"
    "acc_len \<le> 7"
  obtains (none) n where "comp_refill d acc acc_len j = Inr None" "\<forall>i < n. \<not> bit (le_int d) (q + i)"
      "8 * length d \<le> q + n \<or> 8 \<le> n"
  | (some) j' k where "comp_refill d acc acc_len j =
        Inr (Some (drop_bit q (take_bit (8 * j') (le_int d)), 8 * int j' - int q, j'))" "j' \<le> length d"
      "ctz32_nonzero (drop_bit q (take_bit (8 * j') (le_int d))) = int k" "bit (le_int d) (q + k)"
      "\<forall>i < k. \<not> bit (le_int d) (q + i)" "q + k < 8 * j'" "8 * j' \<le> q + k + 8"
proof -
  let ?L = "le_int d"
  have first: thesis if r: "comp_refill d acc acc_len j =
        Inr (Some (drop_bit q (take_bit (8 * j') ?L), 8 * int j' - int q, j'))" and j': "j' \<le> length d"
      and nz: "drop_bit q (take_bit (8 * j') ?L) \<noteq> 0"
      and tail: "8 * j' \<le> q + 8 \<or> (\<forall>i. q + i + 8 < 8 * j' \<longrightarrow> \<not> bit ?L (q + i))" for j'
  proof -
    have "0 < drop_bit q (take_bit (8 * j') ?L)" using nz by (simp add: order_less_le)
    then obtain k where k: "ctz32_nonzero (drop_bit q (take_bit (8 * j') ?L)) = int k"
      "bit (drop_bit q (take_bit (8 * j') ?L)) k" "\<forall>i < k. \<not> bit (drop_bit q (take_bit (8 * j') ?L)) i"
      by (rule ctz_lowest)
    then have "bit ?L (q + k)" "q + k < 8 * j'" "\<forall>i < k. \<not> bit ?L (q + i)" by (auto simp add: bit_simps)
    moreover from this have "8 * j' \<le> q + k + 8" using tail by (auto simp add: not_less)
    ultimately show thesis using some [OF r j' k(1)] by blast
  qed
  have zero: "\<not> bit ?L (q + i)" if "acc = 0" "q + i < 8 * j" for i
  proof -
    have "\<not> bit acc i" using that(1) by simp
    with that(2) show ?thesis by (simp add: assms(3) bit_simps)
  qed
  show thesis
  proof (cases "acc = 0")
    case False
    then have "comp_refill d acc acc_len j = Inr (Some (drop_bit q (take_bit (8 * j) ?L), 8 * int j - int q, j))"
      by (simp add: comp_refill_def assms(3,4))
    moreover have "8 * j \<le> q + 8" using assms(4,5) by linarith
    ultimately show thesis using first [of j] False assms(2,3) by blast
  next
    case True
    show thesis
    proof (cases "length d \<le> j")
      case at_end: True
      then have "comp_refill d acc acc_len j = Inr None" by (simp add: comp_refill_def True)
      moreover have "\<forall>i < 8 * j - q. \<not> bit ?L (q + i)" using zero [OF True] by auto
      moreover have "8 * length d \<le> q + (8 * j - q)" using at_end assms(1) by simp
      ultimately show thesis by (intro none) auto
    next
      case False
      have len: "0 \<le> acc_len" "nat acc_len = 8 * j - q" using assms(1,4) by simp_all
      have "acc OR push_bit (8 * j - q) (uint (d ! j)) = drop_bit q (take_bit (8 * (j + 1)) ?L)"
        using append_byte [of j d q] False assms(1,3) by (simp add: add.commute)
      then have x: "push_bit (8 * j - q) (uint (d ! j)) = drop_bit q (take_bit (8 * (j + 1)) ?L)"
        using True by simp
      show thesis
      proof (cases "drop_bit q (take_bit (8 * (j + 1)) ?L) = 0")
        case z: True
        have "push_bit (8 * j - q) (uint (d ! j)) = 0" by (simp only: x z)
        then have "comp_refill d acc acc_len j = Inr None"
          using False len by (simp add: comp_refill_def True shl_def)
        moreover have "\<not> bit ?L (q + i)" if "q + i < 8 * (j + 1)" for i
        proof -
          have "\<not> bit (drop_bit q (take_bit (8 * (j + 1)) ?L)) i" unfolding z by simp
          with that show ?thesis by (simp add: bit_simps)
        qed
        then have "\<forall>i < 8 * (j + 1) - q. \<not> bit ?L (q + i)" by auto
        ultimately show thesis by (rule none) (use assms(1) in arith)
      next
        case nz: False
        have "comp_refill d acc acc_len j = Inr (Some (drop_bit q (take_bit (8 * (j + 1)) ?L), 8 * int (j + 1) - int q, j + 1))"
          using False len nz unfolding comp_refill_def True shl_def by (simp add: x assms(4))
        moreover have "\<forall>i. q + i + 8 < 8 * (j + 1) \<longrightarrow> \<not> bit ?L (q + i)" using zero [OF True] by simp
        ultimately show thesis using first [of "j + 1"] nz False by simp
      qed
    qed
  qed
qed

lemma comp_coeff_cases:
  assumes st: "comp_stands d st p"
  obtains (none) "comp_coeff d st = Inr None"
      "\<And>v. \<bar>v\<bar> \<le> 840 \<Longrightarrow> \<not> codes (bit (le_int d)) (8 * length d) (take_bit 7 (drop_bit (p + 1) (le_int d))) p v"
  | (some) v st' where "comp_coeff d st = Inr (Some (v, st'))" "\<bar>v\<bar> \<le> 840"
      "codes (bit (le_int d)) (8 * length d) (take_bit 7 (drop_bit (p + 1) (le_int d))) p v"
      "comp_stands d st' (p + 9 + nat (\<bar>v\<bar> div 128))"
proof -
  let ?L = "le_int d" and ?N = "8 * length d"
  define low where "low = take_bit 7 (drop_bit (p + 1) (le_int d))"
  have low: "0 \<le> low" "low < 128" by (simp_all add: low_def take_bit_int_less_exp [of 7, simplified])
  obtain acc acc_len j where s: "st = (acc, acc_len, j)" by (cases st)
  note st = st [unfolded s comp_stands_def prod.case]
  show thesis
  proof (cases "length d \<le> j")
    case True
    then have "?N \<le> p + 7" using st by linarith
    then show thesis using none [unfolded s] True by (auto simp add: s comp_coeff_def codes_def Let_def)
  next
    case False
    have p: "p \<le> 8 * j" "nat acc_len = 8 * j - p" "\<not> acc_len < 0" using st by linarith+
    define acc1 where "acc1 = drop_bit p (take_bit (8 * (j + 1)) ?L)"
    define x where "x = push_bit (nat acc_len) (uint (d ! j))"
    have sh: "shl (uint (d ! j)) acc_len = Inr x" using p(3) by (simp add: shl_def x_def)
    have acc1: "acc OR x = acc1" unfolding x_def
      using append_byte [of j d p] False p st by (simp add: acc1_def add.commute)
    have "bit acc1 0 \<longleftrightarrow> bit ?L p" unfolding acc1_def bit_drop_bit_eq bit_take_bit_iff comp_def using p(1) by simp
    then have t: "(acc1 AND 1 \<noteq> 0) = bit ?L p" by (simp add: and_one_eq mod_2_eq_odd bit_0)
    have m0: "drop_bit 1 acc1 AND 0x7F = low"
    proof -
      have "drop_bit 1 acc1 AND 0x7F = take_bit 7 (drop_bit 1 acc1)"
        using take_bit_eq_mask [of 7 "drop_bit 1 acc1"] by (simp add: mask_eq_exp_minus_1)
      also have "\<dots> = low" unfolding low_def acc1_def
        by (rule bit_eqI) (use p(1) in \<open>auto simp add: bit_simps add.commute add.left_commute\<close>)
      finally show ?thesis .
    qed
    have acc2: "drop_bit 8 acc1 = drop_bit (p + 8) (take_bit (8 * (j + 1)) ?L)" by (simp add: acc1_def add.commute)
    have run: "comp_coeff d st = bindE (comp_refill d (drop_bit 8 acc1) acc_len (j + 1)) (\<lambda>r. case r of
          None \<Rightarrow> Inr None
        | Some (acc, acc_len, j) \<Rightarrow>
            let tz = ctz32_nonzero acc
            in bindE (shl tz 7) (\<lambda>y. let m = low + y in
              if 840 < m then Inr None
              else bindE (shr acc (tz + 1)) (\<lambda>acc.
                if m = 0 \<and> bit ?L p then Inr None
                else bindE (int16 (if bit ?L p then - m else m)) (\<lambda>v.
                  Inr (Some (v, acc, acc_len - (tz + 1), j))))))"
      using False by (simp only: s comp_coeff_def prod.case if_False sh bindE_simps Let_def acc1 m0 t)
    have "int (8 * (j + 1)) - int (p + 8) = acc_len" using st by simp
    then have al: "acc_len = 8 * int (j + 1) - int (p + 8)" by simp
    show thesis
    proof (rule comp_refill_cases [of "p + 8" "j + 1" d "drop_bit 8 acc1" acc_len])
      fix n
      assume r: "comp_refill d (drop_bit 8 acc1) acc_len (j + 1) = Inr None"
        and z: "\<forall>i < n. \<not> bit ?L (p + 8 + i)" and n: "8 * length d \<le> p + 8 + n \<or> 8 \<le> n"
      show thesis
      proof (rule none)
        show "comp_coeff d st = Inr None" by (simp only: run r bindE_simps option.case)
        show "\<not> codes (bit ?L) ?N (take_bit 7 (drop_bit (p + 1) ?L)) p v" if "\<bar>v\<bar> \<le> 840" for v
          using codes_behind_zeros [of "bit ?L" ?N _ p v n] z n that by fastforce
      qed
    next
      fix j' k
      assume r: "comp_refill d (drop_bit 8 acc1) acc_len (j + 1) =
          Inr (Some (drop_bit (p + 8) (take_bit (8 * j') ?L), 8 * int j' - int (p + 8), j'))"
        and j': "j' \<le> length d" and tz: "ctz32_nonzero (drop_bit (p + 8) (take_bit (8 * j') ?L)) = int k"
        and k: "bit ?L (p + 8 + k)" "\<forall>i < k. \<not> bit ?L (p + 8 + i)" "p + 8 + k < 8 * j'" "8 * j' \<le> p + 8 + k + 8"
      have le: "p + 9 + k \<le> ?N" using j' k(3) by simp
      note iff = codes_iff [of "bit ?L" p k ?N low, OF k(1,2) le low]
      have out: "comp_coeff d st = (if 840 < low + 128 * int k then Inr None
          else if low + 128 * int k = 0 \<and> bit ?L p then Inr None
          else bindE (int16 (if bit ?L p then - (low + 128 * int k) else low + 128 * int k)) (\<lambda>v.
            Inr (Some (v, drop_bit (p + 9 + k) (take_bit (8 * j') ?L), 8 * int j' - int (p + 9 + k), j'))))"
      proof -
        have e: "shl (int k) 7 = Inr (128 * int k)" by (simp add: shl_def push_bit_eq_mult)
        have f: "shr (drop_bit (p + 8) (take_bit (8 * j') ?L)) (int k + 1) = Inr (drop_bit (p + 9 + k) (take_bit (8 * j') ?L))"
          by (simp add: shr_def nat_add_distrib add.commute add.left_commute)
        show ?thesis unfolding run r bindE_simps option.case prod.case tz Let_def e f by (simp add: algebra_simps)
      qed
      show thesis
      proof (cases "840 < low + 128 * int k \<or> low + 128 * int k = 0 \<and> bit ?L p")
        case True
        show thesis
        proof (rule none)
          show "comp_coeff d st = Inr None" unfolding out using True by (elim disjE) simp_all
          show "\<not> codes (bit ?L) ?N (take_bit 7 (drop_bit (p + 1) ?L)) p v" if "\<bar>v\<bar> \<le> 840" for v
            using that True unfolding low_def [symmetric] iff by auto
        qed
      next
        case False
        define v where "v = (if bit ?L p then - (low + 128 * int k) else low + 128 * int k)"
        have v: "\<bar>v\<bar> = low + 128 * int k" "bit ?L p \<longleftrightarrow> v < 0" "\<bar>v\<bar> \<le> 840"
          using False low by (auto simp add: v_def)
        have "nat (\<bar>v\<bar> div 128) = k" using v(1) low by simp
        moreover have "comp_stands d (drop_bit (p + 9 + k) (take_bit (8 * j') ?L), 8 * int j' - int (p + 9 + k), j') (p + 9 + k)"
          using j' k(3,4) by (simp add: comp_stands_def)
        moreover have "comp_coeff d st = Inr (Some (v, drop_bit (p + 9 + k) (take_bit (8 * j') ?L), 8 * int j' - int (p + 9 + k), j'))"
        proof -
          have "int16 v = Inr v" using v(3) by (simp add: int16_def abs_le_iff)
          then show ?thesis unfolding out v_def [symmetric] using False by (simp only: de_Morgan_disj if_False bindE_simps)
        qed
        ultimately show thesis using some [of v] v iff [of v] unfolding low_def [symmetric] by blast
      qed
    qed (use st p False acc2 al in auto)
  qed
qed

definition comp_step :: "bytes \<Rightarrow> int \<times> int \<times> nat \<Rightarrow> (int \<times> int \<times> int \<times> nat) option" where
  "comp_step d st = (case comp_coeff d st of Inr r \<Rightarrow> r | Inl e \<Rightarrow> None)"

lemma comp_stands_le: "comp_stands d st p \<Longrightarrow> p \<le> 8 * length d"
  by (auto simp add: comp_stands_def split: prod.splits)

lemma comp_code:
  "comp_stands d st p \<Longrightarrow> drop p (bits_le d) = coeff_bits [0..<7] v @ rest \<longleftrightarrow>
    codes (bit (le_int d)) (8 * length d) (take_bit 7 (drop_bit (p + 1) (le_int d))) p v \<and>
    rest = drop (p + 9 + nat (\<bar>v\<bar> div 128)) (bits_le d)"
  by (rule codes_at [OF _ bits_le_int _ le_low_bits]) (simp_all add: comp_stands_le del: upt_rec_numeral)

interpretation comp: coefficient_decoder comp_step bits_le "coeff_bits [0..<7]" 840 comp_stands
proof
  fix d st p rest and v :: int
  assume s: "comp_stands d st p" and n: "comp_step d st = None" and v: "\<bar>v\<bar> \<le> 840"
  from s show "drop p (bits_le d) \<noteq> coeff_bits [0..<7] v @ rest"
    by (rule comp_coeff_cases) (use n v s in \<open>auto simp add: comp_step_def comp_code del: notI\<close>)
next
  fix d st p v st'
  assume s: "comp_stands d st p" and r: "comp_step d st = Some (v, st')"
  from s show "\<bar>v\<bar> \<le> 840 \<and> (\<exists>q. comp_stands d st' q \<and> drop p (bits_le d) = coeff_bits [0..<7] v @ drop q (bits_le d))"
    by (rule comp_coeff_cases) (use r s in \<open>auto simp add: comp_step_def comp_code\<close>)
next
  fix v v' :: int and r r'
  show "coeff_bits [0..<7] v @ r = coeff_bits [0..<7] v' @ r' \<Longrightarrow> v = v' \<and> r = r'"
    by (rule coeff_bits_prefix_free) auto
qed

lemma comp_loop_total:
  "comp_stands d st p \<Longrightarrow> comp_loop n d st = Inr (decode_all (comp_step d) n st)"
proof (induction n arbitrary: st p)
  case (Suc n)
  from Suc.prems show ?case
  proof (rule comp_coeff_cases)
    assume "comp_coeff d st = Inr None"
    then show ?thesis by (simp add: comp_step_def)
  next
    fix v st'
    assume c: "comp_coeff d st = Inr (Some (v, st'))" and "comp_stands d st' (p + 9 + nat (\<bar>v\<bar> div 128))"
    with Suc.IH show ?thesis by (simp add: comp_step_def)
  qed
qed simp

lemma comp_start: "comp_stands d (0, 0, 0) 0"
  by (simp add: comp_stands_def)

theorem comp_decode_exact:
  "\<exists>r. ref_comp_decode log_n d = Inr r \<and> (\<forall>s. r = Some s \<longleftrightarrow>
     length s = 2 ^ log_n \<and> (\<forall>v \<in> set s. \<bar>v\<bar> \<le> 840) \<and> (\<exists>rest. bits_le d = concat (map (coeff_bits [0..<7]) s) @ rest))"
  using comp.decodes [OF comp_start] by (simp add: ref_comp_decode_def comp_loop_total [OF comp_start] del: upt_rec_numeral)

subsection \<open>The big-endian decoder\<close>

lemma falcon_unary_cases:
  assumes "v \<le> length d" "acc_len \<le> 8" "acc_len \<le> 8 * v" "q = 8 * v - acc_len"
  shows "(falcon_unary d (be_int (take v d)) acc_len v m = None \<and>
      (\<forall>k. q + k < 8 * length d \<longrightarrow> bits_be d ! (q + k) \<longrightarrow> (\<forall>i < k. \<not> bits_be d ! (q + i)) \<longrightarrow> 0 < k \<and> 2047 < m + 128 * int k)) \<or>
    (\<exists>k v'. falcon_unary d (be_int (take v d)) acc_len v m =
        Some (be_int (take v' d), 8 * v' - (q + k + 1), v', m + 128 * int k) \<and>
      v' \<le> length d \<and> q + k + 1 \<le> 8 * v' \<and> 8 * v' \<le> q + k + 8 \<and>
      bits_be d ! (q + k) \<and> (\<forall>i < k. \<not> bits_be d ! (q + i)) \<and> (k = 0 \<or> m + 128 * int k \<le> 2047))"
  using assms
proof (induction "nat (2048 - m)" arbitrary: m acc_len v q rule: less_induct)
  case less
  let ?B = "\<lambda>i. bits_be d ! i"
  show ?case
  proof (cases "acc_len = 0 \<and> length d \<le> v")
    case True
    then show ?thesis using less.prems by (subst falcon_unary.simps) auto
  next
    case False
    define w where "w = (if acc_len = 0 then v + 1 else v)"
    define l where "l = (if acc_len = 0 then 7 else acc_len - 1)"
    have w: "w \<le> length d" "l \<le> 7" "l + 1 \<le> 8 * w" and q: "q = 8 * w - (l + 1)"
      using less.prems False by (auto simp add: w_def l_def)
    have step: "falcon_unary d (be_int (take v d)) acc_len v m =
        (if ?B q then Some (be_int (take w d), l, w, m)
         else if 2047 < m + 128 then None else falcon_unary d (be_int (take w d)) l w (m + 128))"
    proof -
      have "bit (be_int (take w d)) l \<longleftrightarrow> ?B q" using bit_be_int [OF w(1), of l] w(3) by (simp add: q)
      moreover have "push_bit 8 (be_int (take v d)) OR uint (d ! v) = be_int (take (v + 1) d)" if "acc_len = 0"
        using be_int_take_Suc [of v d] False that by simp
      ultimately show ?thesis
        using False by (subst falcon_unary.simps) (auto simp add: Let_def drop_bit_and_one [simplified] w_def l_def)
    qed
    show ?thesis
    proof (cases "?B q")
      case True
      have "8 * w - (q + 0 + 1) = l" "q + 0 + 1 \<le> 8 * w" "8 * w \<le> q + 0 + 8" using q w by simp_all
      with True w(1) show ?thesis unfolding step by (intro disjI2 exI [of _ 0] exI [of _ w]) simp
    next
      case nb: False
      have first: "\<exists>k'. k = Suc k'" if "?B (q + k)" for k using that nb by (cases k) auto
      show ?thesis
      proof (cases "2047 < m + 128")
        case True
        have "0 < k \<and> 2047 < m + 128 * int k" if "?B (q + k)" for k using first [OF that] True by auto
        with nb True show ?thesis unfolding step by auto
      next
        case False
        have q': "8 * w - l = q + 1" using q w by simp
        from less.hyps [of "m + 128" w l] False w q'
        have IH: "(falcon_unary d (be_int (take w d)) l w (m + 128) = None \<and>
            (\<forall>k. q + 1 + k < 8 * length d \<longrightarrow> ?B (q + 1 + k) \<longrightarrow> (\<forall>i < k. \<not> ?B (q + 1 + i)) \<longrightarrow>
              0 < k \<and> 2047 < m + 128 + 128 * int k)) \<or>
          (\<exists>k v'. falcon_unary d (be_int (take w d)) l w (m + 128) =
              Some (be_int (take v' d), 8 * v' - (q + 1 + k + 1), v', m + 128 + 128 * int k) \<and>
            v' \<le> length d \<and> q + 1 + k + 1 \<le> 8 * v' \<and> 8 * v' \<le> q + 1 + k + 8 \<and>
            ?B (q + 1 + k) \<and> (\<forall>i < k. \<not> ?B (q + 1 + i)) \<and> (k = 0 \<or> m + 128 + 128 * int k \<le> 2047))"
          (is "?P1 \<or> ?P2") by simp
        then show ?thesis
        proof (rule disjE)
          assume p: ?P1
          note n = p [THEN conjunct1] and a = p [THEN conjunct2]
          have "0 < k \<and> 2047 < m + 128 * int k"
            if k: "q + k < 8 * length d" "?B (q + k)" "\<forall>i < k. \<not> ?B (q + i)" for k
          proof -
            obtain k' where k': "k = Suc k'" using first [OF k(2)] by blast
            have "\<forall>i < k'. \<not> ?B (q + 1 + i)" using k(3) k' by auto
            with a [rule_format, of k'] k k' show ?thesis by auto
          qed
          with n nb False show ?thesis unfolding step by auto
        next
          assume ?P2
          then obtain k v' where s: "falcon_unary d (be_int (take w d)) l w (m + 128) =
              Some (be_int (take v' d), 8 * v' - (q + 1 + k + 1), v', m + 128 + 128 * int k)"
            and r: "v' \<le> length d" "q + 1 + k + 1 \<le> 8 * v'" "8 * v' \<le> q + 1 + k + 8" "?B (q + 1 + k)"
              "\<forall>i < k. \<not> ?B (q + 1 + i)" "k = 0 \<or> m + 128 + 128 * int k \<le> 2047" by (elim exE conjE) (rule that)
          have "\<not> ?B (q + i)" if "i < Suc k" for i using nb r(5) that by (cases i) auto
          with s r nb False show ?thesis unfolding step
            by (intro disjI2 exI [of _ "Suc k"] exI [of _ v']) (auto simp add: algebra_simps)
        qed
      qed
    qed
  qed
qed

definition falcon_stands :: "bytes \<Rightarrow> int \<times> nat \<times> nat \<Rightarrow> nat \<Rightarrow> bool" where
  "falcon_stands d st p \<longleftrightarrow> (case st of (acc, acc_len, v) \<Rightarrow>
     v \<le> length d \<and> acc = be_int (take v d) \<and> acc_len \<le> 7 \<and> acc_len \<le> 8 * v \<and> p = 8 * v - acc_len)"

text \<open>The seven bits behind position \<open>p\<close>, high bit first.\<close>

definition falcon_low :: "bytes \<Rightarrow> nat \<Rightarrow> int" where
  "falcon_low d p = take_bit 7 (drop_bit (8 * length d - (p + 8)) (be_int d))"

lemma falcon_low_range: "0 \<le> falcon_low d p" "falcon_low d p < 128"
  using take_bit_int_less_exp [of 7 "drop_bit (8 * length d - (p + 8)) (be_int d)"] by (simp_all add: falcon_low_def)

lemma bit_falcon_low:
  assumes "p + 8 \<le> 8 * length d" "i < 7"
  shows "bit (falcon_low d p) i \<longleftrightarrow> bits_be d ! (p + 7 - i)"
proof -
  let ?N = "8 * length d"
  have "?N - (p + 8) + i < ?N" "?N - 1 - (?N - (p + 8) + i) = p + 7 - i" using assms by simp_all
  then show ?thesis
    using bit_be_int [of "length d" d "?N - (p + 8) + i"] assms(2) by (simp add: falcon_low_def bit_simps add.commute)
qed

lemma falcon_coeff_cases:
  assumes st: "falcon_stands d st p"
  obtains (none) "falcon_coeff d st = None"
      "\<And>v. \<bar>v\<bar> \<le> 2047 \<Longrightarrow> \<not> codes ((!) (bits_be d)) (8 * length d) (falcon_low d p) p v"
  | (some) v st' where "falcon_coeff d st = Some (v, st')" "\<bar>v\<bar> \<le> 2047"
      "codes ((!) (bits_be d)) (8 * length d) (falcon_low d p) p v"
      "falcon_stands d st' (p + 9 + nat (\<bar>v\<bar> div 128))"
proof -
  let ?B = "(!) (bits_be d)" and ?N = "8 * length d"
  obtain acc al w where s: "st = (acc, al, w)" by (cases st)
  note st = st [unfolded s falcon_stands_def prod.case]
  show thesis
  proof (cases "length d \<le> w")
    case True
    then have "?N \<le> p + 7" using st by linarith
    then show thesis using none True by (auto simp add: s falcon_coeff_def codes_def Let_def)
  next
    case False
    have p: "p + 8 = 8 * (w + 1) - al" "p + 8 \<le> ?N" "al \<le> 8 * (w + 1)" using st False by auto
    define a where "a = be_int (take (w + 1) d)"
    have acc: "push_bit 8 acc OR uint (d ! w) = a"
      using be_int_take_Suc [of w d] st False by (simp add: a_def)
    have bit_a: "bit a (al + i) \<longleftrightarrow> ?B (p + 7 - i)" if "i < 8" for i
      using bit_be_int [of "w + 1" d "al + i"] False st that by (simp add: a_def add.commute)
    have sgn: "(drop_bit al a AND 0xFF) AND 128 \<noteq> 0 \<longleftrightarrow> ?B p"
    proof -
      have "(drop_bit al a AND 0xFF) AND 128 = drop_bit al a AND 2 ^ 7" by (simp add: and.assoc)
      also have "\<dots> \<noteq> 0 \<longleftrightarrow> bit (drop_bit al a) 7" by (simp only: bit_iff_and_push_bit_not_eq_0 push_bit_of_1)
      finally show ?thesis using bit_a [of 7] by (simp add: bit_simps)
    qed
    have low: "(drop_bit al a AND 0xFF) AND 127 = falcon_low d p"
    proof (rule bit_eqI)
      fix i
      have "(drop_bit al a AND 0xFF) AND 127 = take_bit 7 (drop_bit al a)"
        using take_bit_eq_mask [of 7 "drop_bit al a"] by (simp add: and.assoc mask_eq_exp_minus_1)
      moreover have "\<not> bit (falcon_low d p) i" if "\<not> i < 7" using that by (simp add: falcon_low_def bit_simps)
      ultimately show "bit ((drop_bit al a AND 0xFF) AND 127) i \<longleftrightarrow> bit (falcon_low d p) i"
        using bit_a [of i] bit_falcon_low [OF p(2), of i] by (cases "i < 7") (simp_all add: bit_simps)
    qed
    have run: "falcon_coeff d st = (case falcon_unary d a al (w + 1) (falcon_low d p) of
          None \<Rightarrow> None
        | Some (acc, acc_len, v, m) \<Rightarrow>
            if ?B p \<and> m = 0 then None else Some (if ?B p then - m else m, acc, acc_len, v))"
      using False by (simp only: s falcon_coeff_def prod.case if_False Let_def acc sgn low)
    have w: "w + 1 \<le> length d" "al \<le> 8" using False st by simp_all
    from falcon_unary_cases [OF w p(3,1), of "falcon_low d p"] show thesis
    proof (rule disjE)
      assume r: "falcon_unary d (be_int (take (w + 1) d)) al (w + 1) (falcon_low d p) = None \<and>
        (\<forall>k. p + 8 + k < ?N \<longrightarrow> ?B (p + 8 + k) \<longrightarrow> (\<forall>i < k. \<not> ?B (p + 8 + i)) \<longrightarrow>
          0 < k \<and> 2047 < falcon_low d p + 128 * int k)"
      show thesis
      proof (rule none)
        show "falcon_coeff d st = None" using r by (simp only: run a_def option.case)
        fix v :: int assume v: "\<bar>v\<bar> \<le> 2047"
        show "\<not> codes ?B ?N (falcon_low d p) p v"
        proof
          assume c: "codes ?B ?N (falcon_low d p) p v"
          let ?k = "nat (\<bar>v\<bar> div 128)"
          have k: "p + 9 + ?k \<le> ?N" "\<forall>i < ?k. \<not> ?B (p + 8 + i)" "?B (p + 8 + ?k)" "\<bar>v\<bar> mod 128 = falcon_low d p"
            using c by (simp_all add: codes_def Let_def)
          moreover have "p + 8 + ?k < ?N" using k(1) by simp
          ultimately have "2047 < falcon_low d p + 128 * int ?k" using r [THEN conjunct2, rule_format, of ?k] by blast
          moreover have "\<bar>v\<bar> = falcon_low d p + 128 * int ?k"
            using k(4) mult_div_mod_eq [of 128 "\<bar>v\<bar>"] by (simp add: pos_imp_zdiv_nonneg_iff)
          ultimately show False using v by simp
        qed
      qed
    next
      assume "\<exists>k v'. falcon_unary d (be_int (take (w + 1) d)) al (w + 1) (falcon_low d p) =
          Some (be_int (take v' d), 8 * v' - (p + 8 + k + 1), v', falcon_low d p + 128 * int k) \<and>
        v' \<le> length d \<and> p + 8 + k + 1 \<le> 8 * v' \<and> 8 * v' \<le> p + 8 + k + 8 \<and>
        ?B (p + 8 + k) \<and> (\<forall>i < k. \<not> ?B (p + 8 + i)) \<and> (k = 0 \<or> falcon_low d p + 128 * int k \<le> 2047)"
      then obtain k v' where u: "falcon_unary d (be_int (take (w + 1) d)) al (w + 1) (falcon_low d p) =
          Some (be_int (take v' d), 8 * v' - (p + 8 + k + 1), v', falcon_low d p + 128 * int k)"
        and r: "v' \<le> length d" "p + 8 + k + 1 \<le> 8 * v'" "8 * v' \<le> p + 8 + k + 8" "?B (p + 8 + k)"
          "\<forall>i < k. \<not> ?B (p + 8 + i)" "k = 0 \<or> falcon_low d p + 128 * int k \<le> 2047"
        by (elim exE conjE) (rule that)
      note u = u [folded a_def]
      define m where "m = falcon_low d p + 128 * int k"
      have m: "0 \<le> m" "m \<le> 2047" using r(6) falcon_low_range [of d p] by (auto simp add: m_def)
      have "p + 9 + k \<le> ?N" using r(1,2) by simp
      note iff = codes_iff [OF r(4,5) this falcon_low_range [of d p], folded m_def]
      show thesis
      proof (cases "?B p \<and> m = 0")
        case True
        show thesis
        proof (rule none)
          show "falcon_coeff d st = None" unfolding run u option.case prod.case m_def [symmetric] using True by simp
          show "\<not> codes ?B ?N (falcon_low d p) p v" if "\<bar>v\<bar> \<le> 2047" for v using True iff [of v] by auto
        qed
      next
        case False
        define v where "v = (if ?B p then - m else m)"
        have v: "\<bar>v\<bar> = m" "?B p \<longleftrightarrow> v < 0" using False m by (auto simp add: v_def)
        have "nat (\<bar>v\<bar> div 128) = k" unfolding v(1) m_def using falcon_low_range [of d p] by simp
        moreover have "falcon_stands d (be_int (take v' d), 8 * v' - (p + 9 + k), v') (p + 9 + k)"
          using r(1-3) by (simp add: falcon_stands_def)
        moreover have "falcon_coeff d st = Some (v, be_int (take v' d), 8 * v' - (p + 9 + k), v')"
          unfolding run u option.case prod.case m_def [symmetric] v_def [symmetric] using False
          by (simp add: add.commute add.left_commute)
        ultimately show thesis using some [of v] v m iff [of v] by simp
      qed
    qed
  qed
qed

lemma be_low_bits:
  assumes "p + 8 \<le> 8 * length d"
  shows "map ((!) (bits_be d)) [p + 1..<p + 8] = map (bit \<bar>v\<bar>) (rev [0..<7]) \<longleftrightarrow> \<bar>v\<bar> mod 128 = falcon_low d p"
proof -
  have "map ((!) (bits_be d)) [p + 1..<p + 8] = map (bit \<bar>v\<bar>) (rev [0..<7]) \<longleftrightarrow>
      (\<forall>i < 7. bits_be d ! (p + 1 + i) = bit \<bar>v\<bar> (6 - i))"
    by (simp add: list_eq_iff_nth_eq rev_nth del: upt_Suc upt_rec_numeral)
  also have "\<dots> \<longleftrightarrow> (\<forall>i < 7. bits_be d ! (p + 7 - i) = bit \<bar>v\<bar> i)"
  proof -
    have flip: "p + 1 + (6 - i) = p + 7 - i" "6 - (6 - i) = i" "6 - i < 7" "p + 7 - (6 - i) = p + 1 + i"
      if "i < 7" for i :: nat using that by simp_all
    show ?thesis by (metis flip)
  qed
  also have "\<dots> \<longleftrightarrow> (\<forall>i < 7. bit (falcon_low d p) i = bit \<bar>v\<bar> i)" using bit_falcon_low [OF assms] by auto
  also have "\<dots> \<longleftrightarrow> take_bit 7 \<bar>v\<bar> = take_bit 7 (falcon_low d p)"
    unfolding bit_eq_iff bit_take_bit_iff by (auto simp add: possible_bit_int)
  also have "\<dots> \<longleftrightarrow> \<bar>v\<bar> mod 128 = falcon_low d p"
    using falcon_low_range [of d p] by (simp add: take_bit_eq_mod)
  finally show ?thesis .
qed

lemma falcon_stands_le: "falcon_stands d st p \<Longrightarrow> p \<le> 8 * length d"
  by (auto simp add: falcon_stands_def split: prod.splits)

lemma bits_be_nths: "bits_be d = map ((!) (bits_be d)) [0..<8 * length d]"
  using map_nth [of "bits_be d"] by simp

lemma falcon_code:
  "falcon_stands d st p \<Longrightarrow> drop p (bits_be d) = coeff_bits (rev [0..<7]) v @ rest \<longleftrightarrow>
    codes ((!) (bits_be d)) (8 * length d) (falcon_low d p) p v \<and> rest = drop (p + 9 + nat (\<bar>v\<bar> div 128)) (bits_be d)"
  by (rule codes_at [OF _ bits_be_nths falcon_stands_le be_low_bits]) simp_all

interpretation falcon: coefficient_decoder falcon_coeff bits_be "coeff_bits (rev [0..<7])" 2047 falcon_stands
proof
  fix d st p rest and v :: int
  assume s: "falcon_stands d st p" and n: "falcon_coeff d st = None" and v: "\<bar>v\<bar> \<le> 2047"
  from s show "drop p (bits_be d) \<noteq> coeff_bits (rev [0..<7]) v @ rest"
    by (rule falcon_coeff_cases) (use n v s in \<open>simp_all add: falcon_code\<close>)
next
  fix d st p v st'
  assume s: "falcon_stands d st p" and r: "falcon_coeff d st = Some (v, st')"
  from s show "\<bar>v\<bar> \<le> 2047 \<and> (\<exists>q. falcon_stands d st' q \<and>
      drop p (bits_be d) = coeff_bits (rev [0..<7]) v @ drop q (bits_be d))"
    by (rule falcon_coeff_cases) (use r s in \<open>auto simp add: falcon_code\<close>)
next
  fix v v' :: int and r r'
  show "coeff_bits (rev [0..<7]) v @ r = coeff_bits (rev [0..<7]) v' @ r' \<Longrightarrow> v = v' \<and> r = r'"
    by (rule coeff_bits_prefix_free) auto
qed

lemma falcon_loop_total:
  "falcon_stands d st p \<Longrightarrow> falcon_loop n d st = Inr (decode_all (falcon_coeff d) n st)"
proof (induction n arbitrary: st p)
  case (Suc n)
  from Suc.prems show ?case
  proof (rule falcon_coeff_cases)
    fix v st'
    assume "falcon_coeff d st = Some (v, st')" "falcon_stands d st' (p + 9 + nat (\<bar>v\<bar> div 128))" "\<bar>v\<bar> \<le> 2047"
    with Suc.IH show ?thesis by (simp add: int16_def abs_le_iff)
  qed simp
qed simp

lemma falcon_start: "falcon_stands d (0, 0, 0) 0"
  by (simp add: falcon_stands_def be_int_def)

lemma falcon_decode_exact:
  "\<exists>r. ref_comp_decode_falcon d log_n = Inr r \<and> (\<forall>s. r = Some s \<longleftrightarrow>
     length s = 2 ^ log_n \<and> (\<forall>v \<in> set s. \<bar>v\<bar> \<le> 2047) \<and>
     (\<exists>rest. bits_be d = concat (map (coeff_bits (rev [0..<7])) s) @ rest))"
  using falcon.decodes [OF falcon_start] by (simp add: ref_comp_decode_falcon_def falcon_loop_total [OF falcon_start] del: upt_rec_numeral)

text \<open>
  C36. The two decoders of compressed signatures: on every input they return (no exception, no
  endless loop), and they return a vector of coefficients if and only if the input begins with its
  code words, in the little-endian order of bits with values up to 840 for the one, in the
  big-endian order with values up to 2047 for the other; what follows is not looked at.
\<close>

theorem decoders_exact:
  "(\<exists>r. ref_comp_decode log_n d = Inr r \<and> (\<forall>s. r = Some s \<longleftrightarrow>
     length s = 2 ^ log_n \<and> (\<forall>v \<in> set s. \<bar>v\<bar> \<le> 840) \<and>
     (\<exists>rest. bits_le d = concat (map (coeff_bits [0..<7]) s) @ rest))) \<and>
   (\<exists>r. ref_comp_decode_falcon d log_n = Inr r \<and> (\<forall>s. r = Some s \<longleftrightarrow>
     length s = 2 ^ log_n \<and> (\<forall>v \<in> set s. \<bar>v\<bar> \<le> 2047) \<and>
     (\<exists>rest. bits_be d = concat (map (coeff_bits (rev [0..<7])) s) @ rest)))"
  by (intro conjI comp_decode_exact falcon_decode_exact)

theorem decoders_exact_witness:
  "ref_comp_decode 0 [0x03, 0x02] = Inr (Some [- 129])"
proof -
  have "bits_le [0x03, 0x02] = concat (map (coeff_bits [0..<7]) [- 129]) @ replicate 6 False" by code_simp
  with decoders_exact [of 0 "[0x03, 0x02]"] show ?thesis by (auto dest!: spec [of _ "[- 129]"])
qed

subsection \<open>Public keys as streams of 14-bit numbers\<close>

lemma bit_le_int_div: "bit (le_int d) q \<longleftrightarrow> q div 8 < length d \<and> bit (d ! (q div 8)) (q mod 8)"
proof (cases "q div 8 < length d")
  case True
  have "8 * (q div 8) + q mod 8 = q" by simp
  with bit_le_int_nth [OF True, of "q mod 8"] True show ?thesis by simp
next
  case False
  then have "8 * length d \<le> q" by linarith
  moreover have "le_int d < 2 ^ (8 * length d)" using le_int_less [of d] by (simp add: pow256)
  then have "take_bit (8 * length d) (le_int d) = le_int d" by (simp add: take_bit_int_eq_self)
  ultimately have "\<not> bit (le_int d) q" by (metis bit_take_bit_iff linorder_not_le)
  with False show ?thesis by simp
qed

definition stream :: "bytes \<Rightarrow> nat \<Rightarrow> bool" where
  "stream pk q = bit (le_int (drop 1 pk)) q"

lemma stream_or_byte:
  assumes "1 + k < length pk"
  shows "stream (or_byte (1 + k) x pk) q \<longleftrightarrow> stream pk q \<or> q div 8 = k \<and> bit x (q mod 8)"
proof -
  have "drop 1 (or_byte (1 + k) x pk) = (drop 1 pk)[k := drop 1 pk ! k OR word_of_int (x AND 0xFF)]"
    using assms by (simp add: or_byte_def drop_update_swap)
  moreover have "bit (word_of_int (x AND 0xFF) :: byte) (q mod 8) \<longleftrightarrow> bit x (q mod 8)"
  proof -
    have "x AND 0xFF = take_bit 8 x" using take_bit_eq_mask [of 8 x] by (simp add: mask_eq_exp_minus_1)
    then show ?thesis by (simp add: bit_simps)
  qed
  ultimately show ?thesis using assms by (auto simp add: stream_def bit_le_int_div nth_list_update bit_or_iff)
qed

lemma length_or_byte [simp]: "length (or_byte k x pk) = length pk"
  by (simp add: or_byte_def)

lemma length_pack_coeff [simp]: "length (pack_coeff h pk i) = length pk"
  by (simp add: pack_coeff_def Let_def)

lemma stream_pack_coeff:
  assumes "length pk = 1 + (n * 14 + 7) div 8" "i < n"
  shows "stream (pack_coeff h pk i) q \<longleftrightarrow> stream pk q \<or> 14 * i \<le> q \<and> q < 14 * i + 14 \<and> bit (h ! i) (q - 14 * i)"
proof -
  define b where "b = 14 * i div 8"
  define off where "off = 14 * i mod 8"
  define val where "val = h ! i AND 0x3FFF"
  have i: "14 * i = 8 * b + off" unfolding b_def off_def by (metis mult_div_mod_eq)
  have off: "off < 8" by (simp add: off_def)
  note i = i off
  have "14 * i + 14 \<le> 14 * n" using assms(2) by simp
  then have fits: "14 * i + 14 \<le> 8 * (length pk - 1)" using assms(1) by simp
  have val: "bit val t \<longleftrightarrow> t < 14 \<and> bit (h ! i) t" for t
  proof -
    have "val = take_bit 14 (h ! i)" using take_bit_eq_mask [of 14 "h ! i"] by (simp add: val_def mask_eq_exp_minus_1)
    then show ?thesis by (simp add: bit_simps)
  qed
  have k0: "1 + b < length pk" using fits i by linarith
  define p1 where "p1 = or_byte (1 + b) (push_bit off val) pk"
  define p2 where "p2 = (if 1 + (b + 1) < length p1 then or_byte (1 + (b + 1)) (drop_bit (8 - off) val) p1 else p1)"
  have len: "length p1 = length pk" "length p2 = length pk" by (simp_all add: p1_def p2_def)
  have e: "pack_coeff h pk i = (if 2 < off \<and> 1 + (b + 2) < length p2 then or_byte (1 + (b + 2)) (drop_bit (16 - off) val) p2 else p2)"
    by (simp add: pack_coeff_def Let_def p2_def p1_def b_def off_def val_def add.commute)
  have s1: "stream p1 q \<longleftrightarrow> stream pk q \<or> q div 8 = b \<and> bit (push_bit off val) (q mod 8)"
    unfolding p1_def by (rule stream_or_byte [OF k0])
  have s2: "stream p2 q \<longleftrightarrow> stream p1 q \<or> q div 8 = b + 1 \<and> bit (drop_bit (8 - off) val) (q mod 8)"
  proof (cases "1 + (b + 1) < length pk")
    case True then show ?thesis using stream_or_byte [of "b + 1" p1] by (simp add: p2_def len)
  next
    case False
    then have "\<not> bit (drop_bit (8 - off) val) t" for t using fits i by (auto simp add: bit_simps val)
    with False show ?thesis by (simp add: p2_def len)
  qed
  have s3: "stream (pack_coeff h pk i) q \<longleftrightarrow> stream p2 q \<or> q div 8 = b + 2 \<and> bit (drop_bit (16 - off) val) (q mod 8)"
  proof (cases "2 < off \<and> 1 + (b + 2) < length pk")
    case True then show ?thesis using stream_or_byte [of "b + 2" p2] by (simp add: e len)
  next
    case False
    then have "\<not> bit (drop_bit (16 - off) val) t" for t using fits i by (auto simp add: bit_simps val)
    with False show ?thesis by (auto simp add: e len)
  qed
  have q: "q = 8 * (q div 8) + q mod 8" "q mod 8 < 8" by simp_all
  have "q div 8 = b \<and> bit (push_bit off val) (q mod 8) \<or> q div 8 = b + 1 \<and> bit (drop_bit (8 - off) val) (q mod 8) \<or>
      q div 8 = b + 2 \<and> bit (drop_bit (16 - off) val) (q mod 8) \<longleftrightarrow>
    14 * i \<le> q \<and> q < 14 * i + 14 \<and> bit (h ! i) (q - 14 * i)"
  proof -
    consider "q div 8 < b" | "q div 8 = b" | "q div 8 = b + 1" | "q div 8 = b + 2" | "b + 2 < q div 8" by linarith
    then show ?thesis
    proof cases
      case 1 then show ?thesis using q i by auto
    next
      case 2
      then have "14 * i \<le> q \<longleftrightarrow> off \<le> q mod 8" using q i by linarith
      moreover have "q - 14 * i = q mod 8 - off" using q i 2 by linarith
      moreover note 2
      moreover have "q < 14 * i + 14" "q mod 8 - off < 14" using q i 2 by linarith+
      ultimately show ?thesis by (simp add: bit_simps val)
    next
      case 3
      then have "q - 14 * i = 8 - off + q mod 8" "14 * i \<le> q" using q i by auto
      with 3 show ?thesis using q i by (auto simp add: bit_simps val)
    next
      case 4
      then have "q - 14 * i = 16 - off + q mod 8" "14 * i \<le> q" using q i by auto
      with 4 show ?thesis using q i by (auto simp add: bit_simps val)
    next
      case 5 then show ?thesis using q i by auto
    qed
  qed
  then show ?thesis unfolding s3 s2 s1 by blast
qed

lemma stream_ref_pack_pk:
  "length (ref_pack_pk h n log_n) = 1 + (n * 14 + 7) div 8"
  "stream (ref_pack_pk h n log_n) q \<longleftrightarrow> q < 14 * n \<and> bit (h ! (q div 14)) (q mod 14)"
proof -
  define pk0 where "pk0 = word_of_nat log_n # zeros ((n * 14 + 7) div 8)"
  have f: "length (foldl (pack_coeff h) pk0 [0..<m]) = 1 + (n * 14 + 7) div 8 \<and>
      (stream (foldl (pack_coeff h) pk0 [0..<m]) q \<longleftrightarrow> q < 14 * m \<and> bit (h ! (q div 14)) (q mod 14))" if "m \<le> n" for m
    using that
  proof (induction m)
    case 0
    show ?case by (simp add: pk0_def stream_def)
  next
    case (Suc m)
    let ?p = "foldl (pack_coeff h) pk0 [0..<m]"
    have len: "length ?p = 1 + (n * 14 + 7) div 8" using Suc by simp
    have "14 * m \<le> q \<and> q < 14 * m + 14 \<Longrightarrow> q div 14 = m \<and> q mod 14 = q - 14 * m"
      by (metis add.commute add_diff_inverse_nat div_mult_self4 div_less linorder_not_le less_diff_conv2 mod_less mod_mult_self4 mult.commute numeral_eq_iff zero_neq_numeral add_0)
    moreover have "stream (pack_coeff h ?p m) q \<longleftrightarrow> stream ?p q \<or> 14 * m \<le> q \<and> q < 14 * m + 14 \<and> bit (h ! m) (q - 14 * m)"
      by (rule stream_pack_coeff [OF len]) (use Suc.prems in simp)
    moreover have "stream ?p q \<longleftrightarrow> q < 14 * m \<and> bit (h ! (q div 14)) (q mod 14)" using Suc by simp
    ultimately show ?case using len by auto
  qed
  from f [of n] show "length (ref_pack_pk h n log_n) = 1 + (n * 14 + 7) div 8"
    "stream (ref_pack_pk h n log_n) q \<longleftrightarrow> q < 14 * n \<and> bit (h ! (q div 14)) (q mod 14)"
    by (simp_all add: ref_pack_pk_def pk0_def)
qed

lemma unpack_coeff_stream:
  assumes "14 * i < 8 * (length pk - 1)"
  obtains x where "unpack_coeff (drop 1 pk) i = Inr x" "\<forall>t. bit x t \<longleftrightarrow> t < 14 \<and> stream pk (14 * i + t)"
proof -
  let ?d = "drop 1 pk"
  define b where "b = 14 * i div 8"
  define off where "off = 14 * i mod 8"
  have i: "14 * i = 8 * b + off" unfolding b_def off_def by (metis mult_div_mod_eq)
  have off: "off < 8" by (simp add: off_def)
  note i = i off
  have b: "b < length ?d" using assms i by simp
  define at where "at k = (if k < length ?d then uint (?d ! k) else 0)" for k
  have at: "bit (at k) r \<longleftrightarrow> r < 8 \<and> stream pk (8 * k + r)" for k r
  proof (cases "r < 8")
    case True
    then have "(8 * k + r) div 8 = k" "(8 * k + r) mod 8 = r" by simp_all
    with True show ?thesis by (simp add: at_def stream_def bit_le_int_div bit_simps)
  next
    case False then show ?thesis by (auto simp add: at_def bit_simps dest: bit_imp_le_length)
  qed
  define x where "x = drop_bit off (at b OR push_bit 8 (at (b + 1)) OR push_bit 16 (at (b + 2))) AND 0x3FFF"
  have "unpack_coeff ?d i = Inr x"
    unfolding unpack_coeff_def Let_def b_def [symmetric] off_def [symmetric] nthE_simps(1) [OF b] bindE_simps
    using b by (simp add: x_def at_def)
  moreover have "\<forall>t. bit x t \<longleftrightarrow> t < 14 \<and> stream pk (14 * i + t)"
  proof
    fix t
    have "x = take_bit 14 (drop_bit off (at b OR push_bit 8 (at (b + 1)) OR push_bit 16 (at (b + 2))))"
      using take_bit_eq_mask [of 14 "drop_bit off (at b OR push_bit 8 (at (b + 1)) OR push_bit 16 (at (b + 2)))"]
      by (simp add: x_def mask_eq_exp_minus_1)
    then have "bit x t \<longleftrightarrow> t < 14 \<and> (bit (at b) (off + t) \<or> 8 \<le> off + t \<and> bit (at (b + 1)) (off + t - 8) \<or>
        16 \<le> off + t \<and> bit (at (b + 2)) (off + t - 16))" by (simp add: bit_simps conj_disj_distribL)
    also have "\<dots> \<longleftrightarrow> t < 14 \<and> stream pk (14 * i + t)"
    proof -
      consider "off + t < 8" | "8 \<le> off + t" "off + t < 16" | "16 \<le> off + t" by linarith
      then show ?thesis
      proof cases
        case 1
        have "14 * i + t = 8 * b + (off + t)" using i by simp
        then show ?thesis unfolding at using 1 by (simp add: add.assoc)
      qed (use i in \<open>auto simp add: at add.commute add.left_commute\<close>)
    qed
    finally show "bit x t \<longleftrightarrow> t < 14 \<and> stream pk (14 * i + t)" .
  qed
  ultimately show thesis by (rule that)
qed

lemma unpack_pack:
  assumes "i < n"
  shows "unpack_coeff (drop 1 (ref_pack_pk h n log_n)) i = Inr (take_bit 14 (h ! i))"
proof -
  let ?pk = "ref_pack_pk h n log_n"
  have "14 * i < 8 * (length ?pk - 1)" using assms by (simp add: stream_ref_pack_pk(1))
  then obtain x where x: "unpack_coeff (drop 1 ?pk) i = Inr x"
    and b: "\<forall>t. bit x t \<longleftrightarrow> t < 14 \<and> stream ?pk (14 * i + t)" by (rule unpack_coeff_stream)
  have "bit x t \<longleftrightarrow> bit (take_bit 14 (h ! i)) t" for t
  proof (cases "t < 14")
    case True
    then have "(14 * i + t) div 14 = i" "(14 * i + t) mod 14 = t" "14 * i + t < 14 * n" using assms by simp_all
    with True b show ?thesis by (simp add: stream_ref_pack_pk(2) bit_simps)
  next
    case False with b show ?thesis by (simp add: bit_simps)
  qed
  then have "x = take_bit 14 (h ! i)" by (simp add: bit_eq_iff)
  with x show ?thesis by simp
qed

text \<open>
  C38. The public-key codec: for every vector of \<open>n\<close> coefficients of 14 bits, packing gives a key of
  the documented length, and unpacking the key gives the vector back.
\<close>

theorem public_key_codec:
  assumes "length h = n" "\<forall>x \<in> set h. 0 \<le> x \<and> x < 16384"
  shows "length (ref_pack_pk h n log_n) = 1 + (n * 14 + 7) div 8 \<and> ref_unpack_pk (ref_pack_pk h n log_n) n = Inr h"
proof
  have "map (\<lambda>i. take_bit 14 (h ! i)) [0..<n] = h"
    using assms by (auto intro!: nth_equalityI simp add: take_bit_int_eq_self)
  moreover have "mapE (unpack_coeff (drop 1 (ref_pack_pk h n log_n))) [0..<n] = Inr (map (\<lambda>i. take_bit 14 (h ! i)) [0..<n])"
    by (rule mapE_total) (simp add: unpack_pack del: drop_Suc_Cons One_nat_def)
  ultimately show "ref_unpack_pk (ref_pack_pk h n log_n) n = Inr h" by (simp add: ref_unpack_pk_def)
qed (simp add: stream_ref_pack_pk)

theorem public_key_codec_witness:
  "ref_unpack_pk (ref_pack_pk [12288, 1, 16383] 3 9) 3 = Inr [12288, 1, 16383]"
  using public_key_codec [of "[12288, 1, 16383]" 3 9] by simp

end
