(* ===== verification/FndsaVerify.thy ===== *)
theory FndsaVerify
  imports FndsaCodec
begin

text \<open>
  Hashing to a point and verification of FN-DSA: when hashing returns and what, that verification
  never raises for a known parameter set, and what it does not bind.  The locale
  \<open>extendable_output\<close> is the contract of the hash that hashing to a point relies on.
\<close>

unbundle bit_operations_syntax

subsection \<open>Hashing to a point\<close>

fun accepted :: "two_bytes \<Rightarrow> bytes \<Rightarrow> int list" where
  "accepted w (b0 # b1 # data) =
     (if w b0 b1 < 61445 then w b0 b1 mod Q_FNDSA # accepted w data else accepted w data)"
| "accepted w data = []"

lemma accepted_append: "even (length a) \<Longrightarrow> accepted w (a @ b) = accepted w a @ accepted w b"
  by (induction w a rule: accepted.induct) auto

lemma h2p_block_accepted: "length c < n \<Longrightarrow> h2p_block w n c data = take n (c @ accepted w data)"
proof (induction w n c data rule: h2p_block.induct)
  case (1 w n c b0 b1 data)
  then show ?case by (cases "n = Suc (length c)") (auto simp add: Let_def)
qed simp_all

locale extendable_output =
  fixes digest :: "nat \<Rightarrow> bytes"
  assumes length_digest: "length (digest n) = n"
    and digest_prefix: "m \<le> n \<Longrightarrow> take m (digest n) = digest m"
begin

lemma accepted_digest:
  "accepted w (digest (136 * j + 136)) = accepted w (digest (136 * j)) @ accepted w (drop (136 * j) (digest (136 * j + 136)))"
proof -
  have "digest (136 * j + 136) = digest (136 * j) @ drop (136 * j) (digest (136 * j + 136))"
    by (metis append_take_drop_id digest_prefix le_add1)
  then show ?thesis by (metis accepted_append dvd_mult2 even_numeral length_digest)
qed

lemma accepted_prefix: "j \<le> k \<Longrightarrow> \<exists>r. accepted w (digest (136 * k)) = accepted w (digest (136 * j)) @ r"
proof (induction k rule: dec_induct)
  case (step k)
  then show ?case using accepted_digest [of w k] by (auto simp add: add.commute)
qed simp

lemma h2p_step:
  assumes "length c < n" "c = take n (accepted w (digest (136 * j)))"
  shows "h2p_block w n c (drop (136 * j) (digest (136 * j + 136))) = take n (accepted w (digest (136 * Suc j)))"
proof -
  have c: "c = accepted w (digest (136 * j))" using assms by simp
  show ?thesis unfolding h2p_block_accepted [OF assms(1)] using accepted_digest [of w j] by (simp add: c add.commute)
qed

lemma h2p_loop_enough:
  assumes "n \<le> length (accepted w (digest (136 * k)))" "j \<le> k" "c = take n (accepted w (digest (136 * j)))"
  shows "h2p_loop w digest n c (136 * j) = Some (take n (accepted w (digest (136 * k))))"
  using assms(2,3)
proof (induction "k - j" arbitrary: j c)
  case 0
  then show ?case using assms(1) by (simp add: h2p_loop.simps)
next
  case (Suc d)
  show ?case
  proof (cases "length c < n")
    case True
    then have "j < k" using Suc.hyps by simp
    moreover have "d = k - Suc j" using Suc.hyps by simp
    ultimately have "h2p_loop w digest n (take n (accepted w (digest (136 * Suc j)))) (136 * Suc j) =
        Some (take n (accepted w (digest (136 * k))))" by (intro Suc.hyps(1)) simp_all
    moreover have "136 * j + 136 = 136 * Suc j" by simp
    ultimately show ?thesis using True h2p_step [OF True Suc.prems(2)]
      by (subst h2p_loop.simps) (simp only: if_True)
  next
    case False
    obtain r where r: "accepted w (digest (136 * k)) = accepted w (digest (136 * j)) @ r"
      using accepted_prefix [OF Suc.prems(1)] by blast
    have "n \<le> length (accepted w (digest (136 * j)))" using False Suc.prems by simp
    then have "c = take n (accepted w (digest (136 * k)))" using Suc.prems by (simp add: r)
    then show ?thesis using False by (subst h2p_loop.simps) simp
  qed
qed

lemma h2p_loop_some:
  assumes "h2p_loop w D n c s = Some r" "D = digest" "s = 136 * j" "c = take n (accepted w (digest (136 * j)))"
  shows "\<exists>k. n \<le> length (accepted w (digest (136 * k))) \<and> r = take n (accepted w (digest (136 * k)))"
  using assms
proof (induction w D n c s r arbitrary: j rule: h2p_loop.raw_induct [rotated, consumes 1])
  case (1 loop w D n c s r)
  note c = "1.prems"(3) and D = "1.prems"(1) and at = "1.prems"(2)
  show ?case
  proof (cases "length c < n")
    case True
    have c': "h2p_block w n c (drop s (D (s + 136))) = take n (accepted w (digest (136 * Suc j)))"
      unfolding D at by (rule h2p_step [OF True c])
    have "s + 136 = 136 * Suc j" by (simp add: at)
    moreover from True "1.hyps"(1)
    have "loop w D n (h2p_block w n c (drop s (D (s + 136)))) (s + 136) = Some r" by (simp only: if_True)
    ultimately show ?thesis using "1.IH"(1) D c' by blast
  next
    case False
    with "1.hyps"(1) have "r = c" by simp
    moreover have "n \<le> length (accepted w (digest (136 * j)))" using False c by simp
    ultimately show ?thesis using c by blast
  qed
qed

lemma h2p_returns:
  "h2p_loop w digest n [] 0 = Some c \<longleftrightarrow>
    (\<exists>k. n \<le> length (accepted w (digest (136 * k))) \<and> c = take n (accepted w (digest (136 * k))))"
proof
  assume "h2p_loop w digest n [] 0 = Some c"
  moreover have "[] = take n (accepted w (digest (136 * 0)))" using length_digest [of 0] by simp
  ultimately show "\<exists>k. n \<le> length (accepted w (digest (136 * k))) \<and> c = take n (accepted w (digest (136 * k)))"
    by (rule h2p_loop_some [OF _ refl mult_0_right [symmetric]])
next
  assume "\<exists>k. n \<le> length (accepted w (digest (136 * k))) \<and> c = take n (accepted w (digest (136 * k)))"
  moreover have "[] = take n (accepted w (digest (136 * 0)))" using length_digest [of 0] by simp
  ultimately show "h2p_loop w digest n [] 0 = Some c" using h2p_loop_enough [where j = 0] by (metis le0 mult_0_right)
qed

end

interpretation shake: extendable_output "shake256 m" for m
  by unfold_locales (simp_all add: shake256_prefix)

text \<open>
  C37. Hashing to a point returns if and only if some prefix of the hash's output holds enough
  accepted values, and then it returns the first \<open>n\<close> of them; how the output is cut into blocks
  does not matter.  The two variants differ in the order of the two bytes of a value.
\<close>

theorem hash_to_point_returns:
  "(ref_hash_to_point_fips206 salt msg n = Some c \<longleftrightarrow> (\<exists>k. let xs = accepted low_first (shake256 (salt @ msg) (136 * k))
      in n \<le> length xs \<and> c = take n xs)) \<and>
   (ref_hash_to_point_falcon salt msg n = Some c \<longleftrightarrow> (\<exists>k. let xs = accepted high_first (shake256 (salt @ msg) (136 * k))
      in n \<le> length xs \<and> c = take n xs))"
  by (simp only: ref_hash_to_point_fips206_def ref_hash_to_point_falcon_def shake.h2p_returns Let_def)

subsection \<open>Verification\<close>

lemma read_s2_total: "\<exists>r. read_s2 p sig = Inr r"
proof (cases "length sig = 41 + 2 * fn_n p")
  case True
  have "\<exists>ys. mapE (\<lambda>i. bindE (struct_unpack_from [S 2] sig (41 + 2 * i)) (\<lambda>w. Inr (w ! 0))) [0..<fn_n p] = Inr ys"
    by (rule mapE_total_ex) (use True in \<open>auto simp add: struct_unpack_from_def\<close>)
  with True show ?thesis by (auto simp add: read_s2_def)
next
  case False
  with comp_decode_exact [of "fn_log_n p" "drop 41 sig"] falcon_decode_exact [of "drop 41 sig" "fn_log_n p"]
  show ?thesis unfolding read_s2_def by (auto split: option.splits)
qed

lemma unpack_pk_total: "14 * n \<le> 8 * (length pk - 1) \<Longrightarrow> \<exists>h. ref_unpack_pk pk n = Inr h"
  unfolding ref_unpack_pk_def by (rule mapE_total_ex, rule unpack_coeff_stream) auto

lemma read_h_total: "14 * fn_n p \<le> 8 * (length pk - 1) \<Longrightarrow> \<exists>h. read_h p pk b = Inr h"
  by (auto simp add: read_h_def unpack_pk_total split: option.splits)

lemma FNDSA_PARAMS_fits: "FNDSA_PARAMS ps = Some p \<Longrightarrow> 14 * fn_n p \<le> 8 * (fn_pk_bytes p - 1)"
  by (auto simp add: FNDSA_PARAMS_def split: if_splits)

text \<open>
  Verification raises for unknown parameter sets only, and only \<open>KeyError\<close>: whatever the key,
  the message and the signature are, no decoder, no index and no 16-bit assignment fails.
\<close>

theorem fndsa_verify_raises:
  "ref_fndsa_verify ps pk msg sig = Some (Inl e) \<longleftrightarrow> FNDSA_PARAMS ps = None \<and> e = KeyError"
proof (cases "FNDSA_PARAMS ps")
  case None then show ?thesis by (auto simp add: ref_fndsa_verify_def dr22_params_def)
next
  case (Some p)
  obtain r where r: "read_s2 p sig = Inr r" using read_s2_total by blast
  have h: "length pk = fn_pk_bytes p \<Longrightarrow> \<exists>h. read_h p pk b = Inr h" for b
    using read_h_total FNDSA_PARAMS_fits [OF Some] by metis
  show ?thesis
  proof (cases "length pk = fn_pk_bytes p")
    case True
    with h obtain g where "\<And>b. read_h p pk b = Inr (g b)" by metis
    with Some show ?thesis
      by (simp add: ref_fndsa_verify_def dr22_params_def r split: option.split prod.split)
  next
    case False with Some show ?thesis by (simp add: ref_fndsa_verify_def dr22_params_def)
  qed
qed

lemma comp_decode_append:
  assumes "ref_comp_decode k d = Inr (Some s)"
  shows "ref_comp_decode k (d @ e) = Inr (Some s)"
proof -
  have "bits_le (d @ e) = bits_le d @ bits_le e" by (simp add: bits_le_def)
  with comp_decode_exact [of k d] comp_decode_exact [of k "d @ e"] assms show ?thesis by fastforce
qed

text \<open>
  A compressed signature that the first decoder reads can be extended by any bytes, up to the
  length limit, without changing the verdict: what follows the code words is not authenticated.
\<close>

theorem fndsa_trailing_bytes:
  assumes "FNDSA_PARAMS ps = Some p" "41 \<le> length sig" "length sig + length extra < 41 + 2 * fn_n p"
    "ref_comp_decode (fn_log_n p) (drop 41 sig) = Inr (Some s2)"
  shows "ref_fndsa_verify ps pk msg (sig @ extra) = ref_fndsa_verify ps pk msg sig"
proof -
  have r: "read_s2 p (sig @ extra) = read_s2 p sig"
    using assms comp_decode_append [OF assms(4), of extra] by (simp add: read_s2_def)
  have s: "slice 1 41 (sig @ extra) = slice 1 41 sig" "(sig @ extra) ! 0 = sig ! 0"
    using assms(2) by (cases sig; simp add: slice_def)+
  have "dr22_params ps = Inr p" using assms(1) by (simp add: dr22_params_def)
  then show ?thesis using assms(2,3) by (simp only: ref_fndsa_verify_def sum.case r) (simp only: s; simp)
qed

theorem fndsa_trailing_bytes_witness:
  "let sig = 0x39 # zeros 40 @ concat (replicate 64 [0, 1, 2, 4, 8, 16, 32, 64, 128])
   in \<forall>pk msg. ref_fndsa_verify ''FN-DSA-512'' pk msg (sig @ [1, 2, 3]) = ref_fndsa_verify ''FN-DSA-512'' pk msg sig"
proof -
  let ?w = "[0, 1, 2, 4, 8, 16, 32, 64, 128] :: bytes" and ?d = "concat (replicate 64 [0, 1, 2, 4, 8, 16, 32, 64, 128]) :: bytes"
  have rep: "bits_le (concat (replicate k ?w)) = concat (replicate k (bits_le ?w))" for k
    by (induction k) (simp_all only: replicate_0 replicate_Suc concat.simps bits_le_def map_append concat_append list.map)
  have w: "bits_le ?w = concat (map (coeff_bits [0..<7]) (replicate 8 0))" by code_simp
  have "concat (replicate k (concat (map f (replicate 8 x)))) = concat (map f (replicate (k * 8) x))" for k and f :: "int \<Rightarrow> bool list" and x
    by (induction k) (simp_all only: replicate_0 replicate_Suc concat.simps map_append concat_append mult_Suc mult_0 replicate_add list.map)
  from this [of 64 "coeff_bits [0..<7]" 0] have
    "bits_le ?d = concat (map (coeff_bits [0..<7]) (replicate 512 0))" unfolding rep w by simp
  then have "ref_comp_decode 9 ?d = Inr (Some (replicate 512 0))"
    using comp_decode_exact [of 9 ?d] by (auto simp del: upt_rec_numeral simp add: in_set_replicate)
  then have "\<forall>pk msg. ref_fndsa_verify ''FN-DSA-512'' pk msg ((0x39 # zeros 40 @ ?d) @ [1, 2, 3]) =
      ref_fndsa_verify ''FN-DSA-512'' pk msg (0x39 # zeros 40 @ ?d)"
    by (intro allI fndsa_trailing_bytes [where p = "the (FNDSA_PARAMS ''FN-DSA-512'')" and ?s2.0 = "replicate 512 0"]) (simp_all add: FNDSA_PARAMS_def zeros_def length_concat sum_list_replicate del: concat.simps)
  then show ?thesis unfolding Let_def .
qed

end
