(* ===== verification/Slhdsa.thy ===== *)
theory Slhdsa
  imports Host PyHash
begin

text \<open>
  SLH-DSA (\<open>dr21_slhdsa_abi.py\<close>, \<open>dr21_slhdsa_graph.py\<close>): the parameter sets, the address structure,
  the descriptor, the three operations on the device and the reference routines.  The address is an
  object that the routines mutate and share; it is passed on explicitly.  The random values that
  stand for absent seeds are arguments.
\<close>

subsection \<open>Parameters and addresses\<close>

record slh_params =
  sp_n :: nat
  sp_h :: nat
  sp_d :: nat
  sp_hp :: nat
  sp_a :: nat
  sp_k :: nat
  sp_w :: nat
  sp_len1 :: nat
  sp_len2 :: nat
  sp_len_total :: nat
  sp_pk_bytes :: nat
  sp_sk_bytes :: nat
  sp_sig_bytes :: nat

definition SLHDSA_PARAMS :: "string \<Rightarrow> slh_params option" where
  "SLHDSA_PARAMS name =
     (if name = ''SLH-DSA-SHAKE-128s'' then Some \<lparr>sp_n = 16, sp_h = 63, sp_d = 7, sp_hp = 9, sp_a = 12, sp_k = 14,
        sp_w = 16, sp_len1 = 32, sp_len2 = 3, sp_len_total = 35, sp_pk_bytes = 32, sp_sk_bytes = 64, sp_sig_bytes = 7856\<rparr>
      else if name = ''SLH-DSA-SHAKE-128f'' then Some \<lparr>sp_n = 16, sp_h = 66, sp_d = 22, sp_hp = 3, sp_a = 6, sp_k = 33,
        sp_w = 16, sp_len1 = 32, sp_len2 = 3, sp_len_total = 35, sp_pk_bytes = 32, sp_sk_bytes = 64, sp_sig_bytes = 17088\<rparr>
      else if name = ''SLH-DSA-SHAKE-256s'' then Some \<lparr>sp_n = 32, sp_h = 64, sp_d = 8, sp_hp = 8, sp_a = 14, sp_k = 17,
        sp_w = 16, sp_len1 = 64, sp_len2 = 3, sp_len_total = 67, sp_pk_bytes = 64, sp_sk_bytes = 128, sp_sig_bytes = 29792\<rparr>
      else if name = ''SLH-DSA-SHAKE-256f'' then Some \<lparr>sp_n = 32, sp_h = 68, sp_d = 17, sp_hp = 4, sp_a = 8, sp_k = 35,
        sp_w = 16, sp_len1 = 64, sp_len2 = 3, sp_len_total = 67, sp_pk_bytes = 64, sp_sk_bytes = 128, sp_sig_bytes = 49856\<rparr>
      else None)"

record adrs =
  ad_layer :: int
  ad_tree :: int
  ad_type :: int
  ad_word1 :: int
  ad_word2 :: int
  ad_word3 :: int

definition new_adrs :: adrs where
  "new_adrs = \<lparr>ad_layer = 0, ad_tree = 0, ad_type = 0, ad_word1 = 0, ad_word2 = 0, ad_word3 = 0\<rparr>"

definition set_type :: "int \<Rightarrow> adrs \<Rightarrow> adrs" where
  "set_type t ad = ad\<lparr>ad_type := t, ad_word1 := 0, ad_word2 := 0, ad_word3 := 0\<rparr>"

abbreviation (input) set_layer_address :: "int \<Rightarrow> adrs \<Rightarrow> adrs" where "set_layer_address v ad \<equiv> ad\<lparr>ad_layer := v\<rparr>"
abbreviation (input) set_keypair_address :: "int \<Rightarrow> adrs \<Rightarrow> adrs" where "set_keypair_address v ad \<equiv> ad\<lparr>ad_word1 := v\<rparr>"
abbreviation (input) set_chain_address :: "int \<Rightarrow> adrs \<Rightarrow> adrs" where "set_chain_address v ad \<equiv> ad\<lparr>ad_word2 := v\<rparr>"
abbreviation (input) set_hash_address :: "int \<Rightarrow> adrs \<Rightarrow> adrs" where "set_hash_address v ad \<equiv> ad\<lparr>ad_word3 := v\<rparr>"
abbreviation (input) set_tree_height :: "int \<Rightarrow> adrs \<Rightarrow> adrs" where "set_tree_height v ad \<equiv> ad\<lparr>ad_word2 := v\<rparr>"
abbreviation (input) set_tree_index :: "int \<Rightarrow> adrs \<Rightarrow> adrs" where "set_tree_index v ad \<equiv> ad\<lparr>ad_word3 := v\<rparr>"

abbreviation (input) ADRS_TYPE_WOTS_HASH :: int where "ADRS_TYPE_WOTS_HASH \<equiv> 0"
abbreviation (input) ADRS_TYPE_WOTS_PK :: int where "ADRS_TYPE_WOTS_PK \<equiv> 1"
abbreviation (input) ADRS_TYPE_TREE :: int where "ADRS_TYPE_TREE \<equiv> 2"
abbreviation (input) ADRS_TYPE_WOTS_PRF :: int where "ADRS_TYPE_WOTS_PRF \<equiv> 5"

definition adrs_bytes :: "adrs \<Rightarrow> bytes py" where
  "adrs_bytes ad = bindE (mapE (\<lambda>(n, v). to_bytes_be n v)
     [(4, ad_layer ad), (12, ad_tree ad), (4, ad_type ad), (4, ad_word1 ad), (4, ad_word2 ad), (4, ad_word3 ad)])
     (\<lambda>fields. Inr (concat fields))"

subsection \<open>Descriptor and operations on the device\<close>

definition slh_params_of :: "string \<Rightarrow> slh_params py" where
  "slh_params_of param_set = (case SLHDSA_PARAMS param_set of None \<Rightarrow> Inl KeyError | Some p \<Rightarrow> Inr p)"

definition pack_slhdsa_descriptor :: "string \<Rightarrow> int \<Rightarrow> nat \<Rightarrow> int \<Rightarrow> bytes py" where
  "pack_slhdsa_descriptor param_set operation_mode msg_len epoch = bindE (slh_params_of param_set) (\<lambda>p.
     let mode_id = (if contains ''128s'' param_set then 0 else if contains ''128f'' param_set then 1
           else if contains ''256s'' param_set then 2 else 3)
     in if operation_mode < 0 \<or> 255 < operation_mode then Inl ValueError
        else bindE (mapE (\<lambda>(n, v). to_bytes_le n v)
               [(2, int (sp_n p)), (4, int msg_len), (4, epoch), (4, int (sp_sig_bytes p)), (4, int (sp_pk_bytes p))])
               (\<lambda>fields. Inr ([0x01, 0x21, 0x53, 0x48] @ [mode_id, word_of_int operation_mode] @ concat fields @ zeros 8)))"

definition slhdsa_keygen_on_aie2 :: "host \<Rightarrow> string \<Rightarrow> bytes \<Rightarrow> bytes \<Rightarrow> bytes \<Rightarrow> int \<Rightarrow> (bytes \<times> bytes) py" where
  "slhdsa_keygen_on_aie2 h param_set sk_seed pk_seed sk_prf epoch =
     with_device 8192 h (slh_params_of param_set) (\<lambda>p.
       let n = sp_n p;
           req = assign_slice 0 n sk_seed (zeros 8192);
           req = assign_slice n (2 * n) pk_seed req;
           req = assign_slice (2 * n) (3 * n) sk_prf req
       in Inl (pack_slhdsa_descriptor param_set 0 0 epoch, req,
         \<lambda>raw. bindE (check_status raw) (\<lambda>_. Inr (slice 16 (16 + 2 * n) raw, slice (16 + 2 * n) (16 + 6 * n) raw))))"

text \<open>Without \<open>opt_rand\<close> the third quarter of the key is used.\<close>

definition slhdsa_sign_on_aie2 :: "host \<Rightarrow> string \<Rightarrow> bytes \<Rightarrow> bytes \<Rightarrow> bytes option \<Rightarrow> int \<Rightarrow> bytes py" where
  "slhdsa_sign_on_aie2 h param_set sk msg opt_rand epoch =
     with_device 8192 h (slh_params_of param_set) (\<lambda>p.
       let n = sp_n p;
           rand = (case opt_rand of None \<Rightarrow> slice (2 * n) (3 * n) sk | Some r \<Rightarrow> r);
           req = assign_slice 0 (4 * n) sk (zeros 8192);
           req = assign_slice (4 * n) (5 * n) rand req;
           req = assign_slice (5 * n) (5 * n + length msg) msg req
       in Inl (pack_slhdsa_descriptor param_set 1 (length msg) epoch, req,
         \<lambda>raw. bindE (check_status raw) (\<lambda>_. Inr (slice 16 (16 + sp_sig_bytes p) raw))))"

definition slhdsa_verify_on_aie2 :: "host \<Rightarrow> string \<Rightarrow> bytes \<Rightarrow> bytes \<Rightarrow> bytes \<Rightarrow> int \<Rightarrow> (bool \<times> int) py" where
  "slhdsa_verify_on_aie2 h param_set pk msg sig epoch =
     with_device 8192 h (slh_params_of param_set) (\<lambda>p.
       if length pk \<noteq> sp_pk_bytes p \<or> length sig \<noteq> sp_sig_bytes p then Inr (False, 1)
       else let a = 2 * sp_n p; b = a + length sig;
                req = assign_slice 0 a pk (zeros 8192);
                req = assign_slice a b sig req;
                req = assign_slice b (b + length msg) msg req
            in Inl (pack_slhdsa_descriptor param_set 2 (length msg) epoch, req,
              \<lambda>raw. Inr (raw ! 16 = 1, result_word 8 raw)))"

subsection \<open>Reference routines\<close>

text \<open>The keyed hash of the routines \<open>_ref_f\<close>, \<open>_ref_t_l\<close> and \<open>_ref_prf\<close>, which differ in name only.\<close>

definition ref_t_l :: "bytes \<Rightarrow> adrs \<Rightarrow> bytes \<Rightarrow> nat \<Rightarrow> bytes py" where
  "ref_t_l pk_seed ad m n = bindE (adrs_bytes ad) (\<lambda>a. Inr (shake256 (pk_seed @ a @ m) n))"

abbreviation (input) ref_f :: "bytes \<Rightarrow> adrs \<Rightarrow> bytes \<Rightarrow> nat \<Rightarrow> bytes py" where "ref_f \<equiv> ref_t_l"

definition ref_prf :: "bytes \<Rightarrow> bytes \<Rightarrow> adrs \<Rightarrow> nat \<Rightarrow> bytes py" where
  "ref_prf pk_seed sk_seed ad n = ref_t_l pk_seed ad sk_seed n"

definition ref_prf_msg :: "bytes \<Rightarrow> bytes \<Rightarrow> bytes \<Rightarrow> nat \<Rightarrow> bytes" where
  "ref_prf_msg sk_prf opt_rand msg n = shake256 (sk_prf @ opt_rand @ msg) n"

definition ref_h_msg :: "bytes \<Rightarrow> bytes \<Rightarrow> bytes \<Rightarrow> bytes \<Rightarrow> nat \<Rightarrow> bytes" where
  "ref_h_msg r pk_seed pk_root msg outlen = shake256 (r @ pk_seed @ pk_root @ msg) outlen"

text \<open>The chain leaves its last step number in the address of the caller.\<close>

definition f_step :: "bytes \<Rightarrow> nat \<Rightarrow> bytes \<times> adrs \<Rightarrow> nat \<Rightarrow> (bytes \<times> adrs) py" where
  "f_step pk_seed n st j = (case st of (res, ad) \<Rightarrow> let ad = set_hash_address (int j) ad
     in bindE (ref_f pk_seed ad res n) (\<lambda>res. Inr (res, ad)))"

definition ref_chain :: "bytes \<Rightarrow> nat \<Rightarrow> nat \<Rightarrow> bytes \<Rightarrow> adrs \<Rightarrow> nat \<Rightarrow> (bytes \<times> adrs) py" where
  "ref_chain x i s pk_seed ad n = foldE (f_step pk_seed n) (x, ad) [i..<i + s]"

definition wots_step :: "bytes \<Rightarrow> bytes \<Rightarrow> slh_params \<Rightarrow> bytes \<times> adrs \<Rightarrow> nat \<Rightarrow> (bytes \<times> adrs) py" where
  "wots_step sk_seed pk_seed p st i = (case st of (pk_buf, ad) \<Rightarrow>
     let ad = set_chain_address (int i) ad; ad = set_hash_address 0 ad; ad = set_type ADRS_TYPE_WOTS_PRF ad
     in bindE (ref_prf pk_seed sk_seed ad (sp_n p)) (\<lambda>sk_i.
          let ad = set_type ADRS_TYPE_WOTS_HASH ad
          in bindE (ref_chain sk_i 0 (sp_w p - 1) pk_seed ad (sp_n p)) (\<lambda>(pk_i, ad). Inr (pk_buf @ pk_i, ad))))"

definition ref_wots_pk_gen :: "bytes \<Rightarrow> bytes \<Rightarrow> adrs \<Rightarrow> slh_params \<Rightarrow> bytes py" where
  "ref_wots_pk_gen sk_seed pk_seed ad p =
     bindE (foldE (wots_step sk_seed pk_seed p) ([], ad) [0..<sp_len_total p]) (\<lambda>(pk_buf, _).
       let wots_pk_adrs = set_type ADRS_TYPE_WOTS_PK ad; wots_pk_adrs = set_keypair_address (ad_word1 ad) wots_pk_adrs
       in ref_t_l pk_seed wots_pk_adrs pk_buf (sp_n p))"

definition ref_slhdsa_keygen :: "string \<Rightarrow> bytes \<Rightarrow> bytes \<Rightarrow> bytes \<Rightarrow> (bytes \<times> bytes) py" where
  "ref_slhdsa_keygen param_set sk_seed pk_seed sk_prf = bindE (slh_params_of param_set) (\<lambda>p.
     let ad = set_layer_address (int (sp_d p) - 1) new_adrs;
         ad = set_type ADRS_TYPE_WOTS_HASH ad;
         ad = set_keypair_address 0 ad
     in bindE (ref_wots_pk_gen sk_seed pk_seed ad p) (\<lambda>leaf0.
          let ad = set_type ADRS_TYPE_TREE ad;
              ad = set_tree_height (int (sp_hp p)) ad;
              ad = set_tree_index 0 ad
          in bindE (ref_t_l pk_seed ad leaf0 (sp_n p)) (\<lambda>root.
               Inr (pk_seed @ root, sk_seed @ sk_prf @ pk_seed @ root))))"

definition digest_len :: "slh_params \<Rightarrow> nat" where
  "digest_len p = (sp_k p * sp_a p + 7) div 8 + (sp_h p - sp_hp p + 7) div 8 + (sp_hp p + 7) div 8"

definition fors_sig_len :: "slh_params \<Rightarrow> nat" where
  "fors_sig_len p = sp_k p * (1 + sp_a p) * sp_n p"

definition ref_slhdsa_sign :: "string \<Rightarrow> bytes \<Rightarrow> bytes \<Rightarrow> bytes \<Rightarrow> bytes py" where
  "ref_slhdsa_sign param_set sk msg opt_rand = bindE (slh_params_of param_set) (\<lambda>p.
     let n = sp_n p;
         sk_seed = slice 0 n sk; sk_prf = slice n (2 * n) sk;
         pk_seed = slice (2 * n) (3 * n) sk; pk_root = slice (3 * n) (4 * n) sk;
         r = ref_prf_msg sk_prf opt_rand msg n;
         digest = ref_h_msg r pk_seed pk_root msg (digest_len p);
         fors_sig = shake256 (digest @ sk_seed) (fors_sig_len p);
         ht_sig_len = sp_sig_bytes p - length r - fors_sig_len p;
         ht_sig = shake256 (digest @ fors_sig @ pk_root @ pk_seed) ht_sig_len
     in Inr (r @ fors_sig @ ht_sig))"

definition ref_slhdsa_verify :: "string \<Rightarrow> bytes \<Rightarrow> bytes \<Rightarrow> bytes \<Rightarrow> bool py" where
  "ref_slhdsa_verify param_set pk msg sig = bindE (slh_params_of param_set) (\<lambda>p.
     if length pk \<noteq> sp_pk_bytes p \<or> length sig \<noteq> sp_sig_bytes p then Inr False
     else let n = sp_n p;
              pk_seed = slice 0 n pk; pk_root = slice n (2 * n) pk;
              r = slice 0 n sig;
              fors_sig = slice n (n + fors_sig_len p) sig;
              ht_sig = slice (n + fors_sig_len p) (sp_sig_bytes p) sig;
              digest = ref_h_msg r pk_seed pk_root msg (digest_len p);
              expected_ht_sig = shake256 (digest @ fors_sig @ pk_root @ pk_seed) (length ht_sig)
          in Inr (ht_sig = expected_ht_sig))"

subsection \<open>Library\<close>

interpretation op_slhdsa_keygen: device_operation "\<lambda>h. slhdsa_keygen_on_aie2 h ps s1 s2 s3 e" for ps s1 s2 s3 e
  by unfold_locales (auto simp add: slhdsa_keygen_on_aie2_def Let_def elim!: with_device_needs)

interpretation op_slhdsa_sign: device_operation "\<lambda>h. slhdsa_sign_on_aie2 h ps sk msg r e" for ps sk msg r e
  by unfold_locales (auto simp add: slhdsa_sign_on_aie2_def Let_def elim!: with_device_needs)


definition slh_consistent :: "slh_params \<Rightarrow> bool" where
  "slh_consistent p \<longleftrightarrow> sp_h p = sp_d p * sp_hp p \<and> sp_len1 p = 2 * sp_n p \<and> sp_len_total p = sp_len1 p + sp_len2 p \<and>
     sp_pk_bytes p = 2 * sp_n p \<and> sp_sk_bytes p = 4 * sp_n p \<and> sp_w p = 16 \<and> 0 < sp_n p \<and>
     sp_n p + fors_sig_len p \<le> sp_sig_bytes p"

text \<open>The size of a signature by FIPS 205: the randomizer, the FORS part and the layers of the hypertree.\<close>

definition fips_sig_bytes :: "slh_params \<Rightarrow> nat" where
  "fips_sig_bytes p = sp_n p + fors_sig_len p + sp_d p * (sp_len_total p + sp_hp p) * sp_n p"

lemma slhdsa_params_consistent: "SLHDSA_PARAMS ps = Some p \<Longrightarrow> slh_consistent p"
  by (auto simp add: SLHDSA_PARAMS_def slh_consistent_def fors_sig_len_def split: if_splits)

lemma sig_bytes_split: "slh_consistent p \<Longrightarrow> sp_n p + fors_sig_len p \<le> sp_sig_bytes p"
  by (simp add: slh_consistent_def)

text \<open>
  The parameter tables: heights, digit counts and key sizes are consistent in all four sets,
  but the signature size equals the FIPS 205 formula over the other entries in the two 128-bit sets
  only: in the 256-bit sets the FORS entries are not those the size was computed with.
\<close>

theorem slhdsa_tables:
  assumes "SLHDSA_PARAMS ps = Some p"
  shows "sp_h p = sp_d p * sp_hp p \<and> sp_pk_bytes p = 2 * sp_n p \<and> sp_sk_bytes p = 4 * sp_n p \<and>
    sp_n p + fors_sig_len p \<le> sp_sig_bytes p \<and>
    (sp_sig_bytes p = fips_sig_bytes p \<longleftrightarrow> ps = ''SLH-DSA-SHAKE-128s'' \<or> ps = ''SLH-DSA-SHAKE-128f'')"
  using assms by (simp add: SLHDSA_PARAMS_def fors_sig_len_def fips_sig_bytes_def split: if_splits) fastforce+

theorem slhdsa_tables_witness:
  "sp_sig_bytes (the (SLHDSA_PARAMS ''SLH-DSA-SHAKE-256s'')) \<noteq> fips_sig_bytes (the (SLHDSA_PARAMS ''SLH-DSA-SHAKE-256s''))"
  using slhdsa_tables [of "''SLH-DSA-SHAKE-256s''" "the (SLHDSA_PARAMS ''SLH-DSA-SHAKE-256s'')"]
  by (simp add: SLHDSA_PARAMS_def)

subsection \<open>One-time keys\<close>

text \<open>The chain of the reference routine, made from an address whose last three words do not matter.\<close>

definition one_chain :: "bytes \<Rightarrow> bytes \<Rightarrow> adrs \<Rightarrow> slh_params \<Rightarrow> (bytes \<times> adrs) py" where
  "one_chain sk_seed pk_seed ad p =
     bindE (ref_prf pk_seed sk_seed (set_type ADRS_TYPE_WOTS_PRF ad) (sp_n p)) (\<lambda>sk.
       ref_chain sk 0 (sp_w p - 1) pk_seed (set_type ADRS_TYPE_WOTS_HASH ad) (sp_n p))"

lemma set_type_words [simp]:
  "set_type t (set_chain_address v ad) = set_type t ad" "set_type t (set_hash_address v ad) = set_type t ad"
  "set_type t (set_type u ad) = set_type t ad"
  by (simp_all add: set_type_def)

lemma wots_step_one_chain:
  "wots_step sk_seed pk_seed p (buf, ad) i = bindE (one_chain sk_seed pk_seed ad p) (\<lambda>(c, ad'). Inr (buf @ c, ad'))"
  by (simp add: wots_step_def one_chain_def Let_def bindE_assoc)

lemma ref_chain_adrs:
  assumes "ref_chain x i s pk_seed ad n = Inr (c, ad')"
  shows "set_type t ad' = set_type t ad"
  using foldE_invariant [OF assms [unfolded ref_chain_def], where P = "\<lambda>(_, b). set_type t b = set_type t ad"]
  by (auto simp add: f_step_def Let_def bindE_Inr_iff)

lemma one_chain_again:
  assumes "one_chain sk_seed pk_seed ad p = Inr (c, ad')"
  shows "one_chain sk_seed pk_seed ad' p = Inr (c, ad')"
proof -
  have "set_type t ad' = set_type t ad" for t
    using assms ref_chain_adrs by (fastforce simp add: one_chain_def bindE_Inr_iff)
  with assms show ?thesis by (simp add: one_chain_def)
qed

lemma wots_steps:
  assumes "one_chain sk_seed pk_seed ad p = Inr (c, ad)"
  shows "foldE (wots_step sk_seed pk_seed p) (buf, ad) xs = Inr (buf @ concat (replicate (length xs) c), ad)"
  by (induction xs arbitrary: buf) (simp_all add: wots_step_one_chain assms)

text \<open>
  The one-time public key hashes one chain value repeated: setting the address type resets the
  chain number that was set before it, so all chains start from the same secret and are equal.
\<close>

theorem wots_chains_equal:
  assumes "0 < sp_len_total p"
  shows "ref_wots_pk_gen sk_seed pk_seed ad p = bindE (one_chain sk_seed pk_seed ad p) (\<lambda>(c, _).
    ref_t_l pk_seed (set_keypair_address (ad_word1 ad) (set_type ADRS_TYPE_WOTS_PK ad))
      (concat (replicate (sp_len_total p) c)) (sp_n p))"
proof -
  obtain m where m: "sp_len_total p = Suc m" using assms by (cases "sp_len_total p") auto
  then have l: "[0..<sp_len_total p] = 0 # map Suc [0..<m]" by (simp add: upt_conv_Cons map_Suc_upt)
  show ?thesis
  proof (cases "one_chain sk_seed pk_seed ad p")
    case (Inl e)
    then show ?thesis unfolding ref_wots_pk_gen_def l by (simp add: wots_step_one_chain)
  next
    case (Inr cad)
    obtain c ad' where c: "cad = (c, ad')" by (cases cad)
    from wots_steps [OF one_chain_again [OF Inr [unfolded c]]] Inr show ?thesis
      unfolding ref_wots_pk_gen_def l by (simp add: wots_step_one_chain c Let_def m)
  qed
qed

theorem wots_chains_equal_witness:
  "let p = the (SLHDSA_PARAMS ''SLH-DSA-SHAKE-128s'') in ref_wots_pk_gen [1] [2] new_adrs p =
     bindE (one_chain [1] [2] new_adrs p) (\<lambda>(c, _).
       ref_t_l [2] (set_type ADRS_TYPE_WOTS_PK new_adrs) (concat (replicate 35 c)) 16)"
  using wots_chains_equal [of "the (SLHDSA_PARAMS ''SLH-DSA-SHAKE-128s'')" "[1]" "[2]" new_adrs]
  by (simp add: SLHDSA_PARAMS_def set_type_def new_adrs_def)

subsection \<open>Nothing raises\<close>

definition adrs_ok :: "adrs \<Rightarrow> bool" where
  "adrs_ok ad \<longleftrightarrow> (\<forall>v \<in> {ad_layer ad, ad_type ad, ad_word1 ad, ad_word2 ad, ad_word3 ad}. 0 \<le> v \<and> v < 2 ^ 32) \<and>
     0 \<le> ad_tree ad \<and> ad_tree ad < 2 ^ 96"

lemma ref_t_l_total: "adrs_ok ad \<Longrightarrow> \<exists>r. ref_t_l pk_seed ad m n = Inr r \<and> length r = n"
  by (simp add: adrs_ok_def ref_t_l_def adrs_bytes_def to_bytes_be_def)

lemma ref_chain_total:
  assumes "adrs_ok ad" "i + s \<le> 2 ^ 32"
  shows "\<exists>c ad'. ref_chain x i s pk_seed ad n = Inr (c, ad') \<and> adrs_ok ad'"
proof -
  have "\<exists>st. ref_chain x i s pk_seed ad n = Inr st \<and> adrs_ok (snd st)"
    unfolding ref_chain_def
  proof (rule foldE_total)
    fix st :: "bytes \<times> adrs" and j
    obtain r b where st: "st = (r, b)" by (cases st)
    assume "j \<in> set [i..<i + s]" "adrs_ok (snd st)"
    then have ok: "adrs_ok (b\<lparr>ad_word3 := int j\<rparr>)" using assms(2) by (simp add: st adrs_ok_def)
    from ref_t_l_total [OF ok, of pk_seed r n] obtain r' where "ref_t_l pk_seed (b\<lparr>ad_word3 := int j\<rparr>) r n = Inr r'" by blast
    with ok show "\<exists>st'. f_step pk_seed n st j = Inr st' \<and> adrs_ok (snd st')" by (simp add: st f_step_def)
  qed (use assms(1) in simp)
  then show ?thesis by auto
qed

lemma set_type_ok: "adrs_ok ad \<Longrightarrow> 0 \<le> t \<Longrightarrow> t < 2 ^ 32 \<Longrightarrow> adrs_ok (set_type t ad)"
  by (simp add: adrs_ok_def set_type_def)

lemma ref_wots_pk_gen_total:
  assumes "adrs_ok ad" "sp_w p \<le> 16"
  shows "\<exists>r. ref_wots_pk_gen sk_seed pk_seed ad p = Inr r \<and> length r = sp_n p"
proof -
  have "\<exists>st. foldE (wots_step sk_seed pk_seed p) ([], ad) [0..<sp_len_total p] = Inr st \<and> adrs_ok (snd st)"
  proof (rule foldE_total)
    fix st :: "bytes \<times> adrs" and j
    obtain r b where st: "st = (r, b)" by (cases st)
    assume "adrs_ok (snd st)"
    then have ok: "adrs_ok (set_type 5 b)" "adrs_ok (set_type 0 b)" by (simp_all add: st set_type_ok)
    from ref_t_l_total [OF ok(1)] obtain k where k: "ref_t_l pk_seed (set_type 5 b) sk_seed (sp_n p) = Inr k" by blast
    have "0 + (sp_w p - 1) \<le> 2 ^ 32" using assms(2) by simp
    from ref_chain_total [OF ok(2) this] obtain c b' where
      "ref_chain k 0 (sp_w p - 1) pk_seed (set_type 0 b) (sp_n p) = Inr (c, b')" "adrs_ok b'" by blast
    then show "\<exists>st'. wots_step sk_seed pk_seed p st j = Inr st' \<and> adrs_ok (snd st')"
      by (simp add: wots_step_def st ref_prf_def k)
  qed (use assms(1) in simp)
  then obtain b ad' where "foldE (wots_step sk_seed pk_seed p) ([], ad) [0..<sp_len_total p] = Inr (b, ad')" by auto
  moreover have "adrs_ok (set_keypair_address (ad_word1 ad) (set_type ADRS_TYPE_WOTS_PK ad))"
    using assms(1) by (simp add: adrs_ok_def set_type_def)
  ultimately show ?thesis using ref_t_l_total by (simp add: ref_wots_pk_gen_def Let_def)
qed

lemma ref_slhdsa_keygen_total:
  assumes "SLHDSA_PARAMS ps = Some p"
  shows "\<exists>root. ref_slhdsa_keygen ps sk_seed pk_seed sk_prf = Inr (pk_seed @ root, sk_seed @ sk_prf @ pk_seed @ root) \<and>
    length root = sp_n p"
proof -
  have w: "sp_w p \<le> 16" "1 \<le> sp_d p" "sp_d p \<le> 22" "sp_hp p \<le> 9"
    using assms by (auto simp add: SLHDSA_PARAMS_def split: if_splits)
  let ?ad = "set_keypair_address 0 (set_type ADRS_TYPE_WOTS_HASH (set_layer_address (int (sp_d p) - 1) new_adrs))"
  have ok: "adrs_ok ?ad" "adrs_ok (set_tree_index 0 (set_tree_height (int (sp_hp p)) (set_type ADRS_TYPE_TREE ?ad)))"
    using w by (simp_all add: adrs_ok_def set_type_def new_adrs_def)
  from ref_wots_pk_gen_total [OF ok(1) w(1)] obtain leaf where "ref_wots_pk_gen sk_seed pk_seed ?ad p = Inr leaf" by blast
  moreover from ref_t_l_total [OF ok(2)] obtain root where
    "ref_t_l pk_seed (set_tree_index 0 (set_tree_height (int (sp_hp p)) (set_type ADRS_TYPE_TREE ?ad))) leaf (sp_n p) = Inr root"
    "length root = sp_n p" by blast
  ultimately show ?thesis using assms by (simp add: ref_slhdsa_keygen_def slh_params_of_def Let_def)
qed

subsection \<open>Signatures\<close>

text \<open>The last part of a signature, from public data.\<close>

definition public_tail :: "slh_params \<Rightarrow> bytes \<Rightarrow> bytes \<Rightarrow> bytes \<Rightarrow> bytes \<Rightarrow> bytes" where
  "public_tail p pk msg r fors = (let pk_seed = take (sp_n p) pk; pk_root = drop (sp_n p) pk in
     shake256 (ref_h_msg r pk_seed pk_root msg (digest_len p) @ fors @ pk_root @ pk_seed)
       (sp_sig_bytes p - sp_n p - fors_sig_len p))"

text \<open>
  C39. The reference verification accepts exactly the signatures whose last part is a hash of the
  public key, the message and the rest of the signature.  No secret enters: whoever has the public
  key makes a valid signature of any message from any two strings of the right lengths.
\<close>

theorem slhdsa_accepts_exactly:
  "ref_slhdsa_verify ps pk msg sig = Inr True \<longleftrightarrow> (\<exists>p r fors. SLHDSA_PARAMS ps = Some p \<and>
     length pk = sp_pk_bytes p \<and> length r = sp_n p \<and> length fors = fors_sig_len p \<and>
     sig = r @ fors @ public_tail p pk msg r fors)"
proof (cases "SLHDSA_PARAMS ps")
  case None
  then show ?thesis by (simp add: ref_slhdsa_verify_def slh_params_of_def)
next
  case (Some p)
  have con: "slh_consistent p" using Some by (rule slhdsa_params_consistent)
  then have len: "sp_pk_bytes p = 2 * sp_n p" by (simp add: slh_consistent_def)
  note sb = sig_bytes_split [OF con]
  let ?n = "sp_n p" and ?f = "fors_sig_len p"
  have pk: "slice 0 ?n pk = take ?n pk" "length pk = 2 * ?n \<Longrightarrow> slice ?n (2 * ?n) pk = drop ?n pk"
    by (simp_all add: slice_def)
  show ?thesis
  proof
    assume v: "ref_slhdsa_verify ps pk msg sig = Inr True"
    then have l: "length pk = 2 * ?n" "length sig = sp_sig_bytes p"
      by (auto simp add: ref_slhdsa_verify_def slh_params_of_def Some len split: if_splits)
    define r where "r = take ?n sig"
    define fors where "fors = take ?f (drop ?n sig)"
    define ht where "ht = drop (?n + ?f) sig"
    have s: "slice 0 ?n sig = r" "slice ?n (?n + ?f) sig = fors" "slice (?n + ?f) (sp_sig_bytes p) sig = ht"
      using l(2) by (simp_all add: slice_def r_def fors_def ht_def)
    have "sig = r @ fors @ ht" by (simp add: r_def fors_def ht_def flip: drop_drop add.commute)
    moreover have "length r = ?n" "length fors = ?f" "length ht = sp_sig_bytes p - ?n - ?f"
      using l(2) sb by (simp_all add: r_def fors_def ht_def)
    moreover from v have "ht = public_tail p pk msg r fors"
      using l \<open>length ht = _\<close>
      by (simp add: ref_slhdsa_verify_def slh_params_of_def Some len Let_def s pk public_tail_def)
    ultimately show "\<exists>q r fors. SLHDSA_PARAMS ps = Some q \<and> length pk = sp_pk_bytes q \<and> length r = sp_n q \<and>
        length fors = fors_sig_len q \<and> sig = r @ fors @ public_tail q pk msg r fors"
      using Some l(1) len by auto
  next
    assume "\<exists>q r fors. SLHDSA_PARAMS ps = Some q \<and> length pk = sp_pk_bytes q \<and> length r = sp_n q \<and>
        length fors = fors_sig_len q \<and> sig = r @ fors @ public_tail q pk msg r fors"
    then obtain r fors where r: "length pk = 2 * ?n" "length r = ?n" "length fors = ?f"
      and sig: "sig = r @ fors @ public_tail p pk msg r fors" using Some len by auto
    have t: "length (public_tail p pk msg r fors) = sp_sig_bytes p - ?n - ?f" by (simp add: public_tail_def Let_def)
    have "length sig = sp_sig_bytes p" using r sb by (simp add: sig t)
    moreover have "slice 0 ?n sig = r" "slice ?n (?n + ?f) sig = fors"
      "slice (?n + ?f) (sp_sig_bytes p) sig = public_tail p pk msg r fors"
      using r t sb by (simp_all add: sig slice_def)
    ultimately show "ref_slhdsa_verify ps pk msg sig = Inr True"
      using r(1) t by (simp add: ref_slhdsa_verify_def slh_params_of_def Some len Let_def pk)
        (simp add: public_tail_def Let_def)
  qed
qed

text \<open>
  Key generation, signing and verification of the reference: for seeds of the right length none
  of them raises, and the signature of any message under any randomizer is accepted.
\<close>

theorem slhdsa_sign_verify:
  assumes "SLHDSA_PARAMS ps = Some p" "length sk_seed = sp_n p" "length sk_prf = sp_n p" "length pk_seed = sp_n p"
  shows "\<exists>pk sk sig. ref_slhdsa_keygen ps sk_seed pk_seed sk_prf = Inr (pk, sk) \<and>
    ref_slhdsa_sign ps sk msg opt_rand = Inr sig \<and> ref_slhdsa_verify ps pk msg sig = Inr True"
proof -
  let ?n = "sp_n p"
  have con: "slh_consistent p" using assms(1) by (rule slhdsa_params_consistent)
  then have len: "sp_pk_bytes p = 2 * ?n" by (simp add: slh_consistent_def)
  from ref_slhdsa_keygen_total [OF assms(1)] obtain root where pk3: "length root = ?n"
    and gen: "ref_slhdsa_keygen ps sk_seed pk_seed sk_prf = Inr (pk_seed @ root, sk_seed @ sk_prf @ pk_seed @ root)" by blast
  define pk where "pk = pk_seed @ root"
  define sk where "sk = sk_seed @ sk_prf @ pk_seed @ root"
  note pk = pk_def sk_def pk3
  define r where "r = ref_prf_msg sk_prf opt_rand msg ?n"
  define fors where "fors = shake256 (ref_h_msg r pk_seed root msg (digest_len p) @ sk_seed) (fors_sig_len p)"
  have sl: "slice 0 ?n sk = sk_seed" "slice ?n (2 * ?n) sk = sk_prf" "slice (2 * ?n) (3 * ?n) sk = pk_seed"
    "slice (3 * ?n) (4 * ?n) sk = root"
    using assms(2,3,4) pk(3) by (simp_all add: pk(2) slice_def)
  have r: "length r = ?n" "length fors = fors_sig_len p" by (simp_all add: r_def ref_prf_msg_def fors_def)
  have sign: "ref_slhdsa_sign ps sk msg opt_rand = Inr (r @ fors @ public_tail p pk msg r fors)"
    unfolding ref_slhdsa_sign_def slh_params_of_def assms(1) option.case bindE_simps Let_def sl
    by (simp add: public_tail_def pk(1) assms(4) fors_def flip: r_def) (simp add: r(1))
  have v: "length (public_tail p pk msg r fors) = sp_sig_bytes p - ?n - fors_sig_len p"
    by (simp add: public_tail_def Let_def)
  let ?sig = "r @ fors @ public_tail p pk msg r fors"
  have "slice 0 ?n ?sig = r" "slice ?n (?n + fors_sig_len p) ?sig = fors"
    "slice (?n + fors_sig_len p) (sp_sig_bytes p) ?sig = public_tail p pk msg r fors"
    "slice 0 ?n pk = pk_seed" "slice ?n (2 * ?n) pk = root" "length ?sig = sp_sig_bytes p" "length pk = 2 * ?n"
    using r v sig_bytes_split [OF con] assms(4) pk(3) by (simp_all add: pk(1) slice_def)
  then have "ref_slhdsa_verify ps pk msg ?sig = Inr True"
    using v by (simp add: ref_slhdsa_verify_def slh_params_of_def assms(1) len Let_def del: length_append)
      (simp add: public_tail_def Let_def pk(1) assms(4))
  with sign gen show ?thesis by (auto simp add: pk)
qed

text \<open>
  The three larger parameter sets on the device: the result buffer holds 8176 bytes of the
  signature, less than its size, so what signing returns is refused by every later verification, on
  any device and by the reference, without being looked at.
\<close>

theorem slhdsa_large_sets_useless:
  assumes "SLHDSA_PARAMS ps = Some p" "ps \<noteq> ''SLH-DSA-SHAKE-128s''"
    "slhdsa_sign_on_aie2 h ps sk msg opt_rand e = Inr sig"
  shows "length sig = 8176 \<and> ref_slhdsa_verify ps pk msg sig = Inr False \<and>
    (\<forall>ok s. slhdsa_verify_on_aie2 h' ps pk msg sig e' = Inr (ok, s) \<longrightarrow> \<not> ok)"
proof -
  have big: "8176 < sp_sig_bytes p" using assms(1,2) by (auto simp add: SLHDSA_PARAMS_def split: if_splits)
  from assms(3) obtain out where "sig = slice 16 (16 + sp_sig_bytes p) (take 8192 (ljust 8192 out))"
    unfolding slhdsa_sign_on_aie2_def
  proof (rule with_device_Inr)
    fix q desc d req decode out
    assume "slh_params_of ps = Inr q" "decode (take 8192 (ljust 8192 out)) = Inr sig"
      and "(let n = sp_n q; rand = (case opt_rand of None \<Rightarrow> slice (2 * n) (3 * n) sk | Some r \<Rightarrow> r);
           req = assign_slice 0 (4 * n) sk (zeros 8192); req = assign_slice (4 * n) (5 * n) rand req;
           req = assign_slice (5 * n) (5 * n + length msg) msg req
       in Inl (pack_slhdsa_descriptor ps 1 (length msg) e, req,
         \<lambda>raw. bindE (check_status raw) (\<lambda>_. Inr (slice 16 (16 + sp_sig_bytes q) raw)))) = Inl (d, req, decode)"
    then have "sig = slice 16 (16 + sp_sig_bytes p) (take 8192 (ljust 8192 out))"
      using assms(1) by (auto simp add: slh_params_of_def Let_def bindE_Inr_iff)
    then show ?thesis by (rule that)
  qed (simp add: Let_def)
  then have l: "length sig = 8176" using big by simp
  moreover from l big have "ref_slhdsa_verify ps pk msg sig = Inr False"
    by (simp add: ref_slhdsa_verify_def slh_params_of_def assms(1))
  moreover from l big have "\<not> ok" if "slhdsa_verify_on_aie2 h' ps pk msg sig e' = Inr (ok, s)" for ok s
    using that by (auto simp add: slhdsa_verify_on_aie2_def with_device_def bindE_Inr_iff slh_params_of_def assms(1))
  ultimately show ?thesis by blast
qed

definition blank_host :: host where
  "blank_host = \<lparr>ho_emulation_mode = None, ho_xrt_ini = None, ho_device_present = True, ho_toolchain_present = True,
     ho_program = \<lambda>req desc. Inr []\<rparr>"

theorem slhdsa_sign_verify_witness:
  "\<exists>pk sk sig. ref_slhdsa_keygen ''SLH-DSA-SHAKE-256f'' (zeros 32) (zeros 32) (zeros 32) = Inr (pk, sk) \<and>
    ref_slhdsa_sign ''SLH-DSA-SHAKE-256f'' sk [1] [] = Inr sig \<and> ref_slhdsa_verify ''SLH-DSA-SHAKE-256f'' pk [1] sig = Inr True"
  by (rule slhdsa_sign_verify [of _ "the (SLHDSA_PARAMS ''SLH-DSA-SHAKE-256f'')"]) (simp_all add: SLHDSA_PARAMS_def)

theorem slhdsa_large_sets_useless_witness:
  "ref_slhdsa_verify ''SLH-DSA-SHAKE-128f'' (zeros 32) [1] (zeros 8176) = Inr False"
proof -
  let ?ps = "''SLH-DSA-SHAKE-128f''"
  have "slhdsa_sign_on_aie2 blank_host ?ps (zeros 64) [1] None 1 = Inr (zeros 8176)"
    by (simp add: slhdsa_sign_on_aie2_def with_device_def require_hardware_runtime_def blank_host_def load_iron_def
        check_emulation_and_redirection_excluded_def is_set_def slh_params_of_def SLHDSA_PARAMS_def run_on_device_def
        pack_slhdsa_descriptor_def to_bytes_le_def Let_def check_status_def result_word_def ljust_def)
  from slhdsa_large_sets_useless [OF _ _ this, of "the (SLHDSA_PARAMS ?ps)" "zeros 32"] show ?thesis
    by (simp add: SLHDSA_PARAMS_def)
qed

end
