(* ===== verification/Hybrid.thy ===== *)
theory Hybrid
  imports Host PyHash
begin

text \<open>
  The hybrid KEM combiner (\<open>dr37_hybrid_kem_abi.py\<close>, \<open>dr37_hybrid_kem_graph.py\<close>): descriptor,
  request tensor, result record, the HKDF reference, the oracle and the dispatch to the device.
\<close>

subsection \<open>Constants and formats\<close>

abbreviation (input) MAGIC_HEADER :: int where "MAGIC_HEADER \<equiv> 0x454B3701"
abbreviation (input) MODE_HYBRID_ENCAPS_COMBINE :: int where "MODE_HYBRID_ENCAPS_COMBINE \<equiv> 1"
abbreviation (input) MODE_HYBRID_DECAPS_COMBINE :: int where "MODE_HYBRID_DECAPS_COMBINE \<equiv> 2"
abbreviation (input) MODE_HYBRID_POLICY_ENFORCE :: int where "MODE_HYBRID_POLICY_ENFORCE \<equiv> 4"
abbreviation (input) MODE_HYBRID_ZEROIZE :: int where "MODE_HYBRID_ZEROIZE \<equiv> 5"
abbreviation (input) PROFILE_X25519_MLKEM768 :: int where "PROFILE_X25519_MLKEM768 \<equiv> 1"
abbreviation (input) PROFILE_SECP384R1_MLKEM1024 :: int where "PROFILE_SECP384R1_MLKEM1024 \<equiv> 2"
abbreviation (input) HK_STATUS_SUCCESS :: int where "HK_STATUS_SUCCESS \<equiv> 0"
abbreviation (input) STATUS_ERR_INVALID_MAGIC :: int where "STATUS_ERR_INVALID_MAGIC \<equiv> 1"
abbreviation (input) STATUS_ERR_DEGENERATE_KEY :: int where "STATUS_ERR_DEGENERATE_KEY \<equiv> 2"
abbreviation (input) STATUS_ERR_INVALID_PROFILE :: int where "STATUS_ERR_INVALID_PROFILE \<equiv> 4"

abbreviation (input) eight_u32 :: "field list" where
  "eight_u32 \<equiv> [U 4, U 4, U 4, U 4, U 4, U 4, U 4, U 4]"

definition pack_dr37_descriptor :: "int \<Rightarrow> int \<Rightarrow> int \<Rightarrow> int \<Rightarrow> int \<Rightarrow> int \<Rightarrow> int \<Rightarrow> int \<Rightarrow> bytes py" where
  "pack_dr37_descriptor op_mode profile_id ss_c_len ss_pqc_len ct_c_len ct_pqc_len flags seq_id =
     bindE (struct_pack_into eight_u32 (zeros 64) 0
       [MAGIC_HEADER, op_mode, profile_id, ss_c_len, ss_pqc_len, ct_c_len, ct_pqc_len, flags])
       (\<lambda>desc. struct_pack_into [U 4] desc 32 [seq_id])"

text \<open>
  The slice that is assigned to is as long as the argument, what is assigned is at most 32 bytes: a
  longer argument shortens the buffer.
\<close>

definition place32 :: "nat \<Rightarrow> bytes \<Rightarrow> bytes \<Rightarrow> bytes" where
  "place32 off x req = assign_slice off (off + length x) (take 32 x) req"

definition pack_dr37_request :: "bytes \<Rightarrow> bytes \<Rightarrow> bytes \<Rightarrow> bytes \<Rightarrow> bytes \<Rightarrow> bytes" where
  "pack_dr37_request classical_ss pqc_ss classical_ct salt pqc_ct =
     (let req = place32 0 classical_ss (zeros 16384);
          req = place32 32 pqc_ss req;
          req = (if classical_ct \<noteq> [] then place32 64 classical_ct req else req);
          req = (if salt \<noteq> [] then place32 96 salt req else req)
      in if pqc_ct \<noteq> [] then assign_slice 128 (128 + length pqc_ct) pqc_ct req else req)"

record dr37_result =
  hk_status :: int
  hk_op_mode :: int
  hk_outcome :: int
  hk_cycle_est :: int
  hk_final_ss :: bytes
  hk_enc_key :: bytes
  hk_mac_key :: bytes
  hk_iv :: bytes
  hk_transcript :: bytes

definition unpack_dr37_result :: "bytes \<Rightarrow> dr37_result py" where
  "unpack_dr37_result b =
     (if length b < 160 then Inl ValueError
      else bindE (struct_unpack_from [U 4, U 4, U 4, U 4] b 0) (\<lambda>w.
        Inr \<lparr>hk_status = w ! 0, hk_op_mode = w ! 1, hk_outcome = w ! 2, hk_cycle_est = w ! 3,
          hk_final_ss = slice 16 48 b, hk_enc_key = slice 48 80 b, hk_mac_key = slice 80 112 b,
          hk_iv = slice 112 128 b, hk_transcript = slice 128 160 b\<rparr>))"

subsection \<open>Key derivation\<close>

text \<open>The \<open>while\<close> loop: \<open>bytes([block_num])\<close> raises from 256 on, which bounds it.\<close>

function hkdf_expand :: "bytes \<Rightarrow> bytes \<Rightarrow> nat \<Rightarrow> bytes \<Rightarrow> bytes \<Rightarrow> nat \<Rightarrow> bytes py" where
  "hkdf_expand prk info len okm t block_num =
     (if length okm < len
      then if 255 < block_num then Inl ValueError
           else let t = hmac_sha256 prk (t @ info @ [word_of_nat block_num])
                in hkdf_expand prk info len (okm @ t) t (block_num + 1)
      else Inr okm)"
  by pat_completeness auto

termination
  by (relation "measure (\<lambda>(prk, info, len, okm, t, b). 256 - b)") auto

declare hkdf_expand.simps [simp del]

definition hkdf_extract_and_expand_sha256 :: "bytes \<Rightarrow> bytes \<Rightarrow> bytes \<Rightarrow> nat \<Rightarrow> bytes py" where
  "hkdf_extract_and_expand_sha256 salt ikm info len =
     (let salt = (if salt = [] then zeros 32 else salt); prk = hmac_sha256 salt ikm
      in bindE (hkdf_expand prk info len [] [] 1) (\<lambda>okm. Inr (take len okm)))"

subsection \<open>The oracle\<close>

definition hk_header :: "int \<Rightarrow> int \<Rightarrow> int \<Rightarrow> int \<Rightarrow> bytes py" where
  "hk_header status op_mode outcome cycles =
     struct_pack_into [U 4, U 4, U 4, U 4] (zeros 2048) 0 [status, op_mode, outcome, cycles]"

definition degenerate :: "bytes \<Rightarrow> bool" where
  "degenerate ss \<longleftrightarrow> list_all (\<lambda>b. b = 0) ss"

definition info_label :: bytes where
  "info_label = map (\<lambda>c. of_char c) ''ETSI_HYBRID_KEM_TS_103_744''"

definition hk_combine :: "int \<Rightarrow> int \<Rightarrow> bytes \<Rightarrow> bytes \<Rightarrow> bytes \<Rightarrow> bytes \<Rightarrow> bytes \<Rightarrow> bytes py" where
  "hk_combine op_mode profile_id classical_ss pqc_ss classical_ct salt pqc_ct =
     (let transcript_digest = sha256 (classical_ct @ sha256 pqc_ct);
          ikm = classical_ss @ pqc_ss;
          info_prefix = info_label @ transcript_digest
      in bindE (hkdf_extract_and_expand_sha256 salt ikm info_prefix 112) (\<lambda>derived.
           bindE (hk_header HK_STATUS_SUCCESS op_mode 1 (if profile_id = PROFILE_X25519_MLKEM768 then 720 else 950)) (\<lambda>result.
             let result = assign_slice 16 48 (slice 0 32 derived) result;
                 result = assign_slice 48 80 (slice 32 64 derived) result;
                 result = assign_slice 80 112 (slice 64 96 derived) result;
                 result = assign_slice 112 128 (slice 96 112 derived) result
             in Inr (assign_slice 128 160 transcript_digest result))))"

definition reference_dr37_oracle :: "bytes \<Rightarrow> bytes \<Rightarrow> bytes py" where
  "reference_dr37_oracle request_bytes descriptor_bytes =
     bindE (struct_unpack_from eight_u32 descriptor_bytes 0) (\<lambda>w.
       let magic = w ! 0; op_mode = w ! 1; profile_id = w ! 2; ct_pqc_len = nat (w ! 6)
       in if magic \<noteq> MAGIC_HEADER then hk_header STATUS_ERR_INVALID_MAGIC op_mode 0 0
          else if profile_id \<notin> {PROFILE_X25519_MLKEM768, PROFILE_SECP384R1_MLKEM1024}
          then hk_header STATUS_ERR_INVALID_PROFILE op_mode 0 0
          else let classical_ss = slice 0 32 request_bytes; pqc_ss = slice 32 64 request_bytes;
                   classical_ct = slice 64 96 request_bytes; salt = slice 96 128 request_bytes;
                   pqc_ct = slice 128 (128 + ct_pqc_len) request_bytes
               in if op_mode \<in> {MODE_HYBRID_ENCAPS_COMBINE, MODE_HYBRID_DECAPS_COMBINE, MODE_HYBRID_POLICY_ENFORCE} \<and>
                    (degenerate classical_ss \<or> degenerate pqc_ss)
                  then hk_header STATUS_ERR_DEGENERATE_KEY op_mode 0 150
                  else if op_mode = MODE_HYBRID_ZEROIZE then hk_header HK_STATUS_SUCCESS op_mode 1 200
                  else hk_combine op_mode profile_id classical_ss pqc_ss classical_ct salt pqc_ct)"

subsection \<open>Dispatch to the device\<close>

definition run_dr37_hybrid_kem_on_aie2 ::
  "host \<Rightarrow> int \<Rightarrow> int \<Rightarrow> bytes \<Rightarrow> bytes \<Rightarrow> bytes \<Rightarrow> bytes \<Rightarrow> bytes \<Rightarrow> int \<Rightarrow> bytes py" where
  "run_dr37_hybrid_kem_on_aie2 h op_mode profile_id classical_ss pqc_ss classical_ct salt pqc_ct seq_id =
     bindE (pack_dr37_descriptor op_mode profile_id (int (length classical_ss)) (int (length pqc_ss))
         (int (length classical_ct)) (int (length pqc_ct)) 0 seq_id) (\<lambda>desc.
       dispatch 2048 h desc (pack_dr37_request classical_ss pqc_ss classical_ct salt pqc_ct))"

subsection \<open>Library\<close>

interpretation op_hybrid: device_operation
    "\<lambda>h. run_dr37_hybrid_kem_on_aie2 h op prof css pss cct salt pct seq" for op prof css pss cct salt pct seq
  by unfold_locales (auto simp add: run_dr37_hybrid_kem_on_aie2_def bindE_Inr_iff dispatch_Inr_iff hardware_ok_def)

definition fix32 :: "bytes \<Rightarrow> bytes" where
  "fix32 x = take 32 (ljust 32 x)"

lemma length_fix32 [simp]: "length (fix32 x) = 32"
  by (simp add: fix32_def)

lemma fix32_id: "length x = 32 \<Longrightarrow> fix32 x = x"
  by (simp add: fix32_def ljust_id)

lemma fix32_zeros: "length x \<le> N \<Longrightarrow> 32 \<le> N \<Longrightarrow> take 32 x @ zeros (N - length x) = fix32 x @ zeros (N - max 32 (length x))"
  by (cases "length x \<le> 32") (simp_all add: fix32_def ljust_def max_def zeros_append)

lemma place32_at:
  "length P = off \<Longrightarrow> length x \<le> N \<Longrightarrow> 32 \<le> N \<Longrightarrow>
    place32 off x (P @ zeros N) = P @ fix32 x @ zeros (N - max 32 (length x))"
  by (simp add: place32_def assign_slice_def fix32_zeros flip: fix32_zeros)

lemma place32_empty:
  "length P = off \<Longrightarrow> length x \<le> N \<Longrightarrow> 32 \<le> N \<Longrightarrow>
    (if x \<noteq> [] then place32 off x (P @ zeros N) else P @ zeros N) = P @ fix32 x @ zeros (N - max 32 (length x))"
  using fix32_zeros [of "[]" N] place32_at [of P off x N] by (cases "x = []") simp_all

text \<open>Everything after the salt: the ciphertext and zeros.\<close>

definition rest_of :: "bytes \<Rightarrow> bytes \<Rightarrow> bytes \<Rightarrow> bytes \<Rightarrow> bytes \<Rightarrow> nat" where
  "rest_of css pss cct salt pct = 16384 - max 32 (length css) - max 32 (length pss) - max 32 (length cct) - max 32 (length salt)
     - length pct"

lemma pack_dr37_request_layout:
  assumes "max 32 (length css) + max 32 (length pss) + max 32 (length cct) + max 32 (length salt) + length pct \<le> 16384"
  shows "pack_dr37_request css pss cct salt pct =
    fix32 css @ fix32 pss @ fix32 cct @ fix32 salt @ pct @ zeros (rest_of css pss cct salt pct)"
proof -
  define n1 where "n1 = 16384 - max 32 (length css)"
  define n2 where "n2 = n1 - max 32 (length pss)"
  define n3 where "n3 = n2 - max 32 (length cct)"
  define n4 where "n4 = n3 - max 32 (length salt)"
  have n: "length css \<le> 16384" "length pss \<le> n1" "32 \<le> n1" "length cct \<le> n2" "32 \<le> n2" "length salt \<le> n3" "32 \<le> n3"
    "length pct \<le> n4" "rest_of css pss cct salt pct = n4 - length pct"
    using assms by (simp_all add: n1_def n2_def n3_def n4_def rest_of_def)
  have 1: "place32 0 css (zeros 16384) = fix32 css @ zeros n1"
    using place32_at [of "[]" 0 css 16384] n(1) by (simp add: n1_def)
  have 2: "place32 32 pss (fix32 css @ zeros n1) = (fix32 css @ fix32 pss) @ zeros n2"
    using n by (simp add: place32_at n2_def)
  have 3: "(if cct \<noteq> [] then place32 64 cct ((fix32 css @ fix32 pss) @ zeros n2) else (fix32 css @ fix32 pss) @ zeros n2) =
      (fix32 css @ fix32 pss @ fix32 cct) @ zeros n3"
    unfolding n3_def using n by (subst place32_empty) simp_all
  have 4: "(if salt \<noteq> [] then place32 96 salt ((fix32 css @ fix32 pss @ fix32 cct) @ zeros n3) else (fix32 css @ fix32 pss @ fix32 cct) @ zeros n3) =
      (fix32 css @ fix32 pss @ fix32 cct @ fix32 salt) @ zeros n4"
    unfolding n4_def using n by (subst place32_empty) simp_all
  show ?thesis
    unfolding pack_dr37_request_def Let_def 1 2 3 4 n(9) using n(8) by (auto simp add: assign_slice_def)
qed

subsection \<open>HKDF as RFC 5869 states it\<close>

fun hkdf_t :: "bytes \<Rightarrow> bytes \<Rightarrow> nat \<Rightarrow> bytes" where
  "hkdf_t prk info 0 = []"
| "hkdf_t prk info (Suc i) = hmac_sha256 prk (hkdf_t prk info i @ info @ [word_of_nat (Suc i)])"

definition hkdf_blocks :: "bytes \<Rightarrow> bytes \<Rightarrow> nat \<Rightarrow> bytes" where
  "hkdf_blocks prk info n = concat (map (\<lambda>i. hkdf_t prk info (Suc i)) [0..<n])"

lemma length_hkdf_blocks [simp]: "length (hkdf_blocks prk info n) = 32 * n"
  by (induction n) (simp_all add: hkdf_blocks_def)

lemma hkdf_blocks_Suc: "hkdf_blocks prk info (Suc n) = hkdf_blocks prk info n @ hkdf_t prk info (Suc n)"
  by (simp add: hkdf_blocks_def)

lemma hkdf_expand_from:
  "i \<le> 255 \<Longrightarrow> hkdf_expand prk info L (hkdf_blocks prk info i) (hkdf_t prk info i) (Suc i) =
    (if L \<le> 8160 then Inr (hkdf_blocks prk info (max i ((L + 31) div 32))) else Inl ValueError)"
proof (induction "255 - i" arbitrary: i)
  case 0
  then have "i = 255" by simp
  moreover have "L \<le> 8160 \<Longrightarrow> (L + 31) div 32 \<le> 255" by simp
  ultimately show ?case by (simp add: hkdf_expand.simps max_absorb1)
next
  case (Suc d)
  then have i: "i < 255" by simp
  show ?case
  proof (cases "32 * i < L")
    case True
    have "hkdf_expand prk info L (hkdf_blocks prk info i) (hkdf_t prk info i) (Suc i) =
        hkdf_expand prk info L (hkdf_blocks prk info (Suc i)) (hkdf_t prk info (Suc i)) (Suc (Suc i))"
      using True i by (subst hkdf_expand.simps) (simp add: hkdf_blocks_Suc Let_def)
    moreover have "max (Suc i) ((L + 31) div 32) = max i ((L + 31) div 32)" using True by simp
    ultimately show ?thesis using Suc.hyps(1) [of "Suc i"] Suc.hyps(2) i by simp
  next
    case False
    then have "(L + 31) div 32 \<le> i" by simp
    with False i show ?thesis by (subst hkdf_expand.simps) (simp add: max_absorb1)
  qed
qed

lemma hkdf_exact:
  "hkdf_extract_and_expand_sha256 salt ikm info L =
    (if L \<le> 8160 then Inr (take L (hkdf_blocks (hmac_sha256 (if salt = [] then zeros 32 else salt) ikm) info ((L + 31) div 32)))
     else Inl ValueError)"
  using hkdf_expand_from [of 0 "hmac_sha256 (if salt = [] then zeros 32 else salt) ikm" info L]
  by (simp add: hkdf_extract_and_expand_sha256_def Let_def hkdf_blocks_def)

subsection \<open>Properties\<close>

text \<open>
  Key derivation: the loop ends for every length; up to 8160 bytes the result is the prefix of
  that length of the blocks of RFC 5869, and for more the block counter does not fit a byte and the
  routine raises, whatever the secret.
\<close>

theorem hkdf_returns_exactly:
  "(hkdf_extract_and_expand_sha256 salt ikm info L = Inr okm \<longleftrightarrow> L \<le> 8160 \<and>
     okm = take L (hkdf_blocks (hmac_sha256 (if salt = [] then zeros 32 else salt) ikm) info ((L + 31) div 32))) \<and>
   (hkdf_extract_and_expand_sha256 salt ikm info L = Inl e \<longleftrightarrow> 8160 < L \<and> e = ValueError)"
  unfolding hkdf_exact by auto

text \<open>The answer as the design describes it, over the secrets cut or padded to 32 bytes.\<close>

definition no_keys :: "int \<Rightarrow> int \<Rightarrow> int \<Rightarrow> int \<Rightarrow> dr37_result" where
  "no_keys status op outcome cycles = \<lparr>hk_status = status, hk_op_mode = op, hk_outcome = outcome, hk_cycle_est = cycles,
     hk_final_ss = zeros 32, hk_enc_key = zeros 32, hk_mac_key = zeros 32, hk_iv = zeros 16, hk_transcript = zeros 32\<rparr>"

definition hybrid_answer :: "int \<Rightarrow> int \<Rightarrow> bytes \<Rightarrow> bytes \<Rightarrow> bytes \<Rightarrow> bytes \<Rightarrow> bytes \<Rightarrow> dr37_result" where
  "hybrid_answer op prof css pss cct salt pct =
     (if op \<in> {1, 2, 4} \<and> (css = zeros 32 \<or> pss = zeros 32) then no_keys 2 op 0 150
      else if op = 5 then no_keys 0 op 1 200
      else let td = sha256 (cct @ sha256 pct); t = hkdf_t (hmac_sha256 salt (css @ pss)) (info_label @ td)
        in \<lparr>hk_status = 0, hk_op_mode = op, hk_outcome = 1, hk_cycle_est = (if prof = 1 then 720 else 950),
             hk_final_ss = t 1, hk_enc_key = t 2, hk_mac_key = t 3, hk_iv = take 16 (t 4), hk_transcript = td\<rparr>)"

lemma hk_header_at:
  assumes "\<forall>v \<in> {st, op, oc, cy}. 0 \<le> v \<and> v < 4294967296"
  obtains H where "hk_header st op oc cy = Inr (H @ zeros 2032)" "length H = 16"
    "\<And>r. struct_unpack_from [U 4, U 4, U 4, U 4] (H @ r) 0 = Inr [st, op, oc, cy]"
proof (rule that)
  show "hk_header st op oc cy = Inr (struct_bytes [U 4, U 4, U 4, U 4] [st, op, oc, cy] @ zeros 2032)"
    using assms by (simp add: hk_header_def struct_pack_into_fits put_def)
qed (use assms in \<open>simp_all add: struct_unpack_from_def le_int_bytes_id\<close>)

lemma unpack_header:
  assumes "\<forall>v \<in> {st, op, oc, cy}. 0 \<le> v \<and> v < 4294967296"
  shows "bindE (hk_header st op oc cy) unpack_dr37_result = Inr (no_keys st op oc cy)"
proof (rule hk_header_at [OF assms])
  fix H assume "hk_header st op oc cy = Inr (H @ zeros 2032)" "length H = 16"
    "\<And>r. struct_unpack_from [U 4, U 4, U 4, U 4] (H @ r) 0 = Inr [st, op, oc, cy]"
  then show ?thesis by (simp add: unpack_dr37_result_def no_keys_def slice_append_right)
qed

lemma length_hkdf_t [simp]: "0 < i \<Longrightarrow> length (hkdf_t prk info i) = 32"
  by (cases i) simp_all

lemma hkdf_112: "salt \<noteq> [] \<Longrightarrow> hkdf_extract_and_expand_sha256 salt ikm info 112 = Inr (let t = hkdf_t (hmac_sha256 salt ikm) info in
    t 1 @ t 2 @ t 3 @ take 16 (t 4))"
proof -
  have "[0..<4] = [0, 1, 2, 3]" by (simp add: upt_conv_Cons)
  then have "hkdf_blocks prk info 4 = hkdf_t prk info 1 @ hkdf_t prk info 2 @ hkdf_t prk info 3 @ hkdf_t prk info 4" for prk
    by (simp add: hkdf_blocks_def eval_nat_numeral del: hkdf_t.simps)
  then show "salt \<noteq> [] \<Longrightarrow> ?thesis" by (simp add: hkdf_exact Let_def del: hkdf_t.simps)
qed

lemma unpack_combine:
  assumes "0 \<le> op" "op < 4294967296" "salt \<noteq> []"
  shows "bindE (hk_combine op prof css pss cct salt pct) unpack_dr37_result =
    Inr (let td = sha256 (cct @ sha256 pct); t = hkdf_t (hmac_sha256 salt (css @ pss)) (info_label @ td)
        in \<lparr>hk_status = 0, hk_op_mode = op, hk_outcome = 1, hk_cycle_est = (if prof = 1 then 720 else 950),
             hk_final_ss = t 1, hk_enc_key = t 2, hk_mac_key = t 3, hk_iv = take 16 (t 4), hk_transcript = td\<rparr>)"
proof -
  define td where "td = sha256 (cct @ sha256 pct)"
  define t where "t = hkdf_t (hmac_sha256 salt (css @ pss)) (info_label @ td)"
  define cy :: int where "cy = (if prof = 1 then 720 else 950)"
  have l: "length (t 1) = 32" "length (t 2) = 32" "length (t 3) = 32" "length (t 4) = 32" "length td = 32"
    by (simp_all add: t_def td_def del: hkdf_t.simps)
  have "\<forall>v \<in> {0, op, 1, cy}. 0 \<le> v \<and> v < 4294967296" using assms by (simp add: cy_def)
  then show ?thesis
  proof (rule hk_header_at)
    fix H assume H: "hk_header 0 op 1 cy = Inr (H @ zeros 2032)" "length H = 16"
      "\<And>r. struct_unpack_from [U 4, U 4, U 4, U 4] (H @ r) 0 = Inr [0, op, 1, cy]"
    let ?okm = "t 1 @ t 2 @ t 3 @ take 16 (t 4)"
    have "hk_combine op prof css pss cct salt pct = Inr (assign_slice 128 160 td (assign_slice 112 128 (slice 96 112 ?okm)
        (assign_slice 80 112 (slice 64 96 ?okm) (assign_slice 48 80 (slice 32 64 ?okm) (assign_slice 16 48 (slice 0 32 ?okm) (H @ zeros 2032))))))"
      using H(1) hkdf_112 [OF assms(3), of "css @ pss" "info_label @ td"]
      unfolding hk_combine_def Let_def td_def [symmetric] cy_def [symmetric] t_def [symmetric] by (simp del: hkdf_t.simps)
    also have "\<dots> = Inr (H @ t 1 @ t 2 @ t 3 @ take 16 (t 4) @ td @ zeros 1888)"
      using H(2) l by (simp add: slice_def assign_slice_def)
    finally show ?thesis
      using H(2,3) l unfolding td_def [symmetric] t_def [symmetric] cy_def [symmetric] Let_def
      by (simp add: unpack_dr37_result_def slice_def)
  qed
qed

lemma degenerate_zeros: "length x = 32 \<Longrightarrow> degenerate x \<longleftrightarrow> x = zeros 32"
  by (auto simp add: degenerate_def zeros_def list_all_iff intro: replicate_eqI)

text \<open>
  The oracle on a request and a descriptor as the dispatcher packs them answers what the design
  says, over the inputs cut or padded to 32 bytes: in the combining modes an all-zero secret is
  refused, otherwise the four keys are separate HKDF blocks of both secrets bound to both
  ciphertexts.  So bytes of a secret behind the 32nd, as those of a P-384 secret, play no role, and
  every other mode number except 5, also an undefined one, combines without a check of the secrets.
\<close>

theorem hybrid_request_refines:
  assumes "max 32 (length css) + max 32 (length pss) + max 32 (length cct) + max 32 (length salt) + length pct \<le> 16384"
    "pack_dr37_descriptor op prof (int (length css)) (int (length pss)) (int (length cct)) (int (length pct)) 0 seq = Inr desc"
    "prof \<in> {1, 2}"
  shows "bindE (reference_dr37_oracle (pack_dr37_request css pss cct salt pct) desc) unpack_dr37_result =
    Inr (hybrid_answer op prof (fix32 css) (fix32 pss) (fix32 cct) (fix32 salt) pct)"
proof -
  let ?ws = "[MAGIC_HEADER, op, prof, int (length css), int (length pss), int (length cct), int (length pct), 0]"
  have d: "struct_unpack_from eight_u32 desc 0 = Inr ?ws"
    using packed_twice(2) [OF assms(2) [unfolded pack_dr37_descriptor_def], of "[]"] by simp
  have op: "0 \<le> op \<and> op < 4294967296"
    using assms(2) by (auto simp add: pack_dr37_descriptor_def bindE_Inr_iff struct_pack_into_def struct_pack_cases split: if_splits)
  let ?req = "pack_dr37_request css pss cct salt pct"
  have r: "slice 0 32 ?req = fix32 css" "slice 32 64 ?req = fix32 pss" "slice 64 96 ?req = fix32 cct"
    "slice 96 128 ?req = fix32 salt" "slice 128 (128 + length pct) ?req = pct"
    unfolding pack_dr37_request_layout [OF assms(1)] by (simp_all add: slice_def)
  have salt: "fix32 salt \<noteq> []" using length_fix32 [of salt] by (metis list.size(3) zero_neq_numeral)
  have head: "bindE (hk_header 2 op 0 150) unpack_dr37_result = Inr (no_keys 2 op 0 150)"
    "bindE (hk_header 0 5 1 200) unpack_dr37_result = Inr (no_keys 0 5 1 200)"
    using op by (auto intro!: unpack_header)
  note comb = unpack_combine [OF conjunct1 [OF op] conjunct2 [OF op] salt, of prof "fix32 css" "fix32 pss" "fix32 cct" pct]
  have o: "reference_dr37_oracle ?req desc =
    (if op \<in> {1, 2, 4} \<and> (fix32 css = zeros 32 \<or> fix32 pss = zeros 32) then hk_header 2 op 0 150
     else if op = 5 then hk_header 0 op 1 200
     else hk_combine op prof (fix32 css) (fix32 pss) (fix32 cct) (fix32 salt) pct)"
    using assms(3) r by (simp add: reference_dr37_oracle_def d Let_def degenerate_zeros)
  show ?thesis
    unfolding o hybrid_answer_def using op by (simp add: head comb split del: if_split split: if_split)
qed

theorem hybrid_request_refines_witness:
  "\<exists>desc. pack_dr37_descriptor 99 2 48 48 97 4 0 1 = Inr desc \<and>
     bindE (reference_dr37_oracle (pack_dr37_request (replicate 48 7) (replicate 48 8) (replicate 97 9) [] [1, 2, 3, 4]) desc)
       unpack_dr37_result = Inr (hybrid_answer 99 2 (replicate 32 7) (replicate 32 8) (replicate 32 9) (zeros 32) [1, 2, 3, 4])"
proof -
  obtain desc where d: "pack_dr37_descriptor 99 2 48 48 97 4 0 1 = Inr desc"
    by (simp add: pack_dr37_descriptor_def struct_pack_into_fits)
  have f: "fix32 (replicate n b) = replicate 32 b" if "32 \<le> n" for n and b :: byte
    using that by (simp add: fix32_def ljust_def min_def)
  have "fix32 [] = zeros 32" by (simp add: fix32_def ljust_def)
  with hybrid_request_refines [of "replicate 48 7" "replicate 48 8" "replicate 97 9" "[]" "[1, 2, 3, 4]" 99 2 1 desc] d f
  show ?thesis by simp
qed

end
