(* ===== verification/Suci.thy ===== *)
theory Suci
  imports Services Bitstream
begin

text \<open>
  The 5G subscriber-identity co-processor (\<open>dr30_3gpp_suci_abi.py\<close>, \<open>dr30_3gpp_suci_graph.py\<close>): the
  descriptor, the four operations on the device, two of which first call the ML-KEM-512 service,
  and the reference routines.
\<close>

unbundle bit_operations_syntax

subsection \<open>Descriptor\<close>

abbreviation (input) MAGIC_DESC_DR30 :: int where "MAGIC_DESC_DR30 \<equiv> 0x01305355"
abbreviation (input) PROFILE_C_MLKEM768 :: int where "PROFILE_C_MLKEM768 \<equiv> 3"
abbreviation (input) MODE_SUCI_PARSE_VALIDATE :: int where "MODE_SUCI_PARSE_VALIDATE \<equiv> 0"
abbreviation (input) MODE_SUCI_DECAPSULATE_DERIVE :: int where "MODE_SUCI_DECAPSULATE_DERIVE \<equiv> 1"
abbreviation (input) MODE_SUCI_DECONCEAL_VERIFY :: int where "MODE_SUCI_DECONCEAL_VERIFY \<equiv> 2"
abbreviation (input) MODE_SUCI_PIPELINE_FULL :: int where "MODE_SUCI_PIPELINE_FULL \<equiv> 3"

record dr30_descriptor =
  d30_operation_mode :: int
  d30_profile_id :: int
  d30_hn_key_id :: int
  d30_suci_len :: int
  d30_epoch :: int
  d30_routing_indicator :: int
  d30_mcc_mnc :: int

text \<open>The descriptor of a mode with the default values of the other fields.\<close>

definition suci_descriptor :: "int \<Rightarrow> int \<Rightarrow> int \<Rightarrow> dr30_descriptor" where
  "suci_descriptor mode suci_len epoch = \<lparr>d30_operation_mode = mode, d30_profile_id = PROFILE_C_MLKEM768,
     d30_hn_key_id = 1, d30_suci_len = suci_len, d30_epoch = epoch, d30_routing_indicator = 1, d30_mcc_mnc = 0x0310260\<rparr>"

definition pack_dr30_descriptor :: "dr30_descriptor \<Rightarrow> bytes py" where
  "pack_dr30_descriptor d = struct_pack_into (replicate 8 (U 4)) (zeros 32) 0
     [MAGIC_DESC_DR30, d30_operation_mode d, d30_profile_id d, d30_hn_key_id d, d30_suci_len d, d30_epoch d,
      d30_routing_indicator d, d30_mcc_mnc d]"

definition unpack_dr30_descriptor :: "bytes \<Rightarrow> dr30_descriptor py" where
  "unpack_dr30_descriptor data =
     (if length data < 32 then Inl ValueError
      else bindE (struct_unpack_from (replicate 8 (U 4)) data 0) (\<lambda>w.
        if w ! 0 \<noteq> MAGIC_DESC_DR30 then Inl ValueError
        else Inr \<lparr>d30_operation_mode = w ! 1, d30_profile_id = w ! 2, d30_hn_key_id = w ! 3, d30_suci_len = w ! 4,
          d30_epoch = w ! 5, d30_routing_indicator = w ! 6, d30_mcc_mnc = w ! 7\<rparr>))"

subsection \<open>Operations on the device\<close>

definition dispatch_dr30 :: "host \<Rightarrow> dr30_descriptor \<Rightarrow> bytes \<Rightarrow> bytes py" where
  "dispatch_dr30 h d req = bindE (pack_dr30_descriptor d) (\<lambda>desc. bindE (dispatch 2048 h desc req) check_status)"

definition suci_parse_validate_on_aie2 ::
  "host \<Rightarrow> int \<Rightarrow> int \<Rightarrow> int \<Rightarrow> int \<Rightarrow> int \<Rightarrow> int \<Rightarrow> (bool \<times> int list) py" where
  "suci_parse_validate_on_aie2 h profile_id hn_key_id suci_len epoch routing_indicator mcc_mnc =
     bindE (dispatch_dr30 h \<lparr>d30_operation_mode = MODE_SUCI_PARSE_VALIDATE, d30_profile_id = profile_id,
         d30_hn_key_id = hn_key_id, d30_suci_len = suci_len, d30_epoch = epoch, d30_routing_indicator = routing_indicator,
         d30_mcc_mnc = mcc_mnc\<rparr> (zeros 4096))
       (\<lambda>raw. bindE (struct_unpack_from (replicate 6 (U 4)) raw 16) (\<lambda>fields. Inr (fields ! 0 \<noteq> 0, tl fields)))"

text \<open>The secret of the caller, or the one the ML-KEM-512 service recovers when key and ciphertext are given.\<close>

definition actual_ss :: "host \<Rightarrow> bytes \<Rightarrow> int \<Rightarrow> bytes option \<Rightarrow> bytes option \<Rightarrow> bytes py" where
  "actual_ss h shared_secret epoch dk c = (case (dk, c) of
     (Some dk, Some c) \<Rightarrow> if 1632 \<le> length dk \<and> 768 \<le> length c then run_mlkem512_decaps h dk c epoch else Inr shared_secret
   | _ \<Rightarrow> Inr shared_secret)"

definition suci_decapsulate_derive_on_aie2 ::
  "host \<Rightarrow> bytes \<Rightarrow> bytes \<Rightarrow> int \<Rightarrow> bytes option \<Rightarrow> bytes option \<Rightarrow> (bytes \<times> bytes) py" where
  "suci_decapsulate_derive_on_aie2 h shared_secret ephem_pubkey epoch dk c =
     bindE (actual_ss h shared_secret epoch dk c) (\<lambda>ss.
       let req = assign_slice 0 32 (take 32 ss) (zeros 4096);
           req = assign_slice 32 64 (take 32 ephem_pubkey) req
       in bindE (dispatch_dr30 h (suci_descriptor MODE_SUCI_DECAPSULATE_DERIVE 0 epoch) req)
            (\<lambda>raw. Inr (slice 16 32 raw, slice 32 48 raw)))"

definition suci_deconceal_verify_on_aie2 :: "host \<Rightarrow> bytes \<Rightarrow> bytes \<Rightarrow> bytes \<Rightarrow> bytes \<Rightarrow> int \<Rightarrow> bytes py" where
  "suci_deconceal_verify_on_aie2 h k_enc k_mac recv_mac enc_payload epoch =
     (let n = length enc_payload;
          req = assign_slice 0 16 (take 16 k_enc) (zeros 4096);
          req = assign_slice 16 32 (take 16 k_mac) req;
          req = assign_slice 32 48 (take 16 recv_mac) req;
          req = assign_slice 48 (48 + n) enc_payload req
      in bindE (dispatch_dr30 h (suci_descriptor MODE_SUCI_DECONCEAL_VERIFY (48 + int n) epoch) req)
           (\<lambda>raw. Inr (slice 16 (16 + n) raw)))"

definition suci_pipeline_full_on_aie2 ::
  "host \<Rightarrow> bytes \<Rightarrow> bytes \<Rightarrow> bytes \<Rightarrow> bytes \<Rightarrow> int \<Rightarrow> bytes option \<Rightarrow> bytes option \<Rightarrow> bytes py" where
  "suci_pipeline_full_on_aie2 h shared_secret ephem_pubkey recv_mac enc_payload epoch dk c =
     bindE (actual_ss h shared_secret epoch dk c) (\<lambda>ss.
       let n = length enc_payload;
           req = assign_slice 0 32 (take 32 ss) (zeros 4096);
           req = assign_slice 32 64 (take 32 ephem_pubkey) req;
           req = assign_slice 64 80 (take 16 recv_mac) req;
           req = assign_slice 80 (80 + n) enc_payload req
       in bindE (dispatch_dr30 h (suci_descriptor MODE_SUCI_PIPELINE_FULL (80 + int n) epoch) req)
            (\<lambda>raw. Inr (slice 16 (16 + n) raw)))"

subsection \<open>Reference routines\<close>

definition ref_suci_validate_header :: "int \<Rightarrow> int \<Rightarrow> int \<Rightarrow> bool" where
  "ref_suci_validate_header profile_id hn_key_id suci_len \<longleftrightarrow> profile_id \<in> {3, 4} \<and> 0 < hn_key_id \<and> 32 \<le> suci_len"

text \<open>One in-place step of the mixing loops.\<close>

definition suci_mix :: "int list \<Rightarrow> nat \<times> nat \<Rightarrow> int list" where
  "suci_mix state ri = (case ri of (r, i) \<Rightarrow>
     let s_next = state ! ((i + 1) mod 16);
         rot = u32 (push_bit 13 s_next OR drop_bit 19 s_next)
     in state[i := u32 (state ! i XOR (rot + state ! ((i + 7) mod 16) + 0x9E3779B9 + int r))])"

definition ref_derive_suci_keys :: "bytes \<Rightarrow> bytes \<Rightarrow> (bytes \<times> bytes) py" where
  "ref_derive_suci_keys shared_secret ephem_pubkey =
     bindE (struct_unpack_from (replicate 8 (U 4)) (take 32 shared_secret) 0) (\<lambda>ss_words.
     bindE (struct_unpack_from (replicate 8 (U 4)) (take 32 ephem_pubkey) 0) (\<lambda>ephem_words.
       let state = map (\<lambda>w. u32 (w XOR 0x6A09E667)) ss_words @ map (\<lambda>w. u32 (w XOR 0xBB67AE85)) ephem_words;
           state = foldl suci_mix state (List.product [0..<8] [0..<16])
       in bindE (struct_pack (replicate 16 (U 4)) state) (\<lambda>st_bytes. Inr (slice 0 16 st_bytes, slice 16 32 st_bytes))))"

definition mac_word :: "bytes \<Rightarrow> int list \<Rightarrow> nat \<Rightarrow> int list" where
  "mac_word payload acc w =
     (let word = le_int (slice (4 * w) (4 * w + 4) payload)
      in acc[w mod 4 := u32 (acc ! (w mod 4) XOR (word + u32 (push_bit 5 (acc ! ((w + 1) mod 4)))))])"

text \<open>The loop over the bytes behind the last full word is their little-endian value.\<close>

definition ref_compute_suci_mac :: "bytes \<Rightarrow> bytes \<Rightarrow> bytes py" where
  "ref_compute_suci_mac k_mac payload =
     bindE (struct_unpack_from (replicate 4 (U 4)) (take 16 k_mac) 0) (\<lambda>km.
       let acc = [u32 (km ! 0 XOR 0x55555555), u32 (km ! 1 XOR 0xAAAAAAAA), u32 (km ! 2 XOR 0x33333333), u32 (km ! 3 XOR 0xCCCCCCCC)];
           full_words = length payload div 4;
           acc = foldl (mac_word payload) acc [0..<full_words];
           rem = length payload mod 4;
           tail = foldl (\<lambda>t r. t OR push_bit (8 * r) (uint (payload ! (full_words * 4 + r)))) 0 [0..<rem];
           acc = (if 0 < rem then acc[full_words mod 4 := u32 (acc ! (full_words mod 4) XOR tail)] else acc);
           acc = map (\<lambda>a. u32 (drop_bit 11 a OR u32 (push_bit 21 a))) acc
       in struct_pack (replicate 4 (U 4)) acc)"

text \<open>An empty key raises on the first byte only.\<close>

definition ref_decrypt_supi :: "bytes \<Rightarrow> bytes \<Rightarrow> bytes py" where
  "ref_decrypt_supi k_enc enc_payload =
     mapE (\<lambda>i. bindE (nthE k_enc (i mod 16)) (\<lambda>k. Inr (enc_payload ! i XOR (k XOR word_of_int (int i * 31 AND 0xFF)))))
       [0..<length enc_payload]"

definition ref_full_deconceal :: "bytes \<Rightarrow> bytes \<Rightarrow> bytes \<Rightarrow> bytes \<Rightarrow> (bool \<times> bytes) py" where
  "ref_full_deconceal shared_secret ephem_pubkey recv_mac enc_payload =
     bindE (ref_derive_suci_keys shared_secret ephem_pubkey) (\<lambda>(k_enc, k_mac).
     bindE (ref_compute_suci_mac k_mac enc_payload) (\<lambda>calc_mac.
       if calc_mac \<noteq> recv_mac then Inr (False, [])
       else bindE (ref_decrypt_supi k_enc enc_payload) (\<lambda>plain. Inr (True, plain))))"

subsection \<open>The descriptor and the device\<close>

lemma wf_format_replicate_U [simp]: "wf_format (replicate k (U n))"
  by (simp add: wf_format_def)

interpretation dr30: descriptor_codec pack_dr30_descriptor unpack_dr30_descriptor 32
proof
  fix d b rest
  assume "pack_dr30_descriptor d = Inr b"
  note packed = packed_once [OF this [unfolded pack_dr30_descriptor_def] wf_format_replicate_U]
  show "length b = 32" using packed(1) by simp
  then show "unpack_dr30_descriptor (b @ rest) = Inr d"
    using packed(2) [of rest] by (simp add: unpack_dr30_descriptor_def)
qed

lemma dispatch_dr30_device:
  "dispatch_dr30 h d req = Inr raw \<Longrightarrow> iron_ok h \<and> (\<exists>req desc out. ho_program h req desc = Inr out)"
  by (auto simp add: dispatch_dr30_def bindE_Inr_iff dispatch_Inr_iff hardware_ok_def)

interpretation op_suci_parse: device_operation "\<lambda>h. suci_parse_validate_on_aie2 h p k n e r m" for p k n e r m
  by unfold_locales (auto simp add: suci_parse_validate_on_aie2_def bindE_Inr_iff elim!: dispatch_dr30_device)

interpretation op_suci_derive: device_operation "\<lambda>h. suci_decapsulate_derive_on_aie2 h ss pk e dk c" for ss pk e dk c
  by unfold_locales (auto simp add: suci_decapsulate_derive_on_aie2_def Let_def bindE_Inr_iff elim!: dispatch_dr30_device)

interpretation op_suci_deconceal: device_operation "\<lambda>h. suci_deconceal_verify_on_aie2 h ke km m p e" for ke km m p e
  by unfold_locales (auto simp add: suci_deconceal_verify_on_aie2_def Let_def bindE_Inr_iff elim!: dispatch_dr30_device)

interpretation op_suci_pipeline: device_operation "\<lambda>h. suci_pipeline_full_on_aie2 h ss pk m p e dk c" for ss pk m p e dk c
  by unfold_locales (auto simp add: suci_pipeline_full_on_aie2_def Let_def bindE_Inr_iff elim!: dispatch_dr30_device)

subsection \<open>Words under exclusive or\<close>

lemma struct_pack_words: "words_ok ws \<Longrightarrow> struct_pack (replicate (length ws) (U 4)) ws = Inr (words_bytes ws)"
  by (induction ws) simp_all

lemma words_bytes_xor:
  "length ws = length vs \<Longrightarrow> words_bytes (map2 (XOR) ws vs) = map2 (XOR) (words_bytes ws) (words_bytes vs)"
  by (induction ws vs rule: list_induct2) (simp_all add: le_bytes_xor del: le_bytes.simps)

definition ror11 :: "int \<Rightarrow> int" where
  "ror11 a = u32 (drop_bit 11 a OR u32 (push_bit 21 a))"

lemma ror11_xor:
  assumes "0 \<le> x" "x < 4294967296" "0 \<le> y" "y < 4294967296"
  shows "ror11 (x XOR y) = ror11 x XOR ror11 y"
proof -
  have t: "take_bit 32 x = x" "take_bit 32 y = y" using assms by (simp_all add: take_bit_int_eq_self)
  have "\<not> bit x k" "\<not> bit y k" if "32 \<le> k" for k
    using that by (metis t bit_take_bit_iff linorder_not_le)+
  then show ?thesis
    by (intro bit_eqI) (auto simp add: ror11_def u32_take_bit bit_simps)
qed

lemma u32_xor_right: "0 \<le> y \<Longrightarrow> y < 4294967296 \<Longrightarrow> u32 (x XOR y) = u32 x XOR y"
  using take_bit_int_eq_self [of y 32] by (simp add: u32_take_bit)

lemma le_int_append_byte:
  "le_int (q @ [b]) = le_int q OR push_bit (8 * length q) (uint b)"
proof (induction q)
  case (Cons x q)
  show ?case
  proof (rule bit_eqI)
    fix n
    have "bit (le_int ((x # q) @ [b])) n \<longleftrightarrow> (if n < 8 then bit x n else bit (le_int (q @ [b])) (n - 8))"
      by (simp add: bit_le_int del: le_int.simps)
    also have "\<dots> \<longleftrightarrow> bit (le_int (x # q) OR push_bit (8 * length (x # q)) (uint b)) n"
      unfolding Cons by (auto simp add: bit_le_int bit_simps simp del: le_int.simps)
    finally show "bit (le_int ((x # q) @ [b])) n \<longleftrightarrow> bit (le_int (x # q) OR push_bit (8 * length (x # q)) (uint b)) n" .
  qed
qed simp

lemma le_int_last_xor:
  "le_int (q @ [b XOR d]) = le_int (q @ [b]) XOR push_bit (8 * length q) (uint d)"
proof -
  have "\<not> bit (le_int q) k" if "8 * length q \<le> k" for k
    using le_int_less [of q] that by (metis bit_take_bit_iff le_int_nonneg linorder_not_le pow256 take_bit_int_eq_self)
  then show ?thesis
    unfolding le_int_append_byte by (intro bit_eqI) (auto simp add: bit_simps uint_xor)
qed

lemma tail_le_int:
  "n \<le> length xs \<Longrightarrow> foldl (\<lambda>t r. t OR push_bit (8 * r) (uint (xs ! r))) 0 [0..<n] = le_int (take n xs)"
  by (induction n) (simp_all add: take_Suc_conv_app_nth le_int_append_byte del: le_int.simps(2))


subsection \<open>The integrity code\<close>

definition mac_acc :: "int list \<Rightarrow> bytes \<Rightarrow> int list" where
  "mac_acc km p = foldl (mac_word p) [u32 (km ! 0 XOR 0x55555555), u32 (km ! 1 XOR 0xAAAAAAAA),
     u32 (km ! 2 XOR 0x33333333), u32 (km ! 3 XOR 0xCCCCCCCC)] [0..<length p div 4]"

definition mac_words :: "int list \<Rightarrow> bytes \<Rightarrow> int list" where
  "mac_words km p = (let F = length p div 4; acc = mac_acc km p
     in acc[F mod 4 := u32 (acc ! (F mod 4) XOR le_int (drop (F * 4) p))])"

lemma words_ok_update: "words_ok ws \<Longrightarrow> words_ok (ws[i := u32 x])"
  by (simp add: words_ok_def list_all_iff) (metis in_set_conv_nth insertE set_update_subset_insert subsetD u32_range)

lemma mac_words_loop:
  "length acc = 4 \<Longrightarrow> words_ok acc \<Longrightarrow>
   length (foldl (mac_word p) acc ws) = 4 \<and> words_ok (foldl (mac_word p) acc ws)"
  by (induction ws arbitrary: acc) (simp_all add: mac_word_def Let_def words_ok_update)

lemma mac_acc_ok: "length (mac_acc km p) = 4" "words_ok (mac_acc km p)"
  unfolding mac_acc_def by (simp_all add: mac_words_loop)

lemma mac_words_ok: "length (mac_words km p) = 4" "words_ok (mac_words km p)"
  by (simp_all add: mac_words_def Let_def mac_acc_ok words_ok_update)

lemma ref_compute_suci_mac_words:
  "ref_compute_suci_mac k p =
     bindE (struct_unpack_from (replicate 4 (U 4)) (take 16 k) 0) (\<lambda>km. Inr (words_bytes (map ror11 (mac_words km p))))"
proof -
  have "struct_pack (replicate 4 (U 4)) (map (\<lambda>a. u32 (drop_bit 11 a OR u32 (push_bit 21 a)))
          (if 0 < length p mod 4 then (mac_acc km p)[length p div 4 mod 4 := u32 (mac_acc km p ! (length p div 4 mod 4) XOR
             foldl (\<lambda>t r. t OR push_bit (8 * r) (uint (p ! (length p div 4 * 4 + r)))) 0 [0..<length p mod 4])] else mac_acc km p)) =
        Inr (words_bytes (map ror11 (mac_words km p)))" (is "struct_pack _ (map _ ?acc) = _") for km
  proof -
    let ?F = "length p div 4"
    have "length (drop (?F * 4) p) = length p mod 4"
      by (simp add: minus_div_mult_eq_mod)
    then have tail: "foldl (\<lambda>t r. t OR push_bit (8 * r) (uint (p ! (?F * 4 + r)))) 0 [0..<length p mod 4] = le_int (drop (?F * 4) p)"
      using tail_le_int [of "length p mod 4" "drop (?F * 4) p"] by simp
    have "?acc = mac_words km p"
    proof (cases "length p mod 4 = 0")
      case True
      then have "drop (?F * 4) p = []" by auto
      moreover have "u32 (mac_acc km p ! (?F mod 4)) = mac_acc km p ! (?F mod 4)"
        using words_ok_nth [of "mac_acc km p" "?F mod 4"] by (simp add: mac_acc_ok u32_id)
      ultimately show ?thesis using True by (simp add: mac_words_def Let_def)
    qed (simp add: mac_words_def Let_def tail)
    moreover have "map (\<lambda>a. u32 (drop_bit 11 a OR u32 (push_bit 21 a))) = map ror11"
      by (simp add: ror11_def [abs_def])
    moreover have "words_ok (map ror11 ws)" for ws by (simp add: words_ok_def list_all_iff ror11_def)
    ultimately show ?thesis
      using struct_pack_words [of "map ror11 (mac_words km p)"] by (simp add: mac_words_ok)
  qed
  then show ?thesis
    unfolding ref_compute_suci_mac_def Let_def mac_acc_def [symmetric] by (simp only:)
qed

text \<open>How the code changes when the last byte of a message changes by \<open>d\<close>: no key occurs.\<close>

definition suci_delta :: "nat \<Rightarrow> byte \<Rightarrow> bytes" where
  "suci_delta n d = words_bytes (map ror11 ((replicate 4 0)[n div 4 mod 4 := push_bit (8 * (n mod 4)) (uint d)]))"

lemma mac_acc_prefix: "length p mod 4 \<noteq> 3 \<Longrightarrow> mac_acc km (p @ [b]) = mac_acc km p"
proof -
  assume r: "length p mod 4 \<noteq> 3"
  then have F: "Suc (length p) div 4 = length p div 4" by (simp add: div_Suc mod_Suc)
  have "mac_word (p @ [b]) acc w = mac_word p acc w" if "w < length p div 4" for acc w
    using that slice_append_left [of "4 * w + 4" p "4 * w" "[b]"] by (simp add: mac_word_def)
  then have "foldl (mac_word (p @ [b])) acc [0..<length p div 4] = foldl (mac_word p) acc [0..<length p div 4]" for acc
    by (intro foldl_cong) simp_all
  with F show ?thesis by (simp add: mac_acc_def)
qed


lemma shifted_byte:
  assumes "n mod 4 \<noteq> 3"
  shows "0 \<le> push_bit (8 * (n mod 4)) (uint (d :: byte))" "push_bit (8 * (n mod 4)) (uint d) < 4294967296"
proof -
  from assms consider "n mod 4 = 0" | "n mod 4 = 1" | "n mod 4 = 2" by linarith
  then show "push_bit (8 * (n mod 4)) (uint d) < 4294967296"
    using uint_byte_less [of d] by cases (simp_all add: push_bit_eq_mult del: uint_byte_less)
qed simp

lemma mac_words_last:
  assumes r: "length p mod 4 \<noteq> 3"
  shows "mac_words km (p @ [b XOR d]) =
    map2 (XOR) (mac_words km (p @ [b])) ((replicate 4 0)[length p div 4 mod 4 := push_bit (8 * (length p mod 4)) (uint d)])"
proof -
  let ?F = "length p div 4" and ?j = "length p div 4 mod 4"
  let ?D = "push_bit (8 * (length p mod 4)) (uint d)"
  have F: "Suc (length p) div 4 = ?F" using r by (simp add: div_Suc mod_Suc)
  have q: "length (drop (?F * 4) p) = length p mod 4" by (simp add: minus_div_mult_eq_mod)
  have dr: "drop (?F * 4) (p @ [c]) = drop (?F * 4) p @ [c]" for c by simp
  note D = shifted_byte [OF r, of d]
  let ?a = "mac_acc km p"
  have "mac_words km (p @ [c]) = ?a[?j := u32 (?a ! ?j XOR le_int (drop (?F * 4) p @ [c]))]" for c
    by (simp add: mac_words_def Let_def F dr mac_acc_prefix [OF r] del: drop_append)
  moreover have "u32 (?a ! ?j XOR le_int (drop (?F * 4) p @ [b XOR d])) = u32 (?a ! ?j XOR le_int (drop (?F * 4) p @ [b])) XOR ?D"
    unfolding le_int_last_xor q xor.assoc [symmetric] by (rule u32_xor_right [OF D])
  ultimately show ?thesis
    by (intro nth_equalityI) (auto simp add: mac_acc_ok nth_list_update)
qed

lemma suci_mac_last:
  assumes "length p mod 4 \<noteq> 3" "ref_compute_suci_mac k (p @ [b]) = Inr m"
  shows "ref_compute_suci_mac k (p @ [b XOR d]) = Inr (map2 (XOR) m (suci_delta (length p) d))"
proof -
  let ?e = "(replicate 4 0)[length p div 4 mod 4 := push_bit (8 * (length p mod 4)) (uint d)]"
  from assms(2) obtain km where km: "struct_unpack_from (replicate 4 (U 4)) (take 16 k) 0 = Inr km"
    and m: "m = words_bytes (map ror11 (mac_words km (p @ [b])))"
    by (auto simp add: ref_compute_suci_mac_words bindE_Inr_iff)
  have e: "words_ok ?e"
    using words_ok_update [of "replicate 4 0" "length p div 4 mod 4" "push_bit (8 * (length p mod 4)) (uint d)"]
    by (simp add: shifted_byte [OF assms(1)] u32_id words_ok_def)
  have "map ror11 (map2 (XOR) ws vs) = map2 (XOR) (map ror11 ws) (map ror11 vs)"
    if "length ws = length vs" "words_ok ws" "words_ok vs" for ws vs
    using that by (induction ws vs rule: list_induct2) (simp_all add: ror11_xor)
  from this [of "mac_words km (p @ [b])" ?e] show ?thesis
    by (simp add: ref_compute_suci_mac_words km m mac_words_last [OF assms(1)] e mac_words_ok words_bytes_xor suci_delta_def)
qed

subsection \<open>Acceptance\<close>

definition suci_pad :: "bytes \<Rightarrow> nat \<Rightarrow> byte" where
  "suci_pad k i = k ! (i mod 16) XOR word_of_int (int i * 31 AND 0xFF)"

lemma suci_decrypt_total:
  "length k = 16 \<Longrightarrow> ref_decrypt_supi k c = Inr (map (\<lambda>i. c ! i XOR suci_pad k i) [0..<length c])"
  unfolding ref_decrypt_supi_def suci_pad_def by (rule mapE_total) (simp add: nthE_simps(1))

lemma suci_decrypt_twice:
  "length k = 16 \<Longrightarrow> ref_decrypt_supi k c = Inr p \<Longrightarrow> ref_decrypt_supi k p = Inr c"
  by (auto simp add: suci_decrypt_total xor.assoc intro: nth_equalityI)

lemma suci_mix_ok: "length st = 16 \<Longrightarrow> words_ok st \<Longrightarrow> length (suci_mix st ri) = 16 \<and> words_ok (suci_mix st ri)"
  by (cases ri) (simp add: suci_mix_def Let_def words_ok_update)

lemma suci_state:
  "length st = 16 \<Longrightarrow> words_ok st \<Longrightarrow>
   length (foldl suci_mix st ris) = 16 \<and> words_ok (foldl suci_mix st ris)"
  by (induction ris arbitrary: st) (simp_all add: suci_mix_ok)

lemma suci_keys_total:
  assumes "32 \<le> length ss" "32 \<le> length e"
  shows "\<exists>k_enc k_mac. ref_derive_suci_keys ss e = Inr (k_enc, k_mac) \<and> length k_enc = 16 \<and> length k_mac = 16"
proof -
  have w: "\<exists>ws. struct_unpack_from (replicate 8 (U 4)) (take 32 xs) 0 = Inr ws \<and> length ws = 8" if "32 \<le> length xs" for xs
    using that by (simp add: struct_unpack_from_def)
  from w [OF assms(1)] w [OF assms(2)] obtain a b where
    ab: "struct_unpack_from (replicate 8 (U 4)) (take 32 ss) 0 = Inr a" "length a = 8"
      "struct_unpack_from (replicate 8 (U 4)) (take 32 e) 0 = Inr b" "length b = 8" by blast
  let ?st = "foldl suci_mix (map (\<lambda>w. u32 (w XOR 0x6A09E667)) a @ map (\<lambda>w. u32 (w XOR 0xBB67AE85)) b) (List.product [0..<8] [0..<16])"
  have st: "length ?st = 16" "words_ok ?st"
    using suci_state [of "map (\<lambda>w. u32 (w XOR 0x6A09E667)) a @ map (\<lambda>w. u32 (w XOR 0xBB67AE85)) b" "List.product [0..<8] [0..<16]"]
    by (simp_all add: ab words_ok_def list_all_iff ball_Un)
  then show ?thesis
    using struct_pack_words [OF st(2)] unfolding ref_derive_suci_keys_def Let_def ab bindE_simps by simp
qed

lemma suci_keys_length:
  "ref_derive_suci_keys ss e = Inr (k_enc, k_mac) \<Longrightarrow> length k_enc = 16 \<and> length k_mac = 16"
  by (auto simp add: ref_derive_suci_keys_def Let_def bindE_Inr_iff dest!: length_struct_pack)

lemma suci_mac_total: "length k = 16 \<Longrightarrow> \<exists>m. ref_compute_suci_mac k p = Inr m"
  by (simp add: ref_compute_suci_mac_words struct_unpack_from_def)

subsection \<open>Properties\<close>

text \<open>C40. The home network accepts a concealed identity exactly when the received code is the one it computes
  over the ciphertext under the derived key, and the identity it returns is the one whose concealment
  under the derived key is the ciphertext: a verified answer is never another identity.\<close>

theorem suci_accepts_exactly:
  "ref_full_deconceal ss e mac c = Inr (True, plain) \<longleftrightarrow>
   (\<exists>k_enc k_mac. ref_derive_suci_keys ss e = Inr (k_enc, k_mac) \<and>
      ref_compute_suci_mac k_mac c = Inr mac \<and> ref_decrypt_supi k_enc plain = Inr c)"
proof
  assume "ref_full_deconceal ss e mac c = Inr (True, plain)"
  then show "\<exists>k_enc k_mac. ref_derive_suci_keys ss e = Inr (k_enc, k_mac) \<and>
      ref_compute_suci_mac k_mac c = Inr mac \<and> ref_decrypt_supi k_enc plain = Inr c"
    by (auto simp add: ref_full_deconceal_def bindE_Inr_iff split: if_splits dest: suci_keys_length suci_decrypt_twice)
next
  assume "\<exists>k_enc k_mac. ref_derive_suci_keys ss e = Inr (k_enc, k_mac) \<and>
      ref_compute_suci_mac k_mac c = Inr mac \<and> ref_decrypt_supi k_enc plain = Inr c"
  then show "ref_full_deconceal ss e mac c = Inr (True, plain)"
    by (auto simp add: ref_full_deconceal_def bindE_Inr_iff dest: suci_keys_length suci_decrypt_twice)
qed

text \<open>The integrity code of a concealed identity is malleable.  Whoever sees an accepted message whose
  length is not a multiple of four can change its last byte by any \<open>d\<close> and correct the code without a key: the
  network accepts the changed message and returns the identity with its last byte changed by \<open>d\<close>.\<close>

theorem suci_code_malleable:
  assumes "length p mod 4 \<noteq> 3"
    and "ref_full_deconceal ss e mac (p @ [b]) = Inr (True, plain)"
  shows "ref_full_deconceal ss e (map2 (XOR) mac (suci_delta (length p) d)) (p @ [b XOR d]) =
    Inr (True, butlast plain @ [last plain XOR d])"
proof -
  from assms(2) obtain k_enc k_mac where keys: "ref_derive_suci_keys ss e = Inr (k_enc, k_mac)"
    and mac: "ref_compute_suci_mac k_mac (p @ [b]) = Inr mac"
    and dec: "ref_decrypt_supi k_enc (p @ [b]) = Inr plain"
    by (auto simp add: ref_full_deconceal_def bindE_Inr_iff split: if_splits)
  have k: "length k_enc = 16" using suci_keys_length [OF keys] by simp
  have dec': "ref_decrypt_supi k_enc (p @ [c]) = Inr (map (\<lambda>i. p ! i XOR suci_pad k_enc i) [0..<length p] @ [c XOR suci_pad k_enc (length p)])" for c
    by (simp add: suci_decrypt_total [OF k] nth_append)
  have "b XOR d XOR x = (b XOR x) XOR d" for x
    by (simp only: xor.assoc xor.commute [of x d])
  then have "ref_decrypt_supi k_enc (p @ [b XOR d]) = Inr (butlast plain @ [last plain XOR d])"
    using dec by (auto simp add: dec' xor.assoc)
  then show ?thesis
    by (simp add: ref_full_deconceal_def keys suci_mac_last [OF assms(1) mac])
qed

lemma suci_code_malleable_witness:
  "\<exists>mac plain. ref_full_deconceal (zeros 32) (zeros 32) mac [5] = Inr (True, plain) \<and>
     ref_full_deconceal (zeros 32) (zeros 32) (map2 (XOR) mac (suci_delta 0 3)) [6] = Inr (True, [last plain XOR 3])"
proof -
  obtain ke km where keys: "ref_derive_suci_keys (zeros 32) (zeros 32) = Inr (ke, km)"
    using suci_keys_total [of "zeros 32" "zeros 32"] by auto
  note len = suci_keys_length [OF keys]
  obtain m where "ref_compute_suci_mac km [5] = Inr m" using suci_mac_total [of km "[5]"] len by auto
  then have acc: "ref_full_deconceal (zeros 32) (zeros 32) m ([] @ [5]) = Inr (True, [5 XOR suci_pad ke 0])"
    using len by (simp add: ref_full_deconceal_def keys suci_decrypt_total)
  have "length ([] :: bytes) mod 4 \<noteq> 3" by simp
  from suci_code_malleable [OF this acc, of 3] show ?thesis
    using acc by (intro exI [of _ m] exI [of _ "[5 XOR suci_pad ke 0]"]) simp
qed

end
