(* ===== verification/Kernels.thy ===== *)
theory Kernels
  imports PyHash Host
begin

text \<open>
  What the device kernels share (\<open>kernels/dr1_keccak_f1600.hpp\<close> and the checksum of the \<open>dr10\<close> and
  \<open>dr16\<close> to \<open>dr19\<close> services): the in-place Keccak-f[1600] with its round constants from a shift
  register, and CRC-32, each proved equal to the standard's definition.  A kernel reads a request
  and a descriptor and writes a result; its static variables are a state handed from call to call.
\<close>

unbundle bit_operations_syntax

subsection \<open>Keccak-f[1600]\<close>

definition lfsr86540 :: "byte \<Rightarrow> byte" where
  "lfsr86540 l = (if bit l 7 then push_bit 1 l XOR 0x71 else push_bit 1 l)"

definition theta_kernel :: "w64 list \<Rightarrow> w64 list" where
  "theta_kernel A =
     (let C = map (\<lambda>x. A ! x XOR A ! (x + 5) XOR A ! (x + 10) XOR A ! (x + 15) XOR A ! (x + 20)) [0..<5];
          D = [C ! 4 XOR rol64 1 (C ! 1), C ! 0 XOR rol64 1 (C ! 2), C ! 1 XOR rol64 1 (C ! 3),
               C ! 2 XOR rol64 1 (C ! 4), C ! 3 XOR rol64 1 (C ! 0)]
      in map (\<lambda>i. A ! i XOR D ! (i mod 5)) [0..<25])"

definition rho_pi_step :: "w64 list \<times> w64 \<times> nat \<times> nat \<Rightarrow> nat \<Rightarrow> w64 list \<times> w64 \<times> nat \<times> nat" where
  "rho_pi_step st t = (case st of (A, current, x, y) \<Rightarrow>
     let r_off = ((t + 1) * (t + 2) div 2) mod 64;
         Y = (2 * x + 3 * y) mod 5;
         x = y; y = Y; index = x + 5 * y
     in (A[index := rol64 r_off current], A ! index, x, y))"

definition rho_pi_kernel :: "w64 list \<Rightarrow> w64 list" where
  "rho_pi_kernel A = fst (foldl rho_pi_step (A, A ! 1, 1, 0) [0..<24])"

text \<open>Each row is read before it is written, and no row reads another.\<close>

definition chi_kernel :: "w64 list \<Rightarrow> w64 list" where
  "chi_kernel A = map (\<lambda>i. let y = i div 5; x = i mod 5; t = (\<lambda>k. A ! (k mod 5 + 5 * y))
     in t x XOR (NOT (t (x + 1)) AND t (x + 2))) [0..<25]"

definition iota_step :: "byte \<times> w64 \<Rightarrow> nat \<Rightarrow> byte \<times> w64" where
  "iota_step st j = (case st of (l, rc) \<Rightarrow> (lfsr86540 l, if bit l 0 then rc XOR push_bit (2 ^ j - 1) 1 else rc))"

definition round_kernel :: "w64 list \<times> byte \<Rightarrow> nat \<Rightarrow> w64 list \<times> byte" where
  "round_kernel st r = (case st of (A, l) \<Rightarrow>
     let A = chi_kernel (rho_pi_kernel (theta_kernel A)) in
     case foldl iota_step (l, 0) [0..<7] of (l, rc) \<Rightarrow> (A[0 := A ! 0 XOR rc], l))"

definition keccak_f1600 :: "w64 list \<Rightarrow> w64 list" where
  "keccak_f1600 A = fst (foldl round_kernel (A, 1) [0..<24])"

subsection \<open>The permutation is that of FIPS 202\<close>

lemma nth_upt_25: "i < 25 \<Longrightarrow> of_lanes f ! i = f (i mod 5) (i div 5)"
  by (simp add: of_lanes_def)

lemma below_5: "(x::nat) < 5 \<longleftrightarrow> x = 0 \<or> x = 1 \<or> x = 2 \<or> x = 3 \<or> x = 4"
  by auto

lemma theta_kernel_eq:
  assumes "length A = 25"
  shows "theta_kernel A = keccak_theta A"
proof (rule nth_equalityI)
  fix i assume "i < length (theta_kernel A)"
  then have i: "i < 25" by (simp add: theta_kernel_def)
  have C: "map f [0..<5] = [f 0, f 1, f 2, f 3, f 4]" for f :: "nat \<Rightarrow> w64" by (simp add: upt_rec eval_nat_numeral)
  have "i mod 5 + 5 * (i div 5) = i" "i div 5 < 5" using i by auto
  moreover have "i mod 5 < 5" by simp
  ultimately show "theta_kernel A ! i = keccak_theta A ! i"
    unfolding below_5 [of "i mod 5"] using i
    by (elim disjE) (simp_all add: theta_kernel_def keccak_theta_def Let_def nth_upt_25 lane_def C)
qed (simp add: theta_kernel_def keccak_theta_def Let_def)

lemma chi_kernel_eq: "chi_kernel A = keccak_chi A"
  by (intro nth_equalityI) (simp_all add: chi_kernel_def keccak_chi_def Let_def nth_upt_25 lane_def)

text \<open>
  The walk over the \<open>rho\<close> and \<open>pi\<close> orbit on lanes that are named by where they come from and which
  rotations they went through; the lanes themselves are the image.
\<close>

definition sem :: "w64 list \<Rightarrow> nat list \<times> nat \<Rightarrow> w64" where
  "sem A p = fold rol64 (fst p) (A ! snd p)"

definition named_step ::
  "(nat list \<times> nat) list \<times> (nat list \<times> nat) \<times> nat \<times> nat \<Rightarrow> nat \<Rightarrow> (nat list \<times> nat) list \<times> (nat list \<times> nat) \<times> nat \<times> nat" where
  "named_step st t = (case st of (L, current, x, y) \<Rightarrow>
     let r_off = ((t + 1) * (t + 2) div 2) mod 64; Y = (2 * x + 3 * y) mod 5; index = y + 5 * Y
     in (L[index := (fst current @ [r_off], snd current)], L ! index, y, Y))"

lemma named_walk:
  assumes "length L = 25" "x < 5" "y < 5"
  shows "foldl rho_pi_step (map (sem A) L, sem A c, x, y) ts =
    (case foldl named_step (L, c, x, y) ts of (L, c, x, y) \<Rightarrow> (map (sem A) L, sem A c, x, y))"
  using assms
proof (induction ts arbitrary: L c x y)
  case (Cons t ts)
  let ?Y = "(2 * x + 3 * y) mod 5"
  have "?Y < 5" by simp
  then have "y + 5 * ?Y < 25" using Cons.prems(3) by linarith
  then have "rho_pi_step (map (sem A) L, sem A c, x, y) t =
      (case named_step (L, c, x, y) t of (L, c, x, y) \<Rightarrow> (map (sem A) L, sem A c, x, y))"
    using Cons.prems(1) by (simp add: rho_pi_step_def named_step_def Let_def map_update sem_def)
  then show ?case
    using Cons.prems Cons.IH by (simp add: named_step_def Let_def)
qed simp

lemma named_walk_result:
  "fst (foldl named_step (map (\<lambda>i. ([], i)) [0..<25], ([], 1), 1, 0) [0..<24]) =
    [([], 0), ([44], 6), ([43], 12), ([21], 18), ([14], 24),
     ([28], 3), ([20], 9), ([3], 10), ([45], 16), ([61], 22),
     ([1], 1), ([6], 7), ([25], 13), ([8], 19), ([18], 20),
     ([27], 4), ([36], 5), ([10], 11), ([15], 17), ([56], 23),
     ([62], 2), ([55], 8), ([39], 14), ([41], 15), ([2], 21)]"
proof -
  have "[0..<25] = [0, 1, 2, 3, 4, 5, 6, 7, 8, 9, 10, 11, 12, 13, 14, 15, 16, 17, 18, 19, 20, 21, 22, 23, 24]"
    "[0..<24] = [0, 1, 2, 3, 4, 5, 6, 7, 8, 9, 10, 11, 12, 13, 14, 15, 16, 17, 18, 19, 20, 21, 22, 23]"
    by (simp_all add: upt_rec)
  then show ?thesis by (simp add: named_step_def Let_def)
qed

lemma rol64_0: "rol64 0 w = w"
proof -
  have "drop_bit 64 w = 0" by (rule bit_eqI) (auto simp add: bit_simps dest: bit_imp_le_length)
  then show ?thesis by (simp add: rol64_def)
qed

lemma rho_pi_kernel_eq:
  assumes "length A = 25"
  shows "rho_pi_kernel A = keccak_pi (keccak_rho A)"
proof -
  let ?P = "map (Pair []) [0..<25]"
  have "map (sem A) ?P = A" "sem A ([], 1) = A ! 1"
    using assms map_nth [of A] by (simp_all add: sem_def comp_def)
  then have "rho_pi_kernel A = map (sem A) (fst (foldl named_step (?P, ([], 1), 1, 0) [0..<24]))"
    using named_walk [of ?P 1 0 A "([], 1)" "[0..<24]"] by (simp add: rho_pi_kernel_def split: prod.splits)
  also have "\<dots> = keccak_pi (keccak_rho A)"
    unfolding named_walk_result keccak_pi_def keccak_rho_def of_lanes_def
    by (simp add: upt_rec sem_def lane_def rol64_0 rho_offset_def rho_table [unfolded One_nat_def] numeral_2_eq_2)
  finally show ?thesis .
qed

text \<open>The shift register yields the round constants of the standard, and nothing else of it matters.\<close>

definition emit_round :: "byte \<times> w64 list \<Rightarrow> byte \<times> w64 list" where
  "emit_round st = (case foldl iota_step (fst st, 0) [0..<7] of (l, rc) \<Rightarrow> (l, snd st @ [rc]))"

lemma lfsr_rounds:
  shows
    "foldl iota_step (0x1, 0) [0..<7] = (0x80, 0x0000000000000001)"
    "foldl iota_step (0x80, 0) [0..<7] = (0xD8, 0x0000000000008082)"
    "foldl iota_step (0xD8, 0) [0..<7] = (0x1A, 0x800000000000808A)"
    "foldl iota_step (0x1A, 0) [0..<7] = (0xDF, 0x8000000080008000)"
    "foldl iota_step (0xDF, 0) [0..<7] = (0x9, 0x000000000000808B)"
    "foldl iota_step (0x9, 0) [0..<7] = (0x35, 0x0000000080000001)"
    "foldl iota_step (0x35, 0) [0..<7] = (0x4F, 0x8000000080008081)"
    "foldl iota_step (0x4F, 0) [0..<7] = (0xCA, 0x8000000000008009)"
    "foldl iota_step (0xCA, 0) [0..<7] = (0x70, 0x000000000000008A)"
    "foldl iota_step (0x70, 0) [0..<7] = (0x41, 0x0000000000000088)"
    "foldl iota_step (0x41, 0) [0..<7] = (0xEC, 0x0000000080008009)"
    "foldl iota_step (0xEC, 0) [0..<7] = (0xD5, 0x000000008000000A)"
    "foldl iota_step (0xD5, 0) [0..<7] = (0xCD, 0x000000008000808B)"
    "foldl iota_step (0xCD, 0) [0..<7] = (0x63, 0x800000000000008B)"
    "foldl iota_step (0x63, 0) [0..<7] = (0xAB, 0x8000000000008089)"
    "foldl iota_step (0xAB, 0) [0..<7] = (0xAA, 0x8000000000008003)"
    "foldl iota_step (0xAA, 0) [0..<7] = (0x2A, 0x8000000000008002)"
    "foldl iota_step (0x2A, 0) [0..<7] = (0xF2, 0x8000000000000080)"
    "foldl iota_step (0xF2, 0) [0..<7] = (0xE8, 0x000000000000800A)"
    "foldl iota_step (0xE8, 0) [0..<7] = (0x37, 0x800000008000000A)"
    "foldl iota_step (0x37, 0) [0..<7] = (0x3E, 0x8000000080008081)"
    "foldl iota_step (0x3E, 0) [0..<7] = (0xB, 0x8000000000008080)"
    "foldl iota_step (0xB, 0) [0..<7] = (0x44, 0x0000000080000001)"
    "foldl iota_step (0x44, 0) [0..<7] = (0x8E, 0x8000000080008008)"
  by (simp_all add: iota_step_def lfsr86540_def upt_rec)

lemma funpow_numeral_step: "(f ^^ numeral k) x = f ((f ^^ pred_numeral k) x)"
  by (simp only: numeral_eq_Suc funpow.simps comp_apply)

lemma round_constants: "snd ((emit_round ^^ 24) (1, [])) = keccak_rc"
  by (simp add: emit_round_def lfsr_rounds [simplified] keccak_rc_def funpow_numeral_step)

lemma emit_simps: "fst (emit_round st) = fst (foldl iota_step (fst st, 0) [0..<7])"
  "snd (emit_round st) = snd st @ [snd (foldl iota_step (fst st, 0) [0..<7])]"
  by (simp_all add: emit_round_def case_prod_beta)

lemma emit_prefix:
  "length (snd ((emit_round ^^ n) (l, []))) = n \<and> (\<forall>r<n. snd ((emit_round ^^ (n + k)) (l, [])) ! r = snd ((emit_round ^^ n) (l, [])) ! r)"
proof (induction k)
  case 0
  then show ?case by (induction n) (simp_all add: emit_simps)
next
  case (Suc k)
  have "length (snd ((emit_round ^^ m) (l, []))) = m" for m
    by (induction m) (simp_all add: emit_simps)
  with Suc show ?case by (auto simp add: emit_simps nth_append)
qed

lemma round_kernel_eq:
  assumes "length A = 25"
  shows "length (fst (foldl round_kernel (A, l) [0..<n])) = 25 \<and>
    snd (foldl round_kernel (A, l) [0..<n]) = fst ((emit_round ^^ n) (l, [])) \<and>
    fst (foldl round_kernel (A, l) [0..<n]) =
      foldl (\<lambda>A r. let B = keccak_chi (keccak_pi (keccak_rho (keccak_theta A)))
        in B[0 := B ! 0 XOR snd ((emit_round ^^ n) (l, [])) ! r]) A [0..<n]"
proof (induction n)
  case (Suc n)
  let ?st = "foldl round_kernel (A, l) [0..<n]"
  have th: "length (keccak_theta B) = 25" for B by (simp add: keccak_theta_def Let_def)
  have B: "chi_kernel (rho_pi_kernel (theta_kernel (fst ?st))) = keccak_chi (keccak_pi (keccak_rho (keccak_theta (fst ?st))))"
  proof -
    have "length (fst ?st) = 25" using Suc by blast
    then show ?thesis by (simp only: theta_kernel_eq rho_pi_kernel_eq th chi_kernel_eq)
  qed
  have same: "foldl (\<lambda>A r. let B = keccak_chi (keccak_pi (keccak_rho (keccak_theta A)))
        in B[0 := B ! 0 XOR snd ((emit_round ^^ n) (l, [])) ! r]) A [0..<n] =
      foldl (\<lambda>A r. let B = keccak_chi (keccak_pi (keccak_rho (keccak_theta A)))
        in B[0 := B ! 0 XOR snd ((emit_round ^^ Suc n) (l, [])) ! r]) A [0..<n]"
    using emit_prefix [of n l 1] by (intro foldl_cong) simp_all
  have len: "length (snd ((emit_round ^^ n) (l, []))) = n" using emit_prefix by blast
  obtain k rc where rc: "foldl iota_step (snd ?st, 0) [0..<7] = (k, rc)" by fastforce
  then have emit: "(emit_round ^^ Suc n) (l, []) = (k, snd ((emit_round ^^ n) (l, [])) @ [rc])"
    using Suc by (intro prod_eqI) (simp_all add: emit_simps)
  have "foldl round_kernel (A, l) [0..<Suc n] = round_kernel ?st n" by simp
  also have "\<dots> = (let B = keccak_chi (keccak_pi (keccak_rho (keccak_theta (fst ?st)))) in (B[0 := B ! 0 XOR rc], k))"
    using B rc by (simp add: round_kernel_def Let_def case_prod_beta)
  finally have step: "foldl round_kernel (A, l) [0..<Suc n] =
    (let B = keccak_chi (keccak_pi (keccak_rho (keccak_theta (fst ?st)))) in (B[0 := B ! 0 XOR rc], k))" .
  have "snd ((emit_round ^^ Suc n) (l, [])) ! n = rc" unfolding emit using len by (simp add: nth_append)
  then show ?case
    unfolding step using Suc same by (simp add: Let_def emit keccak_chi_def del: funpow.simps)
qed (simp add: assms)

text \<open>The permutation of the device is the permutation of the standard.\<close>

lemma keccak_f1600_eq: "length A = 25 \<Longrightarrow> keccak_f1600 A = keccak_f A"
  using round_kernel_eq [of A 1 24]
  by (simp add: keccak_f1600_def keccak_f_def keccak_round_def [abs_def] keccak_iota_def round_constants Let_def del: funpow.simps)

subsection \<open>The sponge of the kernels\<close>

text \<open>The state is 200 bytes, read as little-endian lanes by the permutation.\<close>

definition permute :: "bytes \<Rightarrow> bytes" where
  "permute st = lanes_bytes (keccak_f1600 (le_lanes 25 st))"

definition xor_at :: "bytes \<Rightarrow> nat \<Rightarrow> byte \<Rightarrow> bytes" where
  "xor_at st i b = st[i := st ! i XOR b]"

definition xor_into :: "bytes \<Rightarrow> bytes \<Rightarrow> bytes" where
  "xor_into st bs = map2 (XOR) st bs @ drop (length bs) st"

function absorb_blocks :: "nat \<Rightarrow> bytes \<Rightarrow> bytes \<Rightarrow> bytes \<times> bytes" where
  "absorb_blocks rate st msg =
     (if 0 < rate \<and> rate \<le> length msg then absorb_blocks rate (permute (xor_into st (take rate msg))) (drop rate msg)
      else (st, msg))"
  by pat_completeness auto
termination by (relation "measure (\<lambda>(rate, st, msg). length msg)") auto

definition kernel_absorb :: "byte \<Rightarrow> nat \<Rightarrow> bytes \<Rightarrow> bytes" where
  "kernel_absorb sfx rate msg = (case absorb_blocks rate (zeros 200) msg of (st, rest) \<Rightarrow>
     permute (xor_at (xor_at (xor_into st rest) (length rest) sfx) (rate - 1) 0x80))"

function kernel_squeeze :: "nat \<Rightarrow> bytes \<Rightarrow> nat \<Rightarrow> bytes" where
  "kernel_squeeze rate st n =
     (if 0 < rate \<and> rate < n then take rate st @ kernel_squeeze rate (permute st) (n - rate) else take n st)"
  by pat_completeness auto
termination by (relation "measure (\<lambda>(rate, st, n). n)") auto

declare absorb_blocks.simps [simp del] kernel_squeeze.simps [simp del]

lemma length_permute [simp]: "length (permute st) = 200"
proof -
  have "length (le_lanes n bs) = n" for n bs by (induction n bs rule: le_lanes.induct) simp_all
  then show ?thesis by (simp add: permute_def keccak_f1600_eq)
qed

lemma length_le_lanes [simp]: "length (le_lanes n bs) = n"
  by (induction n bs rule: le_lanes.induct) simp_all

lemma le_lanes_bytes: "length A = n \<Longrightarrow> le_lanes n (lanes_bytes A @ bs) = A"
proof (induction n arbitrary: A)
  case (Suc n)
  then obtain w A' where A: "A = w # A'" "length A' = n" by (cases A) auto
  have "(word_of_int (le_int (le_bytes 8 (uint w))) :: w64) = w"
    using uint_bounded [of w] by (simp add: le_int_bytes_id)
  with A Suc.IH show ?case by (simp add: lanes_bytes_def del: le_bytes.simps)
qed simp

lemma permute_lanes: "length A = 25 \<Longrightarrow> permute (lanes_bytes A) = lanes_bytes (keccak_f A)"
  using le_lanes_bytes [of A 25 "[]"] by (simp add: permute_def keccak_f1600_eq)

lemma le_lanes_xor:
  "length xs = length ys \<Longrightarrow> le_lanes n (map2 (XOR) xs ys) = map2 (XOR) (le_lanes n xs) (le_lanes n ys)"
proof (induction n arbitrary: xs ys)
  case (Suc n)
  have "(word_of_int (x XOR y) :: w64) = word_of_int x XOR word_of_int y" for x y
    by (intro bit_eqI) (simp add: bit_simps)
  moreover have "le_int (map2 (XOR) (take 8 xs) (take 8 ys)) = le_int (take 8 xs) XOR le_int (take 8 ys)"
    using Suc.prems by (intro le_int_xor) simp
  ultimately show ?case using Suc by (simp add: take_map take_zip drop_map drop_zip)
qed simp

lemma xor_into_zeros:
  assumes "length bs \<le> length st"
  shows "xor_into st bs = map2 (XOR) st (bs @ zeros (length st - length bs))"
  using assms by (intro nth_equalityI) (auto simp add: xor_into_def nth_append)

lemma xor_into_lanes:
  assumes "length A = 25" "length bs \<le> 200"
  shows "permute (xor_into (lanes_bytes A) bs) = lanes_bytes (keccak_f (map2 (XOR) A (le_lanes 25 (bs @ zeros (200 - length bs)))))"
proof -
  have "le_lanes 25 (xor_into (lanes_bytes A) bs) = map2 (XOR) A (le_lanes 25 (bs @ zeros (200 - length bs)))"
    using assms le_lanes_bytes [of A 25 "[]"] by (simp add: xor_into_zeros le_lanes_xor)
  then show ?thesis by (simp add: permute_def keccak_f1600_eq assms)
qed

lemma length_keccak_pad:
  assumes "0 < rate"
  shows "length (keccak_pad sfx rate msg) = rate * (length msg div rate + 1)"
proof -
  have "length msg mod rate < rate" using assms by simp
  then have "length (keccak_pad sfx rate msg) = length msg + (rate - length msg mod rate)"
    by (auto simp add: keccak_pad_def Let_def)
  also have "\<dots> = rate * (length msg div rate + 1)"
  proof -
    have "length msg = rate * (length msg div rate) + length msg mod rate" by simp
    then show ?thesis using \<open>length msg mod rate < rate\<close> unfolding distrib_left by linarith
  qed
  finally show ?thesis .
qed

lemma keccak_pad_block:
  "0 < rate \<Longrightarrow> rate \<le> length msg \<Longrightarrow> keccak_pad sfx rate msg = take rate msg @ keccak_pad sfx rate (drop rate msg)"
  by (simp add: keccak_pad_def Let_def le_mod_geq [of rate "length msg"])

lemma absorb_blocks_spec:
  assumes "length A = 25" "0 < rate" "rate \<le> 200"
  shows "\<exists>B rest. absorb_blocks rate (lanes_bytes A) msg = (lanes_bytes B, rest) \<and> length B = 25 \<and> length rest < rate \<and>
    keccak_absorb (length (keccak_pad sfx rate msg) div rate) rate A (keccak_pad sfx rate msg) =
    keccak_absorb 1 rate B (keccak_pad sfx rate rest)"
  using assms(1)
proof (induction "length msg" arbitrary: A msg rule: less_induct)
  case less
  show ?case
  proof (cases "rate \<le> length msg")
    case True
    let ?A = "keccak_f (map2 (XOR) A (le_lanes 25 (take rate msg @ zeros (200 - rate))))"
    have "permute (xor_into (lanes_bytes A) (take rate msg)) = lanes_bytes ?A"
      using True assms(3) less.prems by (simp add: xor_into_lanes min_def)
    then have step: "absorb_blocks rate (lanes_bytes A) msg = absorb_blocks rate (lanes_bytes ?A) (drop rate msg)"
      using True assms(2) by (subst absorb_blocks.simps) simp
    have "length (keccak_pad sfx rate msg) div rate = Suc (length (keccak_pad sfx rate (drop rate msg)) div rate)"
      using True assms(2) by (simp add: length_keccak_pad le_div_geq)
    moreover have "keccak_pad sfx rate msg = take rate msg @ keccak_pad sfx rate (drop rate msg)"
      by (rule keccak_pad_block) (use True assms(2) in simp_all)
    ultimately have "keccak_absorb (length (keccak_pad sfx rate msg) div rate) rate A (keccak_pad sfx rate msg) =
        keccak_absorb (length (keccak_pad sfx rate (drop rate msg)) div rate) rate ?A (keccak_pad sfx rate (drop rate msg))"
      using True by (simp add: min_def)
    with less.hyps [of "drop rate msg" ?A] True assms(2) show ?thesis unfolding step by simp
  next
    case False
    then have "absorb_blocks rate (lanes_bytes A) msg = (lanes_bytes A, msg)" by (subst absorb_blocks.simps) simp
    moreover have "length (keccak_pad sfx rate msg) div rate = 1"
      using False assms(2) by (simp add: length_keccak_pad)
    ultimately show ?thesis using less.prems False by auto
  qed
qed

lemma keccak_pad_nth:
  assumes "length rest < rate" "i < rate"
  shows "keccak_pad sfx rate rest ! i =
    (if i < length rest then rest ! i else (if i = length rest then sfx else 0) XOR (if i = rate - 1 then 0x80 else 0))"
proof (cases "rate - length rest = 1")
  case True
  with assms show ?thesis by (auto simp add: keccak_pad_def Let_def nth_append)
next
  case False
  with assms have "keccak_pad sfx rate rest = rest @ sfx # zeros (rate - length rest - 2) @ [0x80]"
    by (simp add: keccak_pad_def Let_def)
  with assms False show ?thesis by (auto simp add: nth_append nth_Cons split: nat.splits)
qed

lemma last_block:
  assumes "length st = 200" "length rest < rate" "rate \<le> 200"
  shows "xor_at (xor_at (xor_into st rest) (length rest) sfx) (rate - 1) 0x80 = xor_into st (keccak_pad sfx rate rest)"
proof (rule nth_equalityI)
  have l: "length (keccak_pad sfx rate rest) = rate" using assms(2) by (subst length_keccak_pad) simp_all
  then show "length (xor_at (xor_at (xor_into st rest) (length rest) sfx) (rate - 1) 0x80) = length (xor_into st (keccak_pad sfx rate rest))"
    using assms by (simp add: xor_at_def xor_into_def)
  fix i assume "i < length (xor_at (xor_at (xor_into st rest) (length rest) sfx) (rate - 1) 0x80)"
  then have i: "i < 200" using assms by (simp add: xor_at_def xor_into_def)
  have into: "xor_into st bs ! k = (if k < length bs then st ! k XOR bs ! k else st ! k)" if "k < 200" "length bs \<le> 200" for k bs
    using that assms(1) by (simp add: xor_into_def nth_append)
  have "xor_into st (keccak_pad sfx rate rest) ! i = (if i < rate then st ! i XOR keccak_pad sfx rate rest ! i else st ! i)"
    using i assms(3) by (simp add: into l)
  moreover have "xor_at (xor_at (xor_into st rest) (length rest) sfx) (rate - 1) 0x80 ! i =
      (if i < length rest then st ! i XOR rest ! i else st ! i XOR (if i = length rest then sfx else 0)) XOR (if i = rate - 1 then 0x80 else 0)"
  proof -
    have "length (xor_into st rest) = 200" using assms by (simp add: xor_into_def)
    with i assms(2,3) show ?thesis by (auto simp add: xor_at_def into nth_list_update)
  qed
  ultimately show "xor_at (xor_at (xor_into st rest) (length rest) sfx) (rate - 1) 0x80 ! i = xor_into st (keccak_pad sfx rate rest) ! i"
    using assms(2) by (auto simp add: keccak_pad_nth xor.assoc)
qed

lemma kernel_absorb_spec:
  assumes "0 < rate" "rate \<le> 200"
  shows "kernel_absorb sfx rate msg =
    lanes_bytes (keccak_absorb (length (keccak_pad sfx rate msg) div rate) rate (replicate 25 0) (keccak_pad sfx rate msg))"
proof -
  have z: "zeros 200 = lanes_bytes (replicate 25 0)" by (simp add: lanes_bytes_def le_bytes_zero zeros_def eval_nat_numeral)
  obtain B rest where B: "absorb_blocks rate (lanes_bytes (replicate 25 0)) msg = (lanes_bytes B, rest)" "length B = 25" "length rest < rate"
    and k: "keccak_absorb (length (keccak_pad sfx rate msg) div rate) rate (replicate 25 0) (keccak_pad sfx rate msg) =
      keccak_absorb 1 rate B (keccak_pad sfx rate rest)"
    using absorb_blocks_spec [of "replicate 25 0" rate msg sfx] assms by auto
  have l: "length (keccak_pad sfx rate rest) = rate" using B(3) assms(1) by (simp add: length_keccak_pad)
  have "kernel_absorb sfx rate msg = permute (xor_into (lanes_bytes B) (keccak_pad sfx rate rest))"
    using last_block [of "lanes_bytes B" rest rate sfx] B assms(2) by (simp add: kernel_absorb_def z)
  also have "\<dots> = lanes_bytes (keccak_f (map2 (XOR) B (le_lanes 25 (keccak_pad sfx rate rest @ zeros (200 - rate)))))"
    using B(2) assms(2) l by (simp add: xor_into_lanes)
  finally show ?thesis using k l by simp
qed

lemma kernel_squeeze_spec:
  assumes "length A = 25" "0 < rate" "rate \<le> 200"
  shows "kernel_squeeze rate (lanes_bytes A) n = take n (keccak_squeeze (n div rate + 1) rate A)"
  using assms(1)
proof (induction n arbitrary: A rule: less_induct)
  case (less n)
  show ?case
  proof (cases "rate < n")
    case True
    then have "n div rate + 1 = Suc ((n - rate) div rate + 1)" using assms(2) by (simp add: le_div_geq)
    moreover have "length (take rate (lanes_bytes A)) = rate" using less.prems assms(3) by simp
    ultimately show ?thesis
      using True less.IH [of "n - rate" "keccak_f A"] assms(2) less.prems by (subst kernel_squeeze.simps) (simp add: permute_lanes)
  next
    case False
    then show ?thesis
      using assms(2,3) less.prems by (cases "n = rate") (subst kernel_squeeze.simps; simp add: min_def)+
  qed
qed

text \<open>The loops of the kernels compute the sponge of the standard.\<close>

lemma kernel_sponge:
  "0 < rate \<Longrightarrow> rate \<le> 200 \<Longrightarrow> kernel_squeeze rate (kernel_absorb sfx rate msg) n = sponge sfx rate msg n"
  by (simp add: kernel_absorb_spec kernel_squeeze_spec length_keccak_absorb sponge_def Let_def)

subsection \<open>CRC-32\<close>

definition crc_bit :: "w32 \<Rightarrow> w32" where
  "crc_bit c = drop_bit 1 c XOR (0xEDB88320 AND - (c AND 1))"

definition compute_crc32 :: "bytes \<Rightarrow> int" where
  "compute_crc32 data = uint (NOT (foldl (\<lambda>crc b. (crc_bit ^^ 8) (crc XOR ucast b)) 0xFFFFFFFF data))"

lemma crc_bit_eq: "crc_bit c = (if bit c 0 then drop_bit 1 c XOR 0xEDB88320 else drop_bit 1 c)"
proof -
  have "c AND 1 = (if bit c 0 then 1 else 0)" by (simp add: and_one_eq mod2_eq_if bit_0)
  then show ?thesis by (simp add: crc_bit_def)
qed

lemma compute_crc32_eq: "compute_crc32 data = crc32 data"
proof -
  have "(crc_bit ^^ n) c = crc32_bits n c" for n c
    by (induction n arbitrary: c) (simp_all add: funpow_swap1 crc_bit_eq del: funpow.simps(2) add: funpow_Suc_right)
  moreover have "(0xFFFFFFFF :: w32) = NOT 0"
    by (rule word_uint_eqI) (simp add: unsigned_minus_1_eq_mask mask_eq_exp_minus_1)
  ultimately show ?thesis by (simp only: compute_crc32_def crc32_def crc32_byte_def [abs_def])
qed

subsection \<open>A host whose device runs a kernel\<close>

definition on_silicon :: "(bytes \<Rightarrow> bytes \<Rightarrow> bytes) \<Rightarrow> host" where
  "on_silicon k = \<lparr>ho_emulation_mode = None, ho_xrt_ini = None, ho_device_present = True, ho_toolchain_present = True,
     ho_program = (\<lambda>req desc. Inr (k req desc))\<rparr>"

lemma on_silicon_simps [simp]:
  "iron_ok (on_silicon k)" "ho_toolchain_present (on_silicon k)" "ho_program (on_silicon k) req desc = Inr (k req desc)"
  "hardware_ok (on_silicon k)"
  by (simp_all add: on_silicon_def iron_ok_def hardware_ok_def is_set_def)

subsection \<open>Property\<close>

text \<open>C17. The hash of the device kernels is the standard's: the in-place permutation with its shift-register
  constants is Keccak-f[1600] of FIPS 202, the absorbing and squeezing loops over any message and
  any output length are the sponge, and the bitwise checksum is CRC-32.\<close>

theorem kernel_hash_is_fips202:
  assumes "length A = 25" "0 < rate" "rate \<le> 200"
  shows "keccak_f1600 A = keccak_f A \<and>
    kernel_squeeze rate (kernel_absorb sfx rate msg) n = sponge sfx rate msg n \<and> compute_crc32 msg = crc32 msg"
  using assms by (intro conjI keccak_f1600_eq kernel_sponge compute_crc32_eq)

theorem kernel_hash_is_fips202_witness:
  "keccak_f1600 (replicate 25 0) = keccak_f (replicate 25 0) \<and>
   kernel_squeeze 136 (kernel_absorb 0x1F 136 [1, 2, 3]) 200 = shake256 [1, 2, 3] 200 \<and>
   compute_crc32 [1, 2, 3] = crc32 [1, 2, 3]"
  unfolding shake256_def by (rule kernel_hash_is_fips202) simp_all

end
