(* ===== verification/Lifecycle.thy ===== *)
theory Lifecycle
  imports Kernels
begin

text \<open>
  The sealed key life cycle (\<open>dr10_sealed_lifecycle_abi.py\<close>, \<open>dr10_sealed_lifecycle_graph.py\<close>,
  \<open>kernels/dr10_sealed_lifecycle_service.cc\<close>): the request and descriptor formats, the call of the
  device, and the device's sealed slot as a state machine.  Requests have 256 bytes and
  descriptors 16, the sizes the device program is compiled for.
\<close>

unbundle bit_operations_syntax

subsection \<open>Formats and the call\<close>

definition pack_dr10_descriptor :: "int \<Rightarrow> int \<Rightarrow> int \<Rightarrow> int \<Rightarrow> int \<Rightarrow> bytes py" where
  "pack_dr10_descriptor source_mode domain_id request_id epoch flags =
     bindE (struct_pack [U 1, U 1, U 1, U 1, U 4, U 4] [source_mode, domain_id, 10, flags, request_id, epoch])
       (\<lambda>b. Inr ([0x01, 0x71, 0x52, 0x0A] @ b))"

definition pack_dr10_auth_qkd_request :: "bytes \<Rightarrow> bytes \<Rightarrow> int \<Rightarrow> int \<Rightarrow> bytes py" where
  "pack_dr10_auth_qkd_request key_material source_id epoch domain_id =
     (let header = assign_slice 0 4 [0x51, 0x4B, 0x44, 0x31] (zeros 32)
      in bindE (to_bytes_le 4 epoch) (\<lambda>e.
         let header = assign_slice 4 8 e header
         in if domain_id < 0 \<or> 255 < domain_id then Inl ValueError
            else let header = header[8 := word_of_int domain_id];
                     header = assign_slice 16 32 (take 16 (ljust 16 source_id)) header;
                     buf = assign_slice 0 32 header (zeros 256)
                 in Inr (assign_slice 32 (32 + length key_material) key_material buf)))"

definition run_dr10_service :: "host \<Rightarrow> bytes \<Rightarrow> bytes \<Rightarrow> (int \<times> int \<times> int \<times> int) py" where
  "run_dr10_service h req_bytes desc_bytes =
     bindE (device_run 64 h desc_bytes req_bytes)
       (\<lambda>raw. Inr (result_word 4 raw, result_word 8 raw, result_word 12 raw, result_word 16 raw))"

interpretation op_dr10: device_operation "\<lambda>h. run_dr10_service h req desc" for req desc
  by unfold_locales (auto simp add: run_dr10_service_def bindE_Inr_iff device_run_Inr_iff)

subsection \<open>The device\<close>

record sealed_slot =
  is_active :: int
  slot_domain :: int
  slot_epoch :: int
  slot_key :: bytes

definition wiped_slot :: sealed_slot where
  "wiped_slot = \<lparr>is_active = 0, slot_domain = 0, slot_epoch = 0, slot_key = zeros 64\<rparr>"

definition compute_sha3_256 :: "bytes \<Rightarrow> bytes" where
  "compute_sha3_256 msg = take 32 (kernel_absorb 0x06 136 msg)"

text \<open>The outcome of a request: a status code, or the slot that is installed.\<close>

definition dr10_install :: "bytes \<Rightarrow> bytes \<Rightarrow> int + sealed_slot" where
  "dr10_install request descriptor =
     (let source_mode = uint (descriptor ! 4); domain_id = uint (descriptor ! 5); epoch = result_word 12 descriptor
      in if source_mode = 0 then
           Inr \<lparr>is_active = 1, slot_domain = domain_id, slot_epoch = epoch,
             slot_key = compute_sha3_256 (slice 0 64 request @ [word_of_int domain_id] @ le_bytes 4 epoch @ zeros 3) @ zeros 32\<rparr>
         else if source_mode = 2 then
           if slice 0 4 request \<noteq> [0x51, 0x4B, 0x44, 0x31] then Inl 2
           else let req_epoch = result_word 4 request; req_domain = uint (request ! 8)
             in if req_domain \<noteq> domain_id then Inl 4
                else if req_epoch < epoch then Inl 5
                else if compute_sha3_256 (slice 0 96 request) \<noteq> slice 96 128 request then Inl 3
                else Inr \<lparr>is_active = 1, slot_domain = domain_id, slot_epoch = req_epoch, slot_key = slice 32 96 request\<rparr>
         else if source_mode = 3 then Inr wiped_slot
         else Inl 2)"

text \<open>Any failure wipes the slot.\<close>

definition dr10_kernel :: "bytes \<Rightarrow> bytes \<Rightarrow> sealed_slot \<times> bytes" where
  "dr10_kernel request descriptor =
     (let (status, st) = (case dr10_install request descriptor of Inl s \<Rightarrow> (s, wiped_slot) | Inr st \<Rightarrow> (0, st));
          body = le_bytes 4 0x4830524D @ le_bytes 4 (result_word 8 descriptor) @ le_bytes 4 status @ le_bytes 4 (is_active st)
      in (st, body @ le_bytes 4 (compute_crc32 body) @ zeros 44))"

text \<open>The slot after a history of requests; what it held before a request plays no role.\<close>

inductive dr10_reachable :: "sealed_slot \<Rightarrow> bool" where
  start: "dr10_reachable wiped_slot"
| request: "dr10_reachable st \<Longrightarrow> length req = 256 \<Longrightarrow> length desc = 16 \<Longrightarrow> dr10_reachable (fst (dr10_kernel req desc))"

inductive_cases dr10_reachableE: "dr10_reachable st"

subsection \<open>Library\<close>

lemma compute_sha3_256_eq: "compute_sha3_256 msg = sha3_256 msg"
proof -
  have "compute_sha3_256 msg = kernel_squeeze 136 (kernel_absorb 0x06 136 msg) 32"
    by (subst kernel_squeeze.simps) (simp add: compute_sha3_256_def)
  then show ?thesis by (simp add: kernel_sponge sha3_256_def)
qed

lemma dr10_record:
  assumes "0 \<le> status" "status < 4294967296" "0 \<le> active" "active < 4294967296" "0 \<le> rid" "rid < 4294967296"
    and "raw = (let body = le_bytes 4 0x4830524D @ le_bytes 4 rid @ le_bytes 4 status @ le_bytes 4 active
      in body @ le_bytes 4 (compute_crc32 body) @ zeros 44)"
  shows "length raw = 64" "result_word 4 raw = rid" "result_word 8 raw = status" "result_word 12 raw = active"
  using assms by (simp_all add: Let_def result_word_def slice_append_right slice_append_left slice_exact slice_full le_int_bytes_id del: le_bytes.simps)

lemma dr10_kernel_answer:
  assumes "dr10_install req desc = r"
  shows "\<exists>crc. run_dr10_service (on_silicon (\<lambda>req desc. snd (dr10_kernel req desc))) req desc =
    Inr (result_word 8 desc, (case r of Inl s \<Rightarrow> s | Inr _ \<Rightarrow> 0), (case r of Inl _ \<Rightarrow> 0 | Inr st \<Rightarrow> is_active st), crc)"
    and "fst (dr10_kernel req desc) = (case r of Inl _ \<Rightarrow> wiped_slot | Inr st \<Rightarrow> st)"
proof -
  let ?s = "case r of Inl s \<Rightarrow> s | Inr _ \<Rightarrow> 0" and ?a = "case r of Inl _ \<Rightarrow> 0 | Inr st \<Rightarrow> is_active st"
  have "0 \<le> ?s" "?s < 4294967296" "0 \<le> ?a" "?a < 4294967296"
    using assms by (auto simp add: dr10_install_def Let_def wiped_slot_def split: if_splits)
  note rec = dr10_record [OF this result_word_bounds(1) [of 8 desc] result_word_bounds(2) [of 8 desc] refl]
  have "snd (dr10_kernel req desc) = (let body = le_bytes 4 0x4830524D @ le_bytes 4 (result_word 8 desc) @ le_bytes 4 ?s @ le_bytes 4 ?a
      in body @ le_bytes 4 (compute_crc32 body) @ zeros 44)"
    using assms by (cases r) (simp_all add: dr10_kernel_def Let_def wiped_slot_def)
  with rec show "\<exists>crc. run_dr10_service (on_silicon (\<lambda>req desc. snd (dr10_kernel req desc))) req desc =
    Inr (result_word 8 desc, ?s, ?a, crc)"
    by (simp add: run_dr10_service_def device_run_def load_iron_eq run_on_device_def ljust_id)
  show "fst (dr10_kernel req desc) = (case r of Inl _ \<Rightarrow> wiped_slot | Inr st \<Rightarrow> st)"
    using assms by (cases r) (simp_all add: dr10_kernel_def Let_def)
qed

lemma dr10_install_ok:
  "dr10_install req desc = Inr st \<Longrightarrow> length req = 256 \<Longrightarrow>
     (is_active st = 1 \<and> length (slot_key st) = 64) \<or> st = wiped_slot"
  by (auto simp add: dr10_install_def Let_def compute_sha3_256_eq split: if_splits)

subsection \<open>Properties\<close>

text \<open>C12. The sealed slot fails closed.  After any history of requests the slot is either active with 64
  bytes of key or completely wiped, and a request that the service reports as refused leaves it wiped:
  no key survives a failure.\<close>

theorem sealed_slot_fails_closed:
  assumes "dr10_reachable st"
  shows "(is_active st = 1 \<and> length (slot_key st) = 64 \<or> st = wiped_slot) \<and>
    (\<forall>req desc. case run_dr10_service (on_silicon (\<lambda>req desc. snd (dr10_kernel req desc))) req desc of
       Inl e \<Rightarrow> False
     | Inr (rid, status, active, crc) \<Rightarrow>
         active = is_active (fst (dr10_kernel req desc)) \<and> (status = 0 \<or> fst (dr10_kernel req desc) = wiped_slot))"
proof (intro conjI allI)
  show "is_active st = 1 \<and> length (slot_key st) = 64 \<or> st = wiped_slot"
    using assms
  proof (rule dr10_reachableE)
    fix st' req desc
    assume "st = fst (dr10_kernel req desc)" "length req = 256"
    then show ?thesis
      using dr10_kernel_answer(2) [of req desc] dr10_install_ok [of req desc]
      by (cases "dr10_install req desc") simp_all
  qed simp
  fix req desc
  show "case run_dr10_service (on_silicon (\<lambda>req desc. snd (dr10_kernel req desc))) req desc of
       Inl e \<Rightarrow> False
     | Inr (rid, status, active, crc) \<Rightarrow>
         active = is_active (fst (dr10_kernel req desc)) \<and> (status = 0 \<or> fst (dr10_kernel req desc) = wiped_slot)"
    using dr10_kernel_answer [OF refl, of req desc]
    by (cases "dr10_install req desc") (auto simp add: wiped_slot_def)
qed

theorem sealed_slot_fails_closed_witness:
  "is_active (fst (dr10_kernel (zeros 256) (zeros 16))) = 1 \<and> length (slot_key (fst (dr10_kernel (zeros 256) (zeros 16)))) = 64"
proof -
  have "is_active (fst (dr10_kernel (zeros 256) (zeros 16))) = 1"
    by (simp add: dr10_kernel_def dr10_install_def Let_def)
  moreover have "dr10_reachable (fst (dr10_kernel (zeros 256) (zeros 16)))"
    by (rule dr10_reachable.request [OF dr10_reachable.start]) simp_all
  ultimately show ?thesis
    using sealed_slot_fails_closed [of "fst (dr10_kernel (zeros 256) (zeros 16))"] by (auto simp add: wiped_slot_def)
qed

lemma dr10_descriptor_fields:
  assumes "pack_dr10_descriptor mode dm rid ep flags = Inr desc"
  shows "length desc = 16" "uint (desc ! 4) = mode" "uint (desc ! 5) = dm" "result_word 8 desc = rid" "result_word 12 desc = ep"
proof -
  from assms have b: "0 \<le> mode" "mode < 256" "0 \<le> dm" "dm < 256" "0 \<le> rid" "rid < 4294967296" "0 \<le> ep" "ep < 4294967296"
    and d: "desc = [0x01, 0x71, 0x52, 0x0A] @ [word_of_int mode, word_of_int dm, 10, word_of_int flags] @ le_bytes 4 rid @ le_bytes 4 ep"
    by (auto simp add: pack_dr10_descriptor_def bindE_Inr_iff struct_pack_cases split: if_splits)
  show "length desc = 16" "uint (desc ! 4) = mode" "uint (desc ! 5) = dm"
    using b by (simp_all add: d uint_word_of_int)
  show "result_word 8 desc = rid" "result_word 12 desc = ep"
    using b by (simp_all add: d result_word_def slice_def le_int_bytes_id del: le_bytes.simps)
qed

lemma dr10_request_fields:
  assumes "pack_dr10_auth_qkd_request key src e dm = Inr req" "length key = 64"
  shows "length req = 256" "slice 0 4 req = [0x51, 0x4B, 0x44, 0x31]" "result_word 4 req = e" "uint (req ! 8) = dm"
    "slice 32 96 req = key" "slice 96 128 req = zeros 32"
proof -
  let ?src = "take 16 (ljust 16 src)"
  from assms(1) have b: "0 \<le> e" "e < 4294967296" "0 \<le> dm" "dm < 256"
    by (auto simp add: pack_dr10_auth_qkd_request_def Let_def bindE_Inr_iff to_bytes_le_def split: if_splits)
  have "zeros 32 = zeros 4 @ zeros 4 @ [0] @ zeros 7 @ zeros 16" "zeros 256 = zeros 32 @ zeros 64 @ zeros 160"
    by (simp_all add: zeros_def eval_nat_numeral)
  then have r: "req = [0x51, 0x4B, 0x44, 0x31] @ le_bytes 4 e @ [word_of_int dm] @ zeros 7 @ ?src @ key @ zeros 160"
    using assms b by (simp add: pack_dr10_auth_qkd_request_def Let_def to_bytes_le_def assign_slice_def list_update_append
        del: le_bytes.simps)
  show "length req = 256" "slice 0 4 req = [0x51, 0x4B, 0x44, 0x31]"
    using assms(2) by (simp_all add: r slice_def)
  show "result_word 4 req = e" "uint (req ! 8) = dm"
    using b by (simp_all add: r result_word_def slice_def nth_append uint_word_of_int le_int_bytes_id del: le_bytes.simps)
  show "slice 32 96 req = key" "slice 96 128 req = zeros 32"
    using assms(2) by (simp_all add: r slice_def)
qed

text \<open>C22. The authenticated key ingress is neither usable nor authenticated.  A request as the interface
  builds it carries no tag, so the device refuses it (domain, epoch, then tag), unless the hash of its
  first 96 bytes is zero, and wipes the slot; and a request with the plain SHA3-256 of those
  bytes as its tag, which needs no key, installs any key material for the domain.\<close>

theorem qkd_ingress_exact:
  assumes "pack_dr10_descriptor 2 dm rid ep flags = Inr desc"
    and "pack_dr10_auth_qkd_request key src e dm' = Inr req" "length key = 64"
  shows "(\<exists>active crc. run_dr10_service (on_silicon (\<lambda>req desc. snd (dr10_kernel req desc))) req desc =
      Inr (rid, if dm' \<noteq> dm then 4 else if e < ep then 5 else if sha3_256 (take 96 req) \<noteq> zeros 32 then 3 else 0, active, crc)) \<and>
    fst (dr10_kernel (put 96 (sha3_256 (take 96 req)) req) desc) =
      (if dm' = dm \<and> ep \<le> e then \<lparr>is_active = 1, slot_domain = dm, slot_epoch = e, slot_key = key\<rparr> else wiped_slot)"
proof (intro conjI)
  note d = dr10_descriptor_fields [OF assms(1)] and r = dr10_request_fields [OF assms(2,3)]
  have t: "slice 0 96 req = take 96 req" by (simp add: slice_def)
  have "dr10_install req desc = (if dm' \<noteq> dm then Inl 4 else if e < ep then Inl 5
      else if sha3_256 (take 96 req) \<noteq> zeros 32 then Inl 3
      else Inr \<lparr>is_active = 1, slot_domain = dm, slot_epoch = e, slot_key = key\<rparr>)"
    by (simp add: dr10_install_def Let_def d r compute_sha3_256_eq t)
  from dr10_kernel_answer(1) [OF this] show "\<exists>active crc. run_dr10_service (on_silicon (\<lambda>req desc. snd (dr10_kernel req desc))) req desc =
      Inr (rid, if dm' \<noteq> dm then 4 else if e < ep then 5 else if sha3_256 (take 96 req) \<noteq> zeros 32 then 3 else 0, active, crc)"
    by (auto simp add: d split: if_splits)
  let ?f = "put 96 (sha3_256 (take 96 req)) req"
  have low: "slice i j ?f = slice i j req" if "j \<le> 96" for i j
    using r(1) that by (intro slice_put_below) simp_all
  have "?f ! 8 = req ! 8" using r(1) by (simp add: put_def nth_append)
  moreover have "result_word 4 ?f = e" using r(3) low [of 8 4] by (simp add: result_word_def)
  moreover have "slice 96 128 ?f = sha3_256 (take 96 req)" using r(1) by (intro slice_put_at) simp_all
  ultimately have "dr10_install ?f desc = (if dm' \<noteq> dm then Inl 4 else if e < ep then Inl 5
      else Inr \<lparr>is_active = 1, slot_domain = dm, slot_epoch = e, slot_key = key\<rparr>)"
    using low [of 4 0] low [of 96 0] low [of 96 32] by (simp add: dr10_install_def Let_def d r compute_sha3_256_eq t)
  from dr10_kernel_answer(2) [OF this] show "fst (dr10_kernel ?f desc) =
      (if dm' = dm \<and> ep \<le> e then \<lparr>is_active = 1, slot_domain = dm, slot_epoch = e, slot_key = key\<rparr> else wiped_slot)"
    by auto
qed

theorem qkd_ingress_exact_witness:
  "\<exists>desc req. pack_dr10_descriptor 2 1 7 5 0 = Inr desc \<and> pack_dr10_auth_qkd_request (replicate 64 9) [] 6 1 = Inr req \<and>
    fst (dr10_kernel (put 96 (sha3_256 (take 96 req)) req) desc) =
      \<lparr>is_active = 1, slot_domain = 1, slot_epoch = 6, slot_key = replicate 64 9\<rparr>"
proof -
  obtain desc where d: "pack_dr10_descriptor 2 1 7 5 0 = Inr desc" by (simp add: pack_dr10_descriptor_def)
  obtain req where r: "pack_dr10_auth_qkd_request (replicate 64 9) [] 6 1 = Inr req"
    by (simp add: pack_dr10_auth_qkd_request_def Let_def to_bytes_le_def)
  from qkd_ingress_exact [OF d r] d r show ?thesis by simp
qed

end
