(* ===== verification/PyCodec.thy ===== *)
theory PyCodec
  imports Host
begin

text \<open>
  The text encodings of the Python standard library that the key-delivery and entropy interfaces
  use: \<open>base64\<close> (\<open>b64encode\<close>, and \<open>b64decode\<close> in its default, lenient mode), \<open>bytes.hex\<close> and
  \<open>bytes.fromhex\<close>, \<open>str.encode\<close>, \<open>uuid.UUID\<close> with \<open>str\<close>, and JSON values.  Strings hold code
  points below 256; JSON numbers are integers.
\<close>

subsection \<open>Base64\<close>

definition b64_char :: "nat \<Rightarrow> char" where
  "b64_char n = (if n < 26 then char_of (65 + n) else if n < 52 then char_of (71 + n)
     else if n < 62 then char_of (n - 4) else if n = 62 then CHR ''+'' else CHR ''/'')"

definition b64_value :: "char \<Rightarrow> nat option" where
  "b64_value c = (let n = of_char c :: nat in
     if 65 \<le> n \<and> n \<le> 90 then Some (n - 65) else if 97 \<le> n \<and> n \<le> 122 then Some (n - 71)
     else if 48 \<le> n \<and> n \<le> 57 then Some (n + 4) else if n = 43 then Some 62 else if n = 47 then Some 63 else None)"

fun b64encode :: "bytes \<Rightarrow> string" where
  "b64encode (a # b # c # rest) =
     [b64_char (unat a div 4), b64_char (unat a mod 4 * 16 + unat b div 16),
      b64_char (unat b mod 16 * 4 + unat c div 64), b64_char (unat c mod 64)] @ b64encode rest"
| "b64encode [a, b] = [b64_char (unat a div 4), b64_char (unat a mod 4 * 16 + unat b div 16), b64_char (unat b mod 16 * 4), CHR ''='']"
| "b64encode [a] = [b64_char (unat a div 4), b64_char (unat a mod 4 * 16), CHR ''='', CHR ''='']"
| "b64encode [] = []"

text \<open>
  \<open>binascii.a2b_base64\<close> without strict mode: characters outside the alphabet are skipped, padding
  ends the data once a group of at least two characters is filled up, and data that stops within a
  group is an error.
\<close>

fun a2b_base64 :: "nat \<Rightarrow> nat \<Rightarrow> nat \<Rightarrow> string \<Rightarrow> bytes py" where
  "a2b_base64 quad left pads [] = (if quad = 0 then Inr [] else Inl ValueError)"
| "a2b_base64 quad left pads (c # cs) =
     (if c = CHR ''='' then
        (if quad < 2 then a2b_base64 quad left pads cs
         else if 4 \<le> quad + (pads + 1) then Inr [] else a2b_base64 quad left (pads + 1) cs)
      else case b64_value c of
        None \<Rightarrow> a2b_base64 quad left pads cs
      | Some v \<Rightarrow>
          if quad = 0 then a2b_base64 1 v 0 cs
          else if quad = 1 then bindE (a2b_base64 2 (v mod 16) 0 cs) (\<lambda>r. Inr (word_of_nat (left * 4 + v div 16) # r))
          else if quad = 2 then bindE (a2b_base64 3 (v mod 4) 0 cs) (\<lambda>r. Inr (word_of_nat (left * 16 + v div 4) # r))
          else bindE (a2b_base64 0 0 0 cs) (\<lambda>r. Inr (word_of_nat (left * 64 + v) # r)))"

definition is_ascii :: "string \<Rightarrow> bool" where
  "is_ascii s \<longleftrightarrow> list_all (\<lambda>c. (of_char c :: nat) < 128) s"

definition b64decode :: "string \<Rightarrow> bytes py" where
  "b64decode s = (if is_ascii s then a2b_base64 0 0 0 s else Inl ValueError)"

subsection \<open>Hexadecimal\<close>

definition hex_char :: "nat \<Rightarrow> char" where
  "hex_char n = (if n < 10 then char_of (48 + n) else char_of (87 + n))"

definition hex_value :: "char \<Rightarrow> nat option" where
  "hex_value c = (let n = of_char c :: nat in
     if 48 \<le> n \<and> n \<le> 57 then Some (n - 48) else if 97 \<le> n \<and> n \<le> 102 then Some (n - 87)
     else if 65 \<le> n \<and> n \<le> 70 then Some (n - 55) else None)"

definition hex :: "bytes \<Rightarrow> string" where
  "hex bs = concat (map (\<lambda>b. [hex_char (unat b div 16), hex_char (unat b mod 16)]) bs)"

definition ascii_space :: "char \<Rightarrow> bool" where
  "ascii_space c \<longleftrightarrow> (of_char c :: nat) \<in> {9, 10, 11, 12, 13, 32}"

fun fromhex :: "string \<Rightarrow> bytes py" where
  "fromhex [] = Inr []"
| "fromhex [c] = (if ascii_space c then Inr [] else Inl ValueError)"
| "fromhex (c # d # cs) =
     (if ascii_space c then fromhex (d # cs)
      else case (hex_value c, hex_value d) of
        (Some x, Some y) \<Rightarrow> bindE (fromhex cs) (\<lambda>r. Inr (word_of_nat (16 * x + y) # r))
      | _ \<Rightarrow> Inl ValueError)"

subsection \<open>Text\<close>

definition encode_utf8 :: "string \<Rightarrow> bytes" where
  "encode_utf8 s = concat (map (\<lambda>c. let n = of_char c :: nat in
     if n < 128 then [word_of_nat n] else [word_of_nat (192 + n div 64), word_of_nat (128 + n mod 64)]) s)"

text \<open>\<open>s.replace(old, "")\<close> for a non-empty \<open>old\<close>.\<close>

fun delete_all :: "string \<Rightarrow> string \<Rightarrow> nat \<Rightarrow> string" where
  "delete_all old [] skip = []"
| "delete_all old (c # cs) skip =
     (if 0 < skip then delete_all old cs (skip - 1)
      else if take (length old) (c # cs) = old then delete_all old cs (length old - 1)
      else c # delete_all old cs 0)"

definition strip_by :: "(char \<Rightarrow> bool) \<Rightarrow> string \<Rightarrow> string" where
  "strip_by P s = rev (dropWhile P (rev (dropWhile P s)))"

subsection \<open>UUIDs\<close>

text \<open>\<open>int(s, 16)\<close>: white space around, a sign, a prefix and single underscores between digits are allowed.\<close>

fun hex_digits :: "bool \<Rightarrow> int \<Rightarrow> string \<Rightarrow> int py" where
  "hex_digits digit acc [] = (if digit then Inr acc else Inl ValueError)"
| "hex_digits digit acc (c # cs) =
     (if c = CHR ''_'' then (if digit then hex_digits False acc cs else Inl ValueError)
      else case hex_value c of None \<Rightarrow> Inl ValueError | Some d \<Rightarrow> hex_digits True (16 * acc + int d) cs)"

definition unprefixed :: "string \<Rightarrow> int py" where
  "unprefixed s =
     (if take 2 s \<in> {''0x'', ''0X''}
      then hex_digits False 0 (if take 1 (drop 2 s) = ''_'' then drop 3 s else drop 2 s)
      else hex_digits False 0 s)"

definition int_base16 :: "string \<Rightarrow> int py" where
  "int_base16 s = (case strip_by white_space s of
     [] \<Rightarrow> Inl ValueError
   | c # cs \<Rightarrow> if c = CHR ''-'' then bindE (unprefixed cs) (\<lambda>v. Inr (- v))
               else if c = CHR ''+'' then unprefixed cs else unprefixed (c # cs))"

definition py_uuid :: "string \<Rightarrow> bytes py" where
  "py_uuid s =
     (let h = delete_all ''uuid:'' (delete_all ''urn:'' s 0) 0;
          h = filter (\<lambda>c. c \<noteq> CHR ''-'') (strip_by (\<lambda>c. c = CHR ''{'' \<or> c = CHR ''}'') h)
      in if length h \<noteq> 32 then Inl ValueError
         else bindE (int_base16 h) (\<lambda>v. if 0 \<le> v \<and> v < 2 ^ 128 then Inr (be_bytes 16 v) else Inl ValueError))"

definition uuid_str :: "bytes \<Rightarrow> string" where
  "uuid_str u = (let h = hex u in
     slice 0 8 h @ ''-'' @ slice 8 12 h @ ''-'' @ slice 12 16 h @ ''-'' @ slice 16 20 h @ ''-'' @ slice 20 32 h)"

subsection \<open>JSON values\<close>

datatype json = JNull | JBool bool | JInt int | JStr string | JList "json list" | JObj "(string \<times> json) list"

definition truthy :: "json \<Rightarrow> bool" where
  "truthy v = (case v of JNull \<Rightarrow> False | JBool b \<Rightarrow> b | JInt n \<Rightarrow> n \<noteq> 0 | JStr s \<Rightarrow> s \<noteq> [] | JList xs \<Rightarrow> xs \<noteq> [] | JObj kvs \<Rightarrow> kvs \<noteq> [])"

text \<open>\<open>d.get(key)\<close>, \<open>None\<close> being \<open>JNull\<close>.\<close>

definition json_get :: "string \<Rightarrow> json \<Rightarrow> json py" where
  "json_get key v = (case v of
     JObj kvs \<Rightarrow> Inr (case map_of kvs key of None \<Rightarrow> JNull | Some x \<Rightarrow> x)
   | _ \<Rightarrow> Inl AttributeError)"

fun digits_of :: "nat \<Rightarrow> string" where
  "digits_of n = (if n < 10 then [char_of (48 + n)] else digits_of (n div 10) @ [char_of (48 + n mod 10)])"

definition py_str_int :: "int \<Rightarrow> string" where
  "py_str_int n = (if n < 0 then ''-'' @ digits_of (nat (- n)) else digits_of (nat n))"

subsection \<open>Round trips\<close>

lemma char_code_neq: "(of_char c :: nat) \<noteq> of_char d \<Longrightarrow> c \<noteq> d"
  by auto

lemma b64_code:
  "n < 64 \<Longrightarrow> (of_char (b64_char n) :: nat) =
    (if n < 26 then 65 + n else if n < 52 then 71 + n else if n < 62 then n - 4 else if n = 62 then 43 else 47)"
  by (simp add: b64_char_def)

lemma b64_alphabet:
  assumes "n < 64"
  shows "b64_value (b64_char n) = Some n" "b64_char n \<noteq> CHR ''=''" "(of_char (b64_char n) :: nat) < 128"
  using assms by (auto simp add: b64_value_def Let_def b64_code intro!: char_code_neq split: if_splits)

lemma hex_code: "n < 16 \<Longrightarrow> (of_char (hex_char n) :: nat) = (if n < 10 then 48 + n else 87 + n)"
  by (simp add: hex_char_def)

lemma hex_alphabet:
  assumes "n < 16"
  shows "hex_value (hex_char n) = Some n" "\<not> ascii_space (hex_char n)" "hex_char n \<noteq> CHR ''=''"
    "(of_char (hex_char n) :: nat) < 128" "\<exists>v. b64_value (hex_char n) = Some v" "hex_char n \<noteq> CHR ''-''"
    "hex_char n \<notin> {CHR ''u'', CHR ''{'', CHR ''}'', CHR ''_'', CHR ''+'', CHR ''x'', CHR ''X''}" "\<not> white_space (hex_char n)"
  using assms by (auto simp add: hex_value_def b64_value_def ascii_space_def white_space_def Let_def hex_code intro!: char_code_neq split: if_splits)

lemma unat_byte_less: "unat (b :: byte) < 256"
  using unsigned_less [of b] by simp

lemma word_of_byte: "n = unat (b :: byte) \<Longrightarrow> word_of_nat n = b"
  by simp

lemma b64_roundtrip_loop: "a2b_base64 0 l p (b64encode bs) = Inr bs"
proof (induction bs arbitrary: l p rule: b64encode.induct)
  case (1 a b c rest)
  have v: "unat a div 4 < 64" "unat a mod 4 * 16 + unat b div 16 < 64" "unat b mod 16 * 4 + unat c div 64 < 64" "unat c mod 64 < 64"
    using unat_byte_less [of a] unat_byte_less [of b] unat_byte_less [of c] by auto
  have w: "unat b div 16 div 16 = 0" "unat c div 64 div 4 = 0"
    using unat_byte_less [of b] unat_byte_less [of c] by auto
  have "word_of_nat (unat a div 4 * 4 + (unat a mod 4 * 16 + unat b div 16) div 16) = a"
    "word_of_nat ((unat a mod 4 * 16 + unat b div 16) mod 16 * 16 + (unat b mod 16 * 4 + unat c div 64) div 4) = b"
    "word_of_nat ((unat b mod 16 * 4 + unat c div 64) mod 4 * 64 + unat c mod 64) = c"
    using w unat_byte_less [of b] unat_byte_less [of c] by (intro word_of_byte; simp)+
  with v show ?case
    by (simp add: b64_alphabet 1 del: of_nat_add of_nat_mult div_mult_self1 div_mult_self2 div_mult_self3 div_mult_self4 mod_mult_self1 mod_mult_self2 mod_mult_self3 mod_mult_self4)
next
  case (2 a b)
  have v: "unat a div 4 < 64" "unat a mod 4 * 16 + unat b div 16 < 64" "unat b mod 16 * 4 < 64"
    using unat_byte_less [of a] unat_byte_less [of b] by auto
  have "word_of_nat (unat a div 4 * 4 + (unat a mod 4 * 16 + unat b div 16) div 16) = a"
    "word_of_nat ((unat a mod 4 * 16 + unat b div 16) mod 16 * 16 + (unat b mod 16 * 4) div 4) = b"
    using unat_byte_less [of b] by (intro word_of_byte; simp)+
  with v show ?case
    by (simp add: b64_alphabet del: of_nat_add of_nat_mult div_mult_self1 div_mult_self2 div_mult_self3 div_mult_self4 mod_mult_self1 mod_mult_self2 mod_mult_self3 mod_mult_self4)
next
  case (3 a)
  have v: "unat a div 4 < 64" "unat a mod 4 * 16 < 64"
    using unat_byte_less [of a] by auto
  have "word_of_nat (unat a div 4 * 4 + (unat a mod 4 * 16) div 16) = a" by (intro word_of_byte) simp
  with v show ?case
    by (simp add: b64_alphabet del: of_nat_add of_nat_mult div_mult_self1 div_mult_self2 div_mult_self3 div_mult_self4 mod_mult_self1 mod_mult_self2 mod_mult_self3 mod_mult_self4)
qed simp

lemma is_ascii_append [simp]: "is_ascii (s @ t) \<longleftrightarrow> is_ascii s \<and> is_ascii t"
  by (simp add: is_ascii_def)

lemma is_ascii_Cons: "is_ascii (c # s) \<longleftrightarrow> (of_char c :: nat) < 128 \<and> is_ascii s"
  by (simp add: is_ascii_def)

lemma is_ascii_b64encode: "is_ascii (b64encode bs)"
proof (induction bs rule: b64encode.induct)
  case (1 a b c rest)
  have "unat a div 4 < 64" "unat a mod 4 * 16 + unat b div 16 < 64" "unat b mod 16 * 4 + unat c div 64 < 64" "unat c mod 64 < 64"
    using unat_byte_less [of a] unat_byte_less [of b] unat_byte_less [of c] by auto
  with 1 show ?case by (simp add: is_ascii_Cons b64_alphabet)
next
  case (2 a b)
  have "unat a div 4 < 64" "unat a mod 4 * 16 + unat b div 16 < 64" "unat b mod 16 * 4 < 64"
    using unat_byte_less [of a] unat_byte_less [of b] by auto
  then show ?case by (simp add: is_ascii_Cons b64_alphabet) (simp add: is_ascii_def)
next
  case (3 a)
  have "unat a div 4 < 64" "unat a mod 4 * 16 < 64"
    using unat_byte_less [of a] by auto
  then show ?case by (simp add: is_ascii_Cons b64_alphabet) (simp add: is_ascii_def)
qed (simp add: is_ascii_def)

lemma b64_roundtrip: "b64decode (b64encode bs) = Inr bs"
  by (simp add: b64decode_def is_ascii_b64encode b64_roundtrip_loop)

lemma hex_simps [simp]: "hex [] = []" "hex (b # bs) = hex_char (unat b div 16) # hex_char (unat b mod 16) # hex bs"
  by (simp_all add: hex_def)

lemma length_hex [simp]: "length (hex bs) = 2 * length bs"
  by (induction bs) simp_all

lemma hex_nibbles: "unat (b :: byte) div 16 < 16" "unat b mod 16 < 16"
  using unat_byte_less [of b] by simp_all

lemma hex_roundtrip: "fromhex (hex bs) = Inr bs"
proof (induction bs)
  case (Cons b bs)
  have "word_of_nat (16 * (unat b div 16) + unat b mod 16) = b" by (intro word_of_byte) simp
  with Cons show ?case by (simp add: hex_nibbles hex_alphabet del: of_nat_add of_nat_mult)
qed simp

lemma set_hex: "c \<in> set (hex bs) \<Longrightarrow> \<exists>n<16. c = hex_char n"
  by (induction bs) (auto intro: hex_nibbles)

lemma is_ascii_hex: "is_ascii (hex bs)"
  using set_hex hex_alphabet(4) by (fastforce simp add: is_ascii_def list_all_iff)

text \<open>Base64 data without padding: a group of four characters gives three bytes, a rest of two is an error.\<close>

definition b64_plain :: "char \<Rightarrow> bool" where
  "b64_plain c \<longleftrightarrow> c \<noteq> CHR ''='' \<and> b64_value c \<noteq> None"

lemma a2b_group:
  assumes "list_all b64_plain [a, b, c, d]"
  shows "\<exists>x y z. \<forall>s. a2b_base64 0 l p (a # b # c # d # s) = bindE (a2b_base64 0 0 0 s) (\<lambda>r. Inr (x # y # z # r))"
proof -
  from assms obtain va vb vc vd where "b64_value a = Some va" "b64_value b = Some vb" "b64_value c = Some vc" "b64_value d = Some vd"
    by (auto simp add: b64_plain_def)
  with assms have "\<exists>x y z. a2b_base64 0 l p (a # b # c # d # s) = bindE (a2b_base64 0 0 0 s) (\<lambda>r. Inr (x # y # z # r)) \<and>
      x = word_of_nat (va * 4 + vb div 16) \<and> y = word_of_nat (vb mod 16 * 16 + vc div 4) \<and> z = word_of_nat (vc mod 4 * 64 + vd)" for s
    by (simp add: b64_plain_def bindE_assoc del: of_nat_add of_nat_mult)
  then show ?thesis by metis
qed

lemma a2b_groups:
  "list_all b64_plain s \<Longrightarrow> length s = 4 * n \<Longrightarrow> \<exists>r. a2b_base64 0 l p s = Inr r \<and> length r = 3 * n"
proof (induction n arbitrary: s l p)
  case (Suc n)
  then obtain a b c d s' where s: "s = a # b # c # d # s'" by (auto simp add: length_Suc_conv eval_nat_numeral)
  with Suc.IH [of s' 0 0] Suc.prems obtain r where r: "a2b_base64 0 0 0 s' = Inr r" "length r = 3 * n" by auto
  have "list_all b64_plain [a, b, c, d]" using Suc.prems s by simp
  from a2b_group [OF this, of l p] obtain x y z where
    "\<forall>s. a2b_base64 0 l p (a # b # c # d # s) = bindE (a2b_base64 0 0 0 s) (\<lambda>r. Inr (x # y # z # r))" by blast
  with r show ?case unfolding s by simp
qed simp

lemma a2b_two_over:
  "list_all b64_plain s \<Longrightarrow> length s = 4 * n + 2 \<Longrightarrow> a2b_base64 0 l p s = Inl ValueError"
proof (induction n arbitrary: s l p)
  case 0
  then obtain a b where s: "s = [a, b]" by (auto simp add: length_Suc_conv eval_nat_numeral)
  with 0(1) obtain va vb where "b64_value a = Some va" "b64_value b = Some vb" "a \<noteq> CHR ''=''" "b \<noteq> CHR ''=''"
    by (auto simp add: b64_plain_def)
  then show ?case unfolding s by simp
next
  case (Suc n)
  then obtain a b c d s' where s: "s = a # b # c # d # s'" by (auto simp add: length_Suc_conv eval_nat_numeral)
  have "list_all b64_plain [a, b, c, d]" using Suc.prems s by simp
  from a2b_group [OF this, of l p] obtain x y z where
    "\<forall>s. a2b_base64 0 l p (a # b # c # d # s) = bindE (a2b_base64 0 0 0 s) (\<lambda>r. Inr (x # y # z # r))" by blast
  with Suc.IH [of s' 0 0] Suc.prems show ?case unfolding s by simp
qed

lemma b64decode_hex:
  "even (length bs) \<Longrightarrow> \<exists>r. b64decode (hex bs) = Inr r \<and> 2 * length r = 3 * length bs"
  "odd (length bs) \<Longrightarrow> b64decode (hex bs) = Inl ValueError"
proof -
  have plain: "list_all b64_plain (hex bs)"
    by (induction bs) (use hex_nibbles hex_alphabet(3,5) in \<open>fastforce simp add: b64_plain_def\<close>)+
  show "even (length bs) \<Longrightarrow> \<exists>r. b64decode (hex bs) = Inr r \<and> 2 * length r = 3 * length bs"
  proof (elim evenE)
    fix k assume "length bs = 2 * k"
    with a2b_groups [OF plain, of k 0 0] show ?thesis by (auto simp add: b64decode_def is_ascii_hex)
  qed
  show "odd (length bs) \<Longrightarrow> b64decode (hex bs) = Inl ValueError"
  proof (elim oddE)
    fix k assume "length bs = 2 * k + 1"
    with a2b_two_over [OF plain, of k 0 0] show ?thesis by (simp add: b64decode_def is_ascii_hex)
  qed
qed

lemma delete_all_id: "hd old \<notin> set s \<Longrightarrow> old \<noteq> [] \<Longrightarrow> delete_all old s 0 = s"
proof (induction s)
  case (Cons c s)
  then obtain d ds where "old = d # ds" by (cases old) auto
  with Cons show ?case by auto
qed simp

lemma strip_by_id: "(\<And>c. c \<in> set s \<Longrightarrow> \<not> P c) \<Longrightarrow> strip_by P s = s"
proof -
  assume "\<And>c. c \<in> set s \<Longrightarrow> \<not> P c"
  then have "dropWhile P t = t" if "set t \<subseteq> set s" for t
    using that by (cases t) auto
  then show ?thesis by (simp add: strip_by_def)
qed

lemma hex_digits_hex:
  "bs \<noteq> [] \<Longrightarrow> hex_digits q acc (hex bs) = Inr (foldl (\<lambda>a b. 256 * a + uint b) acc bs)"
proof (induction bs arbitrary: q acc)
  case (Cons b bs)
  have "16 * (16 * acc + int (unat b div 16)) + int (unat b mod 16) = 256 * acc + uint b"
    by (simp add: zdiv_int zmod_int algebra_simps)
  moreover have "hex_digits q acc (hex (b # bs)) = hex_digits True (16 * (16 * acc + int (unat b div 16)) + int (unat b mod 16)) (hex bs)"
    using hex_alphabet(1,7) [OF hex_nibbles(1) [of b]] hex_alphabet(1,7) [OF hex_nibbles(2) [of b]] by simp
  ultimately have "hex_digits q acc (hex (b # bs)) = hex_digits True (256 * acc + uint b) (hex bs)" by (simp only:)
  with Cons.IH [of True] show ?case by (cases "bs = []") (simp_all del: hex_simps(2))
qed simp

lemma foldl_be_int: "foldl (\<lambda>a b. 256 * a + uint b) 0 bs = be_int bs"
proof -
  have le_append: "le_int (xs @ [b]) = le_int xs + 256 ^ length xs * uint b" for xs b
    by (induction xs) (simp_all add: algebra_simps)
  have "foldl (\<lambda>a b. 256 * a + uint b) acc bs = 256 ^ length bs * acc + be_int bs" for acc
    by (induction bs arbitrary: acc) (simp_all add: be_int_def le_append algebra_simps)
  then show ?thesis by simp
qed

lemma hex_chars:
  assumes "c \<in> set (hex bs)"
  shows "c \<notin> {CHR ''u'', CHR ''{'', CHR ''}'', CHR ''_'', CHR ''+'', CHR ''x'', CHR ''X'', CHR ''-''}" "\<not> white_space c"
proof -
  obtain n where "n < 16" "c = hex_char n" using set_hex [OF assms] by blast
  with hex_alphabet(6,7,8) [of n] show
    "c \<notin> {CHR ''u'', CHR ''{'', CHR ''}'', CHR ''_'', CHR ''+'', CHR ''x'', CHR ''X'', CHR ''-''}" "\<not> white_space c"
    by simp_all
qed

lemma int_base16_hex:
  assumes ne: "bs \<noteq> []"
  shows "int_base16 (hex bs) = Inr (be_int bs)"
proof -
  have strip: "strip_by white_space (hex bs) = hex bs" by (intro strip_by_id) (rule hex_chars(2))
  obtain c d cs where h: "hex bs = c # d # cs" using ne by (cases bs) simp_all
  have cd: "d \<noteq> CHR ''x''" "d \<noteq> CHR ''X''" "c \<noteq> CHR ''-''" "c \<noteq> CHR ''+''"
    using hex_chars(1) [of c bs] hex_chars(1) [of d bs] by (simp_all add: h)
  have "unprefixed (hex bs) = hex_digits False 0 (hex bs)"
    using cd by (simp add: unprefixed_def h del: hex_digits.simps)
  then have "unprefixed (hex bs) = Inr (be_int bs)" by (simp only: hex_digits_hex [OF ne] foldl_be_int)
  moreover have "int_base16 (hex bs) = unprefixed (hex bs)"
    unfolding int_base16_def strip by (simp add: h cd)
  ultimately show ?thesis by simp
qed

lemma be_bytes_be_int: "be_bytes (length bs) (be_int bs) = bs"
  using le_bytes_int [of "rev bs"] by (simp add: be_bytes_def be_int_def)

lemma slice_join: "i \<le> j \<Longrightarrow> j \<le> k \<Longrightarrow> slice i j xs @ slice j k xs = slice i k xs"
  using take_add [of "j - i" "k - j" "drop i xs"] by (simp add: slice_def)

lemma uuid_roundtrip:
  assumes "length u = 16"
  shows "py_uuid (uuid_str u) = Inr u"
proof -
  let ?h = "hex u"
  have sl: "c \<in> set (slice i j ?h) \<Longrightarrow> c \<in> set ?h" for c i j
    unfolding slice_def by (blast dest: in_set_takeD in_set_dropD)
  have dash: "c \<noteq> CHR ''-'' \<and> c \<noteq> CHR ''u'' \<and> c \<noteq> CHR ''{'' \<and> c \<noteq> CHR ''}''" if "c \<in> set ?h" for c
    using hex_chars(1) [OF that] by simp
  have chars: "c = CHR ''-'' \<or> c \<in> set ?h" if "c \<in> set (uuid_str u)" for c
    using that sl unfolding uuid_str_def Let_def by (auto simp del: hex_simps)
  have "CHR ''u'' \<notin> set (uuid_str u)" using chars [of "CHR ''u''"] dash by blast
  then have del: "delete_all ''uuid:'' (delete_all ''urn:'' (uuid_str u) 0) 0 = uuid_str u"
    by (simp add: delete_all_id)
  have strip: "strip_by (\<lambda>c. c = CHR ''{'' \<or> c = CHR ''}'') (uuid_str u) = uuid_str u"
  proof (rule strip_by_id)
    fix c assume "c \<in> set (uuid_str u)"
    with chars [of c] dash [of c] show "\<not> (c = CHR ''{'' \<or> c = CHR ''}'')" by auto
  qed
  have keep: "filter (\<lambda>c. c \<noteq> CHR ''-'') (slice i j ?h) = slice i j ?h" for i j
    by (rule filter_True) (use sl dash in blast)
  have "slice 0 8 ?h @ slice 8 12 ?h @ slice 12 16 ?h @ slice 16 20 ?h @ slice 20 32 ?h = ?h"
    using assms by (simp add: slice_join slice_full)
  then have "filter (\<lambda>c. c \<noteq> CHR ''-'') (uuid_str u) = ?h"
    by (simp add: uuid_str_def Let_def keep)
  moreover have "be_int u < 2 ^ 128" using le_int_less [of "rev u"] assms by (simp add: be_int_def)
  moreover have "0 \<le> be_int u" by (simp add: be_int_def)
  moreover have "u \<noteq> []" using assms by auto
  ultimately show ?thesis
    using assms be_bytes_be_int [of u] by (simp add: py_uuid_def Let_def del strip int_base16_hex)
qed

end
