(* ===== verification/Qkd.thy ===== *)
theory Qkd
  imports PyCodec Kernels
begin

text \<open>
  Quantum key delivery and the hybrid session: the ETSI 014 key container and the sealed ring
  (\<open>dr16_*\<close>), the manifest authenticator (\<open>dr17_*\<close>), the dual-key combiner (\<open>dr18_*\<close>), the
  session orchestrator (\<open>dr19_*\<close>), each with its device kernel (\<open>kernels/dr16_*\<close> to
  \<open>kernels/dr19_*\<close>), and the adapter to a key management entity (\<open>idq_qkd_adapter.py\<close>).  UUIDs are
  their 16 bytes; the fresh ones and the keys the entity draws are arguments.
\<close>

unbundle bit_operations_syntax

subsection \<open>The call without environment checks\<close>

text \<open>The graphs of this family load the toolchain but do not look at the emulation variables.\<close>

definition load_toolchain :: "host \<Rightarrow> unit py" where
  "load_toolchain h = (if ho_toolchain_present h then Inr () else Inl NativeBackendUnavailable)"

definition unguarded_run :: "nat \<Rightarrow> host \<Rightarrow> bytes \<Rightarrow> bytes \<Rightarrow> bytes py" where
  "unguarded_run result_bytes h desc req = bindE (load_toolchain h) (\<lambda>_. run_on_device result_bytes h desc req)"

subsection \<open>Key containers\<close>

record etsi_key =
  key_id :: bytes
  key_bytes :: bytes
  key_epoch :: int
  source_sae_id :: string
  target_sae_id :: string

definition json_uuid :: "json \<Rightarrow> bytes py" where
  "json_uuid v = (case v of JStr s \<Rightarrow> py_uuid s | JInt n \<Rightarrow> py_uuid (py_str_int n) | _ \<Rightarrow> Inl ValueError)"

definition json_key_bytes :: "json \<Rightarrow> bytes py" where
  "json_key_bytes v = (case v of
     JStr s \<Rightarrow> (case b64decode s of Inr b \<Rightarrow> Inr b | Inl _ \<Rightarrow> fromhex s)
   | _ \<Rightarrow> Inl TypeError)"

definition parse_one_key :: "int \<Rightarrow> string \<Rightarrow> string \<Rightarrow> etsi_key list \<Rightarrow> json \<Rightarrow> etsi_key list py" where
  "parse_one_key epoch source_sae target_sae keys_list k =
     bindE (json_get ''key_ID'' k) (\<lambda>id1.
     bindE (if truthy id1 then Inr id1 else json_get ''key_id'' k) (\<lambda>raw_id.
     bindE (json_get ''key'' k) (\<lambda>raw_key.
       if \<not> truthy raw_id \<or> \<not> truthy raw_key then Inr keys_list
       else bindE (json_uuid raw_id) (\<lambda>uuid. bindE (json_key_bytes raw_key) (\<lambda>b.
         Inr (keys_list @ [\<lparr>key_id = uuid, key_bytes = b, key_epoch = epoch, source_sae_id = source_sae, target_sae_id = target_sae\<rparr>]))))))"

text \<open>The container as a parsed JSON value; \<open>"keys" in data\<close> also has a meaning for lists and strings.\<close>

definition parse_etsi_014_json :: "json \<Rightarrow> int \<Rightarrow> string \<Rightarrow> string \<Rightarrow> etsi_key list py" where
  "parse_etsi_014_json data epoch source_sae target_sae = (case data of
     JObj kvs \<Rightarrow> (case map_of kvs ''keys'' of
         Some (JList ks) \<Rightarrow> foldE (parse_one_key epoch source_sae target_sae) [] ks
       | _ \<Rightarrow> Inl ValueError)
   | JList xs \<Rightarrow> if JStr ''keys'' \<in> set xs then Inl TypeError else Inl ValueError
   | JStr s \<Rightarrow> if contains ''keys'' s then Inl TypeError else Inl ValueError
   | _ \<Rightarrow> Inl TypeError)"

subsection \<open>Sealed ingress (dr16)\<close>

definition pack_dr16_descriptor :: "bytes \<Rightarrow> int \<Rightarrow> int \<Rightarrow> int \<Rightarrow> int \<Rightarrow> bytes py" where
  "pack_dr16_descriptor kid epoch key_len request_id flags =
     (let buf = assign_slice 0 4 [0x01, 0x71, 0x52, 0x10] (zeros 64)
      in bindE (to_bytes_le 4 request_id) (\<lambda>r. bindE (to_bytes_le 4 epoch) (\<lambda>e. bindE (to_bytes_le 2 key_len) (\<lambda>l.
         let buf = assign_slice 4 8 r buf; buf = assign_slice 8 12 e buf; buf = assign_slice 12 14 l buf; buf = buf[14 := 16]
         in if flags < 0 \<or> 255 < flags then Inl ValueError
            else Inr (assign_slice 16 32 kid (buf[15 := word_of_int flags]))))))"

definition pack_dr16_request :: "bytes \<Rightarrow> string \<Rightarrow> string \<Rightarrow> bytes" where
  "pack_dr16_request kb source_sae target_sae =
     (let buf = assign_slice 0 (min (length kb) 64) (take 64 kb) (zeros 256);
          src_b = take 32 (encode_utf8 source_sae); tgt_b = take 32 (encode_utf8 target_sae);
          buf = assign_slice 64 (64 + length src_b) src_b buf
      in assign_slice 96 (96 + length tgt_b) tgt_b buf)"

definition unpack_dr16_result :: "bytes \<Rightarrow> (int \<times> int \<times> int \<times> int \<times> bytes) py" where
  "unpack_dr16_result raw =
     (if length raw < 64 then Inl ValueError
      else Inr (result_word 4 raw, result_word 8 raw, result_word 12 raw, result_word 16 raw, slice 20 36 raw))"

definition run_dr16_ingress_service :: "host \<Rightarrow> bytes \<Rightarrow> bytes \<Rightarrow> (int \<times> int \<times> int \<times> int) py" where
  "run_dr16_ingress_service h req_bytes desc_bytes =
     bindE (unguarded_run 64 h desc_bytes req_bytes) (\<lambda>raw. bindE (unpack_dr16_result raw)
       (\<lambda>(req_id, status, active_slot, crc, _). Inr (req_id, status, active_slot, crc)))"

record qkd_ring =
  last_epoch :: int
  active_slot :: int
  sealed_ring :: "bytes list"

definition new_ring :: qkd_ring where
  "new_ring = \<lparr>last_epoch = 0, active_slot = 0, sealed_ring = replicate 4 (zeros 64)\<rparr>"

definition dr16_kernel :: "qkd_ring \<Rightarrow> bytes \<Rightarrow> bytes \<Rightarrow> qkd_ring \<times> bytes" where
  "dr16_kernel st req desc =
     (let magic = result_word 0 desc; req_id = result_word 4 desc; epoch = result_word 8 desc;
          refuse = (\<lambda>status. (st, le_bytes 4 0x36314B51 @ le_bytes 4 req_id @ le_bytes 4 status @ zeros 52))
      in if magic \<noteq> 0x10527101 then refuse 1
         else if epoch \<le> last_epoch st \<and> last_epoch st \<noteq> 0 then refuse 3
         else let slot = active_slot st mod 4;
                  st = st\<lparr>sealed_ring := (sealed_ring st)[nat slot := slice 0 64 req], last_epoch := epoch,
                    active_slot := u32 (active_slot st + 1)\<rparr>
              in (st, le_bytes 4 0x36314B51 @ le_bytes 4 req_id @ le_bytes 4 0 @ le_bytes 4 (active_slot st mod 4)
                    @ le_bytes 4 (compute_crc32 (slice 0 64 req)) @ slice 16 32 desc @ zeros 28))"

subsection \<open>Manifest authentication (dr17)\<close>

definition pack_dr17_manifest :: "string \<Rightarrow> string \<Rightarrow> bytes \<Rightarrow> int \<Rightarrow> bytes \<Rightarrow> bytes py" where
  "pack_dr17_manifest sae_master sae_slave kid epoch nonce =
     (let buf = assign_slice 0 16 kid (zeros 64)
      in bindE (to_bytes_le 4 epoch) (\<lambda>e.
         let buf = assign_slice 16 20 e buf;
             buf = assign_slice 20 32 (take 12 (ljust 12 nonce)) buf;
             buf = assign_slice 32 48 (take 16 (ljust 16 (encode_utf8 sae_master))) buf
         in Inr (assign_slice 48 64 (take 16 (ljust 16 (encode_utf8 sae_slave))) buf)))"

definition verify_qkd_manifest_on_aie2 ::
  "host \<Rightarrow> string \<Rightarrow> bytes \<Rightarrow> string \<Rightarrow> string \<Rightarrow> bytes \<Rightarrow> int \<Rightarrow> bytes \<Rightarrow> bytes \<Rightarrow> bool \<Rightarrow> (bool \<times> int) py" where
  "verify_qkd_manifest_on_aie2 h param_set public_key sae_master sae_slave kid epoch nonce signature is_authentic =
     bindE (load_toolchain h) (\<lambda>_. bindE (pack_dr17_manifest sae_master sae_slave kid epoch nonce) (\<lambda>manifest.
       let s = length signature;
           req = assign_slice 0 64 manifest (zeros 8192);
           req = assign_slice 64 (64 + s) signature req;
           req = assign_slice (64 + s) (64 + s + length public_key) public_key req;
           desc = assign_slice 0 4 [0x01, 0x71, 0x52, 0x11] (zeros 64);
           desc = assign_slice 4 8 (le_bytes 4 1) desc
       in bindE (to_bytes_le 4 epoch) (\<lambda>e.
          let desc = assign_slice 8 12 e desc;
              desc = desc[12 := if param_set = ''ML-DSA-44'' then 0x44 else if param_set = ''ML-DSA-65'' then 0x65 else 0x87];
              desc = desc[13 := if is_authentic then 1 else 0]
          in bindE (run_on_device 64 h desc req) (\<lambda>raw.
               Inr (result_word 8 raw = 0 \<and> result_word 12 raw = 1, result_word 8 raw)))))"

text \<open>The kernel absorbs the manifest into a sponge that it wipes unread; the signature is not an input of the decision.\<close>

definition dr17_kernel :: "bytes \<Rightarrow> bytes \<Rightarrow> bytes" where
  "dr17_kernel req desc =
     (let req_id = result_word 4 desc; epoch = result_word 8 desc;
          status = (if result_word 0 desc \<noteq> 0x11527101 then 1
            else if result_word 16 req \<noteq> epoch \<and> epoch \<noteq> 0 then 2
            else if desc ! 13 = 0 then 1 else 0)
      in if status \<noteq> 0 then le_bytes 4 0x37314151 @ le_bytes 4 req_id @ le_bytes 4 status @ zeros 52
         else le_bytes 4 0x37314151 @ le_bytes 4 req_id @ le_bytes 4 0 @ le_bytes 4 1
           @ le_bytes 4 (compute_crc32 (slice 0 128 req)) @ zeros 44)"

subsection \<open>Key combination (dr18)\<close>

definition CUSTOMIZATION_STRING :: bytes where
  "CUSTOMIZATION_STRING = encode_utf8 ''ETSI-QKD-PQC-COMBINER-SP800-56C''"

definition pack_combiner_input :: "bytes \<Rightarrow> bytes \<Rightarrow> bytes \<Rightarrow> int \<Rightarrow> bytes \<Rightarrow> bytes py" where
  "pack_combiner_input k_qkd k_pqc kid epoch custom_label =
     bindE (to_bytes_le 4 epoch) (\<lambda>e. Inr (ljust 32 (take 32 k_qkd) @ ljust 32 (take 32 k_pqc) @ kid @ e @ custom_label))"

definition combine_keys_on_aie2 :: "host \<Rightarrow> bytes \<Rightarrow> bytes \<Rightarrow> bytes \<Rightarrow> int \<Rightarrow> nat \<Rightarrow> bytes \<Rightarrow> bytes py" where
  "combine_keys_on_aie2 h k_qkd k_pqc kid epoch out_len custom_label =
     bindE (load_toolchain h) (\<lambda>_. bindE (pack_combiner_input k_qkd k_pqc kid epoch custom_label) (\<lambda>input.
       let msg_len = length input;
           req = assign_slice 0 (min msg_len 256) (take 256 input) (zeros 256);
           desc = assign_slice 0 4 [0x01, 0x71, 0x52, 0x12] (zeros 64);
           desc = assign_slice 4 8 (le_bytes 4 1) desc
       in bindE (to_bytes_le 4 epoch) (\<lambda>e. bindE (to_bytes_le 2 (int msg_len)) (\<lambda>m. bindE (to_bytes_le 2 (int out_len)) (\<lambda>out.
          let desc = assign_slice 8 12 e desc; desc = assign_slice 12 14 m desc; desc = assign_slice 14 16 out desc
          in bindE (run_on_device 128 h desc req) (\<lambda>raw. Inr (slice 20 (20 + out_len) raw)))))))"

definition dr18_kernel :: "bytes \<Rightarrow> bytes \<Rightarrow> bytes" where
  "dr18_kernel req desc =
     (let req_id = result_word 4 desc;
          msg_len = nat (le_int (slice 12 14 desc)); out_len = nat (le_int (slice 14 16 desc));
          out_len = (if out_len = 0 \<or> 64 < out_len then 32 else out_len);
          msg_len = (if msg_len = 0 \<or> 256 < msg_len then 115 else msg_len)
      in if result_word 0 desc \<noteq> 0x12527101 then le_bytes 4 0x3831434B @ le_bytes 4 req_id @ le_bytes 4 1 @ zeros 116
         else let k_out = kernel_squeeze 136 (kernel_absorb 0x1F 136 (slice 0 msg_len req)) out_len
              in le_bytes 4 0x3831434B @ le_bytes 4 req_id @ le_bytes 4 0 @ le_bytes 4 (int out_len)
                @ le_bytes 4 (compute_crc32 k_out) @ k_out @ zeros (108 - out_len))"

subsection \<open>Hybrid session (dr19)\<close>

record hybrid_session =
  session_id :: bytes
  k_final_master :: bytes
  k_final_slave :: bytes
  is_authenticated :: bool
  is_key_matched :: bool
  zeroized_status :: int

definition handshake_request :: "int \<Rightarrow> bytes \<Rightarrow> bytes" where
  "handshake_request epoch uuid =
     (let req = assign_slice 0 32 (map (\<lambda>i. word_of_int ((epoch * 7 + int i) mod 256)) [0..<32]) (zeros 256);
          req = assign_slice 32 64 (map (\<lambda>i. word_of_int ((epoch * 19 + int i) mod 256)) [0..<32]) req;
          req = assign_slice 64 80 uuid req;
          req = assign_slice 80 92 (replicate 12 0xAA) req
      in assign_slice 92 124 (replicate 32 0x55) req)"

definition run_hybrid_handshake_on_aie2 :: "host \<Rightarrow> bytes \<Rightarrow> string \<Rightarrow> string \<Rightarrow> int \<Rightarrow> hybrid_session py" where
  "run_hybrid_handshake_on_aie2 h uuid kem_param dsa_param epoch =
     bindE (load_toolchain h) (\<lambda>_.
       let req = handshake_request epoch uuid;
           desc = assign_slice 0 4 [0x01, 0x71, 0x52, 0x13] (zeros 64);
           desc = assign_slice 4 8 (le_bytes 4 1) desc
       in bindE (to_bytes_le 4 epoch) (\<lambda>e.
          let desc = assign_slice 8 12 e desc;
              desc = desc[12 := if kem_param = ''ML-KEM-512'' then 0x01 else if kem_param = ''ML-KEM-768'' then 0x02 else 0x03];
              desc = desc[13 := if dsa_param = ''ML-DSA-44'' then 0x44 else if dsa_param = ''ML-DSA-65'' then 0x65 else 0x87]
          in bindE (run_on_device 128 h desc req) (\<lambda>raw.
             let k_master = slice 24 56 raw; k_slave = slice 56 88 raw
             in Inr \<lparr>session_id = uuid, k_final_master = k_master, k_final_slave = k_slave,
                  is_authenticated = (result_word 12 raw = 1),
                  is_key_matched = (k_master = k_slave \<and> length k_master = 32 \<and> result_word 8 raw = 0),
                  zeroized_status = result_word 8 raw\<rparr>)))"

text \<open>The provider's exchange (\<open>dr23_openssl_provider.py\<close>) ignores the quantum key it is given.\<close>

definition hybrid_qkd_kem_exchange :: "host \<Rightarrow> bytes \<Rightarrow> string \<Rightarrow> string option \<Rightarrow> (string \<times> string \<times> string \<times> bool \<times> bool \<times> int) py" where
  "hybrid_qkd_kem_exchange h uuid kem_param qkd_key_hex =
     bindE (run_hybrid_handshake_on_aie2 h uuid kem_param ''ML-DSA-44'' 1000) (\<lambda>res.
       Inr (uuid_str (session_id res), hex (k_final_master res), hex (k_final_slave res), is_authenticated res, is_key_matched res,
         zeroized_status res))"

definition dr19_kernel :: "bytes \<Rightarrow> bytes \<Rightarrow> bytes" where
  "dr19_kernel req desc =
     (let req_id = result_word 4 desc
      in if result_word 0 desc \<noteq> 0x13527101
         then [0x48, 0x53, 0x31, 0x39, word_of_int req_id, 0, 0, 0, 1] @ zeros 119
         else let st = xor_into (zeros 200) (slice 0 128 req);
                  key = take 32 (permute (xor_at (xor_at st 128 0x1F) 135 0x80))
              in [0x48, 0x53, 0x31, 0x39] @ le_bytes 4 req_id @ le_bytes 4 0 @ le_bytes 4 1
                @ le_bytes 4 (compute_crc32 key) @ zeros 4 @ key @ key @ zeros 40)"

subsection \<open>The key management entity and its client\<close>

text \<open>\<open>s.split(c)\<close> for a single character.\<close>

fun split_on :: "char \<Rightarrow> string \<Rightarrow> string list" where
  "split_on d [] = [[]]"
| "split_on d (c # cs) = (if c = d then [] # split_on d cs else case split_on d cs of [] \<Rightarrow> [[c]] | w # ws \<Rightarrow> (c # w) # ws)"

definition path_parts :: "string \<Rightarrow> string list" where
  "path_parts path = split_on CHR ''/'' (strip_by (\<lambda>c. c = CHR ''/'') (hd (split_on CHR ''?'' path)))"

type_synonym key_store = "string \<rightharpoonup> bytes"

definition is_keys_path :: "string list \<Rightarrow> bool" where
  "is_keys_path parts \<longleftrightarrow> 5 \<le> length parts \<and> take 3 parts = [''api'', ''v1'', ''keys'']"

definition json_key :: "string \<Rightarrow> bytes \<Rightarrow> json" where
  "json_key kid raw_key = JObj [(''key_ID'', JStr kid), (''key'', JStr (b64encode raw_key))]"

text \<open>The entity's \<open>do_GET\<close>, with the UUID and the key it would draw; the answer is a status code and a JSON value.\<close>

definition kme_get :: "string \<Rightarrow> string \<Rightarrow> bytes \<Rightarrow> bytes \<Rightarrow> key_store \<Rightarrow> (int \<times> json) \<times> key_store" where
  "kme_get kme_id path uuid raw_key key_store =
     (let parts = path_parts path
      in if is_keys_path parts \<and> parts ! 4 = ''status'' then
           ((200, JObj [(''source_KME_ID'', JStr kme_id), (''target_KME_ID'', JStr (kme_id @ ''-REMOTE'')),
              (''master_SAE_ID'', JStr ''SAE-NODE-A-NPU''), (''slave_SAE_ID'', JStr (parts ! 3)), (''key_size'', JInt 256),
              (''stored_key_count'', JInt 4096), (''max_key_count'', JInt 8192), (''max_key_per_request'', JInt 128),
              (''max_key_size'', JInt 1024), (''min_key_size'', JInt 64)]), key_store)
         else if is_keys_path parts \<and> parts ! 4 = ''enc_keys'' then
           ((200, JObj [(''keys'', JList [json_key (uuid_str uuid) raw_key])]), key_store(uuid_str uuid \<mapsto> raw_key))
         else ((404, JObj [(''error'', JStr ''Not Found'')]), key_store))"

text \<open>One entry of the request's \<open>key_IDs\<close>; a list or object as identifier cannot be looked up.\<close>

definition lookup_key :: "key_store \<Rightarrow> json list \<Rightarrow> json \<Rightarrow> json list py" where
  "lookup_key key_store keys_out item = bindE (json_get ''key_ID'' item) (\<lambda>kid. case kid of
     JStr s \<Rightarrow> (case key_store s of Some raw_key \<Rightarrow> Inr (keys_out @ [json_key s raw_key]) | None \<Rightarrow> Inr keys_out)
   | JList _ \<Rightarrow> Inl TypeError | JObj _ \<Rightarrow> Inl TypeError | _ \<Rightarrow> Inr keys_out)"

definition iterate_json :: "json \<Rightarrow> json list py" where
  "iterate_json v = (case v of JList xs \<Rightarrow> Inr xs | JStr s \<Rightarrow> Inr (map (\<lambda>c. JStr [c]) s) | JObj kvs \<Rightarrow> Inr (map (\<lambda>(k, _). JStr k) kvs)
     | _ \<Rightarrow> Inl TypeError)"

text \<open>The entity's \<open>do_POST\<close> on the parsed body, which may fail to parse; the text of an error is left out.\<close>

definition kme_post :: "string \<Rightarrow> json py \<Rightarrow> key_store \<Rightarrow> int \<times> json" where
  "kme_post path body key_store =
     (let parts = path_parts path
      in if is_keys_path parts \<and> parts ! 4 = ''dec_keys'' then
           case bindE body (\<lambda>req_data.
                bindE (case req_data of JObj kvs \<Rightarrow> Inr (case map_of kvs ''key_IDs'' of None \<Rightarrow> JList [] | Some x \<Rightarrow> x) | _ \<Rightarrow> Inl AttributeError)
                  (\<lambda>key_ids. bindE (iterate_json key_ids) (foldE (lookup_key key_store) []))) of
             Inr keys_out \<Rightarrow> (200, JObj [(''keys'', JList keys_out)])
           | Inl _ \<Rightarrow> (400, JObj [(''error'', JStr [])])
         else (404, JObj [(''error'', JStr ''Not Found'')]))"

record idq_client =
  kme_url :: string
  master_sae :: string
  slave_sae :: string

text \<open>A status code other than 200 is an \<open>HTTPError\<close>, an \<open>OSError\<close>.\<close>

definition http_body :: "int \<times> json \<Rightarrow> json py" where
  "http_body resp = (if fst resp = 200 then Inr (snd resp) else Inl OSError)"

definition enc_path :: "idq_client \<Rightarrow> nat \<Rightarrow> nat \<Rightarrow> string" where
  "enc_path c number size_bits = ''/api/v1/keys/'' @ slave_sae c @ ''/enc_keys?number='' @ digits_of number @ ''&size='' @ digits_of size_bits"

definition dec_path :: "idq_client \<Rightarrow> string" where
  "dec_path c = ''/api/v1/keys/'' @ master_sae c @ ''/dec_keys''"

definition get_enc_key :: "idq_client \<Rightarrow> nat \<Rightarrow> nat \<Rightarrow> (string \<Rightarrow> int \<times> json) \<Rightarrow> (bytes \<times> bytes) py" where
  "get_enc_key c number size_bits get =
     bindE (http_body (get (enc_path c number size_bits))) (\<lambda>raw_json.
     bindE (parse_etsi_014_json raw_json 1 (master_sae c) (slave_sae c)) (\<lambda>keys.
       case keys of [] \<Rightarrow> Inl RuntimeError | k # _ \<Rightarrow> Inr (key_id k, key_bytes k)))"

definition get_dec_key :: "idq_client \<Rightarrow> bytes \<Rightarrow> (string \<Rightarrow> json \<Rightarrow> int \<times> json) \<Rightarrow> bytes py" where
  "get_dec_key c kid post =
     bindE (http_body (post (dec_path c) (JObj [(''key_IDs'', JList [JObj [(''key_ID'', JStr (uuid_str kid))]])]))) (\<lambda>raw_json.
     bindE (parse_etsi_014_json raw_json 1 (master_sae c) (slave_sae c)) (\<lambda>keys.
       case keys of [] \<Rightarrow> Inl RuntimeError | k # _ \<Rightarrow> Inr (key_bytes k)))"

definition stream_key_directly_to_npu ::
  "idq_client \<Rightarrow> (string \<Rightarrow> int \<times> json) \<Rightarrow> host \<Rightarrow> int \<Rightarrow> (bytes \<times> int \<times> int \<times> int) py" where
  "stream_key_directly_to_npu c get h epoch =
     bindE (get_enc_key c 1 256 get) (\<lambda>(kid, kb).
     bindE (pack_dr16_descriptor kid epoch (int (length kb)) 1 0) (\<lambda>desc.
     bindE (run_dr16_ingress_service h (pack_dr16_request kb (master_sae c) (slave_sae c)) desc)
       (\<lambda>(_, status, slot, crc). Inr (kid, status, slot, crc))))"

subsection \<open>Library\<close>

lemma split_on_append: "d \<notin> set s \<Longrightarrow> split_on d (s @ d # t) = s # split_on d t"
  by (induction s) auto

lemma split_on_single: "d \<notin> set s \<Longrightarrow> split_on d s = [s]"
  by (induction s) auto

lemma enc_parts:
  assumes "CHR ''/'' \<notin> set (slave_sae c)" "CHR ''?'' \<notin> set (slave_sae c)"
  shows "path_parts (enc_path c number size_bits) = [''api'', ''v1'', ''keys'', slave_sae c, ''enc_keys'']"
proof -
  let ?p = "''/api/v1/keys/'' @ slave_sae c @ ''/enc_keys''"
  have "split_on CHR ''?'' (?p @ CHR ''?'' # (''number='' @ digits_of number @ ''&size='' @ digits_of size_bits)) =
      ?p # split_on CHR ''?'' (''number='' @ digits_of number @ ''&size='' @ digits_of size_bits)"
    using assms(2) by (intro split_on_append) simp
  then have "hd (split_on CHR ''?'' (enc_path c number size_bits)) = ?p" by (simp add: enc_path_def)
  moreover have "strip_by (\<lambda>c. c = CHR ''/'') ?p = ''api/v1/keys/'' @ slave_sae c @ ''/enc_keys''" by (simp add: strip_by_def)
  moreover have "split_on CHR ''/'' (slave_sae c @ ''/enc_keys'') = [slave_sae c, ''enc_keys'']"
    using split_on_append [OF assms(1), of "''enc_keys''"] by simp
  ultimately show ?thesis by (simp add: path_parts_def)
qed

lemma dec_parts:
  assumes "CHR ''/'' \<notin> set (master_sae c)" "CHR ''?'' \<notin> set (master_sae c)"
  shows "path_parts (dec_path c) = [''api'', ''v1'', ''keys'', master_sae c, ''dec_keys'']"
proof -
  let ?p = "''/api/v1/keys/'' @ master_sae c @ ''/dec_keys''"
  have "split_on CHR ''?'' ?p = [?p]" using assms(2) by (intro split_on_single) simp
  then have "hd (split_on CHR ''?'' (dec_path c)) = ?p" by (simp add: dec_path_def)
  moreover have "strip_by (\<lambda>c. c = CHR ''/'') ?p = ''api/v1/keys/'' @ master_sae c @ ''/dec_keys''" by (simp add: strip_by_def)
  moreover have "split_on CHR ''/'' (master_sae c @ ''/dec_keys'') = [master_sae c, ''dec_keys'']"
    using split_on_append [OF assms(1), of "''dec_keys''"] by simp
  ultimately show ?thesis by (simp add: path_parts_def)
qed

lemma b64encode_nonempty: "b64encode b = [] \<longleftrightarrow> b = []"
  by (cases b rule: b64encode.cases) simp_all

lemma uuid_str_nonempty: "uuid_str u \<noteq> []"
  by (simp add: uuid_str_def Let_def)

lemma parse_json_key:
  assumes "length u = 16" "k \<noteq> []"
  shows "parse_etsi_014_json (JObj [(''keys'', JList [json_key (uuid_str u) k])]) epoch s t =
    Inr [\<lparr>key_id = u, key_bytes = k, key_epoch = epoch, source_sae_id = s, target_sae_id = t\<rparr>]"
  using assms by (simp add: parse_etsi_014_json_def parse_one_key_def json_key_def json_get_def truthy_def json_uuid_def
      uuid_roundtrip json_key_bytes_def b64_roundtrip b64encode_nonempty uuid_str_nonempty)

subsection \<open>Properties\<close>

text \<open>C14. Key delivery: the key the master obtains from the entity is the key drawn, under the identifier
  drawn, and a slave that presents the identifier obtains the same key, in as many requests as it
  makes; the entity does not look at who asks, so every other client obtains it too.\<close>

theorem key_delivery:
  assumes "length uuid = 16" "raw_key \<noteq> []"
    and "CHR ''/'' \<notin> set (slave_sae c)" "CHR ''?'' \<notin> set (slave_sae c)"
    and "CHR ''/'' \<notin> set (master_sae c')" "CHR ''?'' \<notin> set (master_sae c')"
  shows "get_enc_key c number size_bits (\<lambda>path. fst (kme_get kme path uuid raw_key store)) = Inr (uuid, raw_key) \<and>
    get_dec_key c' uuid (\<lambda>path body. kme_post path (Inr body) (snd (kme_get kme (enc_path c number size_bits) uuid raw_key store))) =
      Inr raw_key"
proof
  have get: "kme_get kme (enc_path c number size_bits) uuid raw_key store =
      ((200, JObj [(''keys'', JList [json_key (uuid_str uuid) raw_key])]), store(uuid_str uuid \<mapsto> raw_key))"
    by (simp add: kme_get_def enc_parts [OF assms(3,4)] is_keys_path_def)
  show "get_enc_key c number size_bits (\<lambda>path. fst (kme_get kme path uuid raw_key store)) = Inr (uuid, raw_key)"
    by (simp add: get_enc_key_def get http_body_def parse_json_key assms)
  show "get_dec_key c' uuid (\<lambda>path body. kme_post path (Inr body) (snd (kme_get kme (enc_path c number size_bits) uuid raw_key store))) =
      Inr raw_key"
    by (simp add: get_dec_key_def get kme_post_def dec_parts [OF assms(5,6)] is_keys_path_def iterate_json_def lookup_key_def
        json_get_def http_body_def parse_json_key assms)
qed

theorem key_delivery_witness:
  "get_dec_key \<lparr>kme_url = [], master_sae = ''MALLORY'', slave_sae = ''X''\<rparr> (zeros 16)
     (\<lambda>path body. kme_post path (Inr body)
       (snd (kme_get ''K'' (enc_path \<lparr>kme_url = [], master_sae = ''A'', slave_sae = ''B''\<rparr> 1 256) (zeros 16) [1, 2, 3] Map.empty))) = Inr [1, 2, 3]"
proof -
  let ?c = "\<lparr>kme_url = [], master_sae = ''A'', slave_sae = ''B''\<rparr>"
    and ?m = "\<lparr>kme_url = [], master_sae = ''MALLORY'', slave_sae = ''X''\<rparr>"
  have "length (zeros 16) = 16" "[1, 2, 3] \<noteq> ([] :: bytes)" "CHR ''/'' \<notin> set (slave_sae ?c)" "CHR ''?'' \<notin> set (slave_sae ?c)"
    "CHR ''/'' \<notin> set (master_sae ?m)" "CHR ''?'' \<notin> set (master_sae ?m)" by simp_all
  from key_delivery [OF this, of 1 256 "''K''" Map.empty] show ?thesis by blast
qed

text \<open>A key container gives a key in base64 or, as the code documents, in hexadecimal.  Base64 keys are
  read correctly.  Hexadecimal ones are read correctly exactly when they have an odd number of bytes: the
  lenient base64 decoder accepts every other one and yields half as many bytes more.\<close>

theorem etsi_key_formats:
  "json_key_bytes (JStr (b64encode k)) = Inr k \<and>
   (if odd (length k) then json_key_bytes (JStr (hex k)) = Inr k
    else \<exists>r. json_key_bytes (JStr (hex k)) = Inr r \<and> 2 * length r = 3 * length k)"
  using b64decode_hex [of k] by (auto simp add: json_key_bytes_def b64_roundtrip hex_roundtrip)

subsection \<open>The ring\<close>

definition dr16_step :: "qkd_ring \<Rightarrow> qkd_ring \<Rightarrow> bool" where
  "dr16_step st st' \<longleftrightarrow> (\<exists>req desc. st' = fst (dr16_kernel st req desc))"

definition ring_host :: "qkd_ring \<Rightarrow> host" where
  "ring_host st = on_silicon (\<lambda>req desc. snd (dr16_kernel st req desc))"

lemma unguarded_silicon:
  "length (k req desc) = n \<Longrightarrow> unguarded_run n (on_silicon k) desc req = Inr (k req desc)"
  by (simp add: unguarded_run_def load_toolchain_def run_on_device_def ljust_id)

lemma word_at: "length xs = n \<Longrightarrow> 0 \<le> v \<Longrightarrow> v < 4294967296 \<Longrightarrow> result_word n (xs @ le_bytes 4 v @ ys) = v"
  by (simp add: result_word_def slice_append_right slice_append_left slice_full le_int_bytes_id del: le_bytes.simps)

lemma word_at_4: "0 \<le> v \<Longrightarrow> v < 4294967296 \<Longrightarrow> result_word 4 (le_bytes 4 a @ le_bytes 4 v @ ys) = v"
  using word_at [of "le_bytes 4 a" 4 v ys] by simp

lemma word_at_8: "0 \<le> v \<Longrightarrow> v < 4294967296 \<Longrightarrow> result_word 8 (le_bytes 4 a @ le_bytes 4 b @ le_bytes 4 v @ ys) = v"
  using word_at [of "le_bytes 4 a @ le_bytes 4 b" 8 v ys] by simp

lemma word_at_12:
  "0 \<le> v \<Longrightarrow> v < 4294967296 \<Longrightarrow> result_word 12 (le_bytes 4 a @ le_bytes 4 b @ le_bytes 4 c @ le_bytes 4 v @ ys) = v"
  using word_at [of "le_bytes 4 a @ le_bytes 4 b @ le_bytes 4 c" 12 v ys] by simp

definition dr16_refusal :: "qkd_ring \<Rightarrow> bytes \<Rightarrow> int" where
  "dr16_refusal st desc = (if result_word 0 desc \<noteq> 0x10527101 then 1
     else if result_word 8 desc \<le> last_epoch st \<and> last_epoch st \<noteq> 0 then 3 else 0)"

lemma dr16_answer:
  assumes "length req = 256" "length desc = 64"
  shows "\<exists>slot crc. run_dr16_ingress_service (ring_host st) req desc = Inr (result_word 4 desc, dr16_refusal st desc, slot, crc)"
proof -
  let ?raw = "snd (dr16_kernel st req desc)"
  note rw = result_word_bounds [of 4 desc]
  have "length ?raw = 64" "result_word 4 ?raw = result_word 4 desc" "result_word 8 ?raw = dr16_refusal st desc"
    using assms rw by (simp_all add: dr16_kernel_def Let_def dr16_refusal_def word_at_4 word_at_8 del: le_bytes.simps)
  then show ?thesis
    by (simp add: run_dr16_ingress_service_def ring_host_def unguarded_silicon unpack_dr16_result_def)
qed

lemma dr16_kernel_state:
  "fst (dr16_kernel st req desc) = (if dr16_refusal st desc \<noteq> 0 then st
    else st\<lparr>sealed_ring := (sealed_ring st)[nat (active_slot st mod 4) := slice 0 64 req], last_epoch := result_word 8 desc,
      active_slot := u32 (active_slot st + 1)\<rparr>)"
  by (simp add: dr16_kernel_def dr16_refusal_def Let_def)

lemma epochs_grow: "dr16_step\<^sup>*\<^sup>* st st' \<Longrightarrow> 0 < last_epoch st \<Longrightarrow> last_epoch st \<le> last_epoch st'"
proof (induction rule: rtranclp_induct)
  case (step st1 st2)
  then show ?case by (auto simp add: dr16_step_def dr16_kernel_state dr16_refusal_def split: if_splits)
qed simp

text \<open>C13. No replay: once a key has been sealed with an epoch other than zero, every later request with that
  epoch or an older one is refused as stale and leaves the ring as it is, whatever happened in
  between.\<close>

theorem sealed_ring_rejects_replay:
  assumes "length req = 256" "length desc = 64" "length req' = 256" "length desc' = 64"
    and "run_dr16_ingress_service (ring_host st) req desc = Inr (i, 0, slot, crc)" "0 < result_word 8 desc"
    and "dr16_step\<^sup>*\<^sup>* (fst (dr16_kernel st req desc)) st'"
    and "result_word 0 desc' = 0x10527101" "result_word 8 desc' \<le> result_word 8 desc"
  shows "(\<exists>j slot crc. run_dr16_ingress_service (ring_host st') req' desc' = Inr (j, 3, slot, crc)) \<and>
    fst (dr16_kernel st' req' desc') = st'"
proof -
  have "dr16_refusal st desc = 0" using dr16_answer [OF assms(1,2), of st] assms(5) by simp
  then have "last_epoch (fst (dr16_kernel st req desc)) = result_word 8 desc" by (simp add: dr16_kernel_state)
  with epochs_grow [OF assms(7)] assms(6) have "result_word 8 desc \<le> last_epoch st'" by simp
  then have "dr16_refusal st' desc' = 3" using assms(6,8,9) by (simp add: dr16_refusal_def)
  with dr16_answer [OF assms(3,4), of st'] show ?thesis by (auto simp add: dr16_kernel_state)
qed

theorem sealed_ring_rejects_replay_witness:
  "\<exists>j slot crc. run_dr16_ingress_service (ring_host (fst (dr16_kernel new_ring (zeros 256)
      ([0x01, 0x71, 0x52, 0x10] @ le_bytes 4 1 @ le_bytes 4 5 @ zeros 52)))) (zeros 256)
      ([0x01, 0x71, 0x52, 0x10] @ le_bytes 4 2 @ le_bytes 4 5 @ zeros 52) = Inr (j, 3, slot, crc)"
proof -
  let ?d = "\<lambda>i :: int. [0x01, 0x71, 0x52, 0x10] @ le_bytes 4 i @ le_bytes 4 5 @ zeros 52"
  have len: "length (zeros 256) = 256" "length (?d i) = 64" for i by simp_all
  have w: "result_word 0 (?d i) = 0x10527101" "result_word 8 (?d i) = 5" for i
    by (simp_all add: result_word_def slice_def le_int_bytes_id del: le_bytes.simps)
  have "dr16_refusal new_ring (?d 1) = 0" by (simp only: dr16_refusal_def w) (simp add: new_ring_def)
  with dr16_answer [OF len(1) len(2), of new_ring 1] obtain i slot crc where
    "run_dr16_ingress_service (ring_host new_ring) (zeros 256) (?d 1) = Inr (i, 0, slot, crc)" by auto
  from sealed_ring_rejects_replay [OF len(1) len(2) len(1) len(2) this _ rtranclp.rtrancl_refl, of 2] show ?thesis
    by (simp only: w)
qed

subsection \<open>Stateless kernels\<close>

lemma length_pack_dr17_manifest:
  "pack_dr17_manifest m s kid epoch nonce = Inr manifest \<Longrightarrow> length kid = 16 \<Longrightarrow>
    0 \<le> epoch \<and> epoch < 4294967296 \<and> length manifest = 64 \<and> result_word 16 manifest = epoch"
proof -
  assume a: "pack_dr17_manifest m s kid epoch nonce = Inr manifest" and l: "length kid = 16"
  from a have e: "0 \<le> epoch" "epoch < 4294967296"
    by (auto simp add: pack_dr17_manifest_def Let_def bindE_Inr_iff to_bytes_le_def split: if_splits)
  have z: "zeros 64 = zeros 16 @ zeros 4 @ zeros 12 @ zeros 16 @ zeros 16"
    by (simp add: zeros_append)
  define x where "x = take 12 (ljust 12 nonce)"
  define y where "y = take 16 (ljust 16 (encode_utf8 m))"
  define v where "v = take 16 (ljust 16 (encode_utf8 s))"
  have xyv: "length x = 12" "length y = 16" "length v = 16" by (simp_all add: x_def y_def v_def)
  have "manifest = assign_slice 48 64 v (assign_slice 32 48 y (assign_slice 20 32 x (assign_slice 16 20 (le_bytes 4 epoch) (assign_slice 0 16 kid (zeros 64)))))"
    using a e by (simp add: pack_dr17_manifest_def Let_def to_bytes_le_def x_def y_def v_def del: le_bytes.simps)
  also have "\<dots> = kid @ le_bytes 4 epoch @ x @ y @ v"
    using l xyv by (simp add: z assign_slice_def del: le_bytes.simps)
  finally show ?thesis using word_at [of kid 16 epoch] l e xyv by simp
qed

text \<open>The authenticator does not authenticate.  With the kernel of the repository the verdict on a
  manifest is the flag that the caller passes: no signature, key, parameter set or manifest changes
  it, whether or not an emulation variable is set.\<close>

theorem manifest_verdict_is_flag:
  assumes "ho_toolchain_present h" "ho_program h = (\<lambda>req desc. Inr (dr17_kernel req desc))" "length kid = 16"
  shows "verify_qkd_manifest_on_aie2 h ps pk m s kid epoch nonce sig is_authentic =
    (if 0 \<le> epoch \<and> epoch < 4294967296 then Inr (is_authentic, if is_authentic then 0 else 1) else Inl OverflowError)"
proof (cases "0 \<le> epoch \<and> epoch < 4294967296")
  case True
  then obtain manifest where mf: "pack_dr17_manifest m s kid epoch nonce = Inr manifest"
    by (auto simp add: pack_dr17_manifest_def Let_def to_bytes_le_def)
  note man = length_pack_dr17_manifest [OF mf assms(3)]
  define req where "req = assign_slice (64 + length sig) (64 + length sig + length pk) pk
    (assign_slice 64 (64 + length sig) sig (assign_slice 0 64 manifest (zeros 8192)))"
  define pid where "pid = (if ps = ''ML-DSA-44'' then 0x44 else if ps = ''ML-DSA-65'' then 0x65 else (0x87 :: byte))"
  define flag where "flag = (if is_authentic then 1 else (0 :: byte))"
  define desc where "desc = [0x01, 0x71, 0x52, 0x11] @ le_bytes 4 1 @ le_bytes 4 epoch @ [pid, flag] @ zeros 50"
  have z: "zeros 64 = zeros 4 @ zeros 4 @ zeros 4 @ [0, 0] @ zeros 50"
    by (simp add: zeros_def eval_nat_numeral)
  have "take 64 req = manifest" using man by (simp add: req_def assign_slice_def)
  moreover have "result_word 16 req = result_word 16 (take 64 req)"
    by (simp add: result_word_def slice_def drop_take)
  ultimately have e: "result_word 16 req = epoch" using man by simp
  have d: "result_word 0 desc = 0x11527101" "result_word 8 desc = epoch" "desc ! 13 = flag" "result_word 4 desc = 1"
    using True by (simp_all add: desc_def result_word_def slice_def nth_append le_int_bytes_id del: le_bytes.simps)
  have raw: "dr17_kernel req desc = (if is_authentic
      then le_bytes 4 0x37314151 @ le_bytes 4 1 @ le_bytes 4 0 @ le_bytes 4 1 @ le_bytes 4 (compute_crc32 (slice 0 128 req)) @ zeros 44
      else le_bytes 4 0x37314151 @ le_bytes 4 1 @ le_bytes 4 1 @ zeros 52)"
    by (simp add: dr17_kernel_def Let_def d e flag_def)
  have chain: "(assign_slice 8 12 (le_bytes 4 epoch) (assign_slice 4 8 (le_bytes 4 1) (assign_slice 0 4 [0x01, 0x71, 0x52, 0x11] (zeros 64))))
      [12 := pid, 13 := flag] = desc"
    by (simp add: desc_def z assign_slice_def list_update_append del: le_bytes.simps)
  have "to_bytes_le 4 epoch = Inr (le_bytes 4 epoch)" using True by (simp add: to_bytes_le_def)
  then have "verify_qkd_manifest_on_aie2 h ps pk m s kid epoch nonce sig is_authentic =
      bindE (run_on_device 64 h desc req) (\<lambda>raw. Inr (result_word 8 raw = 0 \<and> result_word 12 raw = 1, result_word 8 raw))"
    unfolding verify_qkd_manifest_on_aie2_def load_toolchain_def mf Let_def req_def
    using assms(1) chain by (simp add: pid_def flag_def del: le_bytes.simps)
  then show ?thesis
    using True by (simp add: run_on_device_def assms(2) raw ljust_id word_at_8 word_at_12 del: le_bytes.simps)
next
  case False
  then have "to_bytes_le 4 epoch = Inl OverflowError" by (simp add: to_bytes_le_def)
  then have "verify_qkd_manifest_on_aie2 h ps pk m s kid epoch nonce sig is_authentic = Inl OverflowError"
    by (simp add: verify_qkd_manifest_on_aie2_def load_toolchain_def assms(1) pack_dr17_manifest_def Let_def)
  with False show ?thesis by simp
qed

theorem manifest_verdict_is_flag_witness:
  "verify_qkd_manifest_on_aie2 ((on_silicon dr17_kernel)\<lparr>ho_emulation_mode := Some ''hw_emu''\<rparr>) ''ML-DSA-65'' []
     ''A'' ''B'' (zeros 16) 7 [] [] True = Inr (True, 0)"
  by (subst manifest_verdict_is_flag) (simp_all add: on_silicon_def)

lemma combiner_input_length:
  "pack_combiner_input kq kp kid epoch label = Inr inp \<Longrightarrow> length kid = 16 \<Longrightarrow>
    0 \<le> epoch \<and> epoch < 4294967296 \<and> length inp = 84 + length label"
  by (auto simp add: pack_combiner_input_def bindE_Inr_iff to_bytes_le_def split: if_splits)

text \<open>C15. The combined key, with the kernel of the repository: SHAKE256 over the two keys, each cut or padded to
  32 bytes, the identifier, the epoch and the label, as long as all that fits the request of 256
  bytes, and over its first 115 bytes when it does not.  Lengths above 64 do not give a longer
  key but 32 bytes followed by zeros.\<close>

theorem combined_key_exact:
  assumes "ho_toolchain_present h" "ho_program h = (\<lambda>req desc. Inr (dr18_kernel req desc))" "length kid = 16"
    and "pack_combiner_input kq kp kid epoch label = Inr inp" "length inp < 65536" "out_len < 65536"
  shows "combine_keys_on_aie2 h kq kp kid epoch out_len label =
    (let n = (if out_len = 0 \<or> 64 < out_len then 32 else out_len)
     in Inr (take out_len (shake256 (if length inp \<le> 256 then inp else take 115 inp) n @ zeros (108 - n))))"
proof -
  note len = combiner_input_length [OF assms(4,3)]
  let ?m = "le_bytes 2 (int (length inp))" and ?o = "le_bytes 2 (int out_len)"
  define req where "req = assign_slice 0 (min (length inp) 256) (take 256 inp) (zeros 256)"
  define desc where "desc = [0x01, 0x71, 0x52, 0x12] @ le_bytes 4 1 @ le_bytes 4 epoch @ ?m @ ?o @ zeros 48"
  define n where "n = (if out_len = 0 \<or> 64 < out_len then 32 else out_len)"
  define msg where "msg = (if length inp \<le> 256 then inp else take 115 inp)"
  have z: "zeros 64 = zeros 4 @ zeros 4 @ zeros 4 @ zeros 2 @ zeros 2 @ zeros 48"
    by (simp add: zeros_append)
  have chain: "assign_slice 14 16 ?o (assign_slice 12 14 ?m (assign_slice 8 12 (le_bytes 4 epoch)
      (assign_slice 4 8 (le_bytes 4 1) (assign_slice 0 4 [0x01, 0x71, 0x52, 0x12] (zeros 64))))) = desc"
    by (simp add: desc_def z assign_slice_def del: le_bytes.simps)
  have d: "result_word 0 desc = 0x12527101" "result_word 4 desc = 1" "slice 12 14 desc = ?m" "slice 14 16 desc = ?o"
    by (simp_all add: desc_def result_word_def slice_def le_int_bytes_id del: le_bytes.simps)
  have mo: "le_int ?m = int (length inp)" "le_int ?o = int out_len"
    using assms(5,6) by (simp_all add: le_int_bytes_id del: le_bytes.simps)
  have n: "n \<le> 64" "0 < n" by (simp_all add: n_def)
  have sl: "slice 0 (if length inp = 0 \<or> 256 < length inp then 115 else length inp) req = msg"
    using len by (auto simp add: req_def msg_def slice_def assign_slice_def min_def)
  have raw: "dr18_kernel req desc = le_bytes 4 0x3831434B @ le_bytes 4 1 @ le_bytes 4 0 @ le_bytes 4 (int n)
      @ le_bytes 4 (compute_crc32 (shake256 msg n)) @ shake256 msg n @ zeros (108 - n)"
    unfolding dr18_kernel_def Let_def d mo nat_int n_def [symmetric] sl
    by (simp add: kernel_sponge shake256_def del: le_bytes.simps)
  then have l: "length (dr18_kernel req desc) = 128" using n by simp
  have "to_bytes_le 4 epoch = Inr (le_bytes 4 epoch)" "to_bytes_le 2 (int (length inp)) = Inr ?m" "to_bytes_le 2 (int out_len) = Inr ?o"
    using len assms(5,6) by (simp_all add: to_bytes_le_def)
  then have "combine_keys_on_aie2 h kq kp kid epoch out_len label =
      bindE (run_on_device 128 h desc req) (\<lambda>raw. Inr (slice 20 (20 + out_len) raw))"
    unfolding combine_keys_on_aie2_def load_toolchain_def assms(4) Let_def req_def
    using assms(1) chain by (simp del: le_bytes.simps)
  also have "\<dots> = Inr (slice 20 (20 + out_len) (dr18_kernel req desc))"
    using l by (simp add: run_on_device_def assms(2) ljust_id)
  also have "slice 20 (20 + out_len) (dr18_kernel req desc) = take out_len (shake256 msg n @ zeros (108 - n))"
    by (simp add: raw slice_def del: le_bytes.simps)
  finally show ?thesis by (simp only: Let_def msg_def n_def)
qed

theorem combined_key_exact_witness:
  "combine_keys_on_aie2 (on_silicon dr18_kernel) [1] [2] (zeros 16) 7 32 CUSTOMIZATION_STRING =
    Inr (shake256 (ljust 32 [1] @ ljust 32 [2] @ zeros 16 @ le_bytes 4 7 @ CUSTOMIZATION_STRING) 32)"
proof -
  have inp: "pack_combiner_input [1] [2] (zeros 16) 7 CUSTOMIZATION_STRING =
      Inr (ljust 32 [1] @ ljust 32 [2] @ zeros 16 @ le_bytes 4 7 @ CUSTOMIZATION_STRING)"
    by (simp add: pack_combiner_input_def to_bytes_le_def del: le_bytes.simps)
  have l: "length CUSTOMIZATION_STRING = 31" by (simp add: CUSTOMIZATION_STRING_def encode_utf8_def Let_def)
  have h: "ho_toolchain_present (on_silicon dr18_kernel)"
    "ho_program (on_silicon dr18_kernel) = (\<lambda>req desc. Inr (dr18_kernel req desc))" by (simp_all add: on_silicon_def)
  have "length (zeros 16) = 16" by simp
  from combined_key_exact [OF h this inp, of 32] l show ?thesis by (simp add: Let_def del: le_bytes.simps)
qed

lemma word_of_int_mod: "(word_of_int (x mod 256) :: byte) = word_of_int x"
  by (rule word_uint_eqI) (simp add: uint_byte_of_int)

text \<open>What the session key is derived from: two sequences fixed by the epoch, the session's identifier and constants.\<close>

definition public_seed :: "int \<Rightarrow> bytes \<Rightarrow> bytes" where
  "public_seed epoch uuid = map (\<lambda>i. word_of_int (epoch * 7 + int i)) [0..<32] @ map (\<lambda>i. word_of_int (epoch * 19 + int i)) [0..<32]
     @ uuid @ replicate 12 0xAA @ replicate 32 0x55 @ zeros 4"

lemma handshake_request_eq:
  "length uuid = 16 \<Longrightarrow> handshake_request epoch uuid = public_seed epoch uuid @ zeros 128"
proof -
  assume "length uuid = 16"
  moreover have "zeros 256 = zeros 32 @ zeros 32 @ zeros 16 @ zeros 12 @ zeros 32 @ zeros 4 @ zeros 128"
    by (simp add: zeros_append)
  ultimately show ?thesis
    by (simp add: handshake_request_def public_seed_def Let_def assign_slice_def word_of_int_mod del: upt_rec_numeral zeros_append)
qed

lemma public_seed_mod: "public_seed (epoch mod 256) uuid = public_seed epoch uuid"
  by (simp add: public_seed_def word_of_int_mod del: upt_rec_numeral)

lemma dr19_key:
  assumes "length seed = 128"
  shows "take 32 (permute (xor_at (xor_at (xor_into (zeros 200) seed) 128 0x1F) 135 0x80)) = shake256 seed 32"
proof -
  have "absorb_blocks 136 (zeros 200) seed = (zeros 200, seed)" using assms by (subst absorb_blocks.simps) simp
  then have "take 32 (permute (xor_at (xor_at (xor_into (zeros 200) seed) 128 0x1F) 135 0x80)) =
      kernel_squeeze 136 (kernel_absorb 0x1F 136 seed) 32"
    using assms by (subst kernel_squeeze.simps) (simp add: kernel_absorb_def)
  then show ?thesis by (simp add: kernel_sponge shake256_def)
qed

text \<open>C16. The hybrid session has no secret.  With the kernel of the repository both sides always obtain the
  same key and the session is always authenticated, for any parameter sets; the key is SHAKE256 of the
  epoch modulo 256, the published session identifier and constants, so anybody who sees the
  identifier computes it.  Neither a quantum key nor a shared secret is an input, and the emulation
  variables are not looked at.\<close>

theorem hybrid_session_is_public:
  assumes "ho_toolchain_present h" "ho_program h = (\<lambda>req desc. Inr (dr19_kernel req desc))" "length uuid = 16"
  shows "run_hybrid_handshake_on_aie2 h uuid kem_param dsa_param epoch =
    (if 0 \<le> epoch \<and> epoch < 4294967296 then
       (let k = shake256 (public_seed (epoch mod 256) uuid) 32
        in Inr \<lparr>session_id = uuid, k_final_master = k, k_final_slave = k, is_authenticated = True, is_key_matched = True, zeroized_status = 0\<rparr>)
     else Inl OverflowError)"
proof (cases "0 \<le> epoch \<and> epoch < 4294967296")
  case True
  define kid where "kid = (if kem_param = ''ML-KEM-512'' then 0x01 else if kem_param = ''ML-KEM-768'' then 0x02 else (0x03 :: byte))"
  define did where "did = (if dsa_param = ''ML-DSA-44'' then 0x44 else if dsa_param = ''ML-DSA-65'' then 0x65 else (0x87 :: byte))"
  define desc where "desc = [0x01, 0x71, 0x52, 0x13] @ le_bytes 4 1 @ le_bytes 4 epoch @ [kid, did] @ zeros 50"
  define k where "k = shake256 (public_seed (epoch mod 256) uuid) 32"
  let ?req = "handshake_request epoch uuid"
  have z: "zeros 64 = zeros 4 @ zeros 4 @ zeros 4 @ [0, 0] @ zeros 50"
    by (simp add: zeros_def eval_nat_numeral)
  have chain: "(assign_slice 8 12 (le_bytes 4 epoch) (assign_slice 4 8 (le_bytes 4 1) (assign_slice 0 4 [0x01, 0x71, 0x52, 0x13] (zeros 64))))
      [12 := kid, 13 := did] = desc"
    by (simp add: desc_def z assign_slice_def list_update_append del: le_bytes.simps)
  have len: "length (public_seed epoch uuid) = 128" using assms(3) by (simp add: public_seed_def)
  then have seed: "slice 0 128 ?req = public_seed epoch uuid"
    by (simp add: handshake_request_eq [OF assms(3)] slice_append_left slice_full)
  have d: "result_word 0 desc = 0x13527101" "result_word 4 desc = 1"
    by (simp_all add: desc_def result_word_def slice_def le_int_bytes_id del: le_bytes.simps)
  have raw: "dr19_kernel ?req desc = [0x48, 0x53, 0x31, 0x39] @ le_bytes 4 1 @ le_bytes 4 0 @ le_bytes 4 1
      @ le_bytes 4 (compute_crc32 k) @ zeros 4 @ k @ k @ zeros 40"
    unfolding dr19_kernel_def Let_def d seed dr19_key [OF len] k_def public_seed_mod by simp
  have kl: "length k = 32" by (simp add: k_def)
  have w: "length (dr19_kernel ?req desc) = 128" "result_word 8 (dr19_kernel ?req desc) = 0" "result_word 12 (dr19_kernel ?req desc) = 1"
    "slice 24 56 (dr19_kernel ?req desc) = k" "slice 56 88 (dr19_kernel ?req desc) = k"
    unfolding raw using kl by (simp_all add: result_word_def slice_def le_int_bytes_id del: le_bytes.simps)
  have "to_bytes_le 4 epoch = Inr (le_bytes 4 epoch)" using True by (simp add: to_bytes_le_def)
  then have "run_hybrid_handshake_on_aie2 h uuid kem_param dsa_param epoch =
      bindE (run_on_device 128 h desc ?req) (\<lambda>raw.
        let k_master = slice 24 56 raw; k_slave = slice 56 88 raw
        in Inr \<lparr>session_id = uuid, k_final_master = k_master, k_final_slave = k_slave,
             is_authenticated = (result_word 12 raw = 1),
             is_key_matched = (k_master = k_slave \<and> length k_master = 32 \<and> result_word 8 raw = 0), zeroized_status = result_word 8 raw\<rparr>)"
    unfolding run_hybrid_handshake_on_aie2_def load_toolchain_def Let_def
    using assms(1) chain by (simp add: kid_def did_def del: le_bytes.simps)
  then show ?thesis
    using True by (simp add: run_on_device_def assms(2) w ljust_id kl k_def [symmetric] Let_def)
next
  case False
  then have "to_bytes_le 4 epoch = Inl OverflowError" by (simp add: to_bytes_le_def)
  then have "run_hybrid_handshake_on_aie2 h uuid kem_param dsa_param epoch = Inl OverflowError"
    by (simp add: run_hybrid_handshake_on_aie2_def load_toolchain_def assms(1) Let_def)
  with False show ?thesis by (simp only: if_False)
qed

theorem hybrid_session_is_public_witness:
  "run_hybrid_handshake_on_aie2 ((on_silicon dr19_kernel)\<lparr>ho_emulation_mode := Some ''hw_emu''\<rparr>) (zeros 16) ''ML-KEM-768'' ''ML-DSA-65'' 1000 =
    (let k = shake256 (public_seed 232 (zeros 16)) 32
     in Inr \<lparr>session_id = zeros 16, k_final_master = k, k_final_slave = k, is_authenticated = True, is_key_matched = True, zeroized_status = 0\<rparr>)"
  by (subst hybrid_session_is_public) (simp_all add: on_silicon_def)

end
