(* ===== verification/Qrng.thy ===== *)
theory Qrng
  imports Qkd Provider
begin

text \<open>
  The quantum entropy reservoir (\<open>dr27_qrng_openapi_abi.py\<close>, \<open>dr27_qrng_reservoir_graph.py\<close>,
  \<open>kernels/dr27_qrng_reservoir_service.cc\<close>): the health tests, the formats, the operations of the host,
  and the ring buffer on the device as a state machine, with the queue it implements.  The quality
  figure and the version of a JSON container are left out.
\<close>

unbundle bit_operations_syntax

subsection \<open>Health tests\<close>

definition rct_step :: "bytes \<Rightarrow> nat \<times> nat \<Rightarrow> nat \<Rightarrow> nat \<times> nat" where
  "rct_step data st i = (case st of (max_rct, current_rct) \<Rightarrow>
     if data ! i = data ! (i - 1)
     then (if max_rct < current_rct + 1 then current_rct + 1 else max_rct, current_rct + 1)
     else (max_rct, 1))"

definition eval_sp800_90b_health :: "bytes \<Rightarrow> bool \<times> nat \<times> nat" where
  "eval_sp800_90b_health data =
     (if length data = 0 then (False, 0, 0)
      else let max_rct = fst (foldl (rct_step data) (1, 1) [1..<length data])
      in if 10 \<le> max_rct then (False, max_rct, 0)
         else let window_size = min (length data) 512;
                  max_apt = (if 1 < window_size then length (filter (\<lambda>b. b = data ! 0) (take window_size data)) else 0)
              in if 1 < window_size \<and> 177 \<le> max_apt then (False, max_rct, max_apt) else (True, max_rct, max_apt))"

subsection \<open>Containers\<close>

definition json_byte :: "json \<Rightarrow> byte py" where
  "json_byte v = (case v of
     JInt n \<Rightarrow> if 0 \<le> n \<and> n < 256 then Inr (word_of_int n) else Inl ValueError
   | JBool b \<Rightarrow> Inr (if b then 1 else 0)
   | _ \<Rightarrow> Inl TypeError)"

definition json_text :: "(string \<Rightarrow> bytes py) \<Rightarrow> json \<Rightarrow> bytes py" where
  "json_text decode v = (case v of JStr s \<Rightarrow> decode s | _ \<Rightarrow> Inl TypeError)"

definition parse_qrng_openapi_json :: "(string \<times> json) list \<Rightarrow> bytes py" where
  "parse_qrng_openapi_json data = (case map_of data ''entropy_bytes_b64'' of
     Some v \<Rightarrow> json_text b64decode v
   | None \<Rightarrow> (case map_of data ''entropy_hex'' of
       Some v \<Rightarrow> json_text fromhex v
     | None \<Rightarrow> (case map_of data ''entropy'' of
         Some (JList xs) \<Rightarrow> mapE json_byte xs
       | _ \<Rightarrow> Inl ValueError)))"

definition format_qrng_openapi_json :: "bytes \<Rightarrow> int \<Rightarrow> (string \<times> json) list" where
  "format_qrng_openapi_json entropy source_id =
     [(''version'', JStr ''1.0''), (''source_id'', JInt source_id), (''timestamp'', JStr ''2026-08-29T19:00:00Z''),
      (''entropy_hex'', JStr (hex entropy)), (''entropy_bytes_b64'', JStr (b64encode entropy)),
      (''length_bytes'', JInt (int (length entropy)))]"

subsection \<open>Operations of the host\<close>

abbreviation (input) OP_INGRESS :: int where "OP_INGRESS \<equiv> 1"
abbreviation (input) OP_DRAIN :: int where "OP_DRAIN \<equiv> 2"
abbreviation (input) OP_STATUS :: int where "OP_STATUS \<equiv> 3"
abbreviation (input) OP_ZEROIZE :: int where "OP_ZEROIZE \<equiv> 4"

record dr27_result =
  r27_magic :: int
  r27_req_id :: int
  r27_status :: int
  r27_fill_level :: int
  r27_capacity :: int
  r27_mode :: int
  r27_crc32 :: int
  r27_payload :: bytes

definition pack_dr27_descriptor :: "int \<Rightarrow> int \<Rightarrow> int \<Rightarrow> int \<Rightarrow> int \<Rightarrow> int \<Rightarrow> bytes py" where
  "pack_dr27_descriptor req_id op_code entropy_len source_id rct_val apt_val =
     bindE (struct_pack_into [U 4, U 4, U 2, U 2] (zeros 32) 0 [0x27527101, req_id, op_code, 0])
       (\<lambda>desc. struct_pack_into [U 2, U 2, U 4, U 4] desc 12 [entropy_len, source_id, rct_val, apt_val])"

definition unpack_dr27_result :: "bytes \<Rightarrow> dr27_result py" where
  "unpack_dr27_result raw =
     (if length raw < 64 then Inl ValueError
      else bindE (struct_unpack_from [U 4, U 4, U 4] raw 0) (\<lambda>a.
           bindE (struct_unpack_from [U 2, U 2, U 2, U 2] raw 12) (\<lambda>b.
           bindE (struct_unpack_from [U 4] raw 20) (\<lambda>c.
             Inr \<lparr>r27_magic = a ! 0, r27_req_id = a ! 1, r27_status = a ! 2, r27_fill_level = b ! 0, r27_capacity = b ! 1,
               r27_mode = b ! 2, r27_crc32 = c ! 0, r27_payload = slice 24 56 raw\<rparr>))))"

definition dr27_request :: "bytes \<Rightarrow> bytes" where
  "dr27_request entropy_bytes =
     (let copy_len = min (length entropy_bytes) 128
      in if entropy_bytes \<noteq> [] then assign_slice 0 copy_len (take copy_len entropy_bytes) (zeros 128) else zeros 128)"

definition execute_dr27_op_on_silicon :: "host \<Rightarrow> int \<Rightarrow> bytes \<Rightarrow> int \<Rightarrow> int \<Rightarrow> nat \<Rightarrow> nat \<Rightarrow> dr27_result py" where
  "execute_dr27_op_on_silicon h op_code entropy_bytes req_id source_id rct_val apt_val =
     bindE (load_toolchain h) (\<lambda>_.
     bindE (pack_dr27_descriptor req_id op_code (int (length entropy_bytes)) source_id (int rct_val) (int apt_val)) (\<lambda>desc.
     bindE (run_on_device 64 h desc (dr27_request entropy_bytes)) unpack_dr27_result))"

definition ingress_entropy :: "host \<Rightarrow> bytes \<Rightarrow> int \<Rightarrow> int \<Rightarrow> dr27_result py" where
  "ingress_entropy h entropy_bytes source_id req_id =
     (case eval_sp800_90b_health entropy_bytes of (is_healthy, max_rct, max_apt) \<Rightarrow>
        execute_dr27_op_on_silicon h OP_INGRESS entropy_bytes req_id source_id max_rct max_apt)"

definition drain_entropy :: "host \<Rightarrow> int \<Rightarrow> (bytes \<times> dr27_result) py" where
  "drain_entropy h req_id =
     bindE (execute_dr27_op_on_silicon h OP_DRAIN [] req_id 1 1 1) (\<lambda>res. Inr (r27_payload res, res))"

definition get_reservoir_telemetry :: "host \<Rightarrow> dr27_result py" where
  "get_reservoir_telemetry h = execute_dr27_op_on_silicon h OP_STATUS [] 1 1 1 1"

definition zeroize_reservoir :: "host \<Rightarrow> dr27_result py" where
  "zeroize_reservoir h = execute_dr27_op_on_silicon h OP_ZEROIZE [] 1 1 1 1"

subsection \<open>The ring buffer on the device\<close>

record reservoir =
  rv_slots :: "bytes list"
  rv_head :: nat
  rv_tail :: nat
  rv_fill :: nat
  rv_mode :: nat

definition empty_reservoir :: reservoir where
  "empty_reservoir = \<lparr>rv_slots = replicate 16 (zeros 32), rv_head = 0, rv_tail = 0, rv_fill = 0, rv_mode = 1\<rparr>"

definition reservoir_store :: "bytes \<Rightarrow> reservoir \<Rightarrow> reservoir" where
  "reservoir_store block st =
     (let fill = rv_fill st + 1
      in st\<lparr>rv_slots := (rv_slots st)[rv_head st := block], rv_head := (rv_head st + 1) mod 16, rv_fill := fill,
           rv_mode := (if 5 \<le> fill then 0 else rv_mode st)\<rparr>)"

definition reservoir_take :: "reservoir \<Rightarrow> bytes \<times> reservoir" where
  "reservoir_take st =
     (let fill = rv_fill st - 1
      in (rv_slots st ! rv_tail st,
          st\<lparr>rv_slots := (rv_slots st)[rv_tail st := zeros 32], rv_tail := (rv_tail st + 1) mod 16, rv_fill := fill,
            rv_mode := (if fill \<le> 1 then 1 else rv_mode st)\<rparr>))"

text \<open>Status, payload and next state of one request.\<close>

definition dr27_switch :: "reservoir \<Rightarrow> bytes \<Rightarrow> bytes \<Rightarrow> int \<times> bytes \<times> reservoir" where
  "dr27_switch st req desc =
     (let op_code = le_int (slice 8 10 desc); entropy_len = le_int (slice 12 14 desc);
          rct_val = result_word 16 desc; apt_val = result_word 20 desc
      in if result_word 0 desc \<noteq> 0x27527101 then (1, zeros 32, st)
         else if op_code = OP_INGRESS then
           if 10 \<le> rct_val \<or> 177 \<le> apt_val then (2, zeros 32, st)
           else if entropy_len < 32 then (2, zeros 32, st)
           else if 16 \<le> rv_fill st then (3, zeros 32, st)
           else (0, zeros 32, reservoir_store (slice 0 32 req) st)
         else if op_code = OP_DRAIN then
           if rv_fill st = 0 then (4, zeros 32, st)
           else case reservoir_take st of (payload, st) \<Rightarrow> (0, payload, st)
         else if op_code = OP_STATUS then (0, zeros 32, st)
         else if op_code = OP_ZEROIZE then (5, zeros 32, empty_reservoir)
         else (1, zeros 32, st))"

definition dr27_kernel :: "reservoir \<Rightarrow> bytes \<Rightarrow> bytes \<Rightarrow> reservoir \<times> bytes" where
  "dr27_kernel st req desc = (case dr27_switch st req desc of (status, payload, st) \<Rightarrow>
     (st, le_bytes 4 0x37325251 @ le_bytes 4 (result_word 4 desc) @ le_bytes 4 status @ le_bytes 2 (int (rv_fill st)) @ le_bytes 2 16
       @ le_bytes 2 (int (rv_mode st)) @ le_bytes 2 0 @ le_bytes 4 (compute_crc32 (concat (rv_slots st))) @ payload @ zeros 8))"

inductive dr27_reachable :: "reservoir \<Rightarrow> bool" where
  power_on: "dr27_reachable empty_reservoir"
| request: "dr27_reachable st \<Longrightarrow> length req = 128 \<Longrightarrow> length desc = 32 \<Longrightarrow> dr27_reachable (fst (dr27_kernel st req desc))"

definition reservoir_host :: "reservoir \<Rightarrow> host" where
  "reservoir_host st = on_silicon (\<lambda>req desc. snd (dr27_kernel st req desc))"

text \<open>The reservoir after an operation of the host.\<close>

definition after_op :: "reservoir \<Rightarrow> int \<Rightarrow> bytes \<Rightarrow> int \<Rightarrow> int \<Rightarrow> nat \<Rightarrow> nat \<Rightarrow> reservoir" where
  "after_op st op_code entropy_bytes req_id source_id rct_val apt_val =
     (case pack_dr27_descriptor req_id op_code (int (length entropy_bytes)) source_id (int rct_val) (int apt_val) of
        Inr desc \<Rightarrow> fst (dr27_kernel st (dr27_request entropy_bytes) desc) | Inl _ \<Rightarrow> st)"

definition after_ingress :: "reservoir \<Rightarrow> bytes \<Rightarrow> int \<Rightarrow> int \<Rightarrow> reservoir" where
  "after_ingress st entropy_bytes source_id req_id = (case eval_sp800_90b_health entropy_bytes of (_, max_rct, max_apt) \<Rightarrow>
     after_op st OP_INGRESS entropy_bytes req_id source_id max_rct max_apt)"

definition after_drain :: "reservoir \<Rightarrow> int \<Rightarrow> reservoir" where
  "after_drain st req_id = after_op st OP_DRAIN [] req_id 1 1 1"

text \<open>The provider's entropy when it drains this reservoir; \<open>os.urandom\<close> serves only when a drain raises.\<close>

definition reservoir_entropy :: "reservoir \<Rightarrow> bytes \<Rightarrow> bytes \<Rightarrow> entropy" where
  "reservoir_entropy st u1 u2 =
     \<lparr>drain_1 = bindE (drain_entropy (reservoir_host st) 1) (\<lambda>(b, _). Inr b),
      drain_2 = bindE (drain_entropy (reservoir_host (after_drain st 1)) 1) (\<lambda>(b, _). Inr b), urandom_1 = u1, urandom_2 = u2\<rparr>"

subsection \<open>A bounded queue\<close>

text \<open>
  The contract of a bounded queue over a state: \<open>items\<close> is what it holds, oldest first; storing into
  a queue with room appends, fetching from one that is not empty removes the oldest.
\<close>

locale bounded_queue =
  fixes items :: "'s \<Rightarrow> 'a list" and okay :: "'s \<Rightarrow> bool" and fits :: "'a \<Rightarrow> bool"
    and store :: "'a \<Rightarrow> 's \<Rightarrow> 's" and fetch :: "'s \<Rightarrow> 'a \<times> 's" and room :: nat and start :: 's
  assumes start_okay: "okay start" and start_items: "items start = []"
    and store_items: "okay s \<Longrightarrow> fits x \<Longrightarrow> length (items s) < room \<Longrightarrow> items (store x s) = items s @ [x]"
    and store_okay: "okay s \<Longrightarrow> fits x \<Longrightarrow> length (items s) < room \<Longrightarrow> okay (store x s)"
    and fetch_first: "okay s \<Longrightarrow> items s \<noteq> [] \<Longrightarrow> fst (fetch s) = hd (items s)"
    and fetch_rest: "okay s \<Longrightarrow> items s \<noteq> [] \<Longrightarrow> items (snd (fetch s)) = tl (items s)"
    and fetch_okay: "okay s \<Longrightarrow> items s \<noteq> [] \<Longrightarrow> okay (snd (fetch s))"
begin

text \<open>An offer is refused when there is no room, a request when there is nothing.\<close>

definition offer :: "'a \<Rightarrow> 's \<Rightarrow> 's" where
  "offer x s = (if fits x \<and> length (items s) < room then store x s else s)"

definition request :: "'s \<Rightarrow> 'a list \<times> 's" where
  "request s = (if items s = [] then ([], s) else ([fst (fetch s)], snd (fetch s)))"

fun history :: "'a option list \<Rightarrow> 's \<Rightarrow> 'a list \<times> 'a list \<times> 's" where
  "history [] s = ([], [], s)"
| "history (Some x # ops) s = (case history ops (offer x s) of (taken, given, s') \<Rightarrow>
     (if fits x \<and> length (items s) < room then x # taken else taken, given, s'))"
| "history (None # ops) s = (case history ops (snd (request s)) of (taken, given, s') \<Rightarrow> (taken, fst (request s) @ given, s'))"

lemma history_fifo:
  "okay s \<Longrightarrow> (case history ops s of (taken, given, s') \<Rightarrow> okay s' \<and> items s @ taken = given @ items s')"
proof (induction ops s rule: history.induct)
  case (2 x ops s)
  then have "okay (offer x s)" by (simp add: offer_def store_okay)
  with 2 show ?case by (auto simp add: offer_def store_items split: prod.splits if_splits)
next
  case (3 ops s)
  then have "okay (snd (request s))" by (simp add: request_def fetch_okay)
  with 3 show ?case
    by (cases "items s") (auto simp add: request_def fetch_first fetch_rest split: prod.splits)
qed simp

lemma first_in_first_out:
  "case history ops start of (taken, given, s') \<Rightarrow> okay s' \<and> taken = given @ items s'"
  using history_fifo [OF start_okay, of ops] by (simp add: start_items)

end

subsection \<open>The ring buffer is a bounded queue\<close>

definition reservoir_items :: "reservoir \<Rightarrow> bytes list" where
  "reservoir_items st = map (\<lambda>i. rv_slots st ! ((rv_tail st + i) mod 16)) [0..<rv_fill st]"

text \<open>Outside the window of the queue every slot is wiped; the mode follows the two marks.\<close>

definition reservoir_ok :: "reservoir \<Rightarrow> bool" where
  "reservoir_ok st \<longleftrightarrow> length (rv_slots st) = 16 \<and> (\<forall>b \<in> set (rv_slots st). length b = 32) \<and>
     rv_tail st < 16 \<and> rv_fill st \<le> 16 \<and> rv_head st = (rv_tail st + rv_fill st) mod 16 \<and>
     (\<forall>i<16. rv_fill st \<le> i \<longrightarrow> rv_slots st ! ((rv_tail st + i) mod 16) = zeros 32) \<and>
     rv_mode st \<le> 1 \<and> (5 \<le> rv_fill st \<longrightarrow> rv_mode st = 0) \<and> (rv_fill st \<le> 1 \<longrightarrow> rv_mode st = 1)"

lemma ring_wrap: "t < 16 \<Longrightarrow> i \<le> 16 \<Longrightarrow> (t + i) mod 16 = (if t + i < 16 then t + i else t + i - (16 :: nat))"
  by (auto simp add: not_less le_mod_geq)

lemma ring_index: "(t + i) mod 16 = (t + j) mod 16 \<Longrightarrow> t < 16 \<Longrightarrow> i < 16 \<Longrightarrow> j < 16 \<Longrightarrow> i = (j :: nat)"
  by (auto simp add: ring_wrap split: if_splits)

lemma length_reservoir_items [simp]: "length (reservoir_items st) = rv_fill st"
  by (simp add: reservoir_items_def)

lemma reservoir_store_items:
  assumes "reservoir_ok st" "rv_fill st < 16"
  shows "reservoir_items (reservoir_store b st) = reservoir_items st @ [b]"
proof (rule nth_equalityI)
  fix i assume "i < length (reservoir_items (reservoir_store b st))"
  then have i: "i \<le> rv_fill st" by (simp add: reservoir_store_def Let_def)
  have "(rv_tail st + i) mod 16 = (rv_tail st + rv_fill st) mod 16 \<longleftrightarrow> i = rv_fill st"
    using ring_index [of "rv_tail st" i "rv_fill st"] i assms by (auto simp add: reservoir_ok_def)
  moreover have "(rv_tail st + i) mod 16 < 16" by simp
  ultimately show "reservoir_items (reservoir_store b st) ! i = (reservoir_items st @ [b]) ! i"
    using assms i by (auto simp add: reservoir_items_def reservoir_store_def Let_def reservoir_ok_def nth_append nth_list_update simp del: upt_Suc)
qed (simp add: reservoir_store_def Let_def)

lemma reservoir_store_ok:
  assumes "reservoir_ok st" "rv_fill st < 16" "length b = 32"
  shows "reservoir_ok (reservoir_store b st)"
proof -
  have "rv_slots (reservoir_store b st) ! ((rv_tail st + i) mod 16) = zeros 32" if "i < 16" "rv_fill st + 1 \<le> i" for i
  proof -
    have "(rv_tail st + i) mod 16 \<noteq> (rv_tail st + rv_fill st) mod 16"
      using ring_index [of "rv_tail st" i "rv_fill st"] that assms by (auto simp add: reservoir_ok_def)
    then show ?thesis using assms(1) that by (simp add: reservoir_store_def Let_def reservoir_ok_def)
  qed
  moreover have "length x = 32" if "x \<in> set ((rv_slots st)[rv_head st := b])" for x
    using that set_update_subset_insert assms by (fastforce simp add: reservoir_ok_def)
  moreover have "((rv_tail st + rv_fill st) mod 16 + 1) mod 16 = (rv_tail st + Suc (rv_fill st)) mod 16"
    by (simp add: mod_Suc_eq)
  ultimately show ?thesis
    using assms by (auto simp add: reservoir_ok_def reservoir_store_def Let_def)
qed

lemma reservoir_take_facts:
  assumes "reservoir_ok st" "0 < rv_fill st"
  shows "fst (reservoir_take st) = hd (reservoir_items st)"
    and "reservoir_items (snd (reservoir_take st)) = tl (reservoir_items st)"
    and "reservoir_ok (snd (reservoir_take st))"
proof -
  let ?t = "rv_tail st" and ?n = "rv_fill st"
  have t: "?t < 16" "?n \<le> 16" using assms(1) by (simp_all add: reservoir_ok_def)
  have shift: "((?t + 1) mod 16 + i) mod 16 = (?t + Suc i) mod 16" for i by (simp add: mod_add_left_eq)
  have other: "(?t + Suc i) mod 16 \<noteq> ?t" if "i < 15" for i using ring_wrap [OF t(1), of "Suc i"] that by (auto split: if_splits)
  have slots: "rv_slots (snd (reservoir_take st)) ! (((?t + 1) mod 16 + i) mod 16) = rv_slots st ! ((?t + Suc i) mod 16)" if "i < 15" for i
    using other [OF that] unfolding shift by (simp add: reservoir_take_def Let_def)
  show "fst (reservoir_take st) = hd (reservoir_items st)"
    using assms t by (simp add: reservoir_take_def Let_def reservoir_items_def hd_map upt_rec)
  show "reservoir_items (snd (reservoir_take st)) = tl (reservoir_items st)"
  proof (rule nth_equalityI)
    fix i assume "i < length (reservoir_items (snd (reservoir_take st)))"
    then have "i < ?n - 1" by (simp add: reservoir_take_def Let_def)
    with slots [of i] t show "reservoir_items (snd (reservoir_take st)) ! i = tl (reservoir_items st) ! i"
      by (simp add: reservoir_items_def nth_tl) (simp add: reservoir_take_def Let_def)
  qed (simp add: reservoir_take_def Let_def)
  have wiped: "rv_slots (snd (reservoir_take st)) ! (((?t + 1) mod 16 + i) mod 16) = zeros 32" if "i < 16" "?n - 1 \<le> i" for i
  proof (cases "i = 15")
    case True
    have "(?t + Suc 15) mod 16 = ?t" using t by simp
    then show ?thesis unfolding True shift using assms(1) t by (simp add: reservoir_take_def Let_def reservoir_ok_def)
  next
    case False
    with that have "Suc i < 16" "?n \<le> Suc i" "i < 15" by auto
    moreover have "rv_slots st ! ((?t + k) mod 16) = zeros 32" if "k < 16" "?n \<le> k" for k
      using assms(1) that unfolding reservoir_ok_def by blast
    ultimately show ?thesis using slots [of i] by metis
  qed
  have len: "length x = 32" if "x \<in> set ((rv_slots st)[?t := zeros 32])" for x
    using that set_update_subset_insert assms(1) by (fastforce simp add: reservoir_ok_def)
  have head: "(?t + ?n) mod 16 = ((?t + 1) mod 16 + (?n - 1)) mod 16"
    using assms(2) unfolding shift by simp
  show "reservoir_ok (snd (reservoir_take st))"
    using wiped len head assms unfolding reservoir_ok_def [of "snd (reservoir_take st)"]
    by (auto simp add: reservoir_take_def Let_def reservoir_ok_def)
qed

interpretation entropy_queue: bounded_queue reservoir_items reservoir_ok "\<lambda>b. length b = 32" reservoir_store reservoir_take 16 empty_reservoir
proof
  show "reservoir_ok empty_reservoir"
    by (simp add: reservoir_ok_def empty_reservoir_def)
  show "reservoir_items empty_reservoir = []" by (simp add: reservoir_items_def empty_reservoir_def)
qed (use reservoir_store_items reservoir_store_ok reservoir_take_facts length_greater_0_conv [of "reservoir_items _"] in \<open>auto simp del: length_greater_0_conv\<close>)

subsection \<open>The host's operations on the reservoir\<close>

lemma dr27_descriptor_fields:
  assumes "pack_dr27_descriptor req_id op_code n source_id rct apt = Inr desc"
  shows "length desc = 32" "result_word 0 desc = 0x27527101" "result_word 4 desc = req_id" "le_int (slice 8 10 desc) = op_code"
    "le_int (slice 12 14 desc) = n" "result_word 16 desc = rct" "result_word 20 desc = apt"
    "0 \<le> n \<and> n < 65536"
proof -
  from assms have b: "0 \<le> req_id" "req_id < 4294967296" "0 \<le> op_code" "op_code < 65536" "0 \<le> n" "n < 65536"
    "0 \<le> source_id" "source_id < 65536" "0 \<le> rct" "rct < 4294967296" "0 \<le> apt" "apt < 4294967296"
    and d: "desc = le_bytes 4 0x27527101 @ le_bytes 4 req_id @ le_bytes 2 op_code @ le_bytes 2 0 @ le_bytes 2 n @ le_bytes 2 source_id
      @ le_bytes 4 rct @ le_bytes 4 apt @ zeros 8"
    by (auto simp add: pack_dr27_descriptor_def bindE_Inr_iff struct_pack_into_def struct_pack_cases put_def zeros_append split: if_splits simp del: le_bytes.simps)
  show "length desc = 32" by (simp add: d)
  show "result_word 0 desc = 0x27527101" "result_word 4 desc = req_id" "le_int (slice 8 10 desc) = op_code"
    "le_int (slice 12 14 desc) = n" "result_word 16 desc = rct" "result_word 20 desc = apt"
    using b by (simp_all add: d result_word_def slice_def le_int_bytes_id del: le_bytes.simps)
  show "0 \<le> n \<and> n < 65536" using b by simp
qed

lemma length_dr27_request [simp]: "length (dr27_request e) = 128"
  by (simp add: dr27_request_def Let_def)

lemma dr27_request_block: "32 \<le> length e \<Longrightarrow> slice 0 32 (dr27_request e) = take 32 e"
  by (auto simp add: dr27_request_def Let_def slice_def assign_slice_def min_def)

lemma dr27_switch_ok:
  assumes "reservoir_ok st" "length req = 128" "dr27_switch st req desc = (status, payload, st')"
  shows "reservoir_ok st'" "length payload = 32" "0 \<le> status" "status < 6"
proof -
  have z: "reservoir_ok empty_reservoir" by (rule entropy_queue.start_okay)
  have take_len: "length (fst (reservoir_take st)) = 32" if "0 < rv_fill st"
  proof -
    have "rv_tail st < length (rv_slots st)" using assms(1) by (simp add: reservoir_ok_def)
    then show ?thesis using assms(1) by (simp add: reservoir_ok_def reservoir_take_def Let_def)
  qed
  show "reservoir_ok st'" "length payload = 32" "0 \<le> status" "status < 6"
    using assms z reservoir_store_ok [of st "slice 0 32 req"] reservoir_take_facts(3) [of st] take_len
    by (auto simp add: dr27_switch_def Let_def split: if_splits prod.splits)
qed

lemma dr27_reachable_ok: "dr27_reachable st \<Longrightarrow> reservoir_ok st"
proof (induction rule: dr27_reachable.induct)
  case power_on
  show ?case by (rule entropy_queue.start_okay)
next
  case (request st req desc)
  then show ?case
    using dr27_switch_ok [of st req desc] by (auto simp add: dr27_kernel_def split: prod.splits)
qed

lemma reservoir_call:
  assumes "reservoir_ok st" "pack_dr27_descriptor req_id op_code (int (length e)) source_id (int rct) (int apt) = Inr desc"
    and "dr27_switch st (dr27_request e) desc = (status, payload, st')"
  shows "\<exists>crc. execute_dr27_op_on_silicon (reservoir_host st) op_code e req_id source_id rct apt =
      Inr \<lparr>r27_magic = 0x37325251, r27_req_id = req_id, r27_status = status, r27_fill_level = int (rv_fill st'), r27_capacity = 16,
        r27_mode = int (rv_mode st'), r27_crc32 = crc, r27_payload = payload\<rparr>"
    and "after_op st op_code e req_id source_id rct apt = st'"
proof -
  note d = dr27_descriptor_fields [OF assms(2)] and ok = dr27_switch_ok [OF assms(1) length_dr27_request assms(3)]
  have f: "int (rv_fill st') < 65536" "int (rv_mode st') < 65536" using ok(1) by (simp_all add: reservoir_ok_def)
  have rid: "0 \<le> req_id" "req_id < 4294967296" using result_word_bounds [of 4 desc] d(3) by simp_all
  let ?crc = "compute_crc32 (concat (rv_slots st'))"
  have crc: "0 \<le> ?crc" "?crc < 4294967296" using crc32_range by (simp_all add: compute_crc32_eq)
  let ?raw = "le_bytes 4 0x37325251 @ le_bytes 4 req_id @ le_bytes 4 status @ le_bytes 2 (int (rv_fill st')) @ le_bytes 2 16
       @ le_bytes 2 (int (rv_mode st')) @ le_bytes 2 0 @ le_bytes 4 ?crc @ payload @ zeros 8"
  have k: "dr27_kernel st (dr27_request e) desc = (st', ?raw)" by (simp add: dr27_kernel_def assms(3) d del: le_bytes.simps)
  have "unpack_dr27_result ?raw = Inr \<lparr>r27_magic = 0x37325251, r27_req_id = req_id, r27_status = status, r27_fill_level = int (rv_fill st'),
        r27_capacity = 16, r27_mode = int (rv_mode st'), r27_crc32 = ?crc, r27_payload = payload\<rparr>"
    using ok(2-4) f rid crc
    by (simp add: unpack_dr27_result_def struct_unpack_from_def slice_def le_int_bytes_id del: le_bytes.simps)
  moreover have "length ?raw = 64" using ok(2) by simp
  ultimately show "\<exists>crc. execute_dr27_op_on_silicon (reservoir_host st) op_code e req_id source_id rct apt =
      Inr \<lparr>r27_magic = 0x37325251, r27_req_id = req_id, r27_status = status, r27_fill_level = int (rv_fill st'), r27_capacity = 16,
        r27_mode = int (rv_mode st'), r27_crc32 = crc, r27_payload = payload\<rparr>"
    by (simp add: execute_dr27_op_on_silicon_def load_toolchain_def reservoir_host_def assms(2) run_on_device_def k ljust_id del: le_bytes.simps)
  show "after_op st op_code e req_id source_id rct apt = st'" by (simp add: after_op_def assms(2) k)
qed

lemma pack_dr27_ok:
  "0 \<le> req_id \<Longrightarrow> req_id < 4294967296 \<Longrightarrow> 0 \<le> op \<Longrightarrow> op < 65536 \<Longrightarrow> 0 \<le> n \<Longrightarrow> n < 65536 \<Longrightarrow> 0 \<le> src \<Longrightarrow> src < 65536 \<Longrightarrow>
    rct < 4294967296 \<Longrightarrow> apt < 4294967296 \<Longrightarrow> \<exists>desc. pack_dr27_descriptor req_id op n src (int rct) (int apt) = Inr desc"
  by (simp add: pack_dr27_descriptor_def struct_pack_into_def put_def)

lemma drain_exact:
  assumes "reservoir_ok st" "0 \<le> req_id" "req_id < 4294967296"
  shows "\<exists>res. drain_entropy (reservoir_host st) req_id = Inr (r27_payload res, res) \<and>
    r27_status res = (if reservoir_items st = [] then 4 else 0) \<and>
    r27_payload res = (if reservoir_items st = [] then zeros 32 else hd (reservoir_items st)) \<and>
    after_drain st req_id = snd (entropy_queue.request st)"
proof -
  obtain desc where d: "pack_dr27_descriptor req_id OP_DRAIN (int (length ([] :: bytes))) 1 (int 1) (int 1) = Inr desc"
    using pack_dr27_ok [of req_id OP_DRAIN 0 1 1 1] assms by auto
  note f = dr27_descriptor_fields [OF d]
  have e: "reservoir_items st = [] \<longleftrightarrow> rv_fill st = 0" by (simp flip: length_0_conv)
  have sw: "dr27_switch st (dr27_request []) desc =
      (if rv_fill st = 0 then (4, zeros 32, st) else (0, fst (reservoir_take st), snd (reservoir_take st)))"
    by (simp add: dr27_switch_def Let_def f split: prod.splits)
  show ?thesis
  proof (cases "rv_fill st = 0")
    case True
    with sw have "dr27_switch st (dr27_request []) desc = (4, zeros 32, st)" by simp
    from reservoir_call [OF assms(1) d this] True e show ?thesis
      by (auto simp add: drain_entropy_def after_drain_def entropy_queue.request_def)
  next
    case False
    with sw have "dr27_switch st (dr27_request []) desc = (0, fst (reservoir_take st), snd (reservoir_take st))" by simp
    from reservoir_call [OF assms(1) d this] False e reservoir_take_facts [OF assms(1)] show ?thesis
      by (auto simp add: drain_entropy_def after_drain_def entropy_queue.request_def)
  qed
qed

subsection \<open>The health tests\<close>

text \<open>The \<open>n\<close> bytes up to index \<open>i\<close> are equal.\<close>

definition equal_run :: "bytes \<Rightarrow> nat \<Rightarrow> nat \<Rightarrow> bool" where
  "equal_run data n i \<longleftrightarrow> n \<le> i + 1 \<and> (\<forall>k<n. data ! (i - k) = data ! i)"

lemma equal_run_Suc: "equal_run data (Suc (Suc n)) (Suc i) \<longleftrightarrow> data ! Suc i = data ! i \<and> equal_run data (Suc n) i"
proof
  assume h: "equal_run data (Suc (Suc n)) (Suc i)"
  then have "data ! (Suc i - Suc 0) = data ! Suc i" unfolding equal_run_def by blast
  moreover have "data ! (i - k) = data ! Suc i" if "k < Suc n" for k
    using h that unfolding equal_run_def by (metis Suc_less_eq diff_Suc_Suc)
  ultimately show "data ! Suc i = data ! i \<and> equal_run data (Suc n) i"
    using h by (auto simp add: equal_run_def)
next
  assume "data ! Suc i = data ! i \<and> equal_run data (Suc n) i"
  then show "equal_run data (Suc (Suc n)) (Suc i)"
    by (auto simp add: equal_run_def less_Suc_eq_0_disj)
qed

lemma equal_run_1: "equal_run data (Suc 0) i"
  by (simp add: equal_run_def)

lemma rct_step_upto:
  "foldl (rct_step data) s [Suc 0..<Suc (Suc m)] = rct_step data (foldl (rct_step data) s [Suc 0..<Suc m]) (Suc m)"
  by simp

lemma rct_loop:
  "(\<forall>n. Suc n \<le> snd (foldl (rct_step data) (1, 1) [Suc 0..<Suc m]) \<longleftrightarrow> equal_run data (Suc n) m) \<and>
   (\<forall>n. Suc n \<le> fst (foldl (rct_step data) (1, 1) [Suc 0..<Suc m]) \<longleftrightarrow> (\<exists>i\<le>m. equal_run data (Suc n) i))"
proof (induction m)
  case 0
  then show ?case by (auto simp add: equal_run_def)
next
  case (Suc m)
  obtain mx c where st: "foldl (rct_step data) (1, 1) [Suc 0..<Suc m] = (mx, c)" by fastforce
  have c: "Suc n \<le> c \<longleftrightarrow> equal_run data (Suc n) m" and mx: "Suc n \<le> mx \<longleftrightarrow> (\<exists>i\<le>m. equal_run data (Suc n) i)" for n
    using Suc st by (auto simp del: upt_Suc)
  have run: "equal_run data (Suc n) (Suc m) \<longleftrightarrow> n = 0 \<or> data ! Suc m = data ! m \<and> n \<le> c" for n
    using c by (cases n) (simp_all add: equal_run_1 equal_run_Suc)
  have ex: "(\<exists>i\<le>Suc m. equal_run data (Suc n) i) \<longleftrightarrow> Suc n \<le> mx \<or> equal_run data (Suc n) (Suc m)" for n
    using mx le_Suc_eq by auto
  have one: "Suc 0 \<le> mx" using mx [of 0] equal_run_1 by auto
  show ?case
    unfolding ex run rct_step_upto st using one by (auto simp add: rct_step_def)
qed

definition healthy :: "bytes \<Rightarrow> bool" where
  "healthy data \<longleftrightarrow> data \<noteq> [] \<and> \<not> (\<exists>i<length data. equal_run data 10 i) \<and>
     (1 < length data \<longrightarrow> length (filter (\<lambda>b. b = hd data) (take 512 data)) < 177)"

lemma health_spec:
  "fst (eval_sp800_90b_health data) = healthy data"
  "\<not> healthy data \<Longrightarrow> data = [] \<or> 10 \<le> fst (snd (eval_sp800_90b_health data)) \<or> 177 \<le> snd (snd (eval_sp800_90b_health data))"
  "healthy data \<Longrightarrow> fst (snd (eval_sp800_90b_health data)) < 10 \<and> snd (snd (eval_sp800_90b_health data)) < 177"
proof -
  have "10 \<le> fst (foldl (rct_step data) (1, 1) [1..<length data]) \<longleftrightarrow> (\<exists>i<length data. equal_run data 10 i)" if "data \<noteq> []"
  proof (cases "length data")
    case (Suc m)
    have t: "(10 :: nat) = Suc 9" by simp
    show ?thesis using rct_loop [of data m] unfolding Suc t One_nat_def by (metis less_Suc_eq_le)
  qed (use that in simp)
  moreover have "take (min (length data) 512) data = take 512 data" by (simp add: min_def)
  moreover have "1 < min (length data) 512 \<longleftrightarrow> 1 < length data" by auto
  moreover have "data \<noteq> [] \<Longrightarrow> data ! 0 = hd data" by (simp add: hd_conv_nth)
  ultimately show "fst (eval_sp800_90b_health data) = healthy data"
    "\<not> healthy data \<Longrightarrow> data = [] \<or> 10 \<le> fst (snd (eval_sp800_90b_health data)) \<or> 177 \<le> snd (snd (eval_sp800_90b_health data))"
    "healthy data \<Longrightarrow> fst (snd (eval_sp800_90b_health data)) < 10 \<and> snd (snd (eval_sp800_90b_health data)) < 177"
    by (auto simp add: eval_sp800_90b_health_def healthy_def Let_def not_le)
qed

text \<open>What the device takes from a buffer offered for ingress; nothing else has the size of a slot.\<close>

definition offered_block :: "bytes \<Rightarrow> bytes" where
  "offered_block e = (if healthy e then take 32 e else [])"

lemma offered_block_fits: "length (offered_block e) = 32 \<longleftrightarrow> healthy e \<and> 32 \<le> length e"
  by (auto simp add: offered_block_def)

lemma health_counts:
  "fst (snd (eval_sp800_90b_health e)) \<le> max 1 (length e)" "snd (snd (eval_sp800_90b_health e)) \<le> 512"
proof -
  have "fst (foldl (rct_step e) (1, 1) [1..<length e]) \<le> length e" if "e \<noteq> []"
  proof (cases "length e")
    case (Suc m)
    have "n < Suc m" if "Suc n \<le> fst (foldl (rct_step e) (1, 1) [Suc 0..<Suc m])" for n
      using rct_loop [of e m] that by (fastforce simp add: equal_run_def simp del: upt_Suc)
    then show ?thesis unfolding Suc One_nat_def by (metis One_nat_def Suc_leI not_less_eq_eq not_less lessI)
  qed (use that in simp)
  then show "fst (snd (eval_sp800_90b_health e)) \<le> max 1 (length e)"
    by (auto simp add: eval_sp800_90b_health_def Let_def)
  have "length (filter (\<lambda>b. b = e ! 0) (take (min (length e) 512) e)) \<le> 512"
    by (rule order_trans [OF length_filter_le]) simp
  then show "snd (snd (eval_sp800_90b_health e)) \<le> 512"
    by (auto simp add: eval_sp800_90b_health_def Let_def)
qed

lemma ingress_exact:
  assumes "reservoir_ok st" "0 \<le> req_id" "req_id < 4294967296" "0 \<le> source_id" "source_id < 65536" "length e < 65536"
  shows "\<exists>res. ingress_entropy (reservoir_host st) e source_id req_id = Inr res \<and>
    r27_status res = (if \<not> healthy e \<or> length e < 32 then 2 else if rv_fill st = 16 then 3 else 0) \<and>
    after_ingress st e source_id req_id = (if length (offered_block e) = 32 \<and> rv_fill st < 16 then reservoir_store (offered_block e) st else st)"
proof -
  obtain ok rct apt where h: "eval_sp800_90b_health e = (ok, rct, apt)" by (cases "eval_sp800_90b_health e") auto
  have b: "rct < 4294967296" "apt < 4294967296" using health_counts [of e] h assms(6) by auto
  obtain desc where d: "pack_dr27_descriptor req_id OP_INGRESS (int (length e)) source_id (int rct) (int apt) = Inr desc"
    using pack_dr27_ok [of req_id OP_INGRESS "int (length e)" source_id rct apt] assms b by auto
  note f = dr27_descriptor_fields [OF d]
  have fill: "16 \<le> rv_fill st \<longleftrightarrow> rv_fill st = 16" using assms(1) by (auto simp add: reservoir_ok_def)
  have sw: "dr27_switch st (dr27_request e) desc =
      (if \<not> healthy e \<or> length e < 32 then (2, zeros 32, st) else if rv_fill st = 16 then (3, zeros 32, st)
       else (0, zeros 32, reservoir_store (take 32 e) st))"
  proof (cases "healthy e")
    case True
    then show ?thesis using health_spec(3) [of e] h by (simp add: dr27_switch_def Let_def f fill dr27_request_block)
  next
    case False
    have "10 \<le> int rct \<or> 177 \<le> int apt \<or> int (length e) < 32" using health_spec(2) [OF False] h by auto
    then show ?thesis using False by (auto simp add: dr27_switch_def Let_def f)
  qed
  show ?thesis
    using reservoir_call [OF assms(1) d] sw fill
    by (auto simp add: ingress_entropy_def after_ingress_def h offered_block_def not_less split: if_splits)
qed

subsection \<open>The properties\<close>

text \<open>Only healthy entropy enters the reservoir, and no more than it holds.  Whatever requests it has served,
  a buffer in which some byte stands ten times in a row, or whose first byte makes up 177 of its first 512,
  or that has less than 32 bytes, is refused with status 2 and leaves the reservoir as it is; a healthy one is
  refused with status 3 when the sixteen slots are taken, and otherwise its first 32 bytes become the
  youngest block.  The bytes behind them are dropped.
\<close>

theorem ingress_gate:
  assumes "dr27_reachable st" "0 \<le> req_id" "req_id < 4294967296" "0 \<le> source_id" "source_id < 65536" "length e < 65536"
  shows "\<exists>res. ingress_entropy (reservoir_host st) e source_id req_id = Inr res \<and>
    (if e = [] \<or> (\<exists>i<length e. equal_run e 10 i) \<or> 177 \<le> length (filter (\<lambda>b. b = hd e) (take 512 e)) \<or> length e < 32
     then r27_status res = 2 \<and> after_ingress st e source_id req_id = st
     else if length (reservoir_items st) = 16 then r27_status res = 3 \<and> after_ingress st e source_id req_id = st
     else r27_status res = 0 \<and> reservoir_items (after_ingress st e source_id req_id) = reservoir_items st @ [take 32 e])"
proof -
  have ok: "reservoir_ok st" by (rule dr27_reachable_ok [OF assms(1)])
  then have fill: "rv_fill st \<le> 16" by (simp add: reservoir_ok_def)
  have h: "(e = [] \<or> (\<exists>i<length e. equal_run e 10 i) \<or> 177 \<le> length (filter (\<lambda>b. b = hd e) (take 512 e)) \<or> length e < 32) \<longleftrightarrow>
      \<not> healthy e \<or> length e < 32"
    by (cases e) (auto simp add: healthy_def)
  from ingress_exact [OF ok assms(2-6)] show ?thesis
    unfolding h offered_block_fits using fill reservoir_store_items [OF ok, of "take 32 e"]
    by (auto simp add: offered_block_def)
qed

lemma ingress_gate_witness:
  "\<exists>res. ingress_entropy (reservoir_host empty_reservoir) (zeros 40) 1 7 = Inr res \<and> r27_status res = 2"
proof -
  have "\<exists>i<length (zeros 40). equal_run (zeros 40) 10 i"
    by (rule exI [of _ 9]) (auto simp add: equal_run_def zeros_def)
  then show ?thesis
    using ingress_gate [OF dr27_reachable.power_on, of 7 1 "zeros 40"] by auto
qed

text \<open>A client's operations in order: what it offers, and where it drains.  The blocks taken and given are those
  of the calls that end with status 0.\<close>

fun reservoir_client :: "bytes option list \<Rightarrow> reservoir \<Rightarrow> bytes list \<times> bytes list \<times> reservoir" where
  "reservoir_client [] st = ([], [], st)"
| "reservoir_client (Some e # ops) st =
     (case reservoir_client ops (after_ingress st e 1 1) of (taken, given, st') \<Rightarrow>
       (case ingress_entropy (reservoir_host st) e 1 1 of
          Inr res \<Rightarrow> if r27_status res = 0 then take 32 e # taken else taken
        | Inl _ \<Rightarrow> taken, given, st'))"
| "reservoir_client (None # ops) st =
     (case reservoir_client ops (after_drain st 1) of (taken, given, st') \<Rightarrow>
       (taken, case drain_entropy (reservoir_host st) 1 of
          Inr (block, res) \<Rightarrow> if r27_status res = 0 then block # given else given
        | Inl _ \<Rightarrow> given, st'))"

lemma client_history:
  "reservoir_ok st \<Longrightarrow> (\<forall>e \<in> set ops. case e of Some e \<Rightarrow> length e < 65536 | None \<Rightarrow> True) \<Longrightarrow>
   reservoir_client ops st = entropy_queue.history (map (map_option offered_block) ops) st"
proof (induction ops st rule: reservoir_client.induct)
  case (2 e ops st)
  from ingress_exact [OF "2.prems"(1), of 1 1 e] "2.prems"(2) obtain res where r:
    "ingress_entropy (reservoir_host st) e 1 1 = Inr res"
    "r27_status res = (if \<not> healthy e \<or> length e < 32 then 2 else if rv_fill st = 16 then 3 else 0)"
    "after_ingress st e 1 1 = entropy_queue.offer (offered_block e) st"
    by (auto simp add: entropy_queue.offer_def)
  have okay: "reservoir_ok (entropy_queue.offer (offered_block e) st)"
    using "2.prems"(1) by (simp add: entropy_queue.offer_def reservoir_store_ok)
  have fill: "rv_fill st \<le> 16" using "2.prems"(1) by (simp add: reservoir_ok_def)
  have "r27_status res = 0 \<longleftrightarrow> length (offered_block e) = 32 \<and> rv_fill st < 16"
    using fill r(2) unfolding offered_block_fits by auto
  moreover have "offered_block e = take 32 e" if "length (offered_block e) = 32"
    using that by (auto simp add: offered_block_def split: if_splits)
  ultimately show ?case
    using 2 r okay by (auto split: prod.splits)
next
  case (3 ops st)
  note d = drain_exact [OF "3.prems"(1), of 1, simplified]
  have "reservoir_ok (snd (entropy_queue.request st))"
    using "3.prems"(1) by (simp add: entropy_queue.request_def entropy_queue.fetch_okay)
  with 3 d show ?case
    by (auto simp add: entropy_queue.request_def entropy_queue.fetch_first split: prod.splits if_splits)
qed simp

text \<open>C11. The reservoir is a first-in, first-out queue of at most sixteen blocks: for every sequence of ingress
  and drain calls on a device just loaded, the blocks accepted are, in order, the blocks handed out followed by
  those still stored.  So no block is handed out twice, none is lost or reordered, none comes from
  a refused buffer, and slots outside the queue hold zeros.
\<close>

theorem reservoir_is_fifo:
  assumes "\<forall>e \<in> set ops. case e of Some e \<Rightarrow> length e < 65536 | None \<Rightarrow> True"
  shows "case reservoir_client ops empty_reservoir of (taken, given, st) \<Rightarrow>
    taken = given @ reservoir_items st \<and> length (reservoir_items st) \<le> 16 \<and>
    (\<forall>i<16. length (reservoir_items st) \<le> i \<longrightarrow> rv_slots st ! ((rv_tail st + i) mod 16) = zeros 32)"
  unfolding client_history [OF entropy_queue.start_okay assms]
  using entropy_queue.first_in_first_out [of "map (map_option offered_block) ops"]
  by (auto simp add: reservoir_ok_def split: prod.splits)

lemma reservoir_is_fifo_witness:
  "case reservoir_client [None, Some (zeros 40), Some (map word_of_nat [0..<64]), None] empty_reservoir of (taken, given, st) \<Rightarrow>
     taken = given @ reservoir_items st"
  using reservoir_is_fifo [of "[None, Some (zeros 40), Some (map word_of_nat [0..<64]), None]"] by (simp split: prod.splits)

text \<open>C10. With no entropy in the reservoir the provider generates keys from zeros.  A drain of an empty reservoir
  is an answer with status 4 and a payload of zeros, not an exception; the provider looks at the payload only,
  so it never turns to \<open>os.urandom\<close>, and a key pair, an encapsulation and a signature key made
  without explicit seeds are those of the all-zero seeds, the same on every machine.
\<close>

theorem empty_reservoir_zero_seed:
  "kem_keygen dev (reservoir_entropy empty_reservoir u1 u2) alg None None = kem_keygen dev ent alg (Some (zeros 32)) (Some (zeros 32)) \<and>
   kem_encapsulate dev (reservoir_entropy empty_reservoir u1 u2) key None = kem_encapsulate dev ent key (Some (zeros 32)) \<and>
   signature_keygen dev (reservoir_entropy empty_reservoir u1 u2) alg None = signature_keygen dev ent alg (Some (zeros 32))"
proof -
  have items: "reservoir_items empty_reservoir = []" by (rule entropy_queue.start_items)
  have "drain_1 (reservoir_entropy empty_reservoir u1 u2) = Inr (zeros 32)"
    "drain_2 (reservoir_entropy empty_reservoir u1 u2) = Inr (zeros 32)"
    using drain_exact [OF entropy_queue.start_okay, of 1] items
    by (auto simp add: reservoir_entropy_def entropy_queue.request_def)
  then show ?thesis
    by (simp add: kem_keygen_def kem_encapsulate_def signature_keygen_def drain_or_urandom_def)
qed

end
