(* ===== verification/Pki.thy ===== *)
theory Pki
  imports Slhdsa Services Qkd
begin

text \<open>
  Certificates and the TLS handshake (\<open>dr32_pki_tls_abi.py\<close>): issuing, with the key generation and the
  signature on the device or computed on the host, and the key schedule of a handshake.  The clock
  and \<open>os.urandom\<close> are parameters; latencies and the constant texts of the handshake steps are left
  out.  An issuer is a certificate of this module.
\<close>

unbundle bit_operations_syntax

subsection \<open>Text\<close>

fun join :: "string \<Rightarrow> string list \<Rightarrow> string" where
  "join sep [] = []"
| "join sep [s] = s"
| "join sep (s # t # ts) = s @ sep @ join sep (t # ts)"

text \<open>\<open>f"{n:016X}"\<close>\<close>

fun hex_number :: "nat \<Rightarrow> string" where
  "hex_number n = (if n < 16 then [upper_char (hex_char n)] else hex_number (n div 16) @ [upper_char (hex_char (n mod 16))])"

declare hex_number.simps [simp del]

definition serial_of :: "nat \<Rightarrow> string" where
  "serial_of millis = (let s = hex_number millis in replicate (16 - length s) CHR ''0'' @ s)"

text \<open>Lines of 64 characters.\<close>

fun lines64 :: "string \<Rightarrow> string list" where
  "lines64 [] = []"
| "lines64 (c # cs) = take 64 (c # cs) # lines64 (drop 64 (c # cs))"

subsection \<open>Certificates\<close>

record pki_cert =
  ce_subject :: string
  ce_issuer :: string
  ce_serial :: string
  ce_valid_from :: string
  ce_valid_to :: string
  ce_algorithm :: string
  ce_is_ca :: bool
  ce_san :: "string list"
  ce_public_key_hex :: string
  ce_secret_key_hex :: string
  ce_signature_hex :: string
  ce_tbs_hex :: string
  ce_pem :: string

text \<open>The clock in milliseconds, the two times as text, and the random bytes a key generation may draw.\<close>

record pki_env =
  pe_millis :: nat
  pe_now :: string
  pe_expires :: string
  pe_seed :: bytes
  pe_sk_seed :: bytes
  pe_pk_seed :: bytes
  pe_sk_prf :: bytes

definition pki_keygen :: "host \<Rightarrow> pki_env \<Rightarrow> string \<Rightarrow> (bytes \<times> bytes) py" where
  "pki_keygen h env algo =
     (if contains ''SLH-DSA'' algo
      then slhdsa_keygen_on_aie2 h ''SLH-DSA-SHAKE-128s'' (pe_sk_seed env) (pe_pk_seed env) (pe_sk_prf env) 1
      else if contains ''87'' algo then run_mldsa87_keygen h (pe_seed env) 1
      else if contains ''44'' algo then run_mldsa44_keygen h (pe_seed env) 1
      else run_mldsa65_keygen h (pe_seed env) 1)"

definition pki_sign :: "host \<Rightarrow> string \<Rightarrow> bytes \<Rightarrow> bytes \<Rightarrow> bytes py" where
  "pki_sign h algo signer_sk tbs_raw =
     (if contains ''SLH-DSA'' algo then slhdsa_sign_on_aie2 h ''SLH-DSA-SHAKE-128s'' signer_sk tbs_raw None 1
      else if contains ''87'' algo then run_mldsa87_sign h signer_sk tbs_raw True 1
      else if contains ''44'' algo then run_mldsa44_sign h signer_sk tbs_raw (zeros 32) False 1
      else run_mldsa65_sign h signer_sk tbs_raw True 1)"

definition host_keys :: "string \<Rightarrow> string \<Rightarrow> bytes \<times> bytes" where
  "host_keys subject_cn algo =
     (let seed = sha256 (encode_utf8 subject_cn @ encode_utf8 algo)
      in (concat (replicate 4 (sha256 (seed @ encode_utf8 ''-public-key''))),
          concat (replicate 4 (sha256 (seed @ encode_utf8 ''-secret-key'')))))"

definition tbs_text :: "string \<Rightarrow> string \<Rightarrow> string \<Rightarrow> string \<Rightarrow> string \<Rightarrow> string \<Rightarrow> bytes \<Rightarrow> bool \<Rightarrow> string list \<Rightarrow> string" where
  "tbs_text serial subject_cn issuer now expires algo pk is_ca san =
     ''VER:3|SER:'' @ serial @ ''|SUBJ:'' @ subject_cn @ ''|ISS:'' @ issuer @ ''|VALID:'' @ now @ ''->'' @ expires
     @ ''|ALGO:'' @ algo @ ''|PK:'' @ hex pk @ ''|CA:'' @ (if is_ca then ''True'' else ''False'') @ ''|SAN:'' @ join '','' san"

definition pem_of :: "bytes \<Rightarrow> string" where
  "pem_of raw = ''-----BEGIN CERTIFICATE-----'' @ [CHR 0x0A] @ join [CHR 0x0A] (lines64 (b64encode raw))
     @ [CHR 0x0A] @ ''-----END CERTIFICATE-----''"

definition generate_pq_x509_certificate ::
  "host \<Rightarrow> pki_env \<Rightarrow> string \<Rightarrow> string \<Rightarrow> bool \<Rightarrow> pki_cert option \<Rightarrow> string option \<Rightarrow> string list \<Rightarrow> bool \<Rightarrow> pki_cert py" where
  "generate_pq_x509_certificate h env subject_cn algorithm is_ca issuer_cert issuer_sk_hex san_list use_hardware =
     (let algo = canonical_algo algorithm;
          (pk, sk, use_hardware) = (if use_hardware
            then (case pki_keygen h env algo of Inr (pk, sk) \<Rightarrow> (pk, sk, True) | Inl _ \<Rightarrow> ([], [], False))
            else ([], [], False));
          (pk, sk) = (if pk = [] \<or> sk = [] then host_keys subject_cn algo else (pk, sk));
          serial = serial_of (pe_millis env);
          issuer = (case issuer_cert of None \<Rightarrow> subject_cn | Some c \<Rightarrow> ce_subject c);
          san = (if san_list \<noteq> [] then san_list else if is_ca then [] else [subject_cn]);
          tbs_raw = encode_utf8 (tbs_text serial subject_cn issuer (pe_now env) (pe_expires env) algo pk is_ca san)
      in bindE (case issuer_sk_hex of None \<Rightarrow> Inr sk | Some s \<Rightarrow> if s = [] then Inr sk else fromhex s) (\<lambda>signer_sk.
         let sig = (if use_hardware then (case pki_sign h algo signer_sk tbs_raw of Inr sig \<Rightarrow> sig | Inl _ \<Rightarrow> []) else []);
             sig = (if sig = [] then concat (replicate 2 (sha256 (signer_sk @ tbs_raw))) else sig)
         in Inr \<lparr>ce_subject = subject_cn, ce_issuer = issuer, ce_serial = serial, ce_valid_from = pe_now env,
              ce_valid_to = pe_expires env, ce_algorithm = algo, ce_is_ca = is_ca, ce_san = san, ce_public_key_hex = hex pk,
              ce_secret_key_hex = hex sk, ce_signature_hex = hex sig, ce_tbs_hex = hex tbs_raw,
              ce_pem = pem_of (tbs_raw @ encode_utf8 ''|SIG:'' @ sig)\<rparr>))"

subsection \<open>The handshake\<close>

text \<open>The random bytes of a handshake; those for the quantum key and its identifier are drawn at two places.\<close>

record tls_env =
  te_client_d :: bytes
  te_client_z :: bytes
  te_server_m :: bytes
  te_qkd_device :: bytes
  te_uuid_device :: bytes
  te_qkd_host :: bytes
  te_uuid_host :: bytes
  te_cert :: pki_env

record tls_session =
  tl_qkd_key_id :: "string option"
  tl_certificate_bytes :: nat
  tl_signature_bytes :: nat
  tl_pqc_shared_secret :: string
  tl_final_hybrid_key :: string
  tl_client_secret :: string
  tl_server_secret :: string
  tl_server_certificate :: pki_cert

text \<open>Client key, client secret, and whether the device answered three times; what an exception leaves assigned stays.\<close>

definition kem_on_device :: "host \<Rightarrow> tls_env \<Rightarrow> bytes \<times> bytes \<times> bool" where
  "kem_on_device h env = (case run_mlkem768_keygen h (te_client_d env) (te_client_z env) 1 of
     Inl _ \<Rightarrow> ([], [], False)
   | Inr (client_pk, client_sk) \<Rightarrow> (case run_mlkem768_encaps h client_pk (te_server_m env) 1 of
       Inl _ \<Rightarrow> (client_pk, [], False)
     | Inr (ciphertext, ss_server) \<Rightarrow> (case run_mlkem768_decaps h client_sk ciphertext 1 of
         Inl _ \<Rightarrow> (client_pk, [], False)
       | Inr ss_client \<Rightarrow> (client_pk, ss_client, True))))"

definition kem_on_host :: "tls_env \<Rightarrow> bytes" where
  "kem_on_host env = (let client_pk = concat (replicate 37 (sha256 (te_client_d env @ encode_utf8 ''-kem-pk'')))
     in sha256 (client_pk @ te_server_m env))"

definition app_secret :: "bytes \<Rightarrow> string \<Rightarrow> string" where
  "app_secret k_final label =
     (let early_secret = sha256 (zeros 32); handshake_secret = sha256 (early_secret @ k_final)
      in hex (sha256 (handshake_secret @ encode_utf8 label)))"

text \<open>The final key, the identifier reported, and whether the device is still in use.\<close>

definition qkd_fusing :: "host \<Rightarrow> tls_env \<Rightarrow> bool \<Rightarrow> bytes \<Rightarrow> bool \<Rightarrow> bytes \<times> string option \<times> bool" where
  "qkd_fusing h env qkd_enabled ss_client use_hardware =
     (if \<not> qkd_enabled then (ss_client, None, use_hardware)
      else if use_hardware then
        (case combine_keys_on_aie2 h (te_qkd_device env) ss_client (te_uuid_device env) 100 32 CUSTOMIZATION_STRING of
           Inr k \<Rightarrow> (k, Some (uuid_str (te_uuid_device env)), True)
         | Inl _ \<Rightarrow> (ss_client, Some (uuid_str (te_uuid_device env)), False))
      else (sha256 (te_qkd_host env @ ss_client @ encode_utf8 ''SP800-56C''), Some (uuid_str (te_uuid_host env)), False))"

definition simulate_tls13_pq_handshake :: "host \<Rightarrow> tls_env \<Rightarrow> string \<Rightarrow> string \<Rightarrow> bool \<Rightarrow> bool \<Rightarrow> tls_session py" where
  "simulate_tls13_pq_handshake h env server_cn sig_algorithm qkd_enabled use_hardware =
     (let (client_pk, ss_client, use_hardware) = (if use_hardware then kem_on_device h env else ([], [], False));
          ss_client = (if client_pk = [] then kem_on_host env else ss_client);
          (k_final, qkd_key_id, use_hardware) = qkd_fusing h env qkd_enabled ss_client use_hardware
      in bindE (generate_pq_x509_certificate h (te_cert env) server_cn sig_algorithm False None None [] use_hardware) (\<lambda>cert.
         bindE (fromhex (ce_signature_hex cert)) (\<lambda>sig.
           Inr \<lparr>tl_qkd_key_id = qkd_key_id, tl_certificate_bytes = length (ce_pem cert), tl_signature_bytes = length sig,
             tl_pqc_shared_secret = hex ss_client, tl_final_hybrid_key = hex k_final,
             tl_client_secret = app_secret k_final ''c ap traffic'', tl_server_secret = app_secret k_final ''s ap traffic'',
             tl_server_certificate = cert\<rparr>)))"

subsection \<open>Library\<close>

lemma encode_utf8_append: "encode_utf8 (s @ t) = encode_utf8 s @ encode_utf8 t"
  by (simp add: encode_utf8_def)

lemma length_encode_utf8: "length s \<le> length (encode_utf8 s)"
  by (induction s) (auto simp add: encode_utf8_def Let_def)

lemma issuing_succeeds:
  "\<exists>c. generate_pq_x509_certificate h env cn algorithm ca ic None san hw = Inr c \<and>
     (\<exists>sig. ce_signature_hex c = hex sig)"
  unfolding generate_pq_x509_certificate_def Let_def
  by (auto split: prod.splits)

text \<open>A message representative is cut from the message: 64 bytes decide.\<close>

lemma pki_sign_prefix:
  assumes "\<not> contains ''SLH-DSA'' algo" "contains ''87'' algo \<or> \<not> contains ''44'' algo" "take 64 m = take 64 m'" "64 \<le> length m" "64 \<le> length m'"
  shows "pki_sign h algo sk m = pki_sign h algo sk m'"
  using assms by (auto simp add: pki_sign_def run_mldsa87_sign_def run_mldsa65_sign_def sign_mu_def place_upto_def)

lemma issuing_falls_back:
  "pki_keygen h env (canonical_algo alg) = Inl e \<Longrightarrow>
   generate_pq_x509_certificate h env cn alg ca ic sk san True = generate_pq_x509_certificate h env cn alg ca ic sk san False"
  by (simp only: generate_pq_x509_certificate_def Let_def sum.case if_True if_False prod.case)

text \<open>Whose key signs (the issuer's, where one is given), and the signature that the host computes.\<close>

definition signing_key :: "string option \<Rightarrow> bytes \<Rightarrow> bytes py" where
  "signing_key issuer_sk_hex sk = (case issuer_sk_hex of None \<Rightarrow> Inr sk | Some s \<Rightarrow> if s = [] then Inr sk else fromhex s)"

definition host_signature :: "bytes \<Rightarrow> bytes \<Rightarrow> bytes" where
  "host_signature signer_sk tbs_raw = concat (replicate 2 (sha256 (signer_sk @ tbs_raw)))"

lemma issuing_on_host:
  assumes "host_keys cn (canonical_algo alg) = (pk, sk)"
  shows "case signing_key isk sk of
      Inl e \<Rightarrow> generate_pq_x509_certificate h env cn alg ca ic isk san False = Inl e
    | Inr key \<Rightarrow> \<exists>c tbs. generate_pq_x509_certificate h env cn alg ca ic isk san False = Inr c \<and>
        ce_public_key_hex c = hex pk \<and> ce_secret_key_hex c = hex sk \<and> ce_tbs_hex c = hex tbs \<and>
        ce_signature_hex c = hex (host_signature key tbs)"
proof (cases "signing_key isk sk")
  case (Inl e)
  then show ?thesis
    by (simp only: generate_pq_x509_certificate_def Let_def if_False prod.case simp_thms if_True assms bindE_simps sum.case
      flip: signing_key_def)
next
  case (Inr key)
  then show ?thesis
    by (simp only: generate_pq_x509_certificate_def Let_def if_False prod.case simp_thms if_True assms bindE_simps sum.case
      sum.inject pki_cert.simps ex_simps flip: signing_key_def host_signature_def) blast
qed

text \<open>Key generation for a certificate keeps the contract; issuing, which catches what it raises, does not.\<close>

interpretation op_pki_keygen: device_operation "\<lambda>h. pki_keygen h env algo" for env algo
  by unfold_locales (auto simp add: pki_keygen_def dest: op_slhdsa_keygen.needs_device mldsa_needs_device split: if_splits)

subsection \<open>Properties\<close>

text \<open>C23. A certificate's signature does not cover its public key.  With ML-DSA-65 or ML-DSA-87 the bytes to be
  signed are handed to the device as if they were a message representative, so all but their first 64 are dropped;
  those hold the serial number, the names and the start of the validity.  The signature on a certificate is the
  signature on every other one with the same names and times, whatever its algorithm, public key, authority flag
  and host names: swapping in one's own key keeps it valid.
\<close>

theorem certificate_key_not_signed:
  assumes "\<not> contains ''SLH-DSA'' algo" "contains ''87'' algo \<or> \<not> contains ''44'' algo" "20 \<le> length now" "20 \<le> length expires"
  shows "pki_sign h algo sk (encode_utf8 (tbs_text (serial_of ms) cn issuer now expires a pk ca san)) =
    pki_sign h algo sk (encode_utf8 (tbs_text (serial_of ms) cn issuer now expires a' pk' ca' san'))"
proof -
  let ?front = "''VER:3|SER:'' @ serial_of ms @ ''|SUBJ:'' @ cn @ ''|ISS:'' @ issuer @ ''|VALID:'' @ now @ ''->'' @ expires"
  have "64 \<le> length ?front" using assms(3,4) by (simp add: serial_of_def Let_def)
  then have l: "64 \<le> length (encode_utf8 ?front)" using length_encode_utf8 order_trans by blast
  have s: "\<exists>r. encode_utf8 (tbs_text (serial_of ms) cn issuer now expires a pk ca san) = encode_utf8 ?front @ r" for a pk ca san
  proof -
    have "tbs_text (serial_of ms) cn issuer now expires a pk ca san = ?front @ ''|ALGO:'' @ a @ ''|PK:'' @ hex pk @ ''|CA:'' @
        (if ca then ''True'' else ''False'') @ ''|SAN:'' @ join '','' san"
      by (simp only: tbs_text_def append_assoc)
    then show ?thesis by (simp only: encode_utf8_append) blast
  qed
  obtain r r' where r: "encode_utf8 (tbs_text (serial_of ms) cn issuer now expires a pk ca san) = encode_utf8 ?front @ r"
    "encode_utf8 (tbs_text (serial_of ms) cn issuer now expires a' pk' ca' san') = encode_utf8 ?front @ r'"
    using s by metis
  show ?thesis unfolding r by (rule pki_sign_prefix [OF assms(1,2)]) (use l in simp_all)
qed

text \<open>How a session is keyed: shared secret, final key with its two traffic secrets, and the identifier reported.\<close>

definition session_keyed :: "tls_session \<Rightarrow> bytes \<Rightarrow> bytes \<Rightarrow> string option \<Rightarrow> bool" where
  "session_keyed s ss k kid \<longleftrightarrow> tl_pqc_shared_secret s = hex ss \<and> tl_final_hybrid_key s = hex k \<and> tl_qkd_key_id s = kid \<and>
     tl_client_secret s = app_secret k ''c ap traffic'' \<and> tl_server_secret s = app_secret k ''s ap traffic''"

definition constant_secrets :: "tls_session \<Rightarrow> bool" where
  "constant_secrets s \<longleftrightarrow>
     tl_client_secret s = hex (sha256 (sha256 (sha256 (zeros 32)) @ encode_utf8 ''c ap traffic'')) \<and>
     tl_server_secret s = hex (sha256 (sha256 (sha256 (zeros 32)) @ encode_utf8 ''s ap traffic''))"

text \<open>The device fails after the client's key: nothing post-quantum enters.\<close>

definition degraded :: "tls_env \<Rightarrow> bool \<Rightarrow> tls_session \<Rightarrow> bool" where
  "degraded env qkd s =
     (if qkd then session_keyed s [] (sha256 (te_qkd_host env @ encode_utf8 ''SP800-56C'')) (Some (uuid_str (te_uuid_host env)))
      else session_keyed s [] [] None \<and> constant_secrets s)"

lemma keygen_nonempty: "run_mlkem768_keygen h d z i = Inr (pk, sk) \<Longrightarrow> pk \<noteq> []"
  by (auto simp add: run_mlkem768_keygen_def dr8_call_def check_status_Inr bindE_Inr_iff slice_def dest!: length_device_run)

lemma handshake_keyed:
  assumes "(if hw then kem_on_device h env else ([], [], False)) = (cpk, ss, hw1)"
    "qkd_fusing h env q (if cpk = [] then kem_on_host env else ss) hw1 = (k, kid, hw2)"
  shows "\<exists>s. simulate_tls13_pq_handshake h env cn alg q hw = Inr s \<and>
    session_keyed s (if cpk = [] then kem_on_host env else ss) k kid"
proof -
  obtain c sig where c: "generate_pq_x509_certificate h (te_cert env) cn alg False None None [] hw2 = Inr c" "ce_signature_hex c = hex sig"
    using issuing_succeeds by blast
  show ?thesis
    unfolding simulate_tls13_pq_handshake_def Let_def assms(1) using assms(2) c by (simp add: hex_roundtrip session_keyed_def)
qed

lemma device_fails_after_keygen:
  assumes "kem_on_device h env = (cpk, [], False)" "cpk \<noteq> []"
  shows "\<exists>s. simulate_tls13_pq_handshake h env cn alg qkd True = Inr s \<and> degraded env qkd s"
proof (cases qkd)
  case True
  then show ?thesis using handshake_keyed [of True h env cpk "[]" False qkd _ _ False cn alg] assms
    by (simp add: qkd_fusing_def degraded_def)
next
  case False
  then show ?thesis using handshake_keyed [of True h env cpk "[]" False qkd _ _ False cn alg] assms
    by (force simp add: qkd_fusing_def degraded_def constant_secrets_def session_keyed_def app_secret_def Let_def)
qed

text \<open>C25. The handshake in hardware mode never fails; it degrades.  For every device it returns a session, and in it:
  when the device does not generate the client's key, the shared secret is the one that the host computes.  When it
  generates the client's key but cannot encapsulate, or cannot decapsulate, the shared secret is empty: without a quantum
  key the final key is empty too and both traffic secrets are constants that anyone can compute, and with one the
  final key is a hash of that key alone, so that nothing post-quantum enters.  When the three calls answer, their secret is the shared
  secret, and with a quantum key the final key is what the device combines from both; and when only this combiner fails, the final key is the shared secret
  alone, while the session reports the identifier of a quantum key that it does not use.
\<close>

theorem handshake_degrades:
  "\<exists>s. simulate_tls13_pq_handshake h env cn alg qkd True = Inr s \<and>
    (case run_mlkem768_keygen h (te_client_d env) (te_client_z env) 1 of
      Inl _ \<Rightarrow> if qkd then session_keyed s (kem_on_host env) (sha256 (te_qkd_host env @ kem_on_host env @ encode_utf8 ''SP800-56C''))
          (Some (uuid_str (te_uuid_host env)))
        else session_keyed s (kem_on_host env) (kem_on_host env) None
    | Inr (cpk, csk) \<Rightarrow> (case run_mlkem768_encaps h cpk (te_server_m env) 1 of
        Inl _ \<Rightarrow> degraded env qkd s
      | Inr (ct, _) \<Rightarrow> (case run_mlkem768_decaps h csk ct 1 of
          Inl _ \<Rightarrow> degraded env qkd s
        | Inr ss \<Rightarrow> if qkd
            then (case combine_keys_on_aie2 h (te_qkd_device env) ss (te_uuid_device env) 100 32 CUSTOMIZATION_STRING of
                Inl _ \<Rightarrow> session_keyed s ss ss (Some (uuid_str (te_uuid_device env)))
              | Inr k \<Rightarrow> session_keyed s ss k (Some (uuid_str (te_uuid_device env))))
            else session_keyed s ss ss None)))"
proof (cases "run_mlkem768_keygen h (te_client_d env) (te_client_z env) 1")
  case (Inl e)
  then show ?thesis using handshake_keyed [of True h env "[]" "[]" False qkd _ _ False cn alg]
    by (cases qkd) (simp_all add: kem_on_device_def qkd_fusing_def)
next
  case (Inr keys)
  obtain cpk csk where keys: "keys = (cpk, csk)" by (cases keys)
  with Inr have cpk: "cpk \<noteq> []" using keygen_nonempty by blast
  note kg = Inr [unfolded keys]
  note dead = device_fails_after_keygen [OF _ cpk, of h env cn alg qkd]
  show ?thesis
  proof (cases "run_mlkem768_encaps h cpk (te_server_m env) 1")
    case (Inl e)
    then show ?thesis using dead by (simp add: kg kem_on_device_def)
  next
    case (Inr r)
    obtain ct sv where en: "run_mlkem768_encaps h cpk (te_server_m env) 1 = Inr (ct, sv)" using Inr by (cases r) simp
    show ?thesis
    proof (cases "run_mlkem768_decaps h csk ct 1")
      case (Inl e)
      then show ?thesis using dead by (simp add: kg en kem_on_device_def)
    next
      case (Inr ss)
      then have k: "kem_on_device h env = (cpk, ss, True)" by (simp add: kg en kem_on_device_def)
      define kd where "kd = combine_keys_on_aie2 h (te_qkd_device env) ss (te_uuid_device env) 100 32 CUSTOMIZATION_STRING"
      have fused: "qkd_fusing h env qkd ss True =
          (if \<not> qkd then (ss, None, True) else case kd of
             Inr key \<Rightarrow> (key, Some (uuid_str (te_uuid_device env)), True)
           | Inl _ \<Rightarrow> (ss, Some (uuid_str (te_uuid_device env)), False))"
        by (simp add: qkd_fusing_def kd_def)
      have keyed: "\<exists>s. simulate_tls13_pq_handshake h env cn alg qkd True = Inr s \<and> session_keyed s ss key kid"
        if "qkd_fusing h env qkd ss True = (key, kid, hw)" for key kid hw
        using handshake_keyed [of True h env cpk ss True qkd key kid hw cn alg] k cpk that by simp
      show ?thesis
        by (cases kd; cases qkd) (use keyed [unfolded fused, of _ _ False] keyed [unfolded fused, of _ _ True] in \<open>simp_all add: kg en Inr flip: kd_def\<close>)
    qed
  qed
qed

definition half_device :: host where
  "half_device = \<lparr>ho_emulation_mode = None, ho_xrt_ini = None, ho_device_present = True, ho_toolchain_present = True,
     ho_program = (\<lambda>req desc. if desc ! 5 = 1 then Inr (zeros 4) else Inl RuntimeError)\<rparr>"

definition zero_env :: tls_env where
  "zero_env = \<lparr>te_client_d = zeros 32, te_client_z = zeros 32, te_server_m = zeros 32, te_qkd_device = zeros 32, te_uuid_device = zeros 16,
     te_qkd_host = zeros 32, te_uuid_host = zeros 16, te_cert = \<lparr>pe_millis = 0, pe_now = [], pe_expires = [], pe_seed = zeros 32,
       pe_sk_seed = zeros 16, pe_pk_seed = zeros 16, pe_sk_prf = zeros 16\<rparr>\<rparr>"

lemma certificate_key_not_signed_witness:
  "pki_sign half_device ''ML-DSA-65'' (zeros 4032) (encode_utf8 (tbs_text (serial_of 5) ''gateway'' ''ca'' (replicate 23 CHR ''0'') (replicate 23 CHR ''1'') ''ML-DSA-65'' [1, 2] False [])) =
   pki_sign half_device ''ML-DSA-65'' (zeros 4032) (encode_utf8 (tbs_text (serial_of 5) ''gateway'' ''ca'' (replicate 23 CHR ''0'') (replicate 23 CHR ''1'') ''ML-DSA-65'' [3] True []))"
  by (rule certificate_key_not_signed) (simp_all add: contains_def)

lemma handshake_degrades_witness:
  "\<exists>s. simulate_tls13_pq_handshake half_device zero_env ''server'' ''ML-DSA-65'' False True = Inr s \<and> constant_secrets s"
proof -
  have e: "result_word 8 (take n (ljust n (zeros 4))) = 0" if "12 \<le> n" for n
  proof -
    have "take n (ljust n (zeros 4)) = zeros n" using that by (simp add: ljust_def zeros_def flip: replicate_add)
    then show ?thesis using that by (simp add: result_word_def)
  qed
  have call: "dr8_call half_device n 4 op req 1 = (if op = 1 then Inr (take n (ljust n (zeros 4))) else Inl RuntimeError)" if "12 \<le> n" for n op req
    using e [OF that] by (simp add: dr8_call_def dr8_descriptor_def to_bytes_le_def device_run_def load_iron_eq iron_ok_def is_set_def half_device_def
        run_on_device_def check_status_def del: le_bytes.simps)
  have k: "\<exists>pk sk. run_mlkem768_keygen half_device (te_client_d zero_env) (te_client_z zero_env) 1 = Inr (pk, sk)"
    by (simp add: run_mlkem768_keygen_def call)
  have n: "run_mlkem768_encaps half_device pk m 1 = Inl RuntimeError" for pk m
    by (simp add: run_mlkem768_encaps_def call)
  from k obtain pk sk where "run_mlkem768_keygen half_device (te_client_d zero_env) (te_client_z zero_env) 1 = Inr (pk, sk)" by blast
  with handshake_degrades [of half_device zero_env "''server''" "''ML-DSA-65''" False] show ?thesis unfolding n by (auto simp add: degraded_def)
qed

end
