(* ===== verification/Fips202.thy ===== *)
theory Fips202
  imports Kernels Services
begin

text \<open>
  The unified services: hashing (\<open>dr9_fips202_unified_abi.py\<close>, \<open>dr9_fips202_graph.py\<close>,
  \<open>dr9_fips202_service.py\<close>, \<open>kernels/dr9_fips202_service.cc\<close>) with the formats, the call and the device
  kernel, and the choice of a parameter set of ML-KEM (\<open>dr8_mlkem_service.py\<close>, \<open>dr8_mlkem_unified_abi.py\<close>).
  The device's buffers are word-aligned; what its result buffer held before is an argument of the kernel.
\<close>

unbundle bit_operations_syntax

subsection \<open>Formats\<close>

definition FUNC_IDS :: "string \<Rightarrow> int py" where
  "FUNC_IDS func_name =
     (if func_name = ''SHA3-224'' then Inr 1 else if func_name = ''SHA3-256'' then Inr 2
      else if func_name = ''SHA3-384'' then Inr 3 else if func_name = ''SHA3-512'' then Inr 4
      else if func_name = ''SHAKE128'' then Inr 5 else if func_name = ''SHAKE256'' then Inr 6 else Inl KeyError)"

definition pack_dr9_descriptor :: "string \<Rightarrow> nat \<Rightarrow> int \<Rightarrow> int \<Rightarrow> bytes py" where
  "pack_dr9_descriptor func_name msg_len out_len request_id =
     bindE (FUNC_IDS (upper func_name)) (\<lambda>func_id.
     bindE (struct_pack [U 1, U 1, U 1, U 1, U 4, U 4] [func_id, 1, 9, 0, request_id, int msg_len OR push_bit 16 out_len])
       (\<lambda>b. Inr ([0x01, 0x71, 0x52, 0x00] @ b)))"

definition pack_dr9_request :: "bytes \<Rightarrow> bytes py" where
  "pack_dr9_request msg = (if 2048 < length msg then Inl ValueError else Inr (ljust 2048 msg))"

definition pack_dr9_result_header :: "int \<Rightarrow> int \<Rightarrow> int \<Rightarrow> int \<Rightarrow> bytes py" where
  "pack_dr9_result_header request_id status out_len crc =
     bindE (struct_pack [U 4, U 4, U 4, U 4] [request_id, status, out_len, crc]) (\<lambda>b. Inr ([0x4D, 0x52, 0x39, 0x48] @ b))"

text \<open>Request identifier, status, length, digest, checksum.\<close>

definition unpack_dr9_result :: "bytes \<Rightarrow> (int \<times> int \<times> int \<times> bytes \<times> int) py" where
  "unpack_dr9_result raw_result =
     (if length raw_result < 20 then Inl StructError
      else let out_len = result_word 12 raw_result
        in Inr (result_word 4 raw_result, result_word 8 raw_result, out_len, slice 20 (20 + nat out_len) raw_result, result_word 16 raw_result))"

definition default_out_len :: "string \<Rightarrow> int py" where
  "default_out_len func_upper =
     (if func_upper = ''SHA3-224'' then Inr 28 else if func_upper = ''SHA3-256'' then Inr 32
      else if func_upper = ''SHA3-384'' then Inr 48 else if func_upper = ''SHA3-512'' then Inr 64
      else if func_upper = ''SHAKE128'' then Inr 32 else if func_upper = ''SHAKE256'' then Inr 64 else Inl KeyError)"

subsection \<open>The hash service\<close>

definition run_fips202_service :: "host \<Rightarrow> string \<Rightarrow> bytes \<Rightarrow> int option \<Rightarrow> int \<Rightarrow> bytes py" where
  "run_fips202_service h func_name msg out_len request_id =
     bindE (load_iron h) (\<lambda>_.
     let func_upper = upper func_name
     in bindE (case out_len of None \<Rightarrow> default_out_len func_upper | Some n \<Rightarrow> Inr n) (\<lambda>actual_out_len.
        bindE (pack_dr9_request msg) (\<lambda>req.
        bindE (pack_dr9_descriptor func_upper (length msg) actual_out_len request_id) (\<lambda>desc.
        bindE (run_on_device 1044 h desc req) (\<lambda>raw.
        bindE (unpack_dr9_result raw) (\<lambda>(_, status, _, digest, _). if status \<noteq> 0 then Inl RuntimeError else Inr digest))))))"

definition sha3_224_npu :: "host \<Rightarrow> bytes \<Rightarrow> bytes py" where
  "sha3_224_npu h msg = run_fips202_service h ''SHA3-224'' msg (Some 28) 1"

definition sha3_256_npu :: "host \<Rightarrow> bytes \<Rightarrow> bytes py" where
  "sha3_256_npu h msg = run_fips202_service h ''SHA3-256'' msg (Some 32) 1"

definition sha3_384_npu :: "host \<Rightarrow> bytes \<Rightarrow> bytes py" where
  "sha3_384_npu h msg = run_fips202_service h ''SHA3-384'' msg (Some 48) 1"

definition sha3_512_npu :: "host \<Rightarrow> bytes \<Rightarrow> bytes py" where
  "sha3_512_npu h msg = run_fips202_service h ''SHA3-512'' msg (Some 64) 1"

definition shake128_npu :: "host \<Rightarrow> bytes \<Rightarrow> int \<Rightarrow> bytes py" where
  "shake128_npu h msg out_len = run_fips202_service h ''SHAKE128'' msg (Some out_len) 1"

definition shake256_npu :: "host \<Rightarrow> bytes \<Rightarrow> int \<Rightarrow> bytes py" where
  "shake256_npu h msg out_len = run_fips202_service h ''SHAKE256'' msg (Some out_len) 1"

interpretation op_fips202: device_operation "\<lambda>h. run_fips202_service h f msg n rid" for f msg n rid
  by unfold_locales (auto simp add: run_fips202_service_def bindE_Inr_iff load_iron_eq run_on_device_def Let_def split: if_splits)

subsection \<open>The device\<close>

text \<open>Rate, suffix and, where the function fixes it, the output length.\<close>

definition dr9_function :: "nat \<Rightarrow> (nat \<times> byte \<times> nat option) option" where
  "dr9_function func_id =
     (if func_id = 1 then Some (144, 0x06, Some 28) else if func_id = 2 then Some (136, 0x06, Some 32)
      else if func_id = 3 then Some (104, 0x06, Some 48) else if func_id = 4 then Some (72, 0x06, Some 64)
      else if func_id = 5 then Some (168, 0x1F, None) else if func_id = 6 then Some (136, 0x1F, None) else None)"

definition dr9_kernel :: "bytes \<Rightarrow> bytes \<Rightarrow> bytes \<Rightarrow> bytes" where
  "dr9_kernel old req desc =
     (let request_id = result_word 8 desc; msg_len = nat (le_int (slice 12 14 desc));
          refuse = (\<lambda>status. le_bytes 4 0x4839524D @ le_bytes 4 request_id @ le_bytes 4 status @ zeros 1032)
      in if 2048 < msg_len then refuse 4
         else case dr9_function (unat (desc ! 4)) of
           None \<Rightarrow> refuse 2
         | Some (rate, suffix, fixed) \<Rightarrow>
             let out_len = (case fixed of Some n \<Rightarrow> n | None \<Rightarrow> nat (le_int (slice 14 16 desc)))
             in if 1024 < out_len then refuse 4
                else let digest = kernel_squeeze rate (kernel_absorb suffix rate (slice 0 msg_len req)) out_len
                  in le_bytes 4 0x4839524D @ le_bytes 4 request_id @ le_bytes 4 0 @ le_bytes 4 (int out_len)
                    @ le_bytes 4 (compute_crc32 digest) @ digest @ drop (20 + out_len) old)"

subsection \<open>The choice of a parameter set\<close>

datatype param_set = Param_Name string | Param_K int

definition is_param :: "string \<Rightarrow> string \<Rightarrow> int \<Rightarrow> param_set \<Rightarrow> bool" where
  "is_param full short k p = (case p of Param_Name s \<Rightarrow> s = full \<or> s = short | Param_K n \<Rightarrow> n = k)"

definition service_keygen :: "host \<Rightarrow> bytes \<Rightarrow> bytes \<Rightarrow> param_set \<Rightarrow> int \<Rightarrow> (bytes \<times> bytes) py" where
  "service_keygen h d z param_set req_id =
     (if is_param ''ML-KEM-512'' ''512'' 2 param_set then run_mlkem512_keygen h d z req_id
      else if is_param ''ML-KEM-768'' ''768'' 3 param_set then run_mlkem768_keygen h d z req_id
      else if is_param ''ML-KEM-1024'' ''1024'' 4 param_set then run_mlkem1024_keygen h d z req_id
      else Inl ValueError)"

definition service_encaps :: "host \<Rightarrow> bytes \<Rightarrow> bytes \<Rightarrow> param_set \<Rightarrow> int \<Rightarrow> (bytes \<times> bytes) py" where
  "service_encaps h ek m param_set req_id =
     (if is_param ''ML-KEM-512'' ''512'' 2 param_set then run_mlkem512_encaps h ek m req_id
      else if is_param ''ML-KEM-768'' ''768'' 3 param_set then run_mlkem768_encaps h ek m req_id
      else if is_param ''ML-KEM-1024'' ''1024'' 4 param_set then run_mlkem1024_encaps h ek m req_id
      else Inl ValueError)"

definition service_decaps :: "host \<Rightarrow> bytes \<Rightarrow> bytes \<Rightarrow> param_set \<Rightarrow> int \<Rightarrow> bytes py" where
  "service_decaps h dk c param_set req_id =
     (if is_param ''ML-KEM-512'' ''512'' 2 param_set then run_mlkem512_decaps h dk c req_id
      else if is_param ''ML-KEM-768'' ''768'' 3 param_set then run_mlkem768_decaps h dk c req_id
      else if is_param ''ML-KEM-1024'' ''1024'' 4 param_set then run_mlkem1024_decaps h dk c req_id
      else Inl ValueError)"

definition unified_descriptor :: "int \<Rightarrow> int \<Rightarrow> int \<Rightarrow> bytes py" where
  "unified_descriptor request_id param_id op_id =
     struct_pack [U 1, U 1, U 1, U 1, U 1, U 1, U 1, U 1, U 4, U 4] [1, 0x71, 0x52, 0, param_id, op_id, 0x08, 0, request_id, 0]"

subsection \<open>Library\<close>

text \<open>The unified descriptor is the one that the services of ML-KEM-768 and ML-KEM-1024 build themselves.\<close>

lemma unified_descriptor_eq:
  "0 \<le> rid \<Longrightarrow> rid < 4294967296 \<Longrightarrow> 0 \<le> p \<Longrightarrow> p < 256 \<Longrightarrow> 0 \<le> op \<Longrightarrow> op < 256 \<Longrightarrow>
   unified_descriptor rid p op = dr8_descriptor (word_of_int p) (word_of_int op) rid"
  by (simp add: unified_descriptor_def struct_pack_cases dr8_descriptor_def to_bytes_le_def zeros_def eval_nat_numeral)

lemma or_shifted: "m < 65536 \<Longrightarrow> int m OR push_bit 16 n = int m + 65536 * n"
  using concat_bit_eq [of 16 "int m" n] take_bit_int_eq_self [of "int m" 16]
  by (simp add: concat_bit_def push_bit_eq_mult)

text \<open>The functions of FIPS 202 under their names; a fixed-length one ignores the length asked for.\<close>

definition standard_hash :: "string \<Rightarrow> bytes \<Rightarrow> nat \<Rightarrow> bytes option" where
  "standard_hash f msg n =
     (if f = ''SHA3-224'' then Some (sponge 0x06 144 msg 28) else if f = ''SHA3-256'' then Some (sha3_256 msg)
      else if f = ''SHA3-384'' then Some (sponge 0x06 104 msg 48) else if f = ''SHA3-512'' then Some (sha3_512 msg)
      else if f = ''SHAKE128'' then Some (shake128 msg n) else if f = ''SHAKE256'' then Some (shake256 msg n) else None)"

text \<open>The service and the provider choose the same operation.\<close>

lemma service_is_provider_device:
  "service_keygen h d z (Param_Name ''ML-KEM-768'') 1 = mlkem_keygen (silicon_device h other) 768 d z"
  "service_encaps h ek m (Param_Name ''1024'') 1 = mlkem_encaps (silicon_device h other) 1024 ek m"
  "service_decaps h dk c (Param_K 2) 1 = mlkem_decaps (silicon_device h other) 512 dk c"
  by (simp_all add: service_keygen_def service_encaps_def service_decaps_def is_param_def silicon_device_def)

lemma le_bytes_add: "le_bytes (a + b) v = le_bytes a v @ le_bytes b (v div 256 ^ a)"
  by (induction a arbitrary: v) (simp_all add: zdiv_zmult2_eq)

lemma le_bytes_mod: "le_bytes n (v mod 256 ^ n) = le_bytes n v"
  using le_bytes_int [of "le_bytes n v"] by (simp add: le_int_bytes)

lemma dr9_descriptor_fields:
  assumes "FUNC_IDS (upper f) = Inr fid" "m < 65536"
  shows "pack_dr9_descriptor f m n rid = (if 0 \<le> rid \<and> rid < 4294967296 \<and> 0 \<le> n \<and> n < 65536
    then Inr ([0x01, 0x71, 0x52, 0x00, word_of_int fid, 1, 9, 0] @ le_bytes 4 rid @ le_bytes 2 (int m) @ le_bytes 2 n) else Inl StructError)"
proof -
  have fid: "0 < fid" "fid < 7" using assms(1) by (auto simp add: FUNC_IDS_def split: if_splits)
  have "(int m + 65536 * n) mod 256 ^ 2 = int m" "(int m + 65536 * n) div 256 ^ 2 = n" using assms(2) by simp_all
  then have split: "le_bytes 4 (int m + 65536 * n) = le_bytes 2 (int m) @ le_bytes 2 n"
    using le_bytes_add [of 2 2 "int m + 65536 * n"] le_bytes_mod [of 2 "int m + 65536 * n"] by simp
  have fits: "0 \<le> int m + 65536 * n \<and> int m + 65536 * n < 4294967296 \<longleftrightarrow> 0 \<le> n \<and> n < 65536"
    using assms(2) by auto
  have "struct_pack [U 1, U 1, U 1, U 1, U 4, U 4] [fid, 1, 9, 0, rid, int m + 65536 * n] =
    (if (0 \<le> rid \<and> rid < 4294967296) \<and> 0 \<le> int m + 65536 * n \<and> int m + 65536 * n < 4294967296
     then Inr ([word_of_int fid, 1, 9, 0] @ le_bytes 4 rid @ le_bytes 4 (int m + 65536 * n)) else Inl StructError)"
    using fid by (simp add: struct_pack_cases)
  then show ?thesis
    unfolding pack_dr9_descriptor_def assms(1) or_shifted [OF assms(2)] fits split by simp
qed

lemma upper_idem: "upper (upper s) = upper s"
  by (simp add: upper_def upper_char_idem)

lemma dr9_answer:
  assumes "length old = 1044" "m = length req" "m \<le> 2048" "dr9_function (unat (d ! 4)) = Some (rate, sfx, fixed)"
    and "result_word 8 d = rid" "le_int (slice 12 14 d) = int m" "le_int (slice 14 16 d) = int n"
    and "N = (case fixed of Some x \<Rightarrow> x | None \<Rightarrow> n)"
  shows "bindE (unpack_dr9_result (take 1044 (ljust 1044 (dr9_kernel old (ljust 2048 req) d))))
      (\<lambda>(_, status, _, digest, _). if status \<noteq> 0 then Inl RuntimeError else Inr digest) =
    (if 1024 < N then Inl RuntimeError else Inr (sponge sfx rate req N))"
proof -
  have rate: "0 < rate" "rate \<le> 200" using assms(4) by (auto simp add: dr9_function_def split: if_splits)
  have msg: "slice 0 m (ljust 2048 req) = req" using assms(2) by (simp add: slice_def ljust_def)
  have n: "(case fixed of Some x \<Rightarrow> x | None \<Rightarrow> nat (int n)) = N" using assms(8) by (simp split: option.splits)
  show ?thesis
  proof (cases "1024 < N")
    case True
    let ?raw = "le_bytes 4 0x4839524D @ le_bytes 4 rid @ le_bytes 4 4 @ zeros 1032"
    have "dr9_kernel old (ljust 2048 req) d = ?raw"
      unfolding dr9_kernel_def Let_def assms(4-7) using True n assms(3) by (simp del: le_bytes.simps)
    moreover have "result_word 8 ?raw = 4" by (simp add: result_word_def slice_def le_int_bytes_id del: le_bytes.simps)
    moreover have "length ?raw = 1044" by simp
    ultimately show ?thesis using True by (simp add: unpack_dr9_result_def Let_def ljust_id del: le_bytes.simps)
  next
    case False
    let ?g = "sponge sfx rate req N"
    let ?raw = "le_bytes 4 0x4839524D @ le_bytes 4 rid @ le_bytes 4 0 @ le_bytes 4 (int N) @ le_bytes 4 (compute_crc32 ?g) @ ?g @ drop (20 + N) old"
    have k: "dr9_kernel old (ljust 2048 req) d = ?raw"
      unfolding dr9_kernel_def Let_def assms(4-7) using False n assms(3)
      by (simp add: msg kernel_sponge [OF rate] del: le_bytes.simps)
    have g: "length ?g = N" using rate by (simp add: length_sponge)
    have "result_word 8 ?raw = 0" "result_word 12 ?raw = int N"
      using False by (simp_all add: result_word_def slice_def le_int_bytes_id del: le_bytes.simps)
    moreover have "slice 20 (20 + N) ?raw = ?g" using g by (simp add: slice_def)
    moreover have "length ?raw = 1044" using False assms(1) g by simp
    ultimately show ?thesis unfolding k using False by (simp add: unpack_dr9_result_def Let_def ljust_id del: le_bytes.simps)
  qed
qed

lemma dr9_by_name:
  assumes "FUNC_IDS f = Inr fid"
  shows "\<exists>rate sfx fixed. dr9_function (nat fid) = Some (rate, sfx, fixed) \<and> 0 < fid \<and> fid < 7 \<and>
    standard_hash f msg n = Some (sponge sfx rate msg (case fixed of Some x \<Rightarrow> x | None \<Rightarrow> n)) \<and>
    (fixed = None \<longleftrightarrow> f \<in> {''SHAKE128'', ''SHAKE256''}) \<and> (\<forall>x. fixed = Some x \<longrightarrow> x \<le> 1024) \<and> default_out_len f \<noteq> Inl KeyError"
  using assms by (auto simp add: FUNC_IDS_def dr9_function_def standard_hash_def sha3_256_def sha3_512_def shake128_def shake256_def
      default_out_len_def split: if_splits)

subsection \<open>Property\<close>

text \<open>C18. The hash service, host and device together, computes FIPS 202: for the six function names in any case and every
  message of at most 2048 bytes the digest is the standard's, of the length asked for up to 1024 bytes for
  SHAKE and of its own length for SHA-3, which ignores what is asked for.  A longer message, a length that does not fit
  its 16-bit field and a longer SHAKE output raise; nothing is cut silently.
\<close>

theorem hash_service_is_fips202:
  assumes "length old = 1044" "FUNC_IDS (upper f) = Inr fid" "0 \<le> rid" "rid < 4294967296"
    and "(case out_len of Some n \<Rightarrow> Inr n | None \<Rightarrow> default_out_len (upper f)) = Inr n"
  shows "run_fips202_service (on_silicon (dr9_kernel old)) f msg out_len rid =
    (if 2048 < length msg then Inl ValueError
     else if n < 0 \<or> 65536 \<le> n then Inl StructError
     else if upper f \<in> {''SHAKE128'', ''SHAKE256''} \<and> 1024 < n then Inl RuntimeError
     else Inr (the (standard_hash (upper f) msg (nat n))))"
proof -
  obtain rate sfx fixed where f: "dr9_function (nat fid) = Some (rate, sfx, fixed)" "0 < fid" "fid < 7"
    "standard_hash (upper f) msg (nat n) = Some (sponge sfx rate msg (case fixed of Some x \<Rightarrow> x | None \<Rightarrow> nat n))"
    "fixed = None \<longleftrightarrow> upper f \<in> {''SHAKE128'', ''SHAKE256''}" "\<And>x. fixed = Some x \<Longrightarrow> x \<le> 1024"
    using dr9_by_name [OF assms(2), of msg "nat n"] by blast
  let ?N = "case fixed of Some x \<Rightarrow> x | None \<Rightarrow> nat n"
  have run: "run_fips202_service (on_silicon (dr9_kernel old)) f msg out_len rid =
      bindE (pack_dr9_request msg) (\<lambda>req. bindE (pack_dr9_descriptor (upper f) (length msg) n rid) (\<lambda>desc.
        bindE (unpack_dr9_result (take 1044 (ljust 1044 (dr9_kernel old req desc))))
          (\<lambda>(_, status, _, digest, _). if status \<noteq> 0 then Inl RuntimeError else Inr digest)))"
    using assms(5) by (simp add: run_fips202_service_def load_iron_eq Let_def run_on_device_def)
  show ?thesis
  proof (cases "2048 < length msg \<or> n < 0 \<or> 65536 \<le> n")
    case True
    then show ?thesis
      unfolding run using dr9_descriptor_fields [of "upper f" fid "length msg" n rid] assms(2) by (auto simp add: pack_dr9_request_def upper_idem)
  next
    case False
    let ?d = "[0x01, 0x71, 0x52, 0x00, word_of_int fid, 1, 9, 0] @ le_bytes 4 rid @ le_bytes 2 (int (length msg)) @ le_bytes 2 (int (nat n))"
    have "result_word 8 ?d = rid" "le_int (slice 12 14 ?d) = int (length msg)" "le_int (slice 14 16 ?d) = int (nat n)" "nat fid = unat (?d ! 4)"
      using False assms(3,4) f(2,3) by (simp_all add: result_word_def slice_def le_int_bytes_id nth_append unat_eq_nat_uint uint_word_of_int del: le_bytes.simps)
    from dr9_answer [OF assms(1) refl _ f(1) [unfolded this(4)] this(1-3) refl] False
    have "bindE (unpack_dr9_result (take 1044 (ljust 1044 (dr9_kernel old (ljust 2048 msg) ?d))))
        (\<lambda>(_, status, _, digest, _). if status \<noteq> 0 then Inl RuntimeError else Inr digest) =
      (if 1024 < ?N then Inl RuntimeError else Inr (sponge sfx rate msg ?N))" by simp
    moreover have "pack_dr9_descriptor (upper f) (length msg) n rid = Inr ?d"
      using False assms(2,3,4) dr9_descriptor_fields [of "upper f" fid "length msg" n rid] by (simp add: upper_idem)
    moreover have "1024 < ?N \<longleftrightarrow> upper f \<in> {''SHAKE128'', ''SHAKE256''} \<and> 1024 < n"
      unfolding f(5) [symmetric] using f(6) by (cases fixed) fastforce+
    ultimately show ?thesis unfolding run using False f(4) by (simp add: pack_dr9_request_def)
  qed
qed

theorem hash_service_is_fips202_witness:
  "run_fips202_service (on_silicon (dr9_kernel (zeros 1044))) ''shake256'' [1, 2, 3] (Some 200) 7 = Inr (shake256 [1, 2, 3] 200)"
proof -
  have u: "upper ''shake256'' = ''SHAKE256''" by code_simp
  have "FUNC_IDS (upper ''shake256'') = Inr 6" unfolding u by (simp add: FUNC_IDS_def)
  from hash_service_is_fips202 [of "zeros 1044" "''shake256''" 6 7 "Some 200" 200 "[1, 2, 3]", OF _ this] show ?thesis
    unfolding u by (simp add: standard_hash_def)
qed

end
