(* ===== verification/Cluster.thy ===== *)
theory Cluster
  imports Kernels PyCodec
begin

text \<open>
  Planning of work on arrays of tiles: the architectures of \<open>dr26_multi_arch_abi.py\<close> and
  \<open>dr26_multi_arch_graph.py\<close>, and the matrices distributed over tiles of \<open>dr29_cnsa_distributed_abi.py\<close> and
  \<open>dr29_cnsa_distributed_graph.py\<close>, each with its device kernel (\<open>kernels/dr26_multi_arch_*\<close>,
  \<open>kernels/dr29_cnsa_distributed_*\<close>).  What the device's result buffer held before is an argument of the kernels.
  Polynomials are rows of 16-bit or 32-bit words; matrices and vectors have equally many rows of one length.
\<close>

unbundle bit_operations_syntax

subsection \<open>Architectures (dr26)\<close>

abbreviation (input) MAGIC_DESC_DR26 :: int where "MAGIC_DESC_DR26 \<equiv> 0x01264152"
abbreviation (input) ARCH_PHOENIX_XDNA1 :: int where "ARCH_PHOENIX_XDNA1 \<equiv> 0"
abbreviation (input) ARCH_STRIX_XDNA2 :: int where "ARCH_STRIX_XDNA2 \<equiv> 1"
abbreviation (input) ARCH_ALVEO_V70 :: int where "ARCH_ALVEO_V70 \<equiv> 2"

record arch_spec =
  as_rows :: int
  as_cols :: int
  as_total_tiles :: int
  as_dma_channels_per_col :: int
  as_sram_per_tile_kb :: int
  as_prog_mem_per_tile_kb :: int
  as_peak_tops :: int

definition phoenix_spec :: arch_spec where
  "phoenix_spec = \<lparr>as_rows = 4, as_cols = 5, as_total_tiles = 20, as_dma_channels_per_col = 2, as_sram_per_tile_kb = 64,
     as_prog_mem_per_tile_kb = 16, as_peak_tops = 10\<rparr>"

definition strix_spec :: arch_spec where
  "strix_spec = \<lparr>as_rows = 4, as_cols = 8, as_total_tiles = 32, as_dma_channels_per_col = 4, as_sram_per_tile_kb = 64,
     as_prog_mem_per_tile_kb = 16, as_peak_tops = 50\<rparr>"

definition alveo_spec :: arch_spec where
  "alveo_spec = \<lparr>as_rows = 8, as_cols = 38, as_total_tiles = 304, as_dma_channels_per_col = 4, as_sram_per_tile_kb = 64,
     as_prog_mem_per_tile_kb = 16, as_peak_tops = 200\<rparr>"

definition ARCH_SPECS :: "int \<Rightarrow> arch_spec option" where
  "ARCH_SPECS arch = (if arch = ARCH_PHOENIX_XDNA1 then Some phoenix_spec else if arch = ARCH_STRIX_XDNA2 then Some strix_spec
     else if arch = ARCH_ALVEO_V70 then Some alveo_spec else None)"

record dr26_descriptor =
  d26_operation_mode :: int
  d26_target_arch :: int
  d26_requested_tiles :: int
  d26_epoch :: int
  d26_reserved :: int

definition pack_dr26_descriptor :: "int \<Rightarrow> int \<Rightarrow> int \<Rightarrow> int \<Rightarrow> bytes py" where
  "pack_dr26_descriptor operation_mode target_arch requested_tiles epoch =
     struct_pack_into (replicate 8 (U 4)) (zeros 32) 0 [MAGIC_DESC_DR26, operation_mode, target_arch, requested_tiles, epoch, 0, 0, 0]"

definition unpack_dr26_descriptor :: "bytes \<Rightarrow> dr26_descriptor py" where
  "unpack_dr26_descriptor data =
     (if length data < 32 then Inl ValueError
      else bindE (struct_unpack_from (replicate 8 (U 4)) data 0) (\<lambda>w.
        if w ! 0 \<noteq> MAGIC_DESC_DR26 then Inl ValueError
        else Inr \<lparr>d26_operation_mode = w ! 1, d26_target_arch = w ! 2, d26_requested_tiles = w ! 3, d26_epoch = w ! 4,
          d26_reserved = w ! 5\<rparr>))"

definition dispatch_dr26 :: "host \<Rightarrow> int \<Rightarrow> int \<Rightarrow> int \<Rightarrow> int \<Rightarrow> bytes py" where
  "dispatch_dr26 h operation_mode target_arch requested_tiles epoch =
     bindE (pack_dr26_descriptor operation_mode target_arch requested_tiles epoch) (\<lambda>desc.
     bindE (dispatch 8192 h desc (zeros 8192)) check_status)"

definition query_arch_topology_on_aie2 :: "host \<Rightarrow> int \<Rightarrow> int \<Rightarrow> arch_spec py" where
  "query_arch_topology_on_aie2 h target_arch epoch =
     bindE (dispatch_dr26 h 0 target_arch 1 epoch) (\<lambda>raw. bindE (struct_unpack_from (replicate 7 (U 4)) raw 16) (\<lambda>w.
       Inr \<lparr>as_rows = w ! 0, as_cols = w ! 1, as_total_tiles = w ! 2, as_dma_channels_per_col = w ! 3, as_sram_per_tile_kb = w ! 4,
         as_prog_mem_per_tile_kb = w ! 5, as_peak_tops = w ! 6\<rparr>))"

definition validate_grid_fit_on_aie2 :: "host \<Rightarrow> int \<Rightarrow> int \<Rightarrow> int \<Rightarrow> (bool \<times> int) py" where
  "validate_grid_fit_on_aie2 h target_arch req_tiles epoch =
     bindE (dispatch_dr26 h 1 target_arch req_tiles epoch) (\<lambda>raw. bindE (struct_unpack_from (replicate 2 (U 4)) raw 16) (\<lambda>w.
       Inr (w ! 0 \<noteq> 0, w ! 1)))"

definition partition_columns_on_aie2 :: "host \<Rightarrow> int \<Rightarrow> int \<Rightarrow> int \<Rightarrow> (int \<times> int) list py" where
  "partition_columns_on_aie2 h target_arch requested_instances epoch =
     bindE (dispatch_dr26 h 2 target_arch requested_instances epoch) (\<lambda>raw.
     bindE (struct_unpack_from (replicate 1 (U 4)) raw 16) (\<lambda>n.
       mapE (\<lambda>i. bindE (struct_unpack_from (replicate 2 (U 4)) raw (20 + 8 * i)) (\<lambda>w. Inr (w ! 0, w ! 1))) [0..<nat (n ! 0)]))"

record mlir_topology =
  mt_magic :: int
  mt_arch_id :: int
  mt_rows :: int
  mt_cols :: int
  mt_total_tiles :: int
  mt_shim_rows :: int
  mt_total_dma_streams :: int

definition emit_mlir_topology_on_aie2 :: "host \<Rightarrow> int \<Rightarrow> int \<Rightarrow> mlir_topology py" where
  "emit_mlir_topology_on_aie2 h target_arch epoch =
     bindE (dispatch_dr26 h 3 target_arch 1 epoch) (\<lambda>raw. bindE (struct_unpack_from (replicate 7 (U 4)) raw 16) (\<lambda>w.
       Inr \<lparr>mt_magic = w ! 0, mt_arch_id = w ! 1, mt_rows = w ! 2, mt_cols = w ! 3, mt_total_tiles = w ! 4, mt_shim_rows = w ! 5,
         mt_total_dma_streams = w ! 6\<rparr>))"

definition spec_of :: "int \<Rightarrow> arch_spec" where
  "spec_of target_arch = (case ARCH_SPECS target_arch of Some s \<Rightarrow> s | None \<Rightarrow> phoenix_spec)"

definition ref_query_arch_topology :: "int \<Rightarrow> arch_spec" where
  "ref_query_arch_topology target_arch = spec_of target_arch"

definition ref_validate_grid_fit :: "int \<Rightarrow> int \<Rightarrow> bool \<times> int" where
  "ref_validate_grid_fit target_arch req_tiles =
     (let spec = spec_of target_arch
      in if req_tiles \<le> 0 \<or> as_total_tiles spec < req_tiles then (False, 0) else (True, as_total_tiles spec div req_tiles))"

definition partition_step :: "int \<Rightarrow> int \<Rightarrow> int \<times> (int \<times> int) list \<Rightarrow> nat \<Rightarrow> int \<times> (int \<times> int) list" where
  "partition_step cols_per_instance remainder st i = (case st of (cur_col, partitions) \<Rightarrow>
     let num = cols_per_instance + (if int i < remainder then 1 else 0) in (cur_col + num, partitions @ [(cur_col, num)]))"

definition ref_partition_columns :: "int \<Rightarrow> int \<Rightarrow> (int \<times> int) list" where
  "ref_partition_columns target_arch requested_instances =
     (let cols = as_cols (spec_of target_arch); instances = max 1 (min requested_instances cols)
      in snd (foldl (partition_step (cols div instances) (cols mod instances)) (0, []) [0..<nat instances]))"

definition ref_emit_mlir_topology :: "int \<Rightarrow> mlir_topology" where
  "ref_emit_mlir_topology target_arch =
     (let spec = spec_of target_arch
      in \<lparr>mt_magic = 0x4D4C4952, mt_arch_id = target_arch, mt_rows = as_rows spec, mt_cols = as_cols spec,
          mt_total_tiles = as_total_tiles spec, mt_shim_rows = (if target_arch = ARCH_ALVEO_V70 then 2 else 1),
          mt_total_dma_streams = as_dma_channels_per_col spec * as_cols spec\<rparr>)"

subsection \<open>The kernel of dr26\<close>

text \<open>The device takes every unknown identifier for the last architecture, the host for the first.\<close>

definition get_arch_geometry :: "int \<Rightarrow> arch_spec" where
  "get_arch_geometry arch_id = (if arch_id = 0 then phoenix_spec else if arch_id = 1 then strix_spec else alveo_spec)"

definition validate_spatial_fit :: "int \<Rightarrow> int \<Rightarrow> int \<times> int" where
  "validate_spatial_fit arch_id req_tiles =
     (let geom = get_arch_geometry arch_id
      in if req_tiles = 0 \<or> as_total_tiles geom < req_tiles then (0, 0) else (1, as_total_tiles geom div req_tiles))"

definition partition_columns :: "int \<Rightarrow> int \<Rightarrow> (int \<times> int) list" where
  "partition_columns arch_id requested_instances =
     (let geom = get_arch_geometry arch_id;
          instances = (if requested_instances = 0 then 1 else requested_instances);
          instances = (if as_cols geom < instances then as_cols geom else instances)
      in snd (foldl (partition_step (as_cols geom div instances) (as_cols geom mod instances)) (0, []) [0..<nat instances]))"

text \<open>The header, the data and what they leave of the buffer.\<close>

definition device_record :: "bytes \<Rightarrow> int \<Rightarrow> int \<Rightarrow> int \<Rightarrow> int list \<Rightarrow> bytes" where
  "device_record old magic epoch status data =
     words_bytes [magic, epoch, status, 4 * int (length data)] @ words_bytes data @ drop (16 + 4 * length data) old"

definition dr26_kernel :: "bytes \<Rightarrow> bytes \<Rightarrow> bytes \<Rightarrow> bytes" where
  "dr26_kernel old req desc =
     (let op_mode = result_word 4 desc; target_arch = result_word 8 desc; req_tiles = result_word 12 desc; epoch = result_word 16 desc;
          geom = get_arch_geometry target_arch
      in if result_word 0 desc \<noteq> MAGIC_DESC_DR26 then words_bytes [0xDEAD0003, 0, 1] @ drop 12 old
         else if op_mode = 0 then device_record old MAGIC_DESC_DR26 epoch 0
           [as_rows geom, as_cols geom, as_total_tiles geom, as_dma_channels_per_col geom, as_sram_per_tile_kb geom,
            as_prog_mem_per_tile_kb geom, as_peak_tops geom]
         else if op_mode = 1 then (case validate_spatial_fit target_arch req_tiles of (is_valid, max_concurrent) \<Rightarrow>
           device_record old MAGIC_DESC_DR26 epoch 0 [is_valid, max_concurrent])
         else if op_mode = 2 then (let partitions = partition_columns target_arch req_tiles
           in device_record old MAGIC_DESC_DR26 epoch 0 (int (length partitions) # concat (map (\<lambda>(s, n). [s, n]) partitions)))
         else if op_mode = 3 then device_record old MAGIC_DESC_DR26 epoch 0
           [0x4D4C4952, target_arch, as_rows geom, as_cols geom, as_total_tiles geom, if target_arch = 2 then 2 else 1,
            as_dma_channels_per_col geom * as_cols geom]
         else device_record old MAGIC_DESC_DR26 epoch 0xFF [])"

subsection \<open>Distributed matrices (dr29)\<close>

abbreviation (input) MAGIC_DESC_DR29 :: int where "MAGIC_DESC_DR29 \<equiv> 0x01294D54"
abbreviation (input) CNSA_ALGO_MLDSA87 :: int where "CNSA_ALGO_MLDSA87 \<equiv> 1"
abbreviation (input) CNSA_ALGO_MLKEM1024 :: int where "CNSA_ALGO_MLKEM1024 \<equiv> 2"

record dr29_descriptor =
  d29_operation_mode :: int
  d29_algo_type :: int
  d29_tile_index :: int
  d29_num_tiles :: int
  d29_epoch :: int
  d29_reserved1 :: int
  d29_reserved2 :: int

definition pack_dr29_descriptor :: "int \<Rightarrow> int \<Rightarrow> int \<Rightarrow> int \<Rightarrow> int \<Rightarrow> bytes py" where
  "pack_dr29_descriptor operation_mode algo_type tile_index num_tiles epoch =
     struct_pack_into (replicate 8 (U 4)) (zeros 32) 0 [MAGIC_DESC_DR29, operation_mode, algo_type, tile_index, num_tiles, epoch, 0, 0]"

definition unpack_dr29_descriptor :: "bytes \<Rightarrow> dr29_descriptor py" where
  "unpack_dr29_descriptor data =
     (if length data < 32 then Inl ValueError
      else bindE (struct_unpack_from (replicate 8 (U 4)) data 0) (\<lambda>w.
        if w ! 0 \<noteq> MAGIC_DESC_DR29 then Inl ValueError
        else Inr \<lparr>d29_operation_mode = w ! 1, d29_algo_type = w ! 2, d29_tile_index = w ! 3, d29_num_tiles = w ! 4,
          d29_epoch = w ! 5, d29_reserved1 = w ! 6, d29_reserved2 = w ! 7\<rparr>))"

definition dispatch_dr29 :: "host \<Rightarrow> bytes py \<Rightarrow> bytes \<Rightarrow> bytes py" where
  "dispatch_dr29 h desc req = bindE desc (\<lambda>desc. bindE (dispatch 8192 h desc req) check_status)"

record partition_info =
  pi_algo_type :: int
  pi_tile_index :: int
  pi_start_row :: int
  pi_num_rows :: int
  pi_row_length :: int
  pi_polys_on_tile :: int
  pi_matrix_bytes :: int
  pi_vector_bytes :: int
  pi_total_sram_kb :: int
  pi_is_under_44kb_bound :: bool

definition query_partition_info_on_aie2 :: "host \<Rightarrow> int \<Rightarrow> int \<Rightarrow> int \<Rightarrow> int \<Rightarrow> partition_info py" where
  "query_partition_info_on_aie2 h algo_type tile_index num_tiles epoch =
     bindE (dispatch_dr29 h (pack_dr29_descriptor 0 algo_type tile_index num_tiles epoch) (zeros 16384)) (\<lambda>raw.
     bindE (struct_unpack_from (replicate 10 (U 4)) raw 16) (\<lambda>w.
       Inr \<lparr>pi_algo_type = w ! 0, pi_tile_index = w ! 1, pi_start_row = w ! 2, pi_num_rows = w ! 3, pi_row_length = w ! 4,
         pi_polys_on_tile = w ! 5, pi_matrix_bytes = w ! 6, pi_vector_bytes = w ! 7, pi_total_sram_kb = w ! 8,
         pi_is_under_44kb_bound = (w ! 9 \<noteq> 0)\<rparr>))"

text \<open>An array of one polynomial, of either type.\<close>

datatype np_row = R16 "16 word list" | R32 "32 word list"

definition row_bytes :: "np_row \<Rightarrow> bytes" where
  "row_bytes r = (case r of R16 xs \<Rightarrow> concat (map (\<lambda>x. le_bytes 2 (uint x)) xs) | R32 xs \<Rightarrow> concat (map (\<lambda>x. le_bytes 4 (uint x)) xs))"

definition tobytes :: "np_row list \<Rightarrow> bytes" where
  "tobytes rows = concat (map row_bytes rows)"

text \<open>\<open>np.frombuffer\<close> on buffers of a multiple of the item size, which these are.\<close>

definition frombuffer16 :: "nat \<Rightarrow> bytes \<Rightarrow> 16 word list" where
  "frombuffer16 n bs = map (\<lambda>i. word_of_int (le_int (slice (i * 2) ((i + 1) * 2) bs))) [0..<n]"

definition frombuffer32 :: "nat \<Rightarrow> bytes \<Rightarrow> 32 word list" where
  "frombuffer32 n bs = map (\<lambda>i. word_of_int (le_int (slice (i * 4) ((i + 1) * 4) bs))) [0..<n]"

definition result_poly :: "int \<Rightarrow> bytes \<Rightarrow> np_row" where
  "result_poly algo_type raw = (if algo_type = CNSA_ALGO_MLKEM1024 then R16 (frombuffer16 256 (slice 16 528 raw))
     else R32 (frombuffer32 256 (slice 16 1040 raw)))"

definition compute_row_accum_on_aie2 :: "host \<Rightarrow> int \<Rightarrow> np_row list \<Rightarrow> np_row list \<Rightarrow> int \<Rightarrow> np_row py" where
  "compute_row_accum_on_aie2 h algo_type matrix_row vector_s epoch =
     (let m = tobytes matrix_row; s = tobytes vector_s; off = (if algo_type = CNSA_ALGO_MLKEM1024 then 2048 else 7168);
          req = assign_slice off (off + length s) s (assign_slice 0 (length m) m (zeros 16384))
      in bindE (dispatch_dr29 h (pack_dr29_descriptor 1 algo_type 0 4 epoch) req) (\<lambda>raw. Inr (result_poly algo_type raw)))"

definition place_poly :: "nat \<times> bytes \<Rightarrow> np_row \<Rightarrow> nat \<times> bytes" where
  "place_poly st p = (case st of (offset, req) \<Rightarrow>
     (offset + length (row_bytes p), assign_slice offset (offset + length (row_bytes p)) (row_bytes p) req))"

definition aggregate_cluster_on_aie2 :: "host \<Rightarrow> int \<Rightarrow> np_row list \<Rightarrow> int \<Rightarrow> np_row py" where
  "aggregate_cluster_on_aie2 h algo_type partial_polys epoch =
     bindE (dispatch_dr29 h (pack_dr29_descriptor 2 algo_type 0 4 epoch) (snd (foldl place_poly (0, zeros 16384) (take 4 partial_polys))))
       (\<lambda>raw. Inr (result_poly algo_type raw))"

subsection \<open>Reference routines of dr29\<close>

definition ref_compute_partition_info :: "int \<Rightarrow> int \<Rightarrow> int \<Rightarrow> partition_info py" where
  "ref_compute_partition_info algo_type tile_index num_tiles =
     (if num_tiles = 0 then Inl ZeroDivisionError
      else let (k, l, w) = (if algo_type = CNSA_ALGO_MLDSA87 then (8, 7, 4) else (4, 4, 2));
               rows_per_tile = k div num_tiles;
               polys = rows_per_tile * l;
               m_bytes = polys * 256 * w;
               v_bytes = l * 256 * w;
               total_kb = (m_bytes + v_bytes + rows_per_tile * 256 * w + 1023) div 1024
           in Inr \<lparr>pi_algo_type = algo_type, pi_tile_index = tile_index, pi_start_row = tile_index * rows_per_tile,
                pi_num_rows = rows_per_tile, pi_row_length = l, pi_polys_on_tile = polys, pi_matrix_bytes = m_bytes,
                pi_vector_bytes = v_bytes, pi_total_sram_kb = total_kb, pi_is_under_44kb_bound = (total_kb \<le> 44)\<rparr>)"

text \<open>\<open>astype(np.int64)\<close>, and the wrap-around of \<open>int64\<close>.\<close>

definition as_int64 :: "np_row \<Rightarrow> int list" where
  "as_int64 r = (case r of R16 xs \<Rightarrow> map uint xs | R32 xs \<Rightarrow> map uint xs)"

definition wrap64 :: "int \<Rightarrow> int" where
  "wrap64 x = (x + 2 ^ 63) mod 2 ^ 64 - 2 ^ 63"

definition modulus_of :: "int \<Rightarrow> int" where
  "modulus_of algo_type = (if algo_type = CNSA_ALGO_MLDSA87 then 8380417 else 3329)"

definition narrow :: "int \<Rightarrow> int list \<Rightarrow> np_row" where
  "narrow algo_type xs = (if algo_type = CNSA_ALGO_MLDSA87 then R32 (map word_of_int xs) else R16 (map word_of_int xs))"

text \<open>The sum over the rows, for rows of length \<open>n\<close>.\<close>

definition sum_rows :: "nat \<Rightarrow> int list list \<Rightarrow> int list" where
  "sum_rows n rows = foldl (map2 (\<lambda>a x. wrap64 (a + x))) (replicate n 0) rows"

definition ref_compute_row_accum :: "int \<Rightarrow> np_row list \<Rightarrow> np_row list \<Rightarrow> np_row" where
  "ref_compute_row_accum algo_type matrix_row vector_s =
     (let q = modulus_of algo_type;
          prod = map2 (\<lambda>m s. map2 (\<lambda>a b. wrap64 (a * b) mod q) (as_int64 m) (as_int64 s)) matrix_row vector_s
      in narrow algo_type (map (\<lambda>x. x mod q) (sum_rows 256 prod)))"

definition ref_aggregate_cluster :: "int \<Rightarrow> np_row list \<Rightarrow> np_row" where
  "ref_aggregate_cluster algo_type partial_polys =
     narrow algo_type (map (\<lambda>x. x mod modulus_of algo_type) (sum_rows 256 (map as_int64 (take 4 partial_polys))))"

subsection \<open>The kernel of dr29\<close>

text \<open>A number of tiles of zero, a division by zero on the device, is not described.\<close>

definition compute_partition_info :: "int \<Rightarrow> int \<Rightarrow> int \<Rightarrow> int list" where
  "compute_partition_info algo_type tile_index num_tiles =
     (let (k, l, w) = (if algo_type = 1 then (8, 7, 4) else (4, 4, 2));
          rows_per_tile = k div num_tiles;
          polys = rows_per_tile * l;
          matrix_bytes = polys * 256 * w;
          vector_bytes = l * 256 * w;
          total_sram_kb = (matrix_bytes + vector_bytes + rows_per_tile * 256 * w + 1023) div 1024
      in [algo_type, tile_index, u32 (tile_index * rows_per_tile), rows_per_tile, l, polys, matrix_bytes, vector_bytes,
          total_sram_kb, if total_sram_kb \<le> 44 then 1 else 0])"

definition mldsa_mac :: "32 word list \<Rightarrow> 32 word list \<times> 32 word list \<Rightarrow> 32 word list" where
  "mldsa_mac acc_poly polys = (case polys of (a_poly, s_poly) \<Rightarrow>
     map (\<lambda>j. let prod = ucast (a_poly ! j) * (ucast (s_poly ! j) :: 64 word);
                  sum = ucast (acc_poly ! j) + prod mod 8380417
              in ucast (sum mod 8380417)) [0..<256])"

definition mlkem_mac :: "16 word list \<Rightarrow> 16 word list \<times> 16 word list \<Rightarrow> 16 word list" where
  "mlkem_mac acc_poly polys = (case polys of (a_poly, s_poly) \<Rightarrow>
     map (\<lambda>j. let prod = ucast (a_poly ! j) * (ucast (s_poly ! j) :: 32 word);
                  sum = ucast (acc_poly ! j) + prod mod 3329
              in ucast (sum mod 3329)) [0..<256])"

definition mldsa_add :: "32 word list \<Rightarrow> 32 word list \<Rightarrow> 32 word list" where
  "mldsa_add out_sum p = map (\<lambda>j. ucast ((ucast (out_sum ! j) + ucast (p ! j) :: 64 word) mod 8380417)) [0..<256]"

definition mlkem_add :: "16 word list \<Rightarrow> 16 word list \<Rightarrow> 16 word list" where
  "mlkem_add out_sum p = map (\<lambda>j. ucast ((ucast (out_sum ! j) + ucast (p ! j) :: 32 word) mod 3329)) [0..<256]"

definition poly16_at :: "bytes \<Rightarrow> nat \<Rightarrow> 16 word list" where
  "poly16_at bs i = frombuffer16 256 (slice (i * 512) ((i + 1) * 512) bs)"

definition poly32_at :: "bytes \<Rightarrow> nat \<Rightarrow> 32 word list" where
  "poly32_at bs i = frombuffer32 256 (slice (i * 1024) ((i + 1) * 1024) bs)"

definition dr29_kernel :: "bytes \<Rightarrow> bytes \<Rightarrow> bytes \<Rightarrow> bytes" where
  "dr29_kernel old req desc =
     (let op_mode = result_word 4 desc; algo_type = result_word 8 desc; tile_index = result_word 12 desc; num_tiles = result_word 16 desc;
          epoch = result_word 20 desc;
          answer = (\<lambda>status data. words_bytes [MAGIC_DESC_DR29, epoch, status, int (length data)] @ data @ drop (16 + length data) old)
      in if result_word 0 desc \<noteq> MAGIC_DESC_DR29 then words_bytes [0xDEAD0005, 0, 1] @ drop 12 old
         else if op_mode = 0 then answer 0 (words_bytes (compute_partition_info algo_type tile_index num_tiles))
         else if op_mode = 1 then
           if algo_type = 2 then answer 0 (row_bytes (R16 (foldl mlkem_mac (replicate 256 0)
             (map (\<lambda>c. (poly16_at req c, poly16_at (drop 2048 req) c)) [0..<4]))))
           else answer 0 (row_bytes (R32 (foldl mldsa_mac (replicate 256 0)
             (map (\<lambda>c. (poly32_at req c, poly32_at (drop 7168 req) c)) [0..<7]))))
         else if op_mode = 2 then
           if algo_type = 2 then answer 0 (row_bytes (R16 (foldl mlkem_add (replicate 256 0) (map (poly16_at req) [0..<4]))))
           else answer 0 (row_bytes (R32 (foldl mldsa_add (replicate 256 0) (map (poly32_at req) [0..<4]))))
         else answer 0xFF [])"

subsection \<open>Words in buffers\<close>

lemma pack_eight_words:
  assumes "length ws = 8"
  shows "struct_pack_into (replicate 8 (U 4)) (zeros 32) 0 ws = (if words_ok ws then Inr (words_bytes ws) else Inl StructError)"
  using struct_bytes_words [of ws] assms struct_fits_words [of 8 ws]
  by (simp add: struct_pack_into_def struct_pack_cases put_def)

lemma descriptor_words:
  assumes "words_ok [a, b, c, d, e, f, g, i]"
  shows "result_word 0 (words_bytes [a, b, c, d, e, f, g, i]) = a" "result_word 4 (words_bytes [a, b, c, d, e, f, g, i]) = b"
    "result_word 8 (words_bytes [a, b, c, d, e, f, g, i]) = c" "result_word 12 (words_bytes [a, b, c, d, e, f, g, i]) = d"
    "result_word 16 (words_bytes [a, b, c, d, e, f, g, i]) = e" "result_word 20 (words_bytes [a, b, c, d, e, f, g, i]) = f"
  using result_word_nth [OF assms, where rest = "[]"]
  by (fastforce simp del: words_bytes_simps dest: meta_spec [of _ 0] meta_spec [of _ 1] meta_spec [of _ 2] meta_spec [of _ 3] meta_spec [of _ 4] meta_spec [of _ 5])+

lemma dispatch_silicon: "length (k req desc) = n \<Longrightarrow> dispatch n (on_silicon k) desc req = Inr (k req desc)"
  by (simp add: dispatch_ok run_on_device_def ljust_id)

subsection \<open>Tilings\<close>

text \<open>The columns of a list of intervals, in order.\<close>

definition columns_of :: "(int \<times> int) list \<Rightarrow> int list" where
  "columns_of ps = concat (map (\<lambda>(s, n). [s..s + n - 1]) ps)"

lemma upto_join: "a \<le> b \<Longrightarrow> b \<le> c \<Longrightarrow> [a..b - 1] @ [b..c - 1] = [a..c - (1 :: int)]"
proof (cases "b = c")
  case False
  assume "a \<le> b" "b \<le> c"
  with False show ?thesis using upto_split1 [of a b "c - 1"] by simp
qed simp

lemma partition_loop:
  "foldl (partition_step q r) (0, []) [0..<k] =
    (int k * q + min (int k) r', map (\<lambda>i. (int i * q + min (int i) r', q + (if int i < r then 1 else 0))) [0..<k])"
  if "r' = r" "0 \<le> r"
  using that by (induction k) (auto simp add: partition_step_def Let_def algebra_simps)

lemma columns_of_loop:
  assumes "0 \<le> q" "0 \<le> r"
  shows "columns_of (map (\<lambda>i. (int i * q + min (int i) r, q + (if int i < r then 1 else 0))) [0..<k]) = [0..int k * q + min (int k) r - 1]"
proof (induction k)
  case (Suc k)
  have "0 \<le> int k * q + min (int k) r" using assms by simp
  moreover have "int k * q + min (int k) r + (q + (if int k < r then 1 else 0)) = int (Suc k) * q + min (int (Suc k)) r"
    by (simp add: algebra_simps)
  moreover have "int k * q + min (int k) r \<le> int (Suc k) * q + min (int (Suc k)) r" using assms by (auto simp add: algebra_simps)
  ultimately show ?case
    using Suc upto_join [of 0 "int k * q + min (int k) r" "int (Suc k) * q + min (int (Suc k)) r"]
    by (simp add: columns_of_def add.assoc)
qed (simp add: columns_of_def)

lemma partition_exact:
  assumes "0 < cols" "1 \<le> k" "k \<le> cols"
  shows "snd (foldl (partition_step (cols div k) (cols mod k)) (0, []) [0..<nat k]) =
    map (\<lambda>i. (int i * (cols div k) + min (int i) (cols mod k), cols div k + (if int i < cols mod k then 1 else 0))) [0..<nat k]"
    and "columns_of (snd (foldl (partition_step (cols div k) (cols mod k)) (0, []) [0..<nat k])) = [0..cols - 1]"
proof -
  have r: "0 \<le> cols mod k" "cols mod k < k" using assms by simp_all
  then have total: "int (nat k) * (cols div k) + min (int (nat k)) (cols mod k) = cols" using assms by simp
  show e: "snd (foldl (partition_step (cols div k) (cols mod k)) (0, []) [0..<nat k]) =
    map (\<lambda>i. (int i * (cols div k) + min (int i) (cols mod k), cols div k + (if int i < cols mod k then 1 else 0))) [0..<nat k]"
    using partition_loop [OF refl r(1), of "cols div k" "nat k"] by simp
  have "0 \<le> cols div k" using assms by (simp add: pos_imp_zdiv_nonneg_iff)
  from columns_of_loop [OF this r(1), of "nat k"]
  show "columns_of (snd (foldl (partition_step (cols div k) (cols mod k)) (0, []) [0..<nat k])) = [0..cols - 1]"
    unfolding e total .
qed

lemma spec_bounds: "0 < as_cols (spec_of a)" "as_cols (spec_of a) \<le> 38" "as_total_tiles (spec_of a) < 65536"
  by (simp_all add: spec_of_def ARCH_SPECS_def phoenix_spec_def strix_spec_def alveo_spec_def)

lemma partition_facts:
  "columns_of (ref_partition_columns arch k) = [0..as_cols (spec_of arch) - 1] \<and>
   int (length (ref_partition_columns arch k)) = max 1 (min k (as_cols (spec_of arch))) \<and>
   (\<forall>p \<in> set (ref_partition_columns arch k). \<forall>p' \<in> set (ref_partition_columns arch k). 1 \<le> snd p \<and> snd p \<le> snd p' + 1)"
proof -
  let ?c = "as_cols (spec_of arch)" and ?k = "max 1 (min k (as_cols (spec_of arch)))"
  have k: "1 \<le> ?k" "?k \<le> ?c" using spec_bounds(1) [of arch] by simp_all
  note e = partition_exact [OF spec_bounds(1) k]
  have p: "ref_partition_columns arch k = map (\<lambda>i. (int i * (?c div ?k) + min (int i) (?c mod ?k), ?c div ?k + (if int i < ?c mod ?k then 1 else 0))) [0..<nat ?k]"
    unfolding ref_partition_columns_def Let_def by (rule e(1))
  have "1 \<le> ?c div ?k" using k zdiv_mono1 [of ?k ?c ?k] by simp
  then show ?thesis
    using e(2) unfolding p by (auto simp add: ref_partition_columns_def e(1) Let_def)
qed

text \<open>A partition of the columns is a tiling: for every architecture identifier and every number of pipelines asked for,
  the intervals put one after the other are the columns from the first to the last, each exactly once; there are as many as asked for,
  but at least one and at most one for each column, none is empty, and their widths differ by one at most.
\<close>

theorem partition_is_tiling:
  "columns_of (ref_partition_columns arch k) = [0..as_cols (spec_of arch) - 1] \<and>
   int (length (ref_partition_columns arch k)) = max 1 (min k (as_cols (spec_of arch))) \<and>
   (\<forall>p \<in> set (ref_partition_columns arch k). \<forall>p' \<in> set (ref_partition_columns arch k). 1 \<le> snd p \<and> snd p \<le> snd p' + 1)"
  by (rule partition_facts)

theorem partition_is_tiling_witness:
  "ref_partition_columns 0 3 = [(0, 2), (2, 2), (4, 1)] \<and> columns_of [(0, 2), (2, 2), (4, 1)] = [0..4]"
proof -
  have r: "ref_partition_columns 0 3 = [(0, 2), (2, 2), (4, 1)]" by code_simp
  have "as_cols (spec_of 0) = 5" by code_simp
  with partition_is_tiling [of 0 3] have "columns_of [(0, 2), (2, 2), (4, 1)] = [0..4]" unfolding r by simp
  with r show ?thesis by simp
qed

subsection \<open>The device and the reference\<close>

lemma device_record_reads:
  assumes "words_ok data" "0 \<le> epoch" "epoch < 4294967296" "16 + 4 * length data \<le> 8192" "length old = 8192" "words_ok [magic]"
  shows "length (device_record old magic epoch 0 data) = 8192"
    and "check_status (device_record old magic epoch 0 data) = Inr (device_record old magic epoch 0 data)"
    and "data = pre @ ws @ post \<Longrightarrow> n = length ws \<Longrightarrow> off = 16 + 4 * length pre \<Longrightarrow>
      struct_unpack_from (replicate n (U 4)) (device_record old magic epoch 0 data) off = Inr ws"
proof -
  show "length (device_record old magic epoch 0 data) = 8192" using assms by (simp add: device_record_def)
  have "words_ok [magic, epoch, 0, 4 * int (length data)]" using assms by simp
  then have "result_word 8 (device_record old magic epoch 0 data) = 0"
    using result_word_nth [of "[magic, epoch, 0, 4 * int (length data)]" 2] by (simp add: device_record_def del: words_bytes_simps)
  then show "check_status (device_record old magic epoch 0 data) = Inr (device_record old magic epoch 0 data)"
    by (simp add: check_status_def)
  show "struct_unpack_from (replicate n (U 4)) (device_record old magic epoch 0 data) off = Inr ws"
    if "data = pre @ ws @ post" "n = length ws" "off = 16 + 4 * length pre"
  proof -
    have eq: "device_record old magic epoch 0 data = (words_bytes [magic, epoch, 0, 4 * int (length data)] @ words_bytes pre) @ words_bytes ws
        @ words_bytes post @ drop (16 + 4 * length data) old" by (simp add: device_record_def that(1))
    show ?thesis unfolding eq that(2,3) by (rule unpack_words_at) (use assms(1) that(1) in simp_all)
  qed
qed

lemma dr26_call:
  assumes "words_ok [op, arch, k, epoch]" "length old = 8192"
    and "dr26_kernel old (zeros 8192) (words_bytes [MAGIC_DESC_DR26, op, arch, k, epoch, 0, 0, 0]) = device_record old MAGIC_DESC_DR26 epoch 0 data"
    and "words_ok data" "16 + 4 * length data \<le> 8192"
  shows "dispatch_dr26 (on_silicon (dr26_kernel old)) op arch k epoch = Inr (device_record old MAGIC_DESC_DR26 epoch 0 data)"
proof -
  have e: "0 \<le> epoch" "epoch < 4294967296" "words_ok [MAGIC_DESC_DR26 :: int]" using assms(1) by simp_all
  note d = device_record_reads [OF assms(4) e(1,2) assms(5,2) e(3)]
  have "pack_dr26_descriptor op arch k epoch = Inr (words_bytes [MAGIC_DESC_DR26, op, arch, k, epoch, 0, 0, 0])"
    using assms(1) by (simp add: pack_dr26_descriptor_def pack_eight_words del: words_bytes_simps)
  moreover have "dispatch 8192 (on_silicon (dr26_kernel old)) (words_bytes [MAGIC_DESC_DR26, op, arch, k, epoch, 0, 0, 0]) (zeros 8192) =
      Inr (device_record old MAGIC_DESC_DR26 epoch 0 data)"
    using d(1) assms(3) dispatch_silicon [of "dr26_kernel old" "zeros 8192" "words_bytes [MAGIC_DESC_DR26, op, arch, k, epoch, 0, 0, 0]" 8192]
    by (simp del: words_bytes_simps)
  ultimately show ?thesis using d(2) by (simp add: dispatch_dr26_def del: words_bytes_simps)
qed

lemma dr26_fields:
  assumes "words_ok [op, arch, k, epoch]"
  shows "result_word 0 (words_bytes [MAGIC_DESC_DR26, op, arch, k, epoch, 0, 0, 0]) = MAGIC_DESC_DR26"
    "result_word 4 (words_bytes [MAGIC_DESC_DR26, op, arch, k, epoch, 0, 0, 0]) = op"
    "result_word 8 (words_bytes [MAGIC_DESC_DR26, op, arch, k, epoch, 0, 0, 0]) = arch"
    "result_word 12 (words_bytes [MAGIC_DESC_DR26, op, arch, k, epoch, 0, 0, 0]) = k"
    "result_word 16 (words_bytes [MAGIC_DESC_DR26, op, arch, k, epoch, 0, 0, 0]) = epoch"
proof -
  have "words_ok [MAGIC_DESC_DR26, op, arch, k, epoch, 0, 0, 0]" using assms by simp
  note descriptor_words [OF this]
  then show "result_word 0 (words_bytes [MAGIC_DESC_DR26, op, arch, k, epoch, 0, 0, 0]) = MAGIC_DESC_DR26"
    "result_word 4 (words_bytes [MAGIC_DESC_DR26, op, arch, k, epoch, 0, 0, 0]) = op"
    "result_word 8 (words_bytes [MAGIC_DESC_DR26, op, arch, k, epoch, 0, 0, 0]) = arch"
    "result_word 12 (words_bytes [MAGIC_DESC_DR26, op, arch, k, epoch, 0, 0, 0]) = k"
    "result_word 16 (words_bytes [MAGIC_DESC_DR26, op, arch, k, epoch, 0, 0, 0]) = epoch"
    by simp_all
qed

lemma geometry_words:
  "words_ok [as_rows (get_arch_geometry a), as_cols (get_arch_geometry a), as_total_tiles (get_arch_geometry a),
     as_dma_channels_per_col (get_arch_geometry a), as_sram_per_tile_kb (get_arch_geometry a),
     as_prog_mem_per_tile_kb (get_arch_geometry a), as_peak_tops (get_arch_geometry a)]"
  "words_ok [as_dma_channels_per_col (get_arch_geometry a) * as_cols (get_arch_geometry a)]"
  by (simp_all add: get_arch_geometry_def phoenix_spec_def strix_spec_def alveo_spec_def)

lemma geometry_host: "get_arch_geometry arch = spec_of (if arch = 0 \<or> arch = 1 then arch else 2)"
  by (simp add: get_arch_geometry_def spec_of_def ARCH_SPECS_def)

lemma query_on_device:
  assumes "words_ok [arch, epoch]" "length old = 8192"
  shows "query_arch_topology_on_aie2 (on_silicon (dr26_kernel old)) arch epoch = Inr (get_arch_geometry arch)"
proof -
  let ?g = "get_arch_geometry arch"
  let ?data = "[as_rows ?g, as_cols ?g, as_total_tiles ?g, as_dma_channels_per_col ?g, as_sram_per_tile_kb ?g, as_prog_mem_per_tile_kb ?g, as_peak_tops ?g]"
  have w: "words_ok [0, arch, 1, epoch]" using assms(1) by simp
  have "dr26_kernel old (zeros 8192) (words_bytes [MAGIC_DESC_DR26, 0, arch, 1, epoch, 0, 0, 0]) = device_record old MAGIC_DESC_DR26 epoch 0 ?data"
    by (simp only: dr26_kernel_def Let_def dr26_fields [OF w]) simp
  from dr26_call [OF w assms(2) this geometry_words(1)]
    device_record_reads(3) [OF geometry_words(1) _ _ _ assms(2), where epoch = epoch and magic = MAGIC_DESC_DR26 and pre = "[]" and ws = ?data and post = "[]" and n = 7 and off = 16] assms(1)
  show ?thesis by (simp add: query_arch_topology_on_aie2_def)
qed

lemma emit_on_device:
  assumes "words_ok [arch, epoch]" "length old = 8192"
  shows "emit_mlir_topology_on_aie2 (on_silicon (dr26_kernel old)) arch epoch =
    Inr (ref_emit_mlir_topology (if arch = 0 \<or> arch = 1 then arch else 2)\<lparr>mt_arch_id := arch, mt_shim_rows := (if arch = 2 then 2 else 1)\<rparr>)"
proof -
  let ?g = "get_arch_geometry arch"
  let ?data = "[0x4D4C4952, arch, as_rows ?g, as_cols ?g, as_total_tiles ?g, if arch = 2 then 2 else 1, as_dma_channels_per_col ?g * as_cols ?g]"
  have w: "words_ok [3, arch, 1, epoch]" using assms(1) by simp
  have d: "words_ok ?data" using assms(1) geometry_words [of arch] by simp
  have "dr26_kernel old (zeros 8192) (words_bytes [MAGIC_DESC_DR26, 3, arch, 1, epoch, 0, 0, 0]) = device_record old MAGIC_DESC_DR26 epoch 0 ?data"
    by (simp only: dr26_kernel_def Let_def dr26_fields [OF w]) simp
  from dr26_call [OF w assms(2) this d]
    device_record_reads(3) [OF d _ _ _ assms(2), where epoch = epoch and magic = MAGIC_DESC_DR26 and pre = "[]" and ws = ?data and post = "[]" and n = 7 and off = 16] assms(1)
  show ?thesis by (simp add: emit_mlir_topology_on_aie2_def ref_emit_mlir_topology_def geometry_host Let_def)
qed

lemma fit_on_device:
  assumes "words_ok [arch, k, epoch]" "length old = 8192"
  shows "validate_grid_fit_on_aie2 (on_silicon (dr26_kernel old)) arch k epoch = Inr (ref_validate_grid_fit (if arch = 0 \<or> arch = 1 then arch else 2) k)"
proof -
  let ?g = "get_arch_geometry arch"
  let ?data = "if k = 0 \<or> as_total_tiles ?g < k then [0, 0] else [1, as_total_tiles ?g div k]"
  have w: "words_ok [1, arch, k, epoch]" using assms(1) by simp
  have t: "0 \<le> as_total_tiles ?g" "as_total_tiles ?g < 4294967296" using geometry_words(1) [of arch] by simp_all
  have "as_total_tiles ?g div k \<le> as_total_tiles ?g" "0 \<le> as_total_tiles ?g div k" if "k \<noteq> 0"
    using that t assms(1) zdiv_mono2 [of "as_total_tiles ?g" 1 k] by (simp_all add: pos_imp_zdiv_nonneg_iff)
  then have d: "words_ok ?data" using t by auto
  have "dr26_kernel old (zeros 8192) (words_bytes [MAGIC_DESC_DR26, 1, arch, k, epoch, 0, 0, 0]) = device_record old MAGIC_DESC_DR26 epoch 0 ?data"
    by (simp only: dr26_kernel_def Let_def dr26_fields [OF w]) (simp add: validate_spatial_fit_def Let_def)
  from dr26_call [OF w assms(2) this d]
    device_record_reads(3) [OF d _ _ _ assms(2), where epoch = epoch and magic = MAGIC_DESC_DR26 and pre = "[]" and ws = ?data and post = "[]" and n = 2 and off = 16] assms(1)
  show ?thesis by (auto simp add: validate_grid_fit_on_aie2_def ref_validate_grid_fit_def geometry_host Let_def)
qed

lemma partition_columns_eq:
  "0 \<le> k \<Longrightarrow> partition_columns arch k = ref_partition_columns (if arch = 0 \<or> arch = 1 then arch else 2) k"
proof -
  let ?a = "if arch = 0 \<or> arch = 1 then arch else 2"
  assume "0 \<le> k"
  then have "(if as_cols (spec_of ?a) < (if k = 0 then 1 else k) then as_cols (spec_of ?a) else (if k = 0 then 1 else k)) =
      max 1 (min k (as_cols (spec_of ?a)))" using spec_bounds(1) [of ?a] by auto
  then show ?thesis
    unfolding partition_columns_def ref_partition_columns_def geometry_host Let_def by (simp only:)
qed

lemma partition_words:
  "words_ok (int (length (ref_partition_columns a k)) # concat (map (\<lambda>(s, n). [s, n]) (ref_partition_columns a k)))"
  "length (ref_partition_columns a k) \<le> 38"
proof -
  note t = partition_facts [of a k] and b = spec_bounds [of a]
  then show len: "length (ref_partition_columns a k) \<le> 38" by linarith
  have "0 \<le> s \<and> s < 38 \<and> 0 \<le> n \<and> n \<le> 38" if "(s, n) \<in> set (ref_partition_columns a k)" for s n
  proof -
    have "1 \<le> n" using t that by fastforce
    moreover have "set [s..s + n - 1] \<subseteq> set (columns_of (ref_partition_columns a k))" using that by (force simp add: columns_of_def)
    ultimately have "s \<in> set [s..s + n - 1]" "s + n - 1 \<in> set [s..s + n - 1]"
      "set [s..s + n - 1] \<subseteq> {0..as_cols (spec_of a) - 1}" using t by simp_all
    then have "s \<in> {0..as_cols (spec_of a) - 1}" "s + n - 1 \<in> {0..as_cols (spec_of a) - 1}" by blast+
    then show ?thesis using b \<open>1 \<le> n\<close> by auto
  qed
  then show "words_ok (int (length (ref_partition_columns a k)) # concat (map (\<lambda>(s, n). [s, n]) (ref_partition_columns a k)))"
    using len by (fastforce simp add: words_ok_def)
qed

lemma pairs_length: "length (concat (map (\<lambda>(s, n). [s, n]) ps)) = 2 * length ps"
  by (induction ps) auto

lemma partition_on_device:
  assumes "words_ok [arch, k, epoch]" "length old = 8192"
  shows "partition_columns_on_aie2 (on_silicon (dr26_kernel old)) arch k epoch =
    Inr (ref_partition_columns (if arch = 0 \<or> arch = 1 then arch else 2) k)"
proof -
  let ?ps = "ref_partition_columns (if arch = 0 \<or> arch = 1 then arch else 2) k"
  let ?pairs = "\<lambda>ps. concat (map (\<lambda>(s, n). [s, n]) ps)"
  let ?data = "int (length ?ps) # ?pairs ?ps"
  let ?rec = "device_record old MAGIC_DESC_DR26 epoch 0 ?data"
  have w: "words_ok [2, arch, k, epoch]" using assms(1) by simp
  have k: "dr26_kernel old (zeros 8192) (words_bytes [MAGIC_DESC_DR26, 2, arch, k, epoch, 0, 0, 0]) = ?rec"
    using assms(1) by (simp only: dr26_kernel_def Let_def dr26_fields [OF w]) (simp add: partition_columns_eq)
  have len: "16 + 4 * length ?data \<le> 8192" using partition_words(2) [of "if arch = 0 \<or> arch = 1 then arch else 2" k] by (simp add: pairs_length)
  note reads = device_record_reads(3) [OF partition_words(1) _ _ len assms(2), of epoch MAGIC_DESC_DR26]
  have n: "struct_unpack_from (replicate 1 (U 4)) ?rec 16 = Inr [int (length ?ps)]"
    using assms(1) by (intro reads [of "[]" _ "?pairs ?ps"]) simp_all
  have "struct_unpack_from (replicate 2 (U 4)) ?rec (20 + 8 * i) = Inr [fst (?ps ! i), snd (?ps ! i)]" if "i < length ?ps" for i
  proof (rule reads [of "int (length ?ps) # ?pairs (take i ?ps)" _ "?pairs (drop (Suc i) ?ps)"])
    have "?pairs ?ps = ?pairs (take i ?ps @ ?ps ! i # drop (Suc i) ?ps)" using id_take_nth_drop [OF that] by simp
    then show "?data = (int (length ?ps) # ?pairs (take i ?ps)) @ [fst (?ps ! i), snd (?ps ! i)] @ ?pairs (drop (Suc i) ?ps)"
      by (simp add: case_prod_beta)
  qed (use assms(1) that in \<open>simp_all add: pairs_length min_def\<close>)
  then have "mapE (\<lambda>i. bindE (struct_unpack_from (replicate 2 (U 4)) ?rec (20 + 8 * i)) (\<lambda>w. Inr (w ! 0, w ! 1))) [0..<length ?ps] =
      Inr (map (\<lambda>i. ?ps ! i) [0..<length ?ps])"
    by (intro mapE_total) simp
  then show ?thesis
    using dr26_call [OF w assms(2) k partition_words(1) len] n by (simp add: partition_columns_on_aie2_def map_nth)
qed

text \<open>C20. Device and reference agree on the architectures that exist, and on no other: for Phoenix, Strix and Alveo the four
  operations, with the kernel of the repository and whatever its result buffer held, return what the reference routines compute,
  for every number of tiles or pipelines that fits its field.  For any other identifier the device answers
  with the geometry of Alveo while the reference takes Phoenix, so work is spread over columns that are not there.
\<close>

theorem topology_device_agrees:
  assumes "0 \<le> arch" "arch < 4294967296" "0 \<le> k" "k < 4294967296" "0 \<le> epoch" "epoch < 4294967296" "length old = 8192"
  shows "if arch < 3
    then query_arch_topology_on_aie2 (on_silicon (dr26_kernel old)) arch epoch = Inr (ref_query_arch_topology arch) \<and>
      validate_grid_fit_on_aie2 (on_silicon (dr26_kernel old)) arch k epoch = Inr (ref_validate_grid_fit arch k) \<and>
      partition_columns_on_aie2 (on_silicon (dr26_kernel old)) arch k epoch = Inr (ref_partition_columns arch k) \<and>
      emit_mlir_topology_on_aie2 (on_silicon (dr26_kernel old)) arch epoch = Inr (ref_emit_mlir_topology arch)
    else query_arch_topology_on_aie2 (on_silicon (dr26_kernel old)) arch epoch = Inr alveo_spec \<and> ref_query_arch_topology arch = phoenix_spec \<and>
      partition_columns_on_aie2 (on_silicon (dr26_kernel old)) arch k epoch = Inr (ref_partition_columns 2 k)"
proof -
  have w: "words_ok [arch, epoch]" "words_ok [arch, k, epoch]" using assms by simp_all
  note on = query_on_device [OF w(1) assms(7)] fit_on_device [OF w(2) assms(7)] partition_on_device [OF w(2) assms(7)] emit_on_device [OF w(1) assms(7)]
  show ?thesis
  proof (cases "arch < 3")
    case True
    then have "(if arch = 0 \<or> arch = 1 then arch else 2) = arch" using assms(1) by auto
    then show ?thesis
      using True unfolding on geometry_host by (simp add: ref_query_arch_topology_def ref_emit_mlir_topology_def Let_def)
  next
    case False
    then show ?thesis unfolding on by (simp add: get_arch_geometry_def ref_query_arch_topology_def spec_of_def ARCH_SPECS_def)
  qed
qed

theorem topology_device_agrees_witness:
  "partition_columns_on_aie2 (on_silicon (dr26_kernel (zeros 8192))) 0 3 1 = Inr [(0, 2), (2, 2), (4, 1)] \<and>
   query_arch_topology_on_aie2 (on_silicon (dr26_kernel (zeros 8192))) 7 1 = Inr alveo_spec"
proof
  have "ref_partition_columns 0 3 = [(0, 2), (2, 2), (4, 1)]" by code_simp
  then show "partition_columns_on_aie2 (on_silicon (dr26_kernel (zeros 8192))) 0 3 1 = Inr [(0, 2), (2, 2), (4, 1)]"
    using topology_device_agrees [of 0 3 1 "zeros 8192"] by simp
  show "query_arch_topology_on_aie2 (on_silicon (dr26_kernel (zeros 8192))) 7 1 = Inr alveo_spec"
    using topology_device_agrees [of 7 3 1 "zeros 8192"] by simp
qed

subsection \<open>Polynomials in buffers\<close>

lemma map_nth_rows: "map (\<lambda>i. f (xs ! i)) [0..<length xs] = map f xs"
  by (rule nth_equalityI) simp_all

lemma length_row_bytes: "length (row_bytes (R16 xs)) = 2 * length xs" "length (row_bytes (R32 ys)) = 4 * length ys"
  by (induction xs, simp_all add: row_bytes_def) (induction ys, simp_all add: row_bytes_def)

lemma frombuffer16_row: "frombuffer16 (length xs) (row_bytes (R16 xs)) = xs"
proof (rule nth_equalityI)
  fix i assume "i < length (frombuffer16 (length xs) (row_bytes (R16 xs)))"
  then have i: "i < length xs" by (simp add: frombuffer16_def)
  have "row_bytes (R16 xs) = concat (map (\<lambda>i. le_bytes 2 (uint (xs ! i))) [0..<length xs])"
    by (simp add: row_bytes_def map_nth_rows [where f = "\<lambda>x. le_bytes 2 (uint x)"])
  then have "slice (i * 2) ((i + 1) * 2) (row_bytes (R16 xs)) = le_bytes 2 (uint (xs ! i))"
    using slice_concat_fixed [of "length xs" "\<lambda>i. le_bytes 2 (uint (xs ! i))" 2 i] i by simp
  then show "frombuffer16 (length xs) (row_bytes (R16 xs)) ! i = xs ! i"
    using i uint_lt2p [of "xs ! i"] by (simp add: frombuffer16_def le_int_bytes_id)
qed (simp add: frombuffer16_def)

lemma frombuffer32_row: "frombuffer32 (length xs) (row_bytes (R32 xs)) = xs"
proof (rule nth_equalityI)
  fix i assume "i < length (frombuffer32 (length xs) (row_bytes (R32 xs)))"
  then have i: "i < length xs" by (simp add: frombuffer32_def)
  have "row_bytes (R32 xs) = concat (map (\<lambda>i. le_bytes 4 (uint (xs ! i))) [0..<length xs])"
    by (simp add: row_bytes_def map_nth_rows [where f = "\<lambda>x. le_bytes 4 (uint x)"])
  then have "slice (i * 4) ((i + 1) * 4) (row_bytes (R32 xs)) = le_bytes 4 (uint (xs ! i))"
    using slice_concat_fixed [of "length xs" "\<lambda>i. le_bytes 4 (uint (xs ! i))" 4 i] i by simp
  then show "frombuffer32 (length xs) (row_bytes (R32 xs)) ! i = xs ! i"
    using i uint_lt2p [of "xs ! i"] by (simp add: frombuffer32_def le_int_bytes_id)
qed (simp add: frombuffer32_def)

lemma tobytes_slice:
  assumes "\<And>r. r \<in> set rows \<Longrightarrow> length (row_bytes r) = k" "c < length rows"
  shows "slice (c * k) ((c + 1) * k) (tobytes rows @ rest) = row_bytes (rows ! c)" "length (tobytes rows) = length rows * k"
proof -
  have e: "tobytes rows = concat (map (\<lambda>i. row_bytes (rows ! i)) [0..<length rows])"
    by (simp add: tobytes_def map_nth_rows [where f = row_bytes])
  show l: "length (tobytes rows) = length rows * k" unfolding e using assms(1) by (intro length_concat_fixed) simp
  have "(c + 1) * k \<le> length (tobytes rows)" unfolding l using assms(2) by (intro mult_le_mono1) simp
  then show "slice (c * k) ((c + 1) * k) (tobytes rows @ rest) = row_bytes (rows ! c)"
    using assms slice_concat_fixed [of "length rows" "\<lambda>i. row_bytes (rows ! i)" k c] by (simp add: slice_append_left flip: e)
qed

lemma poly16_at_rows:
  assumes "\<forall>r \<in> set rows. length r = 256" "c < length rows"
  shows "poly16_at (tobytes (map R16 rows) @ rest) c = rows ! c" "length (tobytes (map R16 rows)) = length rows * 512"
proof -
  have k: "length (row_bytes r) = 512" if "r \<in> set (map R16 rows)" for r using that assms(1) by (auto simp add: length_row_bytes)
  note s = tobytes_slice(1) [where rows = "map R16 rows" and k = 512 and c = c and rest = rest, OF k]
    tobytes_slice(2) [where rows = "map R16 rows" and k = 512 and c = c, OF k] and l = nth_mem [OF assms(2)]
  then show "poly16_at (tobytes (map R16 rows) @ rest) c = rows ! c"
    using frombuffer16_row [of "rows ! c"] assms by (simp add: poly16_at_def)
  show "length (tobytes (map R16 rows)) = length rows * 512" using s assms(2) by simp
qed

lemma poly32_at_rows:
  assumes "\<forall>r \<in> set rows. length r = 256" "c < length rows"
  shows "poly32_at (tobytes (map R32 rows) @ rest) c = rows ! c" "length (tobytes (map R32 rows)) = length rows * 1024"
proof -
  have k: "length (row_bytes r) = 1024" if "r \<in> set (map R32 rows)" for r using that assms(1) by (auto simp add: length_row_bytes)
  note s = tobytes_slice(1) [where rows = "map R32 rows" and k = 1024 and c = c and rest = rest, OF k]
    tobytes_slice(2) [where rows = "map R32 rows" and k = 1024 and c = c, OF k] and l = nth_mem [OF assms(2)]
  then show "poly32_at (tobytes (map R32 rows) @ rest) c = rows ! c"
    using frombuffer32_row [of "rows ! c"] assms by (simp add: poly32_at_def)
  show "length (tobytes (map R32 rows)) = length rows * 1024" using s assms(2) by simp
qed

subsection \<open>Accumulation modulo q\<close>

lemma uint_widen: "uint (ucast (y :: 32 word) :: 64 word) = uint y" "uint (ucast (z :: 16 word) :: 32 word) = uint z"
  by (simp_all add: uint_up_ucast is_up)

lemma uint_bound: "uint (y :: 32 word) < 4294967296" "uint (z :: 16 word) < 65536"
  using uint_lt2p [of y] uint_lt2p [of z] by simp_all

lemma uint_narrow: "uint (y :: 64 word) < 4294967296 \<Longrightarrow> uint (ucast y :: 32 word) = uint y"
  "uint (z :: 32 word) < 65536 \<Longrightarrow> uint (ucast z :: 16 word) = uint z"
  by (simp_all add: unsigned_ucast_eq take_bit_int_eq_self)

lemma uint_no_wrap:
  "uint (x :: 64 word) + uint y < 18446744073709551616 \<Longrightarrow> uint (x + y) = uint x + uint y"
  "uint (x :: 64 word) * uint y < 18446744073709551616 \<Longrightarrow> uint (x * y) = uint x * uint y"
  "uint (u :: 32 word) + uint v < 4294967296 \<Longrightarrow> uint (u + v) = uint u + uint v"
  "uint (u :: 32 word) * uint v < 4294967296 \<Longrightarrow> uint (u * v) = uint u * uint v"
  by (simp_all add: uint_word_ariths)

lemma mac32:
  assumes "uint (x :: 32 word) < 8380417"
  shows "uint (ucast ((ucast x + ucast a * (ucast (s :: 32 word) :: 64 word) mod 8380417) mod 8380417) :: 32 word) =
    (uint x + uint (a :: 32 word) * uint s) mod 8380417"
proof -
  have "uint a * uint s \<le> 4294967295 * 4294967295" using uint_bound(1) [of a] uint_bound(1) [of s] by (intro mult_mono) auto
  then have p: "uint (ucast a * (ucast s :: 64 word)) = uint a * uint s" by (subst uint_no_wrap) (simp_all add: uint_widen)
  then have m: "uint (ucast a * (ucast s :: 64 word) mod 8380417) = uint a * uint s mod 8380417" by (simp add: uint_mod)
  then have "uint (ucast x + ucast a * (ucast s :: 64 word) mod 8380417) = uint x + uint a * uint s mod 8380417"
    using assms pos_mod_bound [of 8380417 "uint a * uint s"] by (subst uint_no_wrap) (simp_all add: uint_widen)
  then show ?thesis by (subst uint_narrow) (simp_all add: uint_mod mod_add_right_eq order_less_trans [OF pos_mod_bound])
qed

lemma mac16:
  assumes "uint (x :: 16 word) < 3329"
  shows "uint (ucast ((ucast x + ucast a * (ucast (s :: 16 word) :: 32 word) mod 3329) mod 3329) :: 16 word) =
    (uint x + uint (a :: 16 word) * uint s) mod 3329"
proof -
  have "uint a * uint s \<le> 65535 * 65535" using uint_bound(2) [of a] uint_bound(2) [of s] by (intro mult_mono) auto
  then have p: "uint (ucast a * (ucast s :: 32 word)) = uint a * uint s" by (subst uint_no_wrap) (simp_all add: uint_widen)
  then have m: "uint (ucast a * (ucast s :: 32 word) mod 3329) = uint a * uint s mod 3329" by (simp add: uint_mod)
  then have "uint (ucast x + ucast a * (ucast s :: 32 word) mod 3329) = uint x + uint a * uint s mod 3329"
    using assms pos_mod_bound [of 3329 "uint a * uint s"] by (subst uint_no_wrap) (simp_all add: uint_widen)
  then show ?thesis by (subst uint_narrow) (simp_all add: uint_mod mod_add_right_eq order_less_trans [OF pos_mod_bound])
qed

lemma add32: "uint (ucast ((ucast x + ucast y :: 64 word) mod 8380417) :: 32 word) = (uint (x :: 32 word) + uint (y :: 32 word)) mod 8380417"
proof -
  have "uint (ucast x + ucast y :: 64 word) = uint x + uint y"
    using uint_bound(1) [of x] uint_bound(1) [of y] by (subst uint_no_wrap) (simp_all add: uint_widen)
  then show ?thesis by (subst uint_narrow) (simp_all add: uint_mod order_less_trans [OF pos_mod_bound])
qed

lemma add16: "uint (ucast ((ucast x + ucast y :: 32 word) mod 3329) :: 16 word) = (uint (x :: 16 word) + uint (y :: 16 word)) mod 3329"
proof -
  have "uint (ucast x + ucast y :: 32 word) = uint x + uint y"
    using uint_bound(2) [of x] uint_bound(2) [of y] by (subst uint_no_wrap) (simp_all add: uint_widen)
  then show ?thesis by (subst uint_narrow) (simp_all add: uint_mod order_less_trans [OF pos_mod_bound])
qed

text \<open>An accumulator that is reduced in every step holds the sum reduced once.\<close>

lemma accumulate:
  assumes "\<And>acc x. length acc = 256 \<Longrightarrow> \<forall>j<256. uint (acc ! j) < q \<Longrightarrow>
      length (step acc x) = 256 \<and> (\<forall>j<256. uint (step acc x ! j) = (uint (acc ! j) + val x j) mod q)"
    and "0 < q"
  shows "length (foldl step (replicate 256 (0 :: 'a::len word)) xs) = 256 \<and>
    (\<forall>j<256. uint (foldl step (replicate 256 0) xs ! j) = (\<Sum>x\<leftarrow>xs. val x j) mod q)"
proof (induction xs rule: rev_induct)
  case (snoc x xs)
  then have "\<forall>j<256. uint (foldl step (replicate 256 0) xs ! j) < q" using assms(2) by simp
  with snoc assms(1) [of "foldl step (replicate 256 0) xs" x] show ?case by (simp add: mod_add_left_eq)
qed simp

lemma words_of_uints:
  assumes "length acc = n" "\<And>j. j < n \<Longrightarrow> uint (acc ! j) = f j"
  shows "(acc :: 'a::len word list) = map (\<lambda>j. word_of_int (f j)) [0..<n]"
proof (rule nth_equalityI)
  fix j assume "j < length acc"
  then show "acc ! j = map (\<lambda>j. word_of_int (f j)) [0..<n] ! j" using assms by (simp flip: assms(2))
qed (simp add: assms)

subsection \<open>The device of dr29\<close>

lemma dr29_fields:
  assumes "words_ok [op, algo, tile, tiles, epoch]"
  shows "result_word 0 (words_bytes [MAGIC_DESC_DR29, op, algo, tile, tiles, epoch, 0, 0]) = MAGIC_DESC_DR29"
    "result_word 4 (words_bytes [MAGIC_DESC_DR29, op, algo, tile, tiles, epoch, 0, 0]) = op"
    "result_word 8 (words_bytes [MAGIC_DESC_DR29, op, algo, tile, tiles, epoch, 0, 0]) = algo"
    "result_word 12 (words_bytes [MAGIC_DESC_DR29, op, algo, tile, tiles, epoch, 0, 0]) = tile"
    "result_word 16 (words_bytes [MAGIC_DESC_DR29, op, algo, tile, tiles, epoch, 0, 0]) = tiles"
    "result_word 20 (words_bytes [MAGIC_DESC_DR29, op, algo, tile, tiles, epoch, 0, 0]) = epoch"
proof -
  have "words_ok [MAGIC_DESC_DR29, op, algo, tile, tiles, epoch, 0, 0]" using assms by simp
  note descriptor_words [OF this]
  then show "result_word 0 (words_bytes [MAGIC_DESC_DR29, op, algo, tile, tiles, epoch, 0, 0]) = MAGIC_DESC_DR29"
    "result_word 4 (words_bytes [MAGIC_DESC_DR29, op, algo, tile, tiles, epoch, 0, 0]) = op"
    "result_word 8 (words_bytes [MAGIC_DESC_DR29, op, algo, tile, tiles, epoch, 0, 0]) = algo"
    "result_word 12 (words_bytes [MAGIC_DESC_DR29, op, algo, tile, tiles, epoch, 0, 0]) = tile"
    "result_word 16 (words_bytes [MAGIC_DESC_DR29, op, algo, tile, tiles, epoch, 0, 0]) = tiles"
    "result_word 20 (words_bytes [MAGIC_DESC_DR29, op, algo, tile, tiles, epoch, 0, 0]) = epoch"
    by simp_all
qed

text \<open>What the device leaves in the result buffer after an operation that succeeds.\<close>

definition dr29_answer :: "bytes \<Rightarrow> int \<Rightarrow> bytes \<Rightarrow> bytes" where
  "dr29_answer old epoch data = words_bytes [MAGIC_DESC_DR29, epoch, 0, int (length data)] @ data @ drop (16 + length data) old"

lemma dr29_call:
  assumes "words_ok [op, algo, tile, tiles, epoch]" "length old = 8192" "length data \<le> 1024"
    and "dr29_kernel old req (words_bytes [MAGIC_DESC_DR29, op, algo, tile, tiles, epoch, 0, 0]) = dr29_answer old epoch data"
  shows "dispatch_dr29 (on_silicon (dr29_kernel old)) (pack_dr29_descriptor op algo tile tiles epoch) req = Inr (dr29_answer old epoch data)"
proof -
  have p: "pack_dr29_descriptor op algo tile tiles epoch = Inr (words_bytes [MAGIC_DESC_DR29, op, algo, tile, tiles, epoch, 0, 0])"
    using assms(1) by (simp add: pack_dr29_descriptor_def pack_eight_words del: words_bytes_simps)
  have "length (dr29_answer old epoch data) = 8192" using assms(2,3) by (simp add: dr29_answer_def)
  with assms(4) have d: "dispatch 8192 (on_silicon (dr29_kernel old)) (words_bytes [MAGIC_DESC_DR29, op, algo, tile, tiles, epoch, 0, 0]) req =
      Inr (dr29_answer old epoch data)"
    using dispatch_silicon [of "dr29_kernel old" req "words_bytes [MAGIC_DESC_DR29, op, algo, tile, tiles, epoch, 0, 0]" 8192]
    by (simp del: words_bytes_simps)
  have "words_ok [MAGIC_DESC_DR29, epoch, 0, int (length data)]" using assms(1,3) by simp
  then have "result_word 8 (dr29_answer old epoch data) = 0"
    using result_word_nth [of "[MAGIC_DESC_DR29, epoch, 0, int (length data)]" 2] by (simp add: dr29_answer_def del: words_bytes_simps)
  then show ?thesis by (simp add: dispatch_dr29_def p d check_status_def del: words_bytes_simps)
qed

lemma dr29_answer_slice: "length data = n \<Longrightarrow> slice 16 (16 + n) (dr29_answer old epoch data) = data"
  unfolding dr29_answer_def by (rule slice_exact) simp_all

lemma dr29_result_poly:
  "length xs = 256 \<Longrightarrow> result_poly 2 (dr29_answer old epoch (row_bytes (R16 xs))) = R16 xs"
  "length ys = 256 \<Longrightarrow> result_poly 1 (dr29_answer old epoch (row_bytes (R32 ys))) = R32 ys"
  using dr29_answer_slice [of "row_bytes (R16 xs)" 512] dr29_answer_slice [of "row_bytes (R32 ys)" 1024] frombuffer16_row [of xs] frombuffer32_row [of ys]
  by (simp_all add: result_poly_def length_row_bytes)

lemma dr29_mode:
  assumes "words_ok [op, algo, tile, tiles, epoch]"
  shows "dr29_kernel old req (words_bytes [MAGIC_DESC_DR29, op, algo, tile, tiles, epoch, 0, 0]) =
    (if op = 0 then dr29_answer old epoch (words_bytes (compute_partition_info algo tile tiles))
     else if op = 1 then dr29_answer old epoch (if algo = 2
       then row_bytes (R16 (foldl mlkem_mac (replicate 256 0) (map (\<lambda>c. (poly16_at req c, poly16_at (drop 2048 req) c)) [0..<4])))
       else row_bytes (R32 (foldl mldsa_mac (replicate 256 0) (map (\<lambda>c. (poly32_at req c, poly32_at (drop 7168 req) c)) [0..<7]))))
     else if op = 2 then dr29_answer old epoch (if algo = 2
       then row_bytes (R16 (foldl mlkem_add (replicate 256 0) (map (poly16_at req) [0..<4])))
       else row_bytes (R32 (foldl mldsa_add (replicate 256 0) (map (poly32_at req) [0..<4]))))
     else words_bytes [MAGIC_DESC_DR29, epoch, 0xFF, 0] @ drop 16 old)"
  unfolding dr29_kernel_def Let_def dr29_fields [OF assms] dr29_answer_def
  by (simp del: words_bytes_simps upt_Suc upt_rec_numeral)

subsection \<open>Rows of the matrix\<close>

text \<open>The sum of the products of the coefficients with index \<open>j\<close>.\<close>

definition dot_at :: "'a::len word list list \<Rightarrow> 'a word list list \<Rightarrow> nat \<Rightarrow> int" where
  "dot_at m s j = (\<Sum>(a, b)\<leftarrow>zip m s. uint (a ! j) * uint (b ! j))"

lemma mldsa_macs: "foldl mldsa_mac (replicate 256 0) (zip m s) = map (\<lambda>j. word_of_int (dot_at m s j mod 8380417)) [0..<256]"
proof -
  have "length (foldl mldsa_mac (replicate 256 0) (zip m s)) = 256 \<and> (\<forall>j<256. uint (foldl mldsa_mac (replicate 256 0) (zip m s) ! j) =
      (\<Sum>x\<leftarrow>zip m s. (case x of (a, b) \<Rightarrow> uint (a ! j) * uint (b ! j))) mod 8380417)"
    by (rule accumulate) (auto simp add: mldsa_mac_def mac32 simp del: upt_Suc upt_rec_numeral)
  then show ?thesis unfolding dot_at_def by (intro words_of_uints) blast+
qed

lemma mlkem_macs: "foldl mlkem_mac (replicate 256 0) (zip m s) = map (\<lambda>j. word_of_int (dot_at m s j mod 3329)) [0..<256]"
proof -
  have "length (foldl mlkem_mac (replicate 256 0) (zip m s)) = 256 \<and> (\<forall>j<256. uint (foldl mlkem_mac (replicate 256 0) (zip m s) ! j) =
      (\<Sum>x\<leftarrow>zip m s. (case x of (a, b) \<Rightarrow> uint (a ! j) * uint (b ! j))) mod 3329)"
    by (rule accumulate) (auto simp add: mlkem_mac_def mac16 simp del: upt_Suc upt_rec_numeral)
  then show ?thesis unfolding dot_at_def by (intro words_of_uints) blast+
qed

lemma request_rows:
  assumes "length m = a" "length s = b" "a + b \<le> n"
  shows "assign_slice a (a + length s) s (assign_slice 0 (length m) m (zeros n)) = m @ s @ zeros (n - (a + b))"
  using assms by (simp add: assign_slice_def)

lemma zip_nth: "length m = n \<Longrightarrow> length s = n \<Longrightarrow> map (\<lambda>c. (m ! c, s ! c)) [0..<n] = zip m s"
  by (rule nth_equalityI) simp_all

lemma mldsa_row_on_device:
  assumes "length m = 7" "length s = 7" "\<forall>p \<in> set m \<union> set s. length p = 256" "words_ok [epoch]" "length old = 8192"
  shows "compute_row_accum_on_aie2 (on_silicon (dr29_kernel old)) 1 (map R32 m) (map R32 s) epoch =
    Inr (R32 (map (\<lambda>j. word_of_int (dot_at m s j mod 8380417)) [0..<256]))"
proof -
  have lens: "\<forall>p \<in> set m. length p = 256" "\<forall>p \<in> set s. length p = 256" using assms(3) by auto
  have len: "length (tobytes (map R32 m)) = 7168" "length (tobytes (map R32 s)) = 7168"
    using poly32_at_rows(2) [OF lens(1), of 0] poly32_at_rows(2) [OF lens(2), of 0] assms(1,2) by simp_all
  let ?req = "tobytes (map R32 m) @ tobytes (map R32 s) @ zeros 2048"
  let ?acc = "foldl mldsa_mac (replicate 256 0) (zip m s)"
  have "map (\<lambda>c. (poly32_at ?req c, poly32_at (drop 7168 ?req) c)) [0..<7] = zip m s"
    unfolding zip_nth [OF assms(1,2), symmetric] using assms(1,2) len
    by (intro map_cong refl) (simp add: poly32_at_rows(1) [OF lens(1)] poly32_at_rows(1) [OF lens(2)])
  moreover have "words_ok [1, 1, 0, 4, epoch]" using assms(4) by simp
  moreover have l: "length ?acc = 256" unfolding mldsa_macs by simp
  ultimately have "dispatch_dr29 (on_silicon (dr29_kernel old)) (pack_dr29_descriptor 1 1 0 4 epoch) ?req =
      Inr (dr29_answer old epoch (row_bytes (R32 ?acc)))"
    using assms(5) by (intro dr29_call) (simp_all add: dr29_mode length_row_bytes del: upt_rec_numeral words_bytes_simps)
  then show ?thesis
    using dr29_result_poly(2) [OF l] request_rows [OF len, of 16384]
    unfolding compute_row_accum_on_aie2_def Let_def mldsa_macs by simp
qed

lemma mlkem_row_on_device:
  assumes "length m = 4" "length s = 4" "\<forall>p \<in> set m \<union> set s. length p = 256" "words_ok [epoch]" "length old = 8192"
  shows "compute_row_accum_on_aie2 (on_silicon (dr29_kernel old)) 2 (map R16 m) (map R16 s) epoch =
    Inr (R16 (map (\<lambda>j. word_of_int (dot_at m s j mod 3329)) [0..<256]))"
proof -
  have lens: "\<forall>p \<in> set m. length p = 256" "\<forall>p \<in> set s. length p = 256" using assms(3) by auto
  have len: "length (tobytes (map R16 m)) = 2048" "length (tobytes (map R16 s)) = 2048"
    using poly16_at_rows(2) [OF lens(1), of 0] poly16_at_rows(2) [OF lens(2), of 0] assms(1,2) by simp_all
  let ?req = "tobytes (map R16 m) @ tobytes (map R16 s) @ zeros 12288"
  let ?acc = "foldl mlkem_mac (replicate 256 0) (zip m s)"
  have "map (\<lambda>c. (poly16_at ?req c, poly16_at (drop 2048 ?req) c)) [0..<4] = zip m s"
    unfolding zip_nth [OF assms(1,2), symmetric] using assms(1,2) len
    by (intro map_cong refl) (simp add: poly16_at_rows(1) [OF lens(1)] poly16_at_rows(1) [OF lens(2)])
  moreover have "words_ok [1, 2, 0, 4, epoch]" using assms(4) by simp
  moreover have l: "length ?acc = 256" unfolding mlkem_macs by simp
  ultimately have "dispatch_dr29 (on_silicon (dr29_kernel old)) (pack_dr29_descriptor 1 2 0 4 epoch) ?req =
      Inr (dr29_answer old epoch (row_bytes (R16 ?acc)))"
    using assms(5) by (intro dr29_call) (simp_all add: dr29_mode length_row_bytes del: upt_rec_numeral words_bytes_simps)
  then show ?thesis
    using dr29_result_poly(1) [OF l] request_rows [OF len, of 16384]
    unfolding compute_row_accum_on_aie2_def Let_def mlkem_macs by simp
qed

subsection \<open>The reference of dr29\<close>

lemma wrap64_id: "- 9223372036854775808 \<le> x \<Longrightarrow> x < 9223372036854775808 \<Longrightarrow> wrap64 x = x"
  by (simp add: wrap64_def)

lemma sum_rows_exact:
  assumes "\<forall>r \<in> set rows. length r = n \<and> (\<forall>j<n. 0 \<le> r ! j \<and> r ! j \<le> 4294967295)" "length rows \<le> 8"
  shows "sum_rows n rows = map (\<lambda>j. \<Sum>r\<leftarrow>rows. r ! j) [0..<n]"
  using assms
proof (induction rows rule: rev_induct)
  case (snoc r rows)
  then have prev: "sum_rows n rows = map (\<lambda>j. \<Sum>r\<leftarrow>rows. r ! j) [0..<n]" by simp
  have b: "0 \<le> (\<Sum>r\<leftarrow>rows. r ! j) \<and> (\<Sum>r\<leftarrow>rows. r ! j) \<le> int (length rows) * 4294967295" if "j < n" for j
    using snoc.prems(1) that by (induction rows) (auto simp add: algebra_simps intro: add_mono)
  have "wrap64 ((\<Sum>r\<leftarrow>rows. r ! j) + r ! j) = (\<Sum>r\<leftarrow>rows. r ! j) + r ! j" if "j < n" for j
  proof (rule wrap64_id)
    have "0 \<le> r ! j" "r ! j \<le> 4294967295" "int (length rows) \<le> 7" using snoc.prems that by simp_all
    with b [OF that] show "- 9223372036854775808 \<le> (\<Sum>r\<leftarrow>rows. r ! j) + r ! j" "(\<Sum>r\<leftarrow>rows. r ! j) + r ! j < 9223372036854775808"
      by linarith+
  qed
  moreover have "sum_rows n (rows @ [r]) = map2 (\<lambda>a x. wrap64 (a + x)) (sum_rows n rows) r" by (simp add: sum_rows_def)
  ultimately show ?case using snoc.prems(1) unfolding prev by (intro nth_equalityI) simp_all
qed (simp add: sum_rows_def map_replicate_trivial)

text \<open>The sum of the products as the reference forms them, each in 64 bits.\<close>

definition wrapped_dot_at :: "int \<Rightarrow> 'a::len word list list \<Rightarrow> 'a word list list \<Rightarrow> nat \<Rightarrow> int" where
  "wrapped_dot_at q m s j = (\<Sum>(a, b)\<leftarrow>zip m s. wrap64 (uint (a ! j) * uint (b ! j)) mod q)"

lemma sum_list_mod: "(\<Sum>x\<leftarrow>xs. f x mod q) mod q = (\<Sum>x\<leftarrow>xs. f x) mod (q :: int)"
proof (induction xs)
  case (Cons x xs)
  from mod_add_cong [OF mod_mod_trivial this] show ?case by simp
qed simp

lemma wrapped_dot_exact:
  assumes "\<forall>a \<in> set m. \<forall>b \<in> set s. uint (a ! j) * uint (b ! j) < 9223372036854775808"
  shows "wrapped_dot_at q m s j mod q = dot_at m s j mod q"
proof -
  have e: "(case x of (a, b) \<Rightarrow> wrap64 (uint (a ! j) * uint (b ! j)) mod q) = (case x of (a, b) \<Rightarrow> uint (a ! j) * uint (b ! j)) mod q"
    if x: "x \<in> set (zip m s)" for x
  proof -
    have "fst x \<in> set m" "snd x \<in> set s" using x by (simp_all add: in_set_zipE [of "fst x" "snd x"] set_zip_leftD [of "fst x" "snd x"] set_zip_rightD [of "fst x" "snd x"])
    with assms have "uint (fst x ! j) * uint (snd x ! j) < 9223372036854775808" by blast
    moreover have "0 \<le> uint (fst x ! j) * uint (snd x ! j)" by (rule mult_nonneg_nonneg) simp_all
    ultimately have "wrap64 (uint (fst x ! j) * uint (snd x ! j)) = uint (fst x ! j) * uint (snd x ! j)" by (intro wrap64_id) linarith+
    then show ?thesis by (simp only: case_prod_beta)
  qed
  have "wrapped_dot_at q m s j = (\<Sum>x\<leftarrow>zip m s. (case x of (a, b) \<Rightarrow> uint (a ! j) * uint (b ! j)) mod q)"
    unfolding wrapped_dot_at_def using e by (intro arg_cong [where f = sum_list] map_cong refl)
  then show ?thesis unfolding dot_at_def by (simp only: sum_list_mod)
qed

lemma reference_rows:
  assumes "length m = length s" "length m \<le> 8" "\<forall>p \<in> set m \<union> set s. length p = 256" "0 < q" "q \<le> 8380417"
  shows "map (\<lambda>x. x mod q) (sum_rows 256 (map2 (\<lambda>a b. map2 (\<lambda>x y. wrap64 (x * y) mod q) (map uint a) (map uint b)) m s)) =
    map (\<lambda>j. wrapped_dot_at q m s j mod q) [0..<256]"
proof -
  let ?rows = "map2 (\<lambda>a b. map2 (\<lambda>x y. wrap64 (x * y) mod q) (map uint a) (map uint b)) m s"
  have l: "length a = 256" "length b = 256" if "(a, b) \<in> set (zip m s)" for a b
    using that assms(3) set_zip_leftD set_zip_rightD by fastforce+
  have e: "x mod q \<le> 4294967295" for x using pos_mod_bound [OF assms(4), of x] assms(5) by linarith
  have "\<forall>r \<in> set ?rows. length r = 256 \<and> (\<forall>j<256. 0 \<le> r ! j \<and> r ! j \<le> 4294967295)"
    using l assms(4) e by (auto simp add: case_prod_beta)
  then have "sum_rows 256 ?rows = map (\<lambda>j. \<Sum>r\<leftarrow>?rows. r ! j) [0..<256]" using assms(2) by (intro sum_rows_exact) simp_all
  moreover have "(\<Sum>r\<leftarrow>?rows. r ! j) = wrapped_dot_at q m s j" if "j < 256" for j
    unfolding wrapped_dot_at_def map_map using that l
    by (intro arg_cong [where f = sum_list] map_cong refl) (auto simp add: case_prod_beta)
  ultimately show ?thesis by (simp add: o_def del: upt_rec_numeral upt_Suc)
qed

lemma as_int64_rows:
  "map2 (\<lambda>a b. f (as_int64 a) (as_int64 b)) (map R32 m) (map R32 s) = map2 (\<lambda>a b. f (map uint a) (map uint b)) m s"
  "map2 (\<lambda>a b. f (as_int64 a) (as_int64 b)) (map R16 m') (map R16 s') = map2 (\<lambda>a b. f (map uint a) (map uint b)) m' s'"
  by (simp_all add: zip_map_map as_int64_def case_prod_beta o_def)

lemma ref_row_accum:
  assumes "length m = length s" "length m \<le> 8" "\<forall>p \<in> set m \<union> set s. length p = 256"
  shows "ref_compute_row_accum 1 (map R32 m) (map R32 s) = R32 (map (\<lambda>j. word_of_int (wrapped_dot_at 8380417 m s j mod 8380417)) [0..<256])"
  unfolding ref_compute_row_accum_def Let_def modulus_of_def simp_thms if_True as_int64_rows(1) [of "map2 (\<lambda>x y. wrap64 (x * y) mod 8380417)"]
  using arg_cong [where f = "map word_of_int", OF reference_rows [OF assms, of 8380417]]
  by (simp only: narrow_def if_True map_map o_def) simp

lemma ref_row_accum16:
  assumes "length m = length s" "length m \<le> 8" "\<forall>p \<in> set m \<union> set s. length p = 256"
  shows "ref_compute_row_accum 2 (map R16 m) (map R16 s) = R16 (map (\<lambda>j. word_of_int (wrapped_dot_at 3329 m s j mod 3329)) [0..<256])"
proof -
  have c: "(2 = (1 :: int)) = False" by simp
  show ?thesis
    unfolding ref_compute_row_accum_def Let_def modulus_of_def c if_False as_int64_rows(2) [of "map2 (\<lambda>x y. wrap64 (x * y) mod 3329)"]
    using arg_cong [where f = "map word_of_int", OF reference_rows [OF assms, of 3329]]
    by (simp only: narrow_def c if_False map_map o_def) simp
qed

lemma products_fit:
  assumes "\<forall>p \<in> set m. \<forall>x \<in> set p. uint (x :: 32 word) < 2147483648" "\<forall>p \<in> set m \<union> set s. length p = 256" "j < 256"
  shows "\<forall>a \<in> set m. \<forall>b \<in> set s. uint (a ! j) * uint ((b :: 32 word list) ! j) < 9223372036854775808"
proof (intro ballI)
  fix a b assume "a \<in> set m" "b \<in> set s"
  then have "length a = 256" "\<forall>x \<in> set a. uint x < 2147483648" using assms by blast+
  then have "uint (a ! j) < 2147483648" using assms(3) nth_mem [of j a] by simp
  then have "uint (a ! j) * uint (b ! j) \<le> 2147483647 * 4294967295"
    using uint_bound(1) [of "b ! j"] by (intro mult_mono) simp_all
  then show "uint (a ! j) * uint (b ! j) < 9223372036854775808" by linarith
qed

lemma products_fit16: "\<forall>a \<in> set m. \<forall>b \<in> set s. uint (a ! j :: 16 word) * uint (b ! j :: 16 word) < 9223372036854775808"
proof (intro ballI)
  fix a b :: "16 word list"
  have "uint (a ! j) * uint (b ! j) \<le> 65535 * 65535"
    using uint_bound(2) [of "a ! j"] uint_bound(2) [of "b ! j"] by (intro mult_mono) simp_all
  then show "uint (a ! j) * uint (b ! j) < 9223372036854775808" by linarith
qed

text \<open>Rows of equal polynomials with equal coefficients.\<close>

lemma constant_dots:
  assumes "j < n"
  shows "wrapped_dot_at q (replicate l (replicate n x)) (replicate l (replicate n x)) j = int l * (wrap64 (uint x * uint x) mod q)"
    "(\<Sum>(a, b)\<leftarrow>zip (replicate l (replicate n x)) (replicate l (replicate n x)). uint (a ! j) * uint (b ! j)) = int l * (uint x * uint x)"
  using assms by (simp_all add: wrapped_dot_at_def sum_list_replicate)

text \<open>C19. A row of the distributed matrix product: for seven polynomials of ML-DSA-87 or four of ML-KEM-1024, with coefficients
  of any value, the device returns in each place the sum of the products modulo q, although it reduces after
  every step in words of fixed width.  The reference of ML-KEM computes the same for every input, and the one of ML-DSA
  computes the same when the coefficients of the row are below 2 to the 31, as reduced ones are; its products of 64 bits
  with sign wrap around above that.
\<close>

theorem row_accumulation_exact:
  assumes "length m = 7" "length s = 7" "\<forall>p \<in> set m \<union> set s. length p = 256"
    and "length m' = 4" "length s' = 4" "\<forall>p \<in> set m' \<union> set s'. length p = 256"
    and "0 \<le> epoch" "epoch < 4294967296" "length old = 8192"
  shows "compute_row_accum_on_aie2 (on_silicon (dr29_kernel old)) 1 (map R32 m) (map R32 s) epoch =
      Inr (R32 (map (\<lambda>j. word_of_int ((\<Sum>(a, b)\<leftarrow>zip m s. uint (a ! j) * uint (b ! j)) mod 8380417)) [0..<256])) \<and>
    compute_row_accum_on_aie2 (on_silicon (dr29_kernel old)) 2 (map R16 m') (map R16 s') epoch =
      Inr (R16 (map (\<lambda>j. word_of_int ((\<Sum>(a, b)\<leftarrow>zip m' s'. uint (a ! j) * uint (b ! j)) mod 3329)) [0..<256])) \<and>
    compute_row_accum_on_aie2 (on_silicon (dr29_kernel old)) 2 (map R16 m') (map R16 s') epoch =
      Inr (ref_compute_row_accum 2 (map R16 m') (map R16 s')) \<and>
    ((\<forall>p \<in> set m. \<forall>x \<in> set p. uint x < 2147483648) \<longrightarrow>
      compute_row_accum_on_aie2 (on_silicon (dr29_kernel old)) 1 (map R32 m) (map R32 s) epoch =
        Inr (ref_compute_row_accum 1 (map R32 m) (map R32 s)))"
proof -
  have e: "words_ok [epoch]" using assms(7,8) by simp
  note on = mldsa_row_on_device [OF assms(1-3) e assms(9)] mlkem_row_on_device [OF assms(4-6) e assms(9)]
  have "wrapped_dot_at 3329 m' s' j mod 3329 = dot_at m' s' j mod 3329" for j by (intro wrapped_dot_exact products_fit16)
  then have kem: "ref_compute_row_accum 2 (map R16 m') (map R16 s') = R16 (map (\<lambda>j. word_of_int (dot_at m' s' j mod 3329)) [0..<256])"
    using ref_row_accum16 [of m' s'] assms(4-6) by simp
  have "ref_compute_row_accum 1 (map R32 m) (map R32 s) = R32 (map (\<lambda>j. word_of_int (dot_at m s j mod 8380417)) [0..<256])"
    if "\<forall>p \<in> set m. \<forall>x \<in> set p. uint x < 2147483648"
  proof -
    have "wrapped_dot_at 8380417 m s j mod 8380417 = dot_at m s j mod 8380417" if "j < 256" for j
      using that \<open>\<forall>p \<in> set m. \<forall>x \<in> set p. uint x < 2147483648\<close> by (intro wrapped_dot_exact products_fit assms(3))
    then have "map (\<lambda>j. word_of_int (wrapped_dot_at 8380417 m s j mod 8380417) :: 32 word) [0..<256] =
        map (\<lambda>j. word_of_int (dot_at m s j mod 8380417)) [0..<256]" by (intro map_cong refl) (simp del: upt_rec_numeral upt_Suc)
    moreover have "length m = length s" "length m \<le> 8" using assms(1,2) by simp_all
    ultimately show ?thesis using ref_row_accum [of m s] assms(3) by (simp only:)
  qed
  then show ?thesis using on kem unfolding dot_at_def by (simp del: upt_rec_numeral upt_Suc)
qed

theorem row_accumulation_exact_witness:
  "compute_row_accum_on_aie2 (on_silicon (dr29_kernel (zeros 8192))) 1
      (map R32 (replicate 7 (replicate 256 0xFFFFFFFF))) (map R32 (replicate 7 (replicate 256 0xFFFFFFFF))) 1 \<noteq>
    Inr (ref_compute_row_accum 1 (map R32 (replicate 7 (replicate 256 0xFFFFFFFF))) (map R32 (replicate 7 (replicate 256 0xFFFFFFFF))))"
proof -
  define m where "m = replicate 7 (replicate 256 (0xFFFFFFFF :: 32 word))"
  define p where "p = replicate 4 (replicate 256 (1 :: 16 word))"
  let ?f = "\<lambda>j. (\<Sum>(a, b)\<leftarrow>zip m m. uint (a ! j) * uint (b ! j)) mod 8380417"
  let ?g = "\<lambda>j. wrapped_dot_at 8380417 m m j mod 8380417"
  have fits: "length m = 7" "\<forall>x \<in> set m \<union> set m. length x = 256" "length p = 4" "\<forall>x \<in> set p \<union> set p. length x = 256"
    unfolding m_def p_def by simp_all
  have "?f 0 = 7 * (4294967295 * 4294967295) mod 8380417" "?g 0 = 7 * ((4294967295 * 4294967295 - 18446744073709551616) mod 8380417) mod 8380417"
    unfolding m_def by (simp_all add: constant_dots sum_list_replicate wrap64_def)
  then have ne: "(word_of_int (?f 0) :: 32 word) \<noteq> word_of_int (?g 0)" by (simp only:) simp
  have nth: "map (\<lambda>j. h j :: 32 word) [0..<256] ! 0 = h 0" for h by (simp only: nth_map length_upt nth_upt) simp
  have "map (\<lambda>j. word_of_int (?f j) :: 32 word) [0..<256] \<noteq> map (\<lambda>j. word_of_int (?g j)) [0..<256]"
    using ne by (rule contrapos_nn) (drule arg_cong [where f = "\<lambda>xs. xs ! 0"], simp only: nth)
  then have "R32 (map (\<lambda>j. word_of_int (?f j)) [0..<256]) \<noteq> R32 (map (\<lambda>j. word_of_int (?g j)) [0..<256])"
    by (simp only: np_row.inject not_False_eq_True)
  moreover have "compute_row_accum_on_aie2 (on_silicon (dr29_kernel (zeros 8192))) 1 (map R32 m) (map R32 m) 1 =
      Inr (R32 (map (\<lambda>j. word_of_int (?f j)) [0..<256]))"
    using row_accumulation_exact [OF fits(1) fits(1,2) fits(3) fits(3,4), of 1 "zeros 8192", THEN conjunct1]
    by (simp del: upt_rec_numeral upt_Suc)
  moreover have "ref_compute_row_accum 1 (map R32 m) (map R32 m) = R32 (map (\<lambda>j. word_of_int (?g j)) [0..<256])"
    by (rule ref_row_accum) (use fits in simp_all)
  ultimately have "compute_row_accum_on_aie2 (on_silicon (dr29_kernel (zeros 8192))) 1 (map R32 m) (map R32 m) 1 \<noteq>
      Inr (ref_compute_row_accum 1 (map R32 m) (map R32 m))" by (simp only: sum.inject not_False_eq_True)
  then show ?thesis unfolding m_def .
qed

subsection \<open>Aggregation\<close>

lemma place_polys:
  assumes "length (tobytes ps) \<le> n"
  shows "foldl place_poly (0, zeros n) ps = (length (tobytes ps), tobytes ps @ zeros (n - length (tobytes ps)))"
  using assms
proof (induction ps rule: rev_induct)
  case (snoc p ps)
  then show ?case by (simp add: place_poly_def tobytes_def assign_slice_def)
qed (simp add: tobytes_def)

lemma mldsa_adds:
  "foldl mldsa_add (replicate 256 0) ps = map (\<lambda>j. word_of_int ((\<Sum>p\<leftarrow>ps. uint (p ! j)) mod 8380417)) [0..<256]"
proof -
  have "length (foldl mldsa_add (replicate 256 0) ps) = 256 \<and>
      (\<forall>j<256. uint (foldl mldsa_add (replicate 256 0) ps ! j) = (\<Sum>p\<leftarrow>ps. uint (p ! j)) mod 8380417)"
    by (rule accumulate) (auto simp add: mldsa_add_def add32 simp del: upt_Suc upt_rec_numeral)
  then show ?thesis by (intro words_of_uints) blast+
qed

lemma mlkem_adds:
  "foldl mlkem_add (replicate 256 0) ps = map (\<lambda>j. word_of_int ((\<Sum>p\<leftarrow>ps. uint (p ! j)) mod 3329)) [0..<256]"
proof -
  have "length (foldl mlkem_add (replicate 256 0) ps) = 256 \<and>
      (\<forall>j<256. uint (foldl mlkem_add (replicate 256 0) ps ! j) = (\<Sum>p\<leftarrow>ps. uint (p ! j)) mod 3329)"
    by (rule accumulate) (auto simp add: mlkem_add_def add16 simp del: upt_Suc upt_rec_numeral)
  then show ?thesis by (intro words_of_uints) blast+
qed

lemma nth_upt_id: "length xs = n \<Longrightarrow> map (\<lambda>i. xs ! i) [0..<n] = xs"
  by (auto simp add: map_nth)

lemma aggregate_on_device:
  assumes "length ps = 4" "\<forall>p \<in> set ps. length p = 256" "length ps' = 4" "\<forall>p \<in> set ps'. length p = 256" "words_ok [epoch]" "length old = 8192"
  shows "aggregate_cluster_on_aie2 (on_silicon (dr29_kernel old)) 1 (map R32 ps) epoch =
      Inr (R32 (map (\<lambda>j. word_of_int ((\<Sum>p\<leftarrow>ps. uint (p ! j)) mod 8380417)) [0..<256]))"
    "aggregate_cluster_on_aie2 (on_silicon (dr29_kernel old)) 2 (map R16 ps') epoch =
      Inr (R16 (map (\<lambda>j. word_of_int ((\<Sum>p\<leftarrow>ps'. uint (p ! j)) mod 3329)) [0..<256]))"
proof -
  have len: "length (tobytes (map R32 ps)) = 4096" "length (tobytes (map R16 ps')) = 2048"
    using poly32_at_rows(2) [OF assms(2), of 0] poly16_at_rows(2) [OF assms(4), of 0] assms(1,3) by simp_all
  let ?r = "tobytes (map R32 ps) @ zeros 12288" and ?r' = "tobytes (map R16 ps') @ zeros 14336"
  have w: "words_ok [2, 1, 0, 4, epoch]" "words_ok [2, 2, 0, 4, epoch]" using assms(5) by simp_all
  have "map (poly32_at ?r) [0..<4] = map (\<lambda>i. ps ! i) [0..<4]" "map (poly16_at ?r') [0..<4] = map (\<lambda>i. ps' ! i) [0..<4]"
    using assms(1,3) by (intro map_cong refl; simp add: poly32_at_rows(1) [OF assms(2)] poly16_at_rows(1) [OF assms(4)])+
  then have polys: "map (poly32_at ?r) [0..<4] = ps" "map (poly16_at ?r') [0..<4] = ps'"
    using nth_upt_id [OF assms(1)] nth_upt_id [OF assms(3)] by simp_all
  have "dispatch_dr29 (on_silicon (dr29_kernel old)) (pack_dr29_descriptor 2 1 0 4 epoch) ?r =
      Inr (dr29_answer old epoch (row_bytes (R32 (foldl mldsa_add (replicate 256 0) ps))))"
    using assms(6) polys dr29_mode [OF w(1), of old ?r] by (intro dr29_call w) (simp_all add: mldsa_adds length_row_bytes del: upt_rec_numeral words_bytes_simps)
  moreover have "foldl place_poly (0, zeros 16384) (take 4 (map R32 ps)) = (4096, ?r)"
    using assms(1) len by (simp add: place_polys)
  moreover have "result_poly 1 (dr29_answer old epoch (row_bytes (R32 (foldl mldsa_add (replicate 256 0) ps)))) = R32 (foldl mldsa_add (replicate 256 0) ps)"
    by (rule dr29_result_poly(2)) (simp add: mldsa_adds)
  ultimately show "aggregate_cluster_on_aie2 (on_silicon (dr29_kernel old)) 1 (map R32 ps) epoch =
      Inr (R32 (map (\<lambda>j. word_of_int ((\<Sum>p\<leftarrow>ps. uint (p ! j)) mod 8380417)) [0..<256]))"
    unfolding aggregate_cluster_on_aie2_def by (simp only: snd_conv bindE_simps mldsa_adds)
  have "dispatch_dr29 (on_silicon (dr29_kernel old)) (pack_dr29_descriptor 2 2 0 4 epoch) ?r' =
      Inr (dr29_answer old epoch (row_bytes (R16 (foldl mlkem_add (replicate 256 0) ps'))))"
    using assms(6) polys dr29_mode [OF w(2), of old ?r'] by (intro dr29_call w) (simp_all add: mlkem_adds length_row_bytes del: upt_rec_numeral words_bytes_simps)
  moreover have "foldl place_poly (0, zeros 16384) (take 4 (map R16 ps')) = (2048, ?r')"
    using assms(3) len by (simp add: place_polys)
  moreover have "result_poly 2 (dr29_answer old epoch (row_bytes (R16 (foldl mlkem_add (replicate 256 0) ps')))) = R16 (foldl mlkem_add (replicate 256 0) ps')"
    by (rule dr29_result_poly(1)) (simp add: mlkem_adds)
  ultimately show "aggregate_cluster_on_aie2 (on_silicon (dr29_kernel old)) 2 (map R16 ps') epoch =
      Inr (R16 (map (\<lambda>j. word_of_int ((\<Sum>p\<leftarrow>ps'. uint (p ! j)) mod 3329)) [0..<256]))"
    unfolding aggregate_cluster_on_aie2_def by (simp only: snd_conv bindE_simps mlkem_adds)
qed

subsection \<open>The plan of the rows\<close>

text \<open>The rows that the tiles of a cluster hold, in the order of the tiles.\<close>

definition rows_planned :: "int \<Rightarrow> int \<Rightarrow> int list" where
  "rows_planned algo num_tiles = columns_of (map (\<lambda>t. case ref_compute_partition_info algo (int t) num_tiles of
     Inr i \<Rightarrow> (pi_start_row i, pi_num_rows i) | Inl _ \<Rightarrow> (0, 0)) [0..<nat num_tiles])"

abbreviation (input) rows_of_matrix :: "int \<Rightarrow> int" where
  "rows_of_matrix algo \<equiv> (if algo = 1 then 8 else 4)"

lemma rows_planned_eq:
  assumes "0 < num_tiles"
  shows "rows_planned algo num_tiles = [0..num_tiles * (rows_of_matrix algo div num_tiles) - 1]"
proof -
  let ?q = "rows_of_matrix algo div num_tiles"
  have "0 \<le> ?q" using assms by (simp add: pos_imp_zdiv_nonneg_iff)
  from columns_of_loop [OF this, of 0 "nat num_tiles"]
  have "columns_of (map (\<lambda>t. (int t * ?q, ?q)) [0..<nat num_tiles]) = [0..num_tiles * ?q - 1]" using assms by simp
  moreover have "(\<lambda>t. case ref_compute_partition_info algo (int t) num_tiles of
      Inr i \<Rightarrow> (pi_start_row i, pi_num_rows i) | Inl _ \<Rightarrow> (0, 0)) = (\<lambda>t. (int t * ?q, ?q))"
    using assms by (auto simp add: ref_compute_partition_info_def Let_def)
  ultimately show ?thesis unfolding rows_planned_def by simp
qed

lemma upto_end: "0 \<le> a \<Longrightarrow> 0 \<le> b \<Longrightarrow> [0..a - 1] = [0..b - 1] \<longleftrightarrow> a = (b :: int)"
  by (metis add_diff_cancel_right' diff_add_cancel diff_zero int_nat_eq length_upto)

lemma mult_div_eq_iff: "n * (k div n) = k \<longleftrightarrow> n dvd (k :: int)"
  by (metis dvd_mult_div_cancel dvd_triv_left)

lemma rows_planned_all:
  assumes "0 < num_tiles"
  shows "rows_planned algo num_tiles = [0..rows_of_matrix algo - 1] \<longleftrightarrow> num_tiles dvd rows_of_matrix algo"
proof -
  have k: "0 \<le> rows_of_matrix algo" by simp
  then have "0 \<le> rows_of_matrix algo div num_tiles" by (simp only: pos_imp_zdiv_nonneg_iff [OF assms])
  then have "0 \<le> num_tiles * (rows_of_matrix algo div num_tiles)" by (rule mult_nonneg_nonneg [OF less_imp_le [OF assms]])
  then show ?thesis by (simp only: rows_planned_eq [OF assms] upto_end [OF _ k] mult_div_eq_iff)
qed

lemma rows_per_tile:
  assumes "0 < num_tiles" "0 \<le> (k :: int)"
  shows "0 \<le> k div num_tiles" "k div num_tiles \<le> k" "2 \<le> num_tiles \<Longrightarrow> k div num_tiles \<le> k div 2"
    "0 \<le> t \<Longrightarrow> t < num_tiles \<Longrightarrow> 0 \<le> t * (k div num_tiles) \<and> t * (k div num_tiles) \<le> k"
proof -
  show n: "0 \<le> k div num_tiles" using assms(2) by (simp only: pos_imp_zdiv_nonneg_iff [OF assms(1)])
  show "k div num_tiles \<le> k" using zdiv_mono2 [OF assms(2) zero_less_one, of num_tiles] assms(1) by (simp only: div_by_1 int_one_le_iff_zero_less)
  show "2 \<le> num_tiles \<Longrightarrow> k div num_tiles \<le> k div 2" by (rule zdiv_mono2 [OF assms(2) zero_less_numeral])
  assume t: "0 \<le> t" "t < num_tiles"
  have "t * (k div num_tiles) \<le> num_tiles * (k div num_tiles)" by (rule mult_right_mono [OF less_imp_le [OF t(2)] n])
  also have "\<dots> = k - k mod num_tiles" by (rule minus_mod_eq_mult_div [symmetric])
  also have "\<dots> \<le> k" by (simp only: diff_le_eq le_add_same_cancel1 pos_mod_sign [OF assms(1)])
  finally show "0 \<le> t * (k div num_tiles) \<and> t * (k div num_tiles) \<le> k" using mult_nonneg_nonneg [OF t(1) n] by (rule conjI [rotated])
qed

lemma plan_on_device:
  assumes "0 \<le> algo" "algo < 4294967296" "0 \<le> tile" "tile < tiles" "tiles < 4294967296" "words_ok [epoch]" "length old = 8192"
  shows "query_partition_info_on_aie2 (on_silicon (dr29_kernel old)) algo tile tiles epoch = ref_compute_partition_info algo tile tiles"
proof -
  have w: "words_ok [0, algo, tile, tiles, epoch]" using assms by simp
  have t: "0 < tiles" using assms by simp
  define q where "q = rows_of_matrix algo div tiles"
  have k: "0 \<le> rows_of_matrix algo" "rows_of_matrix algo \<le> 8" by simp_all
  note r = rows_per_tile [OF t k(1), folded q_def]
  have q: "0 \<le> q" "q \<le> 8" "0 \<le> tile * q" "tile * q \<le> 8" using r(1,2) r(4) [OF assms(3,4)] k by linarith+
  let ?l = "if algo = 1 then 7 else 4" and ?w = "if algo = 1 then 4 else 2"
  define kb where "kb = (q * ?l * 256 * ?w + ?l * 256 * ?w + q * 256 * ?w + 1023) div 1024"
  have kb: "0 \<le> kb" "kb < 4294967296" using q by (auto simp add: kb_def)
  let ?ws = "[algo, tile, tile * q, q, ?l, q * ?l, q * ?l * 256 * ?w, ?l * 256 * ?w, kb, if kb \<le> 44 then 1 else 0]"
  have k: "compute_partition_info algo tile tiles = ?ws"
    using q unfolding compute_partition_info_def kb_def Let_def q_def [symmetric] by (cases "algo = 1") (simp_all add: q_def u32_id)
  have ok: "words_ok ?ws" using q kb assms by auto
  have r: "struct_unpack_from (replicate 10 (U 4)) (dr29_answer old epoch (words_bytes ws)) 16 = Inr ws" if "length ws = 10" "words_ok ws" for ws
    unfolding dr29_answer_def by (rule unpack_words_at [OF that(2), unfolded that(1)]) simp
  have "dispatch_dr29 (on_silicon (dr29_kernel old)) (pack_dr29_descriptor 0 algo tile tiles epoch) (zeros 16384) =
      Inr (dr29_answer old epoch (words_bytes ?ws))"
    using dr29_mode [OF w, of old "zeros 16384"] k by (intro dr29_call w assms) (simp_all del: words_bytes_simps)
  moreover have "struct_unpack_from (replicate 10 (U 4)) (dr29_answer old epoch (words_bytes ?ws)) 16 = Inr ?ws" by (rule r [OF _ ok]) simp
  ultimately have "query_partition_info_on_aie2 (on_silicon (dr29_kernel old)) algo tile tiles epoch =
      Inr \<lparr>pi_algo_type = algo, pi_tile_index = tile, pi_start_row = tile * q, pi_num_rows = q, pi_row_length = ?l,
        pi_polys_on_tile = q * ?l, pi_matrix_bytes = q * ?l * 256 * ?w, pi_vector_bytes = ?l * 256 * ?w,
        pi_total_sram_kb = kb, pi_is_under_44kb_bound = (kb \<le> 44)\<rparr>"
    unfolding query_partition_info_on_aie2_def by (simp del: words_bytes_simps)
  then show ?thesis using t by (simp add: ref_compute_partition_info_def Let_def kb_def q_def)
qed

lemma plan_under_bound:
  assumes "0 < tiles"
  shows "\<exists>info. ref_compute_partition_info algo tile tiles = Inr info \<and> (pi_is_under_44kb_bound info \<longleftrightarrow> algo \<noteq> 1 \<or> 2 \<le> tiles)"
proof (cases "2 \<le> tiles")
  case True
  then have "0 \<le> 8 div tiles" "8 div tiles \<le> 4" "0 \<le> 4 div tiles" "4 div tiles \<le> 2"
    using rows_per_tile(1,3) [OF assms, of 8] rows_per_tile(1,3) [OF assms, of 4] by simp_all
  then show ?thesis using assms True by (auto simp add: ref_compute_partition_info_def Let_def)
next
  case False
  with assms have "tiles = 1" by simp
  then show ?thesis by (simp add: ref_compute_partition_info_def Let_def)
qed

text \<open>C21. The plan of a cluster: the device returns the plan of the reference for every tile of every number of tiles; a tile
  keeps below 44 KB except when one tile has to hold all of ML-DSA-87; and the rows of the tiles, put one after the other, are the rows of the
  matrix, each once, if and only if the number of tiles divides the number of rows.  For any other number, for example
  three tiles, the last rows belong to no tile.
\<close>

theorem partition_plan:
  assumes "0 \<le> algo" "algo < 4294967296" "0 \<le> tile" "tile < tiles" "tiles < 4294967296" "0 \<le> epoch" "epoch < 4294967296" "length old = 8192"
  shows "query_partition_info_on_aie2 (on_silicon (dr29_kernel old)) algo tile tiles epoch = ref_compute_partition_info algo tile tiles \<and>
    (\<exists>info. ref_compute_partition_info algo tile tiles = Inr info \<and> (pi_is_under_44kb_bound info \<longleftrightarrow> algo \<noteq> 1 \<or> 2 \<le> tiles)) \<and>
    (rows_planned algo tiles = [0..(if algo = 1 then 8 else 4) - 1] \<longleftrightarrow> tiles dvd (if algo = 1 then 8 else 4))"
proof -
  have "words_ok [epoch]" "0 < tiles" using assms by simp_all
  then show ?thesis
    using plan_on_device [OF assms(1-5) _ assms(8)] plan_under_bound rows_planned_all by (intro conjI) blast+
qed

theorem partition_plan_witness:
  "query_partition_info_on_aie2 (on_silicon (dr29_kernel (zeros 8192))) 1 0 3 1 = ref_compute_partition_info 1 0 3 \<and>
   rows_planned 1 3 = [0..5] \<and> rows_planned 1 3 \<noteq> [0..7]"
proof -
  have "rows_planned 1 3 = [0..5]" by (simp add: rows_planned_eq)
  moreover have "\<not> (3 :: int) dvd 8" by simp
  ultimately show ?thesis using partition_plan [of 1 0 3 1 "zeros 8192"] by simp
qed

lemma sum_rows_uint:
  assumes "\<forall>p \<in> set ps. length p = n" "length ps \<le> 8" "\<And>x :: 'a::len word. uint x \<le> 4294967295"
  shows "sum_rows n (map (map uint) ps) = map (\<lambda>j. \<Sum>p\<leftarrow>ps. uint (p ! j :: 'a word)) [0..<n]"
proof -
  have "sum_rows n (map (map uint) ps) = map (\<lambda>j. \<Sum>r\<leftarrow>map (map uint) ps. r ! j) [0..<n]"
    by (rule sum_rows_exact) (use assms in auto)
  moreover have "(\<Sum>r\<leftarrow>map (map uint) ps. r ! j) = (\<Sum>p\<leftarrow>ps. uint (p ! j))" if "j < n" for j
    unfolding map_map by (intro arg_cong [where f = sum_list] map_cong refl) (use assms(1) that in simp)
  ultimately show ?thesis by simp
qed

lemma uint_le: "uint (y :: 32 word) \<le> 4294967295" "uint (z :: 16 word) \<le> 4294967295"
  using uint_bound(1) [of y] uint_bound(2) [of z] by linarith+

lemma ref_aggregate:
  assumes "length ps = 4" "\<forall>p \<in> set ps. length p = 256" "length ps' = 4" "\<forall>p \<in> set ps'. length p = 256"
  shows "ref_aggregate_cluster 1 (map R32 ps) = R32 (map (\<lambda>j. word_of_int ((\<Sum>p\<leftarrow>ps. uint (p ! j)) mod 8380417)) [0..<256])"
    "ref_aggregate_cluster 2 (map R16 ps') = R16 (map (\<lambda>j. word_of_int ((\<Sum>p\<leftarrow>ps'. uint (p ! j)) mod 3329)) [0..<256])"
proof -
  have r: "map as_int64 (take 4 (map R32 ps)) = map (map uint) ps" "map as_int64 (take 4 (map R16 ps')) = map (map uint) ps'"
    using assms(1,3) by (simp_all add: as_int64_def)
  have l: "length ps \<le> 8" "length ps' \<le> 8" using assms(1,3) by simp_all
  have c: "(2 = (1 :: int)) = False" by simp
  show "ref_aggregate_cluster 1 (map R32 ps) = R32 (map (\<lambda>j. word_of_int ((\<Sum>p\<leftarrow>ps. uint (p ! j)) mod 8380417)) [0..<256])"
    by (simp only: ref_aggregate_cluster_def narrow_def modulus_of_def r sum_rows_uint [OF assms(2) l(1) uint_le(1)] map_map o_def simp_thms if_True)
  show "ref_aggregate_cluster 2 (map R16 ps') = R16 (map (\<lambda>j. word_of_int ((\<Sum>p\<leftarrow>ps'. uint (p ! j)) mod 3329)) [0..<256])"
    by (simp only: ref_aggregate_cluster_def narrow_def modulus_of_def r sum_rows_uint [OF assms(4) l(2) uint_le(2)] map_map o_def simp_thms c if_False)
qed

text \<open>The aggregation of the four partial polynomials of a cluster is their sum modulo q, coefficient by coefficient, for
  coefficients of any value: the device, which reduces after every addition, and the reference, which reduces once, return the same, for
  ML-DSA-87 and for ML-KEM-1024.
\<close>

theorem aggregation_exact:
  assumes "length ps = 4" "\<forall>p \<in> set ps. length p = 256" "length ps' = 4" "\<forall>p \<in> set ps'. length p = 256"
    and "0 \<le> epoch" "epoch < 4294967296" "length old = 8192"
  shows "aggregate_cluster_on_aie2 (on_silicon (dr29_kernel old)) 1 (map R32 ps) epoch = Inr (ref_aggregate_cluster 1 (map R32 ps)) \<and>
    aggregate_cluster_on_aie2 (on_silicon (dr29_kernel old)) 2 (map R16 ps') epoch = Inr (ref_aggregate_cluster 2 (map R16 ps')) \<and>
    ref_aggregate_cluster 1 (map R32 ps) = R32 (map (\<lambda>j. word_of_int ((\<Sum>p\<leftarrow>ps. uint (p ! j)) mod 8380417)) [0..<256])"
proof -
  have e: "words_ok [epoch]" using assms(5,6) by simp
  show ?thesis by (simp only: aggregate_on_device [OF assms(1-4) e assms(7)] ref_aggregate [OF assms(1-4)] simp_thms)
qed

theorem aggregation_exact_witness:
  "aggregate_cluster_on_aie2 (on_silicon (dr29_kernel (zeros 8192))) 1 (map R32 (replicate 4 (replicate 256 8380416))) 1 =
    Inr (ref_aggregate_cluster 1 (map R32 (replicate 4 (replicate 256 8380416))))"
  by (rule aggregation_exact [of "replicate 4 (replicate 256 8380416)" "replicate 4 (replicate 256 3328)" 1 "zeros 8192", THEN conjunct1]) simp_all

end
