(* ===== verification/Engines.thy ===== *)
theory Engines
  imports Qkms CompositeSig Dice Bench Services
begin

text \<open>
  The calls of the engines whose request tensors and oracles other theories model: benchmarks
  (\<open>dr40_benchmark_graph.py\<close>), the key vault (\<open>dr41_qkms_graph.py\<close>), composite signatures
  (\<open>dr42_composite_sig_graph.py\<close>) and attestation (\<open>dr34_dice_tpm_graph.py\<close>), the last two with the
  verification by the ML-DSA-44 service that the host adds to the verdict of the device; and the product of
  polynomials of the first milestone (\<open>abi.py\<close>, \<open>m33_product_graph.py\<close>).  Polynomials are lists of integers;
  the checks of Python types are left out.
\<close>

unbundle bit_operations_syntax

subsection \<open>Benchmarks and the vault\<close>

definition padded_request :: "nat \<Rightarrow> bytes \<Rightarrow> bytes" where
  "padded_request n raw = (if length raw < n then raw @ zeros (n - length raw) else take n raw)"

definition run_dr40_benchmark_on_aie2 :: "host \<Rightarrow> bench_descriptor \<Rightarrow> bytes option \<Rightarrow> bytes py" where
  "run_dr40_benchmark_on_aie2 h d request_bytes =
     bindE (bench_descriptor_pack (d\<lparr>bd_magic := BENCH_MAGIC_HEADER\<rparr>)) (\<lambda>desc.
       dispatch 2048 h desc (case request_bytes of None \<Rightarrow> zeros 4096 | Some b \<Rightarrow> padded_request 4096 b))"

definition run_dr41_qkms_on_aie2 ::
  "host \<Rightarrow> qkms_descriptor \<Rightarrow> bytes \<Rightarrow> vault_slot list option \<Rightarrow> bytes option \<Rightarrow> bytes py" where
  "run_dr41_qkms_on_aie2 h d request_payload vault_bank raw_request_buffer =
     bindE (qkms_descriptor_pack (d\<lparr>qd_magic := QKMS_MAGIC_HEADER\<rparr>)) (\<lambda>desc.
     bindE (case raw_request_buffer of Some b \<Rightarrow> Inr (padded_request 4096 b)
            | None \<Rightarrow> qkms_build_request_tensor request_payload vault_bank) (\<lambda>req.
       dispatch 2048 h desc req))"

subsection \<open>Composite signatures\<close>

record cs_contents =
  cc_context :: bytes
  cc_oid :: bytes
  cc_message :: bytes
  cc_trad_pk :: bytes
  cc_trad_sig :: bytes
  cc_pqc_pk :: bytes
  cc_pqc_sig :: bytes

definition dr42_request :: "cs_contents \<Rightarrow> bytes option \<Rightarrow> bytes" where
  "dr42_request c raw_request_buffer = (case raw_request_buffer of Some b \<Rightarrow> padded_request 8192 b
     | None \<Rightarrow> build_composite_request_tensor (cc_context c) (cc_oid c) (cc_message c) (cc_trad_pk c) (cc_trad_sig c)
         (cc_pqc_pk c) (cc_pqc_sig c))"

text \<open>\<open>x if x else req_buf[off : off + (n or default)]\<close>\<close>

definition given_or_staged :: "bytes \<Rightarrow> nat \<Rightarrow> int \<Rightarrow> int \<Rightarrow> bytes \<Rightarrow> bytes" where
  "given_or_staged x off n dflt req_buf =
     (if x \<noteq> [] then x else py_slice (int off) (int off + (if n \<noteq> 0 then n else dflt)) req_buf)"

text \<open>The verdict of the host, which replaces the one in the result record.\<close>

definition composite_verdict :: "cs_descriptor \<Rightarrow> bool \<Rightarrow> bytes \<Rightarrow> bytes py" where
  "composite_verdict d pqc_ok raw_res =
     (let orig_flags = result_word 20 raw_res;
          trad_ok = (orig_flags AND 0x01 \<noteq> 0);
          new_flags = (if trad_ok then 0x01 else 0x00) OR (if pqc_ok then 0x02 else (0x00 :: int));
          (status, is_valid) =
            (if trad_ok \<and> pqc_ok then (CS_STATUS_SUCCESS, 1)
             else if \<not> trad_ok \<and> pqc_ok then (CS_STATUS_ERR_TRAD_VERIFY_FAILED, 0)
             else if trad_ok \<and> \<not> pqc_ok then (CS_STATUS_ERR_PQC_VERIFY_FAILED, 0)
             else (CS_STATUS_ERR_COMPOSITE_VERIFY_FAILED, 0));
          chk = compute_composite_result_checksum status (cd_op_code d) (cd_sig_type d) is_valid new_flags
            (slice 32 64 raw_res) (slice 64 96 raw_res)
      in bindE (struct_pack_into (replicate 6 (U 4)) raw_res 0 [status, cd_op_code d, cd_sig_type d, is_valid, chk, new_flags])
           (\<lambda>raw_res. struct_pack_into [U 4] raw_res 96 [new_flags]))"

definition run_dr42_composite_sig_on_aie2 ::
  "host \<Rightarrow> cs_descriptor \<Rightarrow> cs_contents \<Rightarrow> bytes option \<Rightarrow> bytes option \<Rightarrow> bool \<Rightarrow> bytes py" where
  "run_dr42_composite_sig_on_aie2 h d c raw_request_buffer m_or_mu external_mu =
     bindE (cs_descriptor_pack (d\<lparr>cd_magic := CS_MAGIC_HEADER\<rparr>)) (\<lambda>desc.
     let req_buf = dr42_request c raw_request_buffer
     in bindE (dispatch 2048 h desc req_buf) (\<lambda>raw_res.
        if cd_op_code d = OP_COMPOSITE_VERIFY \<and> cd_sig_type d = COMPOSITE_TYPE_MLDSA44_ED25519 then
          let actual_pqc_pk = given_or_staged (cc_pqc_pk c) OFFSET_PQC_PK (cd_pqc_pk_len d) 1312 req_buf;
              actual_pqc_sig = given_or_staged (cc_pqc_sig c) OFFSET_PQC_SIG (cd_pqc_sig_len d) 2420 req_buf
          in if 1312 \<le> length actual_pqc_pk \<and> 2420 \<le> length actual_pqc_sig \<and> \<not> all_zero actual_pqc_sig then
               bindE (run_mldsa44_verify h actual_pqc_pk (case m_or_mu of Some m \<Rightarrow> m | None \<Rightarrow> slice 32 64 raw_res)
                 actual_pqc_sig external_mu (cd_seq_id d)) (\<lambda>pqc_ok. composite_verdict d pqc_ok raw_res)
             else Inr raw_res
        else Inr raw_res))"

subsection \<open>Attestation\<close>

definition dispatch_dr34 :: "host \<Rightarrow> bytes \<Rightarrow> bytes \<Rightarrow> bytes py" where
  "dispatch_dr34 h desc req_buf = bindE (dispatch 2048 h desc req_buf) (\<lambda>raw_res.
     if result_word 4 raw_res \<noteq> MODE_DICE_VERIFY_QUOTE \<and> result_word 8 raw_res \<noteq> 0 then Inl RuntimeError else Inr raw_res)"

definition reject_quote :: "bytes \<Rightarrow> bytes py" where
  "reject_quote raw_res = bindE (struct_pack_into [U 4] raw_res 8 [DICE_STATUS_ERR_QUOTE_VERIFY_FAIL])
     (\<lambda>raw_res. struct_pack_into [U 4] raw_res 20 [0])"

definition attestation_signature :: "dice_request \<Rightarrow> bytes option" where
  "attestation_signature r = (case rq_ak_sig r of Some s \<Rightarrow> Some s
     | None \<Rightarrow> if 2420 \<le> length (rq_signature r) then Some (rq_signature r) else None)"

definition verify_quote_signature :: "host \<Rightarrow> dice_request \<Rightarrow> bytes option \<Rightarrow> bool \<Rightarrow> bytes \<Rightarrow> bytes py" where
  "verify_quote_signature h r m_or_mu external_mu raw_res =
     (let outcome = result_word 20 raw_res
      in if outcome = 1 \<and> rq_ak_pk r \<noteq> None \<and> attestation_signature r \<noteq> None then
           bindE (run_mldsa44_verify h (the (rq_ak_pk r)) (case m_or_mu of Some m \<Rightarrow> m | None \<Rightarrow> slice 64 96 raw_res)
             (the (attestation_signature r)) external_mu (rq_seq_id r)) (\<lambda>is_valid_sig. if \<not> is_valid_sig then reject_quote raw_res else Inr raw_res)
         else if outcome = 1 \<and> length (rq_signature r) = 64 \<and> rq_signature r ! 0 = 0xFF then reject_quote raw_res
         else Inr raw_res)"

definition run_dr34_dice_tpm_on_aie2 ::
  "host \<Rightarrow> int \<Rightarrow> int \<Rightarrow> int \<Rightarrow> dice_request \<Rightarrow> bytes option \<Rightarrow> bool \<Rightarrow> bytes py" where
  "run_dr34_dice_tpm_on_aie2 h op_mode pcr_index pcr_mask r m_or_mu external_mu =
     bindE (pack_dr34_descriptor op_mode pcr_index pcr_mask (int (length (rq_nonce r))) (int (length (rq_signature r))) 0 (rq_seq_id r)) (\<lambda>desc.
     bindE (pack_dr34_request r) (\<lambda>req.
     bindE (dispatch_dr34 h desc req) (\<lambda>raw_res.
       if op_mode = MODE_DICE_VERIFY_QUOTE then verify_quote_signature h r m_or_mu external_mu raw_res else Inr raw_res)))"

subsection \<open>The product of polynomials\<close>

definition validate_polynomial :: "int list \<Rightarrow> int list py" where
  "validate_polynomial values =
     (if length values \<noteq> 256 then Inl ValueError
      else if \<exists>v \<in> set values. \<not> (- 8380416 \<le> v \<and> v \<le> 8380416) then Inl ValueError else Inr values)"

definition accumulate_product :: "nat \<Rightarrow> int list \<Rightarrow> (nat \<times> nat) \<times> int \<Rightarrow> int list" where
  "accumulate_product n accum p = (case p of ((i, j), v) \<Rightarrow>
     if i + j < n then accum[i + j := accum ! (i + j) + v] else accum[i + j - n := accum ! (i + j - n) - v])"

definition reference_negacyclic_product :: "int list \<Rightarrow> int list \<Rightarrow> int list py" where
  "reference_negacyclic_product a b =
     bindE (validate_polynomial a) (\<lambda>left. bindE (validate_polynomial b) (\<lambda>right.
       Inr (map (\<lambda>c. c mod 8380417) (foldl (\<lambda>accum i. foldl (\<lambda>accum j. accumulate_product 256 accum ((i, j), left ! i * right ! j))
         accum [0..<length right]) (replicate 256 0) [0..<length left]))))"

text \<open>The device program of this milestone takes both polynomials and the buffer of the result.\<close>

definition run_m33_product ::
  "host \<Rightarrow> (int list \<Rightarrow> int list \<Rightarrow> int list \<Rightarrow> int list py) \<Rightarrow> int list \<Rightarrow> int list \<Rightarrow> int list py" where
  "run_m33_product h prog a b =
     bindE (validate_polynomial a) (\<lambda>a_checked. bindE (validate_polynomial b) (\<lambda>b_checked.
     bindE (load_iron h) (\<lambda>_. case prog a_checked b_checked (replicate 256 (- 2147483648)) of
       Inl _ \<Rightarrow> Inl NativeBackendUnavailable
     | Inr c \<Rightarrow> let result = take 256 c
         in if length result \<noteq> 256 \<or> (\<exists>v \<in> set result. v = - 2147483648) then Inl NativeBackendUnavailable
            else if \<exists>v \<in> set result. v < 0 \<or> 8380417 \<le> v then Inl NativeBackendUnavailable
            else Inr result)))"

subsection \<open>Answers come from the device\<close>

lemma dispatch_needs: "dispatch n h desc req = Inr raw \<Longrightarrow> iron_ok h \<and> (\<exists>req desc out. ho_program h req desc = Inr out)"
  by (auto simp add: dispatch_Inr_iff hardware_ok_def)

interpretation op_bench: device_operation "\<lambda>h. run_dr40_benchmark_on_aie2 h d req" for d req
  by unfold_locales (auto simp add: run_dr40_benchmark_on_aie2_def bindE_Inr_iff dest: dispatch_needs)

interpretation op_vault: device_operation "\<lambda>h. run_dr41_qkms_on_aie2 h d payload bank raw" for d payload bank raw
  by unfold_locales (auto simp add: run_dr41_qkms_on_aie2_def bindE_Inr_iff dest: dispatch_needs)

interpretation op_composite: device_operation "\<lambda>h. run_dr42_composite_sig_on_aie2 h d c raw m ext" for d c raw m ext
  by unfold_locales (auto simp add: run_dr42_composite_sig_on_aie2_def bindE_Inr_iff Let_def dest: dispatch_needs)

interpretation op_attestation: device_operation "\<lambda>h. run_dr34_dice_tpm_on_aie2 h op i mask r m ext" for op i mask r m ext
  by unfold_locales (auto simp add: run_dr34_dice_tpm_on_aie2_def dispatch_dr34_def bindE_Inr_iff dest: dispatch_needs)

subsection \<open>Products\<close>

text \<open>What the pair of the indices \<open>i\<close> and \<open>j\<close> adds to the coefficient \<open>k\<close>.\<close>

definition share :: "nat \<Rightarrow> nat \<Rightarrow> nat \<Rightarrow> nat \<Rightarrow> int \<Rightarrow> int" where
  "share n k i j v = (if i + j = k then v else if i + j = n + k then - v else 0)"

lemma accumulate_product_nth:
  assumes "length accum = n" "i < n" "j < n"
  shows "length (accumulate_product n accum ((i, j), v)) = n"
    "k < n \<Longrightarrow> accumulate_product n accum ((i, j), v) ! k = accum ! k + share n k i j v"
  using assms by (auto simp add: accumulate_product_def share_def nth_list_update)

lemma inner_products:
  assumes "length accum = n" "i < n" "m \<le> n"
  shows "length (foldl (\<lambda>accum j. accumulate_product n accum ((i, j), f j)) accum [0..<m]) = n \<and>
    (\<forall>k<n. foldl (\<lambda>accum j. accumulate_product n accum ((i, j), f j)) accum [0..<m] ! k = accum ! k + (\<Sum>j<m. share n k i j (f j)))"
  using assms(3)
proof (induction m)
  case (Suc m)
  then show ?case using accumulate_product_nth [where j = m and v = "f m", OF _ assms(2)] by (simp add: add.assoc)
qed (simp add: assms)

lemma outer_products:
  assumes "m \<le> n"
  shows "length (foldl (\<lambda>accum i. foldl (\<lambda>accum j. accumulate_product n accum ((i, j), f i j)) accum [0..<n]) (replicate n 0) [0..<m]) = n \<and>
    (\<forall>k<n. foldl (\<lambda>accum i. foldl (\<lambda>accum j. accumulate_product n accum ((i, j), f i j)) accum [0..<n]) (replicate n 0) [0..<m] ! k =
      (\<Sum>i<m. \<Sum>j<n. share n k i j (f i j)))"
  using assms
proof (induction m)
  case (Suc m)
  then show ?case using inner_products [of _ n m n "f m"] by simp
qed simp

lemma share_sum:
  assumes "i < n" "k < n"
  shows "(\<Sum>j<n. share n k i j (f j)) = (if i \<le> k then f (k - i) else - f (n + k - i))"
proof (cases "i \<le> k")
  case True
  then have "share n k i j (f j) = (if j = k - i then f j else 0)" if "j < n" for j using that assms by (auto simp add: share_def)
  then show ?thesis using True assms by (simp add: less_imp_diff_less)
next
  case False
  then have "share n k i j (f j) = (if j = n + k - i then - f j else 0)" if "j < n" for j using that assms by (auto simp add: share_def)
  moreover have "n + k - i < n" using False assms by simp
  ultimately show ?thesis using False by simp
qed

text \<open>C29. The reference product of the first milestone is the product of polynomials modulo x to the 256 plus one and modulo q: for operands in
  the accepted range the coefficient \<open>k\<close> is the sum of the products with indices adding up to \<open>k\<close>, minus the sum of
  those with indices adding up to 256 more, reduced to the canonical range; other operands are refused.
\<close>

theorem negacyclic_product_exact:
  "reference_negacyclic_product a b =
    (if length a = 256 \<and> length b = 256 \<and> (\<forall>v \<in> set a \<union> set b. - 8380416 \<le> v \<and> v \<le> 8380416)
     then Inr (map (\<lambda>k. (\<Sum>i<256. if i \<le> k then a ! i * b ! (k - i) else - (a ! i * b ! (256 + k - i))) mod 8380417) [0..<256])
     else Inl ValueError)"
proof (cases "length a = 256 \<and> length b = 256 \<and> (\<forall>v \<in> set a \<union> set b. - 8380416 \<le> v \<and> v \<le> 8380416)")
  case True
  let ?f = "\<lambda>i j. a ! i * b ! j"
  define acc where "acc = foldl (\<lambda>accum i. foldl (\<lambda>accum j. accumulate_product 256 accum ((i, j), ?f i j)) accum [0..<256]) (replicate 256 0) [0..<256]"
  have acc: "length acc = 256" "\<forall>k<256. acc ! k = (\<Sum>i<256. \<Sum>j<256. share 256 k i j (?f i j))"
    using outer_products [of 256 256 ?f] unfolding acc_def by blast+
  have "(\<Sum>i<256. \<Sum>j<256. share 256 k i j (?f i j)) = (\<Sum>i<256. if i \<le> k then a ! i * b ! (k - i) else - (a ! i * b ! (256 + k - i)))"
    if "k < 256" for k
    by (rule sum.cong) (use that share_sum [of _ 256 k] in simp_all)
  then have "map (\<lambda>c. c mod 8380417) acc =
      map (\<lambda>k. (\<Sum>i<256. if i \<le> k then a ! i * b ! (k - i) else - (a ! i * b ! (256 + k - i))) mod 8380417) [0..<256]"
    using acc by (intro nth_equalityI) (simp_all del: upt_rec_numeral cong: if_cong)
  moreover have "validate_polynomial a = Inr a" "validate_polynomial b = Inr b" using True by (auto simp add: validate_polynomial_def)
  moreover have "length a = 256" "length b = 256" using True by blast+
  ultimately show ?thesis unfolding if_P [OF True] reference_negacyclic_product_def acc_def by (simp only: bindE_simps)
next
  case False
  then show ?thesis by (auto simp add: reference_negacyclic_product_def validate_polynomial_def)
qed

theorem negacyclic_product_exact_witness:
  "\<exists>c. reference_negacyclic_product (0 # 1 # replicate 254 0) (replicate 255 0 @ [1]) = Inr c \<and> c ! 0 = 8380416"
proof -
  define a where "a = 0 # 1 # replicate 254 (0 :: int)"
  define b where "b = replicate 255 0 @ [1 :: int]"
  have ok: "length a = 256" "length b = 256" "\<forall>v \<in> set a \<union> set b. - 8380416 \<le> v \<and> v \<le> 8380416" by (auto simp add: a_def b_def)
  have an: "a ! i = (if i = 1 then 1 else 0)" if "i < 256" for i using that by (auto simp add: a_def nth_Cons split: nat.splits)
  have bn: "b ! 255 = 1" by (simp add: b_def nth_append)
  have "(\<Sum>i<256. if i \<le> 0 then a ! i * b ! (0 - i) else - (a ! i * b ! (256 + 0 - i))) = (\<Sum>i<(256 :: nat). if i = 1 then -1 else 0)"
    by (rule sum.cong) (use an bn in auto)
  also have "\<dots> = -1" by simp
  finally have s: "(\<Sum>i<256. if i \<le> 0 then a ! i * b ! (0 - i) else - (a ! i * b ! (256 + 0 - i))) = - 1" .
  from negacyclic_product_exact [of a b] ok
  obtain c where c: "reference_negacyclic_product a b = Inr c"
    "c = map (\<lambda>k. (\<Sum>i<256. if i \<le> k then a ! i * b ! (k - i) else - (a ! i * b ! (256 + k - i))) mod 8380417) [0..<256]" by simp
  have "c ! 0 = (\<Sum>i<256. if i \<le> 0 then a ! i * b ! (0 - i) else - (a ! i * b ! (256 + 0 - i))) mod 8380417"
    unfolding c(2) by (subst nth_map) (simp_all del: upt_rec_numeral cong: if_cong)
  then have "c ! 0 = 8380416" unfolding s by simp
  with c(1) show ?thesis unfolding a_def b_def by blast
qed

subsection \<open>The verdict of the host\<close>

lemma pack_words_into:
  assumes "struct_pack_into (replicate n (U 4)) buf off ws = Inr buf'"
  shows "words_ok ws" "length ws = n" "off + 4 * n \<le> length buf" "buf' = take off buf @ words_bytes ws @ drop (off + 4 * n) buf"
proof -
  have sz: "struct_size (replicate n (U 4)) = 4 * n" by (induction n) simp_all
  from assms obtain bs where b: "buf' = put off bs buf" "off + struct_size (replicate n (U 4)) \<le> length buf"
    "bs = struct_bytes (replicate n (U 4)) ws" "struct_fits (replicate n (U 4)) ws"
    by (rule struct_pack_into_put)
  then show "words_ok ws" and l: "length ws = n" and "off + 4 * n \<le> length buf" by (simp_all add: struct_fits_words sz)
  have bs: "bs = words_bytes ws" using b(3) struct_bytes_words [of ws] l by simp
  have "length (words_bytes ws) = 4 * n" using l by simp
  then show "buf' = take off buf @ words_bytes ws @ drop (off + 4 * n) buf" unfolding b(1) bs put_def by simp
qed

lemma pack_word_into:
  assumes "struct_pack_into [U 4] buf off [w] = Inr buf'"
  shows "off + 4 \<le> length buf" "0 \<le> w" "w < 4294967296" "buf' = take off buf @ le_bytes 4 w @ drop (off + 4) buf"
  using pack_words_into [of 1 buf off "[w]" buf'] assms by (simp_all add: words_bytes_simps)

text \<open>The six words of a result record.\<close>

lemma six_words:
  assumes "words_ok [a, b, c, d, e, f]"
  shows "result_word 0 (words_bytes [a, b, c, d, e, f] @ rest) = a" "result_word 12 (words_bytes [a, b, c, d, e, f] @ rest) = d"
    "result_word 16 (words_bytes [a, b, c, d, e, f] @ rest) = e" "result_word 20 (words_bytes [a, b, c, d, e, f] @ rest) = f"
  using result_word_nth [OF assms, of 0 rest] result_word_nth [OF assms, of 3 rest] result_word_nth [OF assms, of 4 rest]
    result_word_nth [OF assms, of 5 rest] by (simp_all del: words_bytes_simps)

lemma composite_verdict_fields:
  assumes "composite_verdict d ok raw0 = Inr raw" "length raw0 = 2048"
  defines "t \<equiv> result_word 20 raw0 AND 1 \<noteq> 0"
  shows "result_word 12 raw = (if t \<and> ok then 1 else 0)" "result_word 0 raw = 0 \<longleftrightarrow> t \<and> ok"
    "result_word 20 raw = (if t then 1 else 0) + (if ok then 2 else 0)"
    "slice 32 96 raw = slice 32 96 raw0" "drop 100 raw = drop 100 raw0" "length raw = 2048"
    "result_word 16 raw = compute_composite_result_checksum (result_word 0 raw) (cd_op_code d) (cd_sig_type d) (result_word 12 raw)
       (result_word 20 raw) (slice 32 64 raw) (slice 64 96 raw)"
proof -
  let ?flags = "(if t then 0x01 else 0x00) OR (if ok then 0x02 else (0x00 :: int))"
  let ?v = "if t \<and> ok then 1 else (0 :: int)"
  obtain st where st: "st = 0 \<longleftrightarrow> t \<and> ok" and pack: "bindE (struct_pack_into (replicate 6 (U 4)) raw0 0
      [st, cd_op_code d, cd_sig_type d, ?v, compute_composite_result_checksum st (cd_op_code d) (cd_sig_type d) ?v ?flags
        (slice 32 64 raw0) (slice 64 96 raw0), ?flags]) (\<lambda>r. struct_pack_into [U 4] r 96 [?flags]) = Inr raw"
  proof -
    define st where "st = (if t \<and> ok then CS_STATUS_SUCCESS else if \<not> t \<and> ok then CS_STATUS_ERR_TRAD_VERIFY_FAILED
      else if t \<and> \<not> ok then CS_STATUS_ERR_PQC_VERIFY_FAILED else CS_STATUS_ERR_COMPOSITE_VERIFY_FAILED)"
    show thesis
      by (rule that [of st]) (use assms(1) in \<open>auto simp add: st_def composite_verdict_def t_def Let_def split: if_splits\<close>)
  qed
  then obtain r where p1: "struct_pack_into (replicate 6 (U 4)) raw0 0
      [st, cd_op_code d, cd_sig_type d, ?v, compute_composite_result_checksum st (cd_op_code d) (cd_sig_type d) ?v ?flags
        (slice 32 64 raw0) (slice 64 96 raw0), ?flags] = Inr r" and p2: "struct_pack_into [U 4] r 96 [?flags] = Inr raw"
    by (auto simp add: bindE_Inr_iff)
  define ws where "ws = [st, cd_op_code d, cd_sig_type d, ?v, compute_composite_result_checksum st (cd_op_code d) (cd_sig_type d) ?v ?flags
        (slice 32 64 raw0) (slice 64 96 raw0), ?flags]"
  have r: "r = words_bytes ws @ drop 24 raw0" "words_ok ws" using pack_words_into(1,4) [OF p1] unfolding ws_def by simp_all
  have lw: "length (words_bytes ws) = 24" by (simp add: ws_def)
  have raw: "raw = words_bytes ws @ slice 24 96 raw0 @ le_bytes 4 ?flags @ drop 100 raw0"
    using pack_word_into(4) [OF p2] lw assms(2) unfolding r(1) by (simp add: slice_def take_drop del: le_bytes.simps)
  note w = six_words [OF r(2) [unfolded ws_def], of "slice 24 96 raw0 @ le_bytes 4 ?flags @ drop 100 raw0", folded ws_def, folded raw]
  show "result_word 12 raw = (if t \<and> ok then 1 else 0)" "result_word 0 raw = 0 \<longleftrightarrow> t \<and> ok"
    "result_word 20 raw = (if t then 1 else 0) + (if ok then 2 else 0)" using w st by auto
  show "length raw = 2048" "drop 100 raw = drop 100 raw0" using lw assms(2) unfolding raw by (simp_all del: le_bytes.simps)
  have "slice 32 96 raw = slice 8 72 (slice 24 96 raw0 @ le_bytes 4 ?flags @ drop 100 raw0)"
    unfolding raw using lw by (subst slice_append_right) simp_all
  also have "\<dots> = slice 8 72 (slice 24 96 raw0)" using assms(2) by (intro slice_append_left) simp
  finally show all: "slice 32 96 raw = slice 32 96 raw0" by (simp add: slice_slice)
  have "slice 32 64 raw = slice 32 64 raw0" "slice 64 96 raw = slice 64 96 raw0"
    using arg_cong [OF all, of "slice 0 32"] arg_cong [OF all, of "slice 32 64"] by (simp_all add: slice_slice)
  then show "result_word 16 raw = compute_composite_result_checksum (result_word 0 raw) (cd_op_code d) (cd_sig_type d) (result_word 12 raw)
       (result_word 20 raw) (slice 32 64 raw) (slice 64 96 raw)" using w by simp
qed

text \<open>C26. The verdict on a composite signature of ML-DSA-44 with Ed25519: whenever the call returns, the record is valid
  exactly if the device found the classical part valid and the ML-DSA-44 service accepts the post-quantum
  part over the bound digest (or over the message representative that is given), the status is success exactly
  then, digest and fingerprint are those of the device, and the checksum fits the new record.  For every other suite and operation, for
  short keys and for a signature of zeros, the record of the device is handed on and ML-DSA is not consulted.
\<close>

theorem composite_verdict_exact:
  assumes "run_dr42_composite_sig_on_aie2 h d c raw_req m_or_mu ext = Inr raw"
  shows "\<exists>desc raw0. dispatch 2048 h desc (dr42_request c raw_req) = Inr raw0 \<and>
    (let pk = given_or_staged (cc_pqc_pk c) 448 (cd_pqc_pk_len d) 1312 (dr42_request c raw_req);
         sig = given_or_staged (cc_pqc_sig c) 3040 (cd_pqc_sig_len d) 2420 (dr42_request c raw_req)
     in if cd_op_code d = 3 \<and> cd_sig_type d = 1 \<and> 1312 \<le> length pk \<and> 2420 \<le> length sig \<and> \<not> all_zero sig
        then \<exists>ok. run_mldsa44_verify h pk (case m_or_mu of Some m \<Rightarrow> m | None \<Rightarrow> slice 32 64 raw0) sig ext (cd_seq_id d) = Inr ok \<and>
          (result_word 12 raw = 1 \<longleftrightarrow> result_word 20 raw0 AND 1 \<noteq> 0 \<and> ok) \<and> (result_word 0 raw = 0 \<longleftrightarrow> result_word 12 raw = 1) \<and>
          slice 32 96 raw = slice 32 96 raw0 \<and>
          result_word 16 raw = compute_composite_result_checksum (result_word 0 raw) 3 1 (result_word 12 raw) (result_word 20 raw)
            (slice 32 64 raw) (slice 64 96 raw)
        else raw = raw0)"
proof -
  let ?pk = "given_or_staged (cc_pqc_pk c) 448 (cd_pqc_pk_len d) 1312 (dr42_request c raw_req)"
  let ?sig = "given_or_staged (cc_pqc_sig c) 3040 (cd_pqc_sig_len d) 2420 (dr42_request c raw_req)"
  from assms obtain desc raw0 where raw0: "dispatch 2048 h desc (dr42_request c raw_req) = Inr raw0"
    and post: "(if cd_op_code d = 3 \<and> cd_sig_type d = 1 then
        if 1312 \<le> length ?pk \<and> 2420 \<le> length ?sig \<and> \<not> all_zero ?sig then
          bindE (run_mldsa44_verify h ?pk (case m_or_mu of Some m \<Rightarrow> m | None \<Rightarrow> slice 32 64 raw0) ?sig ext (cd_seq_id d))
            (\<lambda>ok. composite_verdict d ok raw0)
        else Inr raw0 else Inr raw0) = Inr raw"
    unfolding run_dr42_composite_sig_on_aie2_def Let_def bindE_Inr_iff by blast
  show ?thesis
  proof (cases "cd_op_code d = 3 \<and> cd_sig_type d = 1 \<and> 1312 \<le> length ?pk \<and> 2420 \<le> length ?sig \<and> \<not> all_zero ?sig")
    case True
    with post obtain ok where v: "run_mldsa44_verify h ?pk (case m_or_mu of Some m \<Rightarrow> m | None \<Rightarrow> slice 32 64 raw0) ?sig ext (cd_seq_id d) = Inr ok"
      and c: "composite_verdict d ok raw0 = Inr raw" by (auto simp add: bindE_Inr_iff)
    note f = composite_verdict_fields [OF c length_dispatch [OF raw0]]
    have "result_word 12 raw = 1 \<longleftrightarrow> result_word 20 raw0 AND 1 \<noteq> 0 \<and> ok" unfolding f(1) by simp
    moreover have "result_word 0 raw = 0 \<longleftrightarrow> result_word 12 raw = 1" unfolding f(1,2) by simp
    moreover have "result_word 16 raw = compute_composite_result_checksum (result_word 0 raw) 3 1 (result_word 12 raw) (result_word 20 raw)
        (slice 32 64 raw) (slice 64 96 raw)" using f(7) True by simp
    ultimately show ?thesis unfolding Let_def if_P [OF True] using raw0 v f(4) by blast
  next
    case False
    with post have "raw = raw0" by (auto split: if_splits)
    with raw0 show ?thesis unfolding Let_def if_not_P [OF False] by blast
  qed
qed

subsection \<open>The verdict on a quote\<close>

lemma reject_quote_fields:
  assumes "reject_quote raw0 = Inr raw" "length raw0 = 2048"
  shows "result_word 20 raw = 0" "result_word 8 raw = 0xDEAD3403" "drop 24 raw = drop 24 raw0"
proof -
  from assms(1) obtain r where r: "struct_pack_into [U 4] raw0 8 [0xDEAD3403] = Inr r" "struct_pack_into [U 4] r 20 [0] = Inr raw"
    by (auto simp add: reject_quote_def bindE_Inr_iff)
  note a = pack_word_into(4) [OF r(1)] and b = pack_word_into(4) [OF r(2)]
  have raw: "raw = take 8 raw0 @ le_bytes 4 0xDEAD3403 @ slice 12 20 raw0 @ le_bytes 4 0 @ drop 24 raw0"
    using assms(2) unfolding b a by (simp add: slice_def drop_take min_def del: le_bytes.simps)
  have "slice 20 24 raw = le_bytes 4 0" "slice 8 12 raw = le_bytes 4 0xDEAD3403"
    using assms(2) unfolding raw by (simp_all add: slice_append_right slice_append_left slice_full min_def del: le_bytes.simps)
  then show "result_word 20 raw = 0" "result_word 8 raw = 0xDEAD3403" by (simp_all add: result_word_def le_int_bytes_id del: le_bytes.simps)
  show "drop 24 raw = drop 24 raw0" using assms(2) unfolding raw by (simp add: min_def del: le_bytes.simps)
qed

text \<open>C27. The verdict on a quote: whenever verification returns, the outcome is positive exactly if the device
  accepts and, when both an attestation key and a signature for it are given, the ML-DSA-44 service accepts that signature
  over the quote digest (or the given representative).  Without a key, no signature is verified: all that is required of one of
  64 bytes is that it does not begin with the byte FF.  A rejection by the host sets the status to
  the failure code, and everything behind the header is what the device wrote.
\<close>

theorem quote_verdict_exact:
  assumes "run_dr34_dice_tpm_on_aie2 h MODE_DICE_VERIFY_QUOTE pcr_index pcr_mask r m_or_mu ext = Inr raw"
  shows "\<exists>desc req raw0. pack_dr34_request r = Inr req \<and> dispatch 2048 h desc req = Inr raw0 \<and>
    (result_word 20 raw = 1 \<longleftrightarrow> result_word 20 raw0 = 1 \<and>
      (case (rq_ak_pk r, attestation_signature r) of
         (Some pk, Some s) \<Rightarrow> run_mldsa44_verify h pk (case m_or_mu of Some m \<Rightarrow> m | None \<Rightarrow> slice 64 96 raw) s ext (rq_seq_id r) = Inr True
       | _ \<Rightarrow> \<not> (length (rq_signature r) = 64 \<and> rq_signature r ! 0 = 0xFF))) \<and>
    (result_word 20 raw0 = 1 \<and> result_word 20 raw \<noteq> 1 \<longrightarrow> result_word 8 raw = 0xDEAD3403) \<and>
    drop 24 raw = drop 24 raw0"
proof -
  from assms obtain desc req raw0 where d: "pack_dr34_request r = Inr req" "dispatch 2048 h desc req = Inr raw0"
    and v: "verify_quote_signature h r m_or_mu ext raw0 = Inr raw"
    unfolding run_dr34_dice_tpm_on_aie2_def dispatch_dr34_def by (auto simp add: bindE_Inr_iff split: if_splits)
  note rejected = reject_quote_fields [OF _ length_dispatch [OF d(2)]]
  let ?m = "\<lambda>raw. case m_or_mu of Some m \<Rightarrow> m | None \<Rightarrow> slice 64 96 raw"
  have digest: "slice 64 96 raw = slice 64 96 raw0" if "drop 24 raw = drop 24 raw0"
    using arg_cong [OF that, of "slice 40 72"] by (simp add: slice_def drop_take)
  have "(result_word 20 raw = 1 \<longleftrightarrow> result_word 20 raw0 = 1 \<and>
      (case (rq_ak_pk r, attestation_signature r) of
         (Some pk, Some s) \<Rightarrow> run_mldsa44_verify h pk (?m raw) s ext (rq_seq_id r) = Inr True
       | _ \<Rightarrow> \<not> (length (rq_signature r) = 64 \<and> rq_signature r ! 0 = 0xFF))) \<and>
    (result_word 20 raw0 = 1 \<and> result_word 20 raw \<noteq> 1 \<longrightarrow> result_word 8 raw = 0xDEAD3403) \<and> drop 24 raw = drop 24 raw0"
  proof (cases "\<exists>pk s. rq_ak_pk r = Some pk \<and> attestation_signature r = Some s")
    case True
    then obtain pk s where k: "rq_ak_pk r = Some pk" "attestation_signature r = Some s" by blast
    show ?thesis
    proof (cases "result_word 20 raw0 = 1")
      case True
      with v k obtain ok where ok: "run_mldsa44_verify h pk (?m raw0) s ext (rq_seq_id r) = Inr ok"
        "(if \<not> ok then reject_quote raw0 else Inr raw0) = Inr raw" by (auto simp add: verify_quote_signature_def bindE_Inr_iff)
      show ?thesis
      proof (cases ok)
        case True
        with ok(2) have "raw = raw0" by simp
        then show ?thesis using ok(1) True k \<open>result_word 20 raw0 = 1\<close> unfolding \<open>raw = raw0\<close> by simp
      next
        case False
        with ok have "reject_quote raw0 = Inr raw" by simp
        note f = rejected [OF this]
        have "?m raw = ?m raw0" using digest [OF f(3)] by (simp split: option.split)
        with f ok k False show ?thesis by simp
      qed
    next
      case False
      with v have "raw = raw0" by (simp add: verify_quote_signature_def)
      with False show ?thesis by simp
    qed
  next
    case False
    then have n: "rq_ak_pk r = None \<or> attestation_signature r = None" by auto
    then have c: "(case (rq_ak_pk r, attestation_signature r) of (Some pk, Some s) \<Rightarrow> P pk s | _ \<Rightarrow> Q) = Q" for P Q
      by (auto split: option.splits)
    from n v have "(if result_word 20 raw0 = 1 \<and> length (rq_signature r) = 64 \<and> rq_signature r ! 0 = 0xFF then reject_quote raw0 else Inr raw0) = Inr raw"
      by (auto simp add: verify_quote_signature_def)
    then show ?thesis unfolding c using rejected by (auto split: if_splits)
  qed
  with d show ?thesis by blast
qed

subsection \<open>A host with a given device program\<close>

text \<open>A machine on which all checks succeed.\<close>

definition ready_host :: "(bytes \<Rightarrow> bytes \<Rightarrow> bytes py) \<Rightarrow> host" where
  "ready_host prog = \<lparr>ho_emulation_mode = None, ho_xrt_ini = None, ho_device_present = True, ho_toolchain_present = True, ho_program = prog\<rparr>"

lemma ready_host_ok: "hardware_ok (ready_host prog)" "iron_ok (ready_host prog)" "ho_program (ready_host prog) = prog"
  by (simp_all add: ready_host_def hardware_ok_def iron_ok_def is_set_def)

lemma dispatch_ready: "prog req desc = Inr out \<Longrightarrow> length out = n \<Longrightarrow> dispatch n (ready_host prog) desc req = Inr out"
  by (simp add: dispatch_ok ready_host_ok run_on_device_def ljust_id)

text \<open>The device as the oracle of the vault describes it.\<close>

definition vault_device :: "bytes \<Rightarrow> bytes \<Rightarrow> bytes py" where
  "vault_device req desc = bindE (qkms_descriptor_unpack desc) (\<lambda>d.
     bindE (qkms_oracle (qd_op_code d) (qd_slot_id d) req (qd_target_state d) (qd_param_0 d) (qd_param_1 d) (qd_key_type d) (qd_epoch d) None)
       (\<lambda>(res, _). qkms_result_pack res))"

lemma length_qkms_result: "qkms_result_pack res = Inr b \<Longrightarrow> length b = 2048"
proof -
  assume "qkms_result_pack res = Inr b"
  then obtain hdr where h: "struct_pack [U 4, U 4, U 4, U 4, U 4, X 12] [qr_status res, qr_op_code res, qr_slot_id res, qr_current_state res, qr_checksum res] = Inr hdr"
    and b: "b = hdr @ take 2016 (qr_payload res) @ zeros (2016 - min (length (qr_payload res)) 2016)"
    unfolding qkms_result_pack_def bindE_Inr_iff Let_def by auto
  from length_struct_pack [OF h] show ?thesis unfolding b by simp
qed

lemma qkms_descriptor_packs:
  assumes "words_ok [qd_op_code d, qd_slot_id d, qd_target_state d, qd_param_0 d, qd_param_1 d, qd_key_type d, qd_epoch d, qd_seq_id d]"
  shows "\<exists>b. qkms_descriptor_pack (d\<lparr>qd_magic := QKMS_MAGIC_HEADER\<rparr>) = Inr b"
  using assms by (simp add: qkms_descriptor_pack_def struct_pack_into_fits)

text \<open>C28. A vault handed to the call reaches the device unchanged: with a device that does what the oracle says, the call
  packs the vault into the request, and what comes back is the record that the oracle returns for this vault
  and these arguments, or its exception.
\<close>

theorem vault_call_exact:
  assumes "length v = NUM_VAULT_SLOTS" "\<forall>s \<in> set v. slot_packable s"
    and "words_ok [qd_op_code d, qd_slot_id d, qd_target_state d, qd_param_0 d, qd_param_1 d, qd_key_type d, qd_epoch d, qd_seq_id d]"
  shows "\<exists>req. qkms_build_request_tensor payload (Some v) = Inr req \<and>
    run_dr41_qkms_on_aie2 (ready_host vault_device) d payload (Some v) None =
      bindE (qkms_oracle (qd_op_code d) (qd_slot_id d) req (qd_target_state d) (qd_param_0 d) (qd_param_1 d) (qd_key_type d) (qd_epoch d) (Some v))
        (\<lambda>(res, _). qkms_result_pack res)"
proof -
  from vault_request_refines [OF assms(1,2)] obtain req where req: "qkms_build_request_tensor payload (Some v) = Inr req"
    and o: "qkms_oracle (qd_op_code d) (qd_slot_id d) req (qd_target_state d) (qd_param_0 d) (qd_param_1 d) (qd_key_type d) (qd_epoch d) None =
      qkms_oracle (qd_op_code d) (qd_slot_id d) req (qd_target_state d) (qd_param_0 d) (qd_param_1 d) (qd_key_type d) (qd_epoch d) (Some v)"
    by metis
  from qkms_descriptor_packs [OF assms(3)] obtain desc where desc: "qkms_descriptor_pack (d\<lparr>qd_magic := QKMS_MAGIC_HEADER\<rparr>) = Inr desc" by blast
  then have "qkms_descriptor_unpack desc = Inr (d\<lparr>qd_magic := QKMS_MAGIC_HEADER\<rparr>)" by (rule qkms_desc.roundtrip)
  then have dev: "vault_device req desc = bindE (qkms_oracle (qd_op_code d) (qd_slot_id d) req (qd_target_state d) (qd_param_0 d) (qd_param_1 d)
      (qd_key_type d) (qd_epoch d) (Some v)) (\<lambda>(res, _). qkms_result_pack res)" by (simp add: vault_device_def o)
  have "dispatch 2048 (ready_host vault_device) desc req = vault_device req desc"
  proof (cases "vault_device req desc")
    case (Inr b)
    then obtain res where "qkms_result_pack res = Inr b" unfolding dev by (auto simp add: bindE_Inr_iff)
    then show ?thesis using dispatch_ready [where prog = vault_device, OF Inr] Inr length_qkms_result by simp
  qed (simp add: dispatch_ok ready_host_ok run_on_device_def)
  then show ?thesis using req desc dev by (simp add: run_dr41_qkms_on_aie2_def)
qed

theorem vault_call_exact_witness:
  "\<exists>req. qkms_build_request_tensor [1, 2, 3] (Some demo_pair) = Inr req \<and>
    run_dr41_qkms_on_aie2 (ready_host vault_device)
      \<lparr>qd_op_code = OP_VAULT_QUERY, qd_slot_id = 1, qd_target_state = 2, qd_param_0 = 0, qd_param_1 = 0, qd_key_type = 1, qd_epoch = 1,
       qd_seq_id = 1, qd_magic = 0\<rparr> [1, 2, 3] (Some demo_pair) None =
      bindE (qkms_oracle OP_VAULT_QUERY 1 req 2 0 0 1 1 (Some demo_pair)) (\<lambda>(res, _). qkms_result_pack res)"
  using vault_call_exact [of demo_pair "\<lparr>qd_op_code = OP_VAULT_QUERY, qd_slot_id = 1, qd_target_state = 2, qd_param_0 = 0, qd_param_1 = 0,
      qd_key_type = 1, qd_epoch = 1, qd_seq_id = 1, qd_magic = 0\<rparr>" "[1, 2, 3]"]
  by (simp add: demo_pair_def slot_packable_def new_slot_def)

subsection \<open>Examples\<close>

text \<open>A device that answers requests of 64-byte descriptors with \<open>raw0\<close> and rejects every signature of ML-DSA-44.\<close>

definition strict_device :: "bytes \<Rightarrow> bytes \<Rightarrow> bytes \<Rightarrow> bytes py" where
  "strict_device raw0 req desc = (if length desc = 64 then Inr raw0 else Inr (zeros 28))"

lemma strict_device_refuses:
  "0 \<le> i \<Longrightarrow> i < 4294967296 \<Longrightarrow> run_mldsa44_verify (ready_host (strict_device raw0)) pk m s ext i = Inr False"
  by (simp add: run_mldsa44_verify_def Let_def dsa_call_def load_iron_eq ready_host_ok dsa_descriptor_def to_bytes_le_def
      run_on_device_def strict_device_def ljust_id result_word_def del: le_bytes.simps)

lemma strict_device_answers: "length desc = 64 \<Longrightarrow> length raw0 = 2048 \<Longrightarrow> dispatch 2048 (ready_host (strict_device raw0)) desc req = Inr raw0"
  by (intro dispatch_ready) (simp_all add: strict_device_def)

lemma two_packs:
  assumes "length raw0 = 2048" "words_ok ws" "length ws = 6" "0 \<le> f" "f < 4294967296"
  shows "\<exists>raw. bindE (struct_pack_into (replicate 6 (U 4)) raw0 0 ws) (\<lambda>r. struct_pack_into [U 4] r 96 [f]) = Inr raw"
proof -
  have sz: "struct_size (replicate 6 (U 4)) = 24" by (simp add: eval_nat_numeral)
  have fit: "struct_fits (replicate 6 (U 4)) ws" using assms(2,3) by (simp only: struct_fits_words)
  then have "struct_pack_into (replicate 6 (U 4)) raw0 0 ws = Inr (put 0 (struct_bytes (replicate 6 (U 4)) ws) raw0)"
    using sz assms(1) by (intro struct_pack_into_fits) simp_all
  moreover have "length (struct_bytes (replicate 6 (U 4)) ws) = 24" using length_struct_bytes [OF fit] sz by simp
  ultimately show ?thesis using assms(1,4,5) by (simp add: struct_pack_into_fits)
qed

lemma composite_verdict_returns:
  assumes "length raw0 = 2048" "words_ok [cd_op_code d, cd_sig_type d]"
  shows "\<exists>raw. composite_verdict d ok raw0 = Inr raw"
proof -
  have c: "0 \<le> compute_composite_result_checksum a b e f g x y" "compute_composite_result_checksum a b e f g x y < 4294967296" for a b e f g x y
    by (simp_all add: compute_composite_result_checksum_def Let_def)
  show ?thesis
    unfolding composite_verdict_def Let_def using assms(2) c
    by (auto intro!: two_packs [OF assms(1)])
qed

theorem composite_verdict_exact_witness:
  "\<exists>raw. run_dr42_composite_sig_on_aie2 (ready_host (strict_device (words_bytes [0, 3, 1, 1, 0, 3] @ zeros 2024)))
      \<lparr>cd_op_code = 3, cd_sig_type = 1, cd_flags = 0, cd_msg_len = 0, cd_context_len = 0, cd_trad_pk_len = 32, cd_trad_sig_len = 64,
       cd_pqc_pk_len = 1312, cd_pqc_sig_len = 2420, cd_seq_id = 1, cd_magic = 0\<rparr>
      \<lparr>cc_context = [], cc_oid = [], cc_message = [], cc_trad_pk = [], cc_trad_sig = [], cc_pqc_pk = replicate 1312 1,
       cc_pqc_sig = replicate 2420 1\<rparr> None None False = Inr raw \<and> result_word 12 raw \<noteq> 1 \<and> result_word 0 raw \<noteq> 0"
proof -
  define raw0 where "raw0 = words_bytes [0, 3, 1, 1, 0, 3] @ zeros 2024"
  define h where "h = ready_host (strict_device raw0)"
  define d where "d = \<lparr>cd_op_code = 3, cd_sig_type = 1, cd_flags = 0, cd_msg_len = 0, cd_context_len = 0, cd_trad_pk_len = 32, cd_trad_sig_len = 64,
       cd_pqc_pk_len = 1312, cd_pqc_sig_len = 2420, cd_seq_id = 1, cd_magic = 0\<rparr>"
  define c where "c = \<lparr>cc_context = [], cc_oid = [], cc_message = [], cc_trad_pk = [], cc_trad_sig = [], cc_pqc_pk = replicate 1312 1,
       cc_pqc_sig = replicate 2420 (1 :: byte)\<rparr>"
  have len: "length raw0 = 2048" by (simp add: raw0_def)
  obtain desc where desc: "cs_descriptor_pack (d\<lparr>cd_magic := CS_MAGIC_HEADER\<rparr>) = Inr desc"
    by (auto simp add: d_def cs_descriptor_pack_def struct_pack_into_fits)
  note dev = strict_device_answers [OF cs_desc.pack_size [OF desc] len, folded h_def]
  have staged: "given_or_staged (cc_pqc_pk c) off n k req = replicate 1312 1" "given_or_staged (cc_pqc_sig c) off n k req = replicate 2420 1"
    for off n k req by (simp_all add: given_or_staged_def c_def)
  have nz: "\<not> all_zero (replicate 2420 1)" by (simp add: all_zero_def list_all_iff)
  have no: "run_mldsa44_verify h pk m s False (cd_seq_id d) = Inr False" for pk m s
    unfolding h_def by (rule strict_device_refuses) (simp_all add: d_def)
  have d: "cd_op_code d = 3" "cd_sig_type d = 1" by (simp_all add: d_def)
  obtain raw where raw: "composite_verdict d False raw0 = Inr raw" using composite_verdict_returns [OF len, of d] d by auto
  have run: "run_dr42_composite_sig_on_aie2 h d c None None False = Inr raw"
    unfolding run_dr42_composite_sig_on_aie2_def desc Let_def bindE_simps dev staged no d raw by (simp add: nz raw)
  from composite_verdict_exact [OF run] have "result_word 12 raw \<noteq> 1 \<and> result_word 0 raw \<noteq> 0"
    unfolding Let_def staged no d by (auto simp add: nz)
  with run show ?thesis unfolding h_def raw0_def d_def c_def by blast
qed

theorem quote_verdict_exact_witness:
  "\<exists>raw. run_dr34_dice_tpm_on_aie2 (ready_host (strict_device (words_bytes [0x44494345, 4, 0, 15, 1, 1] @ zeros 2024))) MODE_DICE_VERIFY_QUOTE 0 15
      \<lparr>rq_measurement = [], rq_nonce = [], rq_expected_composite = [], rq_initial_pcr_bank = None, rq_uds_key = [], rq_signature = zeros 64,
       rq_seq_id = 1, rq_ak_pk = Some (replicate 1312 1), rq_ak_sig = Some (replicate 2420 1), rq_sig_valid = True\<rparr> None False = Inr raw \<and>
    result_word 20 raw \<noteq> 1"
proof -
  define raw0 where "raw0 = words_bytes [0x44494345, 4, 0, 15, 1, 1] @ zeros 2024"
  define h where "h = ready_host (strict_device raw0)"
  define r where "r = \<lparr>rq_measurement = [], rq_nonce = [], rq_expected_composite = [], rq_initial_pcr_bank = None, rq_uds_key = [],
       rq_signature = zeros 64, rq_seq_id = 1, rq_ak_pk = Some (replicate 1312 1), rq_ak_sig = Some (replicate 2420 (1 :: byte)), rq_sig_valid = True\<rparr>"
  have len: "length raw0 = 2048" by (simp add: raw0_def)
  have fields: "rq_ak_pk r = Some (replicate 1312 1)" "attestation_signature r = Some (replicate 2420 1)" "rq_seq_id r = 1"
    by (simp_all add: r_def attestation_signature_def)
  obtain desc where desc: "pack_dr34_descriptor 4 0 15 (int (length (rq_nonce r))) (int (length (rq_signature r))) 0 (rq_seq_id r) = Inr desc"
      "length desc = 64"
    by (auto simp add: r_def pack_dr34_descriptor_def struct_pack_into_fits)
  obtain req where req: "pack_dr34_request r = Inr req" by (auto simp add: pack_dr34_request_def r_def struct_pack_into_fits Let_def)
  note dev = strict_device_answers [OF desc(2) len, folded h_def]
  have w: "result_word 20 raw0 = 1" "result_word 4 raw0 = 4" "result_word 8 raw0 = 0"
    using result_word_nth [of "[0x44494345, 4, 0, 15, 1, 1]" 5] result_word_nth [of "[0x44494345, 4, 0, 15, 1, 1]" 1]
      result_word_nth [of "[0x44494345, 4, 0, 15, 1, 1]" 2] by (simp_all add: raw0_def del: words_bytes_simps)
  have no: "run_mldsa44_verify h pk m s False 1 = Inr False" for pk m s
    unfolding h_def by (rule strict_device_refuses) simp_all
  obtain raw where raw: "reject_quote raw0 = Inr raw" using len by (auto simp add: reject_quote_def struct_pack_into_fits)
  have run: "run_dr34_dice_tpm_on_aie2 h 4 0 15 r None False = Inr raw"
    unfolding run_dr34_dice_tpm_on_aie2_def desc(1) req bindE_simps dispatch_dr34_def dev verify_quote_signature_def Let_def
    by (simp add: w no raw fields)
  from quote_verdict_exact [OF run] have "result_word 20 raw \<noteq> 1" unfolding fields no by auto
  with run show ?thesis unfolding h_def raw0_def r_def by blast
qed

end
