(* ===== verification/KernelAbi.thy ===== *)
theory KernelAbi
  imports Services
begin

text \<open>
  The record formats of the single kernels of ML-DSA-44 and ML-KEM-512: rejection sampling (\<open>dr1_abi.py\<close>,
  \<open>dr2_mlkem512_samplentt_abi.py\<close>), noise sampling (\<open>dr2b_mlkem512_noise_ntt_abi.py\<close>), one row of the key
  generation (\<open>dr2c_mlkem512_keygen_row_abi.py\<close>), key generation (\<open>dr2d_mlkem512_kpke_keygen_abi.py\<close>), encryption
  (\<open>dr3_mlkem512_kpke_encrypt_abi.py\<close>) and decryption (\<open>dr4_mlkem512_kpke_decrypt_abi.py\<close>).  Arguments have
  the types that the modules ask for; what is left of their checks is modelled.  The calls are those of the graphs with the same
  numbers; clearing the host's copies of the buffers changes no result and is left out.  The error classes of the modules are
  \<open>AbiError\<close> and \<open>OperationError\<close>.
\<close>

unbundle bit_operations_syntax

subsection \<open>Requests\<close>

definition require_int :: "int \<Rightarrow> int \<Rightarrow> int \<Rightarrow> int py" where
  "require_int v minimum maximum = (if \<not> (minimum \<le> v \<and> v \<le> maximum) then Inl AbiError else Inr v)"

definition validate_bytes :: "nat \<Rightarrow> bytes \<Rightarrow> bytes py" where
  "validate_bytes n checked = (if length checked \<noteq> n then Inl AbiError else Inr checked)"

definition validate_request_id :: "int \<Rightarrow> int py" where
  "validate_request_id request_id = require_int request_id 0 4294967295"

definition kernel_descriptor :: "int list \<Rightarrow> int \<Rightarrow> bytes py" where
  "kernel_descriptor header request_id =
     struct_pack [U 1, U 1, U 1, U 1, U 1, U 1, U 1, U 1, U 4, X 4] (header @ [request_id])"

definition dr1_build_descriptor :: "int \<Rightarrow> int \<Rightarrow> int \<Rightarrow> bytes py" where
  "dr1_build_descriptor j i request_id =
     bindE (require_int j 0 3) (\<lambda>j. bindE (require_int i 0 3) (\<lambda>i. bindE (validate_request_id request_id) (\<lambda>rid.
       kernel_descriptor [1, 0x11, 0x44, 0, j, i, 8, 0] rid)))"

definition dr1_validate_request :: "bytes \<Rightarrow> int \<Rightarrow> int \<Rightarrow> int \<Rightarrow> (bytes \<times> bytes) py" where
  "dr1_validate_request rho j i request_id =
     bindE (validate_bytes 32 rho) (\<lambda>rho. bindE (dr1_build_descriptor j i request_id) (\<lambda>desc. Inr (rho, desc)))"

definition dr2a_build_descriptor :: "int \<Rightarrow> int \<Rightarrow> int \<Rightarrow> bytes py" where
  "dr2a_build_descriptor j i request_id =
     bindE (require_int j 0 1) (\<lambda>j. bindE (require_int i 0 1) (\<lambda>i. bindE (validate_request_id request_id) (\<lambda>rid.
       kernel_descriptor [1, 0x21, 0x52, 0, j, i, 5, 0] rid)))"

definition dr2a_validate_request :: "bytes \<Rightarrow> int \<Rightarrow> int \<Rightarrow> int \<Rightarrow> (bytes \<times> bytes) py" where
  "dr2a_validate_request rho j i request_id =
     bindE (validate_bytes 32 rho) (\<lambda>rho. bindE (dr2a_build_descriptor j i request_id) (\<lambda>desc. Inr (rho, desc)))"

definition dr2b_build_descriptor :: "int \<Rightarrow> int \<Rightarrow> bytes py" where
  "dr2b_build_descriptor counter request_id =
     bindE (require_int counter 0 3) (\<lambda>counter. bindE (validate_request_id request_id) (\<lambda>rid.
       kernel_descriptor [1, 0x22, 0x52, 0, counter, 3, 192, 0] rid))"

definition dr2b_validate_request :: "bytes \<Rightarrow> int \<Rightarrow> int \<Rightarrow> (bytes \<times> bytes) py" where
  "dr2b_validate_request sigma counter request_id =
     bindE (validate_bytes 32 sigma) (\<lambda>sigma. bindE (dr2b_build_descriptor counter request_id) (\<lambda>desc. Inr (sigma, desc)))"

definition dr2c_build_descriptor :: "int \<Rightarrow> int \<Rightarrow> bytes py" where
  "dr2c_build_descriptor row_index request_id =
     bindE (require_int row_index 0 1) (\<lambda>row_index. bindE (validate_request_id request_id) (\<lambda>rid.
       kernel_descriptor [1, 0x23, 0x52, 0, row_index, 3, 5, 0] rid))"

definition pack_seeds :: "bytes \<Rightarrow> bytes \<Rightarrow> bytes py" where
  "pack_seeds rho sigma = bindE (validate_bytes 32 rho) (\<lambda>rho. bindE (validate_bytes 32 sigma) (\<lambda>sigma. Inr (rho @ sigma)))"

definition dr2c_validate_request :: "bytes \<Rightarrow> bytes \<Rightarrow> int \<Rightarrow> int \<Rightarrow> (bytes \<times> bytes) py" where
  "dr2c_validate_request rho sigma row_index request_id =
     bindE (pack_seeds rho sigma) (\<lambda>seeds. bindE (dr2c_build_descriptor row_index request_id) (\<lambda>desc. Inr (seeds, desc)))"

definition dr2d_build_descriptor :: "int \<Rightarrow> bytes py" where
  "dr2d_build_descriptor request_id =
     bindE (validate_request_id request_id) (\<lambda>rid. kernel_descriptor [1, 0x24, 0x52, 0, 2, 3, 5, 0] rid)"

definition dr2d_validate_request :: "bytes \<Rightarrow> int \<Rightarrow> (bytes \<times> bytes) py" where
  "dr2d_validate_request d request_id =
     bindE (validate_bytes 32 d) (\<lambda>d. bindE (dr2d_build_descriptor request_id) (\<lambda>desc. Inr (d, desc)))"

definition dr3_build_descriptor :: "int \<Rightarrow> bytes py" where
  "dr3_build_descriptor request_id =
     bindE (validate_request_id request_id) (\<lambda>rid. kernel_descriptor [1, 0x31, 0x52, 0, 2, 3, 2, 5] rid)"

definition pack_request_payload :: "bytes \<Rightarrow> bytes \<Rightarrow> bytes \<Rightarrow> bytes py" where
  "pack_request_payload ek m r =
     (if length ek \<noteq> 800 then Inl AbiError else if length m \<noteq> 32 then Inl AbiError else if length r \<noteq> 32 then Inl AbiError
      else Inr (ek @ m @ r))"

definition dr3_validate_request :: "bytes \<Rightarrow> bytes \<Rightarrow> bytes \<Rightarrow> int \<Rightarrow> (bytes \<times> bytes) py" where
  "dr3_validate_request ek m r request_id =
     bindE (dr3_build_descriptor request_id) (\<lambda>desc. bindE (pack_request_payload ek m r) (\<lambda>payload. Inr (desc, payload)))"

definition dr4_build_descriptor :: "int \<Rightarrow> bytes py" where
  "dr4_build_descriptor request_id =
     struct_pack [U 1, U 1, U 1, U 1, U 1, U 1, U 1, U 1, U 4, U 4] [1, 0x41, 0x52, 0, 2, 10, 4, 0, request_id, 0]"

definition dr4_validate_request :: "bytes \<Rightarrow> bytes \<Rightarrow> int \<Rightarrow> (bytes \<times> bytes) py" where
  "dr4_validate_request dk_pke c request_id =
     (if length dk_pke \<noteq> 768 then Inl ValueError else if length c \<noteq> 768 then Inl ValueError
      else bindE (dr4_build_descriptor request_id) (\<lambda>descriptor. Inr (descriptor, dk_pke @ c)))"

subsection \<open>Records of polynomials\<close>

definition lane_value :: "nat \<Rightarrow> int \<Rightarrow> int" where
  "lane_value w v = (if 256 ^ w \<le> 2 * v then v - 256 ^ w else v)"

text \<open>\<open>struct.unpack_from("<256i", ...)\<close> and \<open>"<256h"\<close>.\<close>

definition lanes :: "nat \<Rightarrow> bytes \<Rightarrow> int list" where
  "lanes w payload = map (\<lambda>i. lane_value w (le_int (slice (i * w) ((i + 1) * w) payload))) [0..<256]"

definition dr1_result_sentinel :: bytes where
  "dr1_result_sentinel = zeros 16 @ concat (replicate 256 (le_bytes 4 (2147483648)))"

definition result_sentinel :: "nat \<Rightarrow> nat \<Rightarrow> bytes" where
  "result_sentinel header total_bytes = zeros header @ replicate (total_bytes - header) 0xFF"

definition dr1_parse_result :: "bytes \<Rightarrow> int \<Rightarrow> int list py" where
  "dr1_parse_result raw request_id =
     bindE (validate_request_id request_id) (\<lambda>expected_request_id.
     bindE (validate_bytes 1040 raw) (\<lambda>raw.
     let magic = result_word 0 raw; echoed_request_id = result_word 4 raw; status = result_word 8 raw;
         accepted = le_int (slice 12 14 raw); blocks_executed = raw ! 14; reserved = raw ! 15; coefficients = lanes 4 (drop 16 raw)
     in if magic \<noteq> 0x44523152 then Inl AbiError
        else if echoed_request_id \<noteq> expected_request_id then Inl AbiError
        else if status \<notin> {0, 1, 2} then Inl AbiError
        else if blocks_executed \<noteq> 8 then Inl AbiError
        else if reserved \<noteq> 0 then Inl AbiError
        else if status = 0 then
          if accepted \<noteq> 256 then Inl AbiError
          else if list_ex (\<lambda>value. value < 0 \<or> 8380417 \<le> value) coefficients then Inl AbiError else Inr coefficients
        else if accepted \<noteq> 0 then Inl AbiError
        else if list_ex (\<lambda>value. value \<noteq> 0) coefficients then Inl AbiError
        else Inl OperationError))"

definition dr2a_parse_result :: "bytes \<Rightarrow> int \<Rightarrow> int list py" where
  "dr2a_parse_result raw request_id =
     bindE (validate_request_id request_id) (\<lambda>expected_request_id.
     bindE (validate_bytes 528 raw) (\<lambda>raw.
     let magic = result_word 0 raw; echoed_request_id = result_word 4 raw; status = result_word 8 raw;
         accepted = le_int (slice 12 14 raw); blocks_executed = raw ! 14; reserved = raw ! 15; coefficients = lanes 2 (drop 16 raw)
     in if magic \<noteq> 0x4452324D then Inl AbiError
        else if echoed_request_id \<noteq> expected_request_id then Inl AbiError
        else if status \<notin> {0, 1, 2} then Inl AbiError
        else if blocks_executed \<noteq> 5 then Inl AbiError
        else if reserved \<noteq> 0 then Inl AbiError
        else if status = 0 then
          if accepted \<noteq> 256 then Inl AbiError
          else if list_ex (\<lambda>value. value < 0 \<or> 3329 \<le> value) coefficients then Inl AbiError else Inr coefficients
        else if accepted \<noteq> 0 then Inl AbiError
        else if list_ex (\<lambda>value. value \<noteq> 0) coefficients then Inl AbiError
        else Inl OperationError))"

definition dr2b_parse_result :: "bytes \<Rightarrow> int \<Rightarrow> int list py" where
  "dr2b_parse_result raw request_id =
     bindE (validate_request_id request_id) (\<lambda>expected_request_id.
     bindE (validate_bytes 528 raw) (\<lambda>raw.
     let magic = result_word 0 raw; echoed_request_id = result_word 4 raw; status = result_word 8 raw;
         coefficient_count = le_int (slice 12 14 raw); stages = raw ! 14; reserved = raw ! 15; coefficients = lanes 2 (drop 16 raw)
     in if magic \<noteq> 0x4232524D then Inl AbiError
        else if echoed_request_id \<noteq> expected_request_id then Inl AbiError
        else if status \<notin> {0, 2, 3} then Inl AbiError
        else if stages \<noteq> 7 \<or> reserved \<noteq> 0 then Inl AbiError
        else if status = 0 then
          if coefficient_count \<noteq> 256 then Inl AbiError
          else if list_ex (\<lambda>value. value < 0 \<or> 3329 \<le> value) coefficients then Inl AbiError else Inr coefficients
        else if coefficient_count \<noteq> 0 \<or> list_ex (\<lambda>value. value \<noteq> 0) coefficients then Inl AbiError
        else Inl OperationError))"

definition dr2c_parse_result :: "bytes \<Rightarrow> int \<Rightarrow> int \<Rightarrow> int list py" where
  "dr2c_parse_result raw row_index request_id =
     bindE (require_int row_index 0 1) (\<lambda>expected_row.
     bindE (validate_request_id request_id) (\<lambda>expected_request_id.
     bindE (validate_bytes 528 raw) (\<lambda>raw.
     let magic = result_word 0 raw; echoed_request_id = result_word 4 raw; status = result_word 8 raw;
         coefficient_count = le_int (slice 12 14 raw); echoed_row = raw ! 14; reserved = raw ! 15; coefficients = lanes 2 (drop 16 raw)
     in if magic \<noteq> 0x4332524D then Inl AbiError
        else if echoed_request_id \<noteq> expected_request_id then Inl AbiError
        else if uint echoed_row \<noteq> expected_row \<or> reserved \<noteq> 0 then Inl AbiError
        else if status \<notin> {0, 1, 2, 3} then Inl AbiError
        else if status = 0 then
          if coefficient_count \<noteq> 256 then Inl AbiError
          else if list_ex (\<lambda>value. value < 0 \<or> 3329 \<le> value) coefficients then Inl AbiError else Inr coefficients
        else if coefficient_count \<noteq> 0 \<or> list_ex (\<lambda>value. value \<noteq> 0) coefficients then Inl AbiError
        else Inl OperationError)))"

subsection \<open>Records of keys, ciphertexts and messages\<close>

text \<open>The two coefficients in each group of three bytes.\<close>

definition poly12_ok :: "nat \<Rightarrow> bytes \<Rightarrow> bool" where
  "poly12_ok offset payload = list_all (\<lambda>index.
     let base = offset + 3 * index;
         first = uint (payload ! base) OR push_bit 8 (uint (payload ! (base + 1)) AND 0x0F);
         second = drop_bit 4 (uint (payload ! (base + 1))) OR push_bit 4 (uint (payload ! (base + 2)))
     in \<not> (3329 \<le> first \<or> 3329 \<le> second)) [0..<128]"

definition dr2d_parse_result :: "bytes \<Rightarrow> int \<Rightarrow> (bytes \<times> bytes) py" where
  "dr2d_parse_result raw request_id =
     bindE (validate_request_id request_id) (\<lambda>expected_request_id.
     bindE (validate_bytes 1588 raw) (\<lambda>raw.
     let magic = result_word 0 raw; echoed_request_id = result_word 4 raw; status = result_word 8 raw;
         ek_bytes = le_int (slice 12 14 raw); dk_bytes = le_int (slice 14 16 raw); checksum = result_word 16 raw; payload = drop 20 raw
     in if magic \<noteq> 0x4432524D then Inl AbiError
        else if echoed_request_id \<noteq> expected_request_id then Inl AbiError
        else if status \<notin> {0, 1, 2, 3} then Inl AbiError
        else if status = 0 then
          if (ek_bytes, dk_bytes) \<noteq> (800, 768) then Inl AbiError
          else if checksum \<noteq> crc32 payload AND 0xFFFFFFFF then Inl AbiError
          else if \<not> list_ex (\<lambda>b. b \<noteq> 0) payload then Inl AbiError
          else if \<not> poly12_ok 0 payload then Inl AbiError
          else if \<not> poly12_ok 384 payload then Inl AbiError
          else if \<not> poly12_ok 800 payload then Inl AbiError
          else if \<not> poly12_ok 1184 payload then Inl AbiError
          else Inr (take 800 payload, drop 800 payload)
        else if ek_bytes \<noteq> 0 \<or> dk_bytes \<noteq> 0 \<or> checksum \<noteq> 0 \<or> list_ex (\<lambda>b. b \<noteq> 0) payload then Inl AbiError
        else Inl OperationError))"

definition dr3_unpack_result :: "bytes \<Rightarrow> int option \<Rightarrow> bytes py" where
  "dr3_unpack_result buf expected_request_id =
     (if length buf < 788 then Inl AbiError
      else let magic = result_word 0 buf; request_id = result_word 4 buf; status = result_word 8 buf; c_len = result_word 12 buf;
               crc = result_word 16 buf; ciphertext = slice 20 788 buf
        in if magic \<noteq> 0x4433524D then Inl AbiError
           else if expected_request_id \<noteq> None \<and> Some request_id \<noteq> expected_request_id then Inl AbiError
           else if status \<noteq> 0 then Inl OperationError
           else if c_len \<noteq> 768 then Inl AbiError
           else if crc32 ciphertext \<noteq> crc then Inl AbiError
           else Inr ciphertext)"

definition dr4_unpack_result :: "bytes \<Rightarrow> int option \<Rightarrow> bytes py" where
  "dr4_unpack_result raw_result expected_request_id =
     (if length raw_result < 52 then Inl ValueError
      else let magic = result_word 0 raw_result; req_id = result_word 4 raw_result; status = result_word 8 raw_result;
               len = result_word 12 raw_result; checksum = result_word 16 raw_result; plaintext = slice 20 52 raw_result
        in if magic \<noteq> 0x4434524D then Inl ValueError
           else if expected_request_id \<noteq> None \<and> Some req_id \<noteq> expected_request_id then Inl ValueError
           else if status \<noteq> 0 then Inl RuntimeError
           else if len \<noteq> 32 then Inl ValueError
           else if checksum \<noteq> crc32 plaintext then Inl ValueError
           else Inr plaintext)"

subsection \<open>A record is determined by its fields\<close>

definition canonical :: "int \<Rightarrow> int list \<Rightarrow> bool" where
  "canonical q cs \<longleftrightarrow> length cs = 256 \<and> list_all (\<lambda>v. 0 \<le> v \<and> v < q) cs"

definition encode_lanes :: "nat \<Rightarrow> int list \<Rightarrow> bytes" where
  "encode_lanes w cs = concat (map (le_bytes w) cs)"

text \<open>The record of a polynomial: magic number, request, status 0, 256 lanes, the module's byte, a zero byte, and the lanes.\<close>

definition lane_record :: "nat \<Rightarrow> int \<Rightarrow> int \<Rightarrow> byte \<Rightarrow> int list \<Rightarrow> bytes" where
  "lane_record w magic request_id extra cs =
     words_bytes [magic, request_id, 0] @ le_bytes 2 256 @ [extra, 0] @ encode_lanes w cs"

lemma slice_le_int: "i + n \<le> length raw \<Longrightarrow> le_bytes n (le_int (slice i (i + n) raw)) = slice i (i + n) raw"
  using le_bytes_int [of "slice i (i + n) raw"] by (simp add: min_absorb1)

lemma slices_join: "i \<le> j \<Longrightarrow> j \<le> k \<Longrightarrow> slice i j raw @ slice j k raw = slice i k raw"
  using take_add [of "j - i" "k - j" "drop i raw"] by (simp add: slice_def drop_take)

lemma record_iff:
  assumes "words_ok [a, b]"
  shows "raw = words_bytes [a, b, 0] @ le_bytes 2 256 @ [x, y] @ p \<longleftrightarrow>
    length raw = 16 + length p \<and> result_word 0 raw = a \<and> result_word 4 raw = b \<and> result_word 8 raw = 0 \<and>
    le_int (slice 12 14 raw) = 256 \<and> raw ! 14 = x \<and> raw ! 15 = y \<and> drop 16 raw = p" (is "_ \<longleftrightarrow> ?fields")
proof
  assume raw: "raw = words_bytes [a, b, 0] @ le_bytes 2 256 @ [x, y] @ p"
  have w: "words_ok [a, b, 0]" using assms by simp
  have l: "length (words_bytes [a, b, 0]) = 12" by simp
  have "result_word 0 raw = a" "result_word 4 raw = b" "result_word 8 raw = 0"
    using result_word_nth [OF w, of 0] result_word_nth [OF w, of 1] result_word_nth [OF w, of 2] unfolding raw by (simp_all del: words_bytes_simps)
  moreover have "slice 12 14 raw = le_bytes 2 256" unfolding raw by (rule slice_exact [OF l]) simp_all
  then have "le_int (slice 12 14 raw) = 256" by (simp add: le_int_bytes_id del: le_bytes.simps)
  moreover have "raw = (words_bytes [a, b, 0] @ le_bytes 2 256) @ [x, y] @ p" unfolding raw by simp
  then have "raw ! 14 = x" "raw ! 15 = y" "drop 16 raw = p" "length raw = 16 + length p"
    using l by (simp_all add: nth_append del: words_bytes_simps le_bytes.simps)
  ultimately show ?fields by blast
next
  assume f: ?fields
  then have len: "16 \<le> length raw" by simp
  have s: "le_bytes 4 a = slice 0 4 raw" "le_bytes 4 b = slice 4 8 raw" "le_bytes 4 0 = slice 8 12 raw" "le_bytes 2 256 = slice 12 14 raw"
    using f slice_le_int [of 0 4 raw] slice_le_int [of 4 4 raw] slice_le_int [of 8 4 raw] slice_le_int [of 12 2 raw]
    by (simp_all add: result_word_def del: le_bytes.simps)
  have two: "[x, y] = slice 14 16 raw" using f len by (intro nth_equalityI) (auto simp add: slice_def less_Suc_eq nth_append min_def numeral_2_eq_2)
  have p: "p = drop 16 raw" using f by simp
  note join = slices_join [of 0 4 8 raw] slices_join [of 0 8 12 raw] slices_join [of 0 12 14 raw] slices_join [of 0 14 16 raw]
  have "words_bytes [a, b, 0] @ le_bytes 2 256 @ [x, y] @ p = slice 0 16 raw @ drop 16 raw"
    unfolding words_bytes_simps s two p by (simp add: join flip: append_assoc)
  then show "raw = words_bytes [a, b, 0] @ le_bytes 2 256 @ [x, y] @ p" using len by (simp add: slice_def)
qed

lemma lane_value_canonical:
  assumes "0 \<le> x" "x < 256 ^ w" "0 \<le> lane_value w x"
  shows "lane_value w x = x"
  using assms by (auto simp add: lane_value_def split: if_splits)

lemma lanes_iff:
  assumes "length payload = 256 * w" "2 * q \<le> 256 ^ w"
  shows "lanes w payload = cs \<and> list_all (\<lambda>v. 0 \<le> v \<and> v < q) cs \<longleftrightarrow> canonical q cs \<and> payload = encode_lanes w cs"
proof
  assume l: "lanes w payload = cs \<and> list_all (\<lambda>v. 0 \<le> v \<and> v < q) cs"
  let ?s = "\<lambda>i. slice (i * w) ((i + 1) * w) payload"
  have lc: "length cs = 256" using l by (auto simp add: lanes_def)
  have le: "le_bytes w (cs ! i) = ?s i" if "i < 256" for i
  proof -
    have "i + 1 \<le> 256" using that by simp
    from mult_le_mono1 [OF this, of w] have "w \<le> 256 * w - i * w" unfolding add_mult_distrib by linarith
    then have len: "length (?s i) = w" using assms(1) by (simp add: min_absorb1)
    have c: "cs ! i = lane_value w (le_int (?s i))" using l that by (auto simp add: lanes_def)
    moreover have "0 \<le> cs ! i" using l that by (auto simp add: list_all_length lanes_def)
    moreover have "le_int (?s i) < 256 ^ w" using le_int_less [of "?s i"] len by simp
    ultimately have "cs ! i = le_int (?s i)" using lane_value_canonical [of "le_int (?s i)" w] by simp
    then show ?thesis using le_bytes_int [of "?s i"] len by simp
  qed
  have m: "map (le_bytes w) cs = map ?s [0..<256]"
  proof (rule nth_equalityI)
    fix i assume "i < length (map (le_bytes w) cs)"
    then have i: "i < 256" using lc by simp
    then have "map (le_bytes w) cs ! i = ?s i" using lc le [OF i] by (simp only: nth_map length_map)
    then show "map (le_bytes w) cs ! i = map ?s [0..<256] ! i" using i by (simp only: nth_map length_upt nth_upt) simp
  qed (simp add: lc)
  have c: "concat (map ?s [0..<n]) = slice 0 (n * w) payload" for n
  proof (induction n)
    case (Suc n)
    then show ?case using slices_join [of 0 "n * w" "(n + 1) * w" payload] by simp
  qed (simp add: slice_def)
  have "payload = encode_lanes w cs" unfolding encode_lanes_def m c using assms(1) by (simp add: slice_full)
  then show "canonical q cs \<and> payload = encode_lanes w cs" using l lc by (simp add: canonical_def)
next
  assume c: "canonical q cs \<and> payload = encode_lanes w cs"
  then have len: "length cs = 256" and pl: "payload = concat (map (\<lambda>i. le_bytes w (cs ! i)) [0..<256])"
    by (simp_all add: canonical_def encode_lanes_def map_map [symmetric, where g = "\<lambda>i. cs ! i", unfolded o_def] del: map_map upt_rec_numeral)
      (metis map_nth)
  have "lane_value w (le_int (slice (i * w) ((i + 1) * w) payload)) = cs ! i" if "i < 256" for i
  proof -
    have v: "0 \<le> cs ! i" "cs ! i < q" using c that len by (auto simp add: canonical_def list_all_length)
    have "slice (i * w) ((i + 1) * w) payload = le_bytes w (cs ! i)"
      unfolding pl using that by (intro slice_concat_fixed) simp_all
    then show ?thesis using v assms(2) by (simp add: le_int_bytes_id lane_value_def)
  qed
  then have "lanes w payload = cs" using len unfolding lanes_def by (intro nth_equalityI) (simp_all del: upt_rec_numeral)
  then show "lanes w payload = cs \<and> list_all (\<lambda>v. 0 \<le> v \<and> v < q) cs" using c by (simp add: canonical_def)
qed

subsection \<open>What the parsers accept\<close>

lemma list_ex_canonical: "\<not> list_ex (\<lambda>value. value < 0 \<or> (q :: int) \<le> value) cs \<longleftrightarrow> list_all (\<lambda>v. 0 \<le> v \<and> v < q) cs"
  by (force simp add: list_ex_iff list_all_iff)

lemma length_encode_lanes: "length (encode_lanes w cs) = length cs * w"
  by (induction cs) (simp_all add: encode_lanes_def)

lemma lane_record_accepted:
  assumes "0 \<le> magic" "magic < 4294967296" "2 * q \<le> 256 ^ w"
  shows "0 \<le> rid \<and> rid < 4294967296 \<and> canonical q cs \<and> raw = lane_record w magic rid extra cs \<longleftrightarrow>
    0 \<le> rid \<and> rid < 4294967296 \<and> length raw = 16 + 256 * w \<and> result_word 0 raw = magic \<and> result_word 4 raw = rid \<and> result_word 8 raw = 0 \<and>
    le_int (slice 12 14 raw) = 256 \<and> raw ! 14 = extra \<and> raw ! 15 = 0 \<and> lanes w (drop 16 raw) = cs \<and>
    \<not> list_ex (\<lambda>value. value < 0 \<or> q \<le> value) cs"
proof (cases "0 \<le> rid \<and> rid < 4294967296")
  case True
  then have "words_ok [magic, rid]" using assms(1,2) by simp
  note r = record_iff [OF this, of raw extra 0 "encode_lanes w cs", folded lane_record_def]
  show ?thesis
  proof
    assume l: "0 \<le> rid \<and> rid < 4294967296 \<and> canonical q cs \<and> raw = lane_record w magic rid extra cs"
    then have f: "length raw = 16 + length (encode_lanes w cs) \<and> result_word 0 raw = magic \<and> result_word 4 raw = rid \<and> result_word 8 raw = 0 \<and>
      le_int (slice 12 14 raw) = 256 \<and> raw ! 14 = extra \<and> raw ! 15 = 0 \<and> drop 16 raw = encode_lanes w cs" using r by blast
    have len: "length (encode_lanes w cs) = 256 * w" using l by (simp add: length_encode_lanes canonical_def)
    have "lanes w (drop 16 raw) = cs \<and> list_all (\<lambda>v. 0 \<le> v \<and> v < q) cs"
      using lanes_iff [of "drop 16 raw" w q cs] f l len assms(3) by simp
    with f len True show "0 \<le> rid \<and> rid < 4294967296 \<and> length raw = 16 + 256 * w \<and> result_word 0 raw = magic \<and> result_word 4 raw = rid \<and>
      result_word 8 raw = 0 \<and> le_int (slice 12 14 raw) = 256 \<and> raw ! 14 = extra \<and> raw ! 15 = 0 \<and> lanes w (drop 16 raw) = cs \<and>
      \<not> list_ex (\<lambda>value. value < 0 \<or> q \<le> value) cs" unfolding list_ex_canonical by simp
  next
    assume f: "0 \<le> rid \<and> rid < 4294967296 \<and> length raw = 16 + 256 * w \<and> result_word 0 raw = magic \<and> result_word 4 raw = rid \<and>
      result_word 8 raw = 0 \<and> le_int (slice 12 14 raw) = 256 \<and> raw ! 14 = extra \<and> raw ! 15 = 0 \<and> lanes w (drop 16 raw) = cs \<and>
      \<not> list_ex (\<lambda>value. value < 0 \<or> q \<le> value) cs"
    then have "canonical q cs \<and> drop 16 raw = encode_lanes w cs"
      using lanes_iff [of "drop 16 raw" w q cs] assms(3) unfolding list_ex_canonical by simp
    with f r show "0 \<le> rid \<and> rid < 4294967296 \<and> canonical q cs \<and> raw = lane_record w magic rid extra cs"
      by (simp add: length_encode_lanes canonical_def)
  qed
qed auto

text \<open>C30. The parsers of the sampling kernels accept exactly the records of canonical polynomials: each of the four returns a
  polynomial if and only if it has 256 coefficients from 0 to q - 1 and the buffer is, byte for byte, its record for the
  request (and the row) that was asked for; so a truncated, padded, stale, partially written or non-canonical result, or one of another kernel, is never
  returned, and no two records give the same polynomial for a request.
\<close>

theorem lane_records_exact:
  "(dr1_parse_result raw rid = Inr cs \<longleftrightarrow>
      0 \<le> rid \<and> rid < 4294967296 \<and> canonical 8380417 cs \<and> raw = lane_record 4 0x44523152 rid 8 cs) \<and>
   (dr2a_parse_result raw rid = Inr cs \<longleftrightarrow>
      0 \<le> rid \<and> rid < 4294967296 \<and> canonical 3329 cs \<and> raw = lane_record 2 0x4452324D rid 5 cs) \<and>
   (dr2b_parse_result raw rid = Inr cs \<longleftrightarrow>
      0 \<le> rid \<and> rid < 4294967296 \<and> canonical 3329 cs \<and> raw = lane_record 2 0x4232524D rid 7 cs) \<and>
   (dr2c_parse_result raw row rid = Inr cs \<longleftrightarrow> 0 \<le> row \<and> row \<le> 1 \<and>
      0 \<le> rid \<and> rid < 4294967296 \<and> canonical 3329 cs \<and> raw = lane_record 2 0x4332524D rid (word_of_int row) cs)"
proof -
  note a = lane_record_accepted [where raw = raw and rid = rid and cs = cs]
  note p = bindE_Inr_iff validate_request_id_def require_int_def validate_bytes_def Let_def
  have 1: "dr1_parse_result raw rid = Inr cs \<longleftrightarrow>
      0 \<le> rid \<and> rid < 4294967296 \<and> canonical 8380417 cs \<and> raw = lane_record 4 0x44523152 rid 8 cs"
    by (subst a [of "0x44523152" 8380417 4 8]) (auto simp add: dr1_parse_result_def p)
  have 2: "dr2a_parse_result raw rid = Inr cs \<longleftrightarrow>
      0 \<le> rid \<and> rid < 4294967296 \<and> canonical 3329 cs \<and> raw = lane_record 2 0x4452324D rid 5 cs"
    by (subst a [of "0x4452324D" 3329 2 5]) (auto simp add: dr2a_parse_result_def p)
  have 3: "dr2b_parse_result raw rid = Inr cs \<longleftrightarrow>
      0 \<le> rid \<and> rid < 4294967296 \<and> canonical 3329 cs \<and> raw = lane_record 2 0x4232524D rid 7 cs"
    by (subst a [of "0x4232524D" 3329 2 7]) (auto simp add: dr2b_parse_result_def p)
  have row: "uint (raw ! 14) = row \<longleftrightarrow> raw ! 14 = word_of_int row" if "0 \<le> row" "row \<le> 1"
    using that by (auto simp add: uint_word_of_int_eq take_bit_int_eq_self)
  have 4: "dr2c_parse_result raw row rid = Inr cs \<longleftrightarrow> 0 \<le> row \<and> row \<le> 1 \<and>
      0 \<le> rid \<and> rid < 4294967296 \<and> canonical 3329 cs \<and> raw = lane_record 2 0x4332524D rid (word_of_int row) cs"
  proof (cases "0 \<le> row \<and> row \<le> 1")
    case True
    note r = row [OF conjunct1 [OF True] conjunct2 [OF True]]
    show ?thesis using True
      by (subst a [of "0x4332524D" 3329 2 "word_of_int row"]) (auto simp add: dr2c_parse_result_def p r)
  next
    case False
    then show ?thesis by (auto simp add: dr2c_parse_result_def p)
  qed
  show ?thesis using 1 2 3 4 by blast
qed

subsection \<open>Calls of the kernels\<close>

text \<open>The tensor of the result starts as a sentinel; the device overwrites what it writes.\<close>

definition run_over :: "bytes \<Rightarrow> host \<Rightarrow> bytes \<Rightarrow> bytes \<Rightarrow> bytes py" where
  "run_over sentinel h desc req =
     bindE (ho_program h req desc) (\<lambda>out. Inr (take (length sentinel) (out @ drop (length out) sentinel)))"

text \<open>An error that the device reports passes; every other failure of a parser is a refusal.\<close>

definition refuse_malformed :: "'a py \<Rightarrow> 'a py" where
  "refuse_malformed r = (case r of Inl e \<Rightarrow> Inl (if e = OperationError then e else NativeBackendUnavailable) | Inr x \<Rightarrow> Inr x)"

definition run_mldsa44_expanda_rejntt :: "host \<Rightarrow> bytes \<Rightarrow> int \<Rightarrow> int \<Rightarrow> int \<Rightarrow> int list py" where
  "run_mldsa44_expanda_rejntt h rho j i request_id =
     bindE (dr1_validate_request rho j i request_id) (\<lambda>(rho, desc).
     bindE (load_iron h) (\<lambda>_. bindE (or_unavailable (run_over dr1_result_sentinel h desc rho)) (\<lambda>raw.
       refuse_malformed (dr1_parse_result raw request_id))))"

definition run_mlkem512_samplentt :: "host \<Rightarrow> bytes \<Rightarrow> int \<Rightarrow> int \<Rightarrow> int \<Rightarrow> int list py" where
  "run_mlkem512_samplentt h rho j i request_id =
     bindE (dr2a_validate_request rho j i request_id) (\<lambda>(rho, desc).
     bindE (load_iron h) (\<lambda>_. bindE (or_unavailable (run_over (result_sentinel 16 528) h desc rho)) (\<lambda>raw.
       refuse_malformed (dr2a_parse_result raw request_id))))"

definition run_mlkem512_eta1_noise_ntt :: "host \<Rightarrow> bytes \<Rightarrow> int \<Rightarrow> int \<Rightarrow> int list py" where
  "run_mlkem512_eta1_noise_ntt h sigma counter request_id =
     bindE (dr2b_validate_request sigma counter request_id) (\<lambda>(sigma, desc).
     bindE (load_iron h) (\<lambda>_. bindE (or_unavailable (run_over (result_sentinel 16 528) h desc sigma)) (\<lambda>raw.
       refuse_malformed (dr2b_parse_result raw request_id))))"

definition run_mlkem512_keygen_row :: "host \<Rightarrow> bytes \<Rightarrow> bytes \<Rightarrow> int \<Rightarrow> int \<Rightarrow> int list py" where
  "run_mlkem512_keygen_row h rho sigma row_index request_id =
     bindE (dr2c_validate_request rho sigma row_index request_id) (\<lambda>(seeds, desc).
     bindE (load_iron h) (\<lambda>_. bindE (or_unavailable (run_over (result_sentinel 16 528) h desc seeds)) (\<lambda>raw.
       refuse_malformed (dr2c_parse_result raw row_index request_id))))"

definition run_mlkem512_kpke_keygen :: "host \<Rightarrow> bytes \<Rightarrow> int \<Rightarrow> (bytes \<times> bytes) py" where
  "run_mlkem512_kpke_keygen h d request_id =
     bindE (dr2d_validate_request d request_id) (\<lambda>(d, desc).
     bindE (or_unavailable (bindE (load_iron h) (\<lambda>_. run_over (result_sentinel 20 1588) h desc d))) (\<lambda>raw.
       refuse_malformed (dr2d_parse_result raw request_id)))"

definition run_hardware_kpke_encrypt :: "host \<Rightarrow> bytes \<Rightarrow> bytes \<Rightarrow> bytes \<Rightarrow> int \<Rightarrow> bytes py" where
  "run_hardware_kpke_encrypt h ek m r request_id =
     bindE (load_iron h) (\<lambda>_. bindE (dr3_validate_request ek m r request_id) (\<lambda>(descriptor, request).
     bindE (or_unavailable (run_on_device 788 h descriptor request)) (\<lambda>raw. dr3_unpack_result raw (Some request_id))))"

definition run_hardware_kpke_decrypt :: "host \<Rightarrow> bytes \<Rightarrow> bytes \<Rightarrow> int \<Rightarrow> bytes py" where
  "run_hardware_kpke_decrypt h dk_pke c request_id =
     bindE (load_iron h) (\<lambda>_. bindE (dr4_validate_request dk_pke c request_id) (\<lambda>(descriptor, request).
     bindE (or_unavailable (run_on_device 52 h descriptor request)) (\<lambda>raw. dr4_unpack_result raw (Some request_id))))"

lemma refuse_malformed_Inr: "refuse_malformed r = Inr x \<longleftrightarrow> r = Inr x"
  by (cases r) (simp_all add: refuse_malformed_def)

lemmas kernel_calls = run_mldsa44_expanda_rejntt_def run_mlkem512_samplentt_def run_mlkem512_eta1_noise_ntt_def
  run_mlkem512_keygen_row_def run_mlkem512_kpke_keygen_def run_hardware_kpke_encrypt_def run_hardware_kpke_decrypt_def
lemmas kernel_call_simps = kernel_calls bindE_Inr_iff or_unavailable_Inr load_iron_eq run_over_def run_on_device_def

interpretation op_rejntt: device_operation "\<lambda>h. run_mldsa44_expanda_rejntt h rho j i rid" for rho j i rid
  by unfold_locales (auto simp add: kernel_call_simps split: if_splits)

interpretation op_samplentt: device_operation "\<lambda>h. run_mlkem512_samplentt h rho j i rid" for rho j i rid
  by unfold_locales (auto simp add: kernel_call_simps split: if_splits)

interpretation op_noise: device_operation "\<lambda>h. run_mlkem512_eta1_noise_ntt h sigma counter rid" for sigma counter rid
  by unfold_locales (auto simp add: kernel_call_simps split: if_splits)

interpretation op_row: device_operation "\<lambda>h. run_mlkem512_keygen_row h rho sigma row rid" for rho sigma row rid
  by unfold_locales (auto simp add: kernel_call_simps split: if_splits)

interpretation op_kpke_keygen: device_operation "\<lambda>h. run_mlkem512_kpke_keygen h d rid" for d rid
  by unfold_locales (auto simp add: kernel_call_simps split: if_splits)

interpretation op_kpke_encrypt: device_operation "\<lambda>h. run_hardware_kpke_encrypt h ek m r rid" for ek m r rid
  by unfold_locales (auto simp add: kernel_call_simps split: if_splits)

interpretation op_kpke_decrypt: device_operation "\<lambda>h. run_hardware_kpke_decrypt h dk c rid" for dk c rid
  by unfold_locales (auto simp add: kernel_call_simps split: if_splits)

text \<open>
  The sentinels are never read as results: if the device leaves the top byte of the magic number unwritten, as it does when it
  writes nothing, the sampling kernels raise.
\<close>

lemma magic_unwritten:
  assumes "4 \<le> length raw" "raw ! 3 = 0"
  shows "result_word 0 raw < 16777216"
proof -
  have "Suc (Suc (Suc (Suc 0))) \<le> length raw" using assms(1) by simp
  then obtain a b c d xs where raw: "raw = a # b # c # d # xs" unfolding Suc_le_length_iff by blast
  have "uint x < 256" for x :: byte using uint_bounded [of x] by simp
  from this [of a] this [of b] this [of c] have "uint a + (256 * uint b + 65536 * uint c) < 16777216" by linarith
  with assms(2) show ?thesis by (simp add: raw result_word_def slice_def)
qed

lemma unwritten_result:
  assumes "length out < 4" "16 \<le> length sentinel" "sentinel ! 3 = 0"
  shows "result_word 0 (take (length sentinel) (out @ drop (length out) sentinel)) < 16777216"
proof -
  have "take (length sentinel) (out @ drop (length out) sentinel) ! 3 = 0" using assms by (simp add: nth_append)
  from magic_unwritten [OF _ this] assms show ?thesis by simp
qed

lemma sentinels_unwritten: "16 \<le> length dr1_result_sentinel" "dr1_result_sentinel ! 3 = 0"
  "16 \<le> length (result_sentinel 16 528)" "result_sentinel 16 528 ! 3 = 0"
  "16 \<le> length (result_sentinel 20 1588)" "result_sentinel 20 1588 ! 3 = 0"
  by (simp_all add: dr1_result_sentinel_def result_sentinel_def nth_append zeros_def)

lemma parsed_magic:
  "dr1_parse_result raw rid = Inr cs \<Longrightarrow> result_word 0 raw = 0x44523152"
  "dr2a_parse_result raw rid = Inr cs \<Longrightarrow> result_word 0 raw = 0x4452324D"
  "dr2b_parse_result raw rid = Inr cs \<Longrightarrow> result_word 0 raw = 0x4232524D"
  "dr2c_parse_result raw row rid = Inr cs \<Longrightarrow> result_word 0 raw = 0x4332524D"
  "dr2d_parse_result raw rid = Inr keys \<Longrightarrow> result_word 0 raw = 0x4432524D"
  by (auto simp add: dr1_parse_result_def dr2a_parse_result_def dr2b_parse_result_def dr2c_parse_result_def dr2d_parse_result_def
      validate_bytes_def bindE_Inr_iff Let_def split: if_splits)

lemma silent_device:
  assumes "\<And>req desc out. ho_program h req desc = Inr out \<Longrightarrow> length out < 4"
  shows "run_mldsa44_expanda_rejntt h rho j i rid \<noteq> Inr cs" "run_mlkem512_samplentt h rho j i rid \<noteq> Inr cs"
    "run_mlkem512_eta1_noise_ntt h sigma counter rid \<noteq> Inr cs" "run_mlkem512_keygen_row h rho sigma row rid \<noteq> Inr cs"
    "run_mlkem512_kpke_keygen h d rid \<noteq> Inr keys"
proof -
  have magic: "result_word 0 raw < 16777216" if "run_over s h desc req = Inr raw" "16 \<le> length s" "s ! 3 = 0" for s desc req raw
  proof -
    from that(1) obtain out where out: "ho_program h req desc = Inr out" and raw: "raw = take (length s) (out @ drop (length out) s)"
      by (auto simp add: run_over_def bindE_Inr_iff)
    from unwritten_result [OF assms [OF out] that(2,3)] show ?thesis unfolding raw .
  qed
  note s = magic [OF _ sentinels_unwritten(1,2)] magic [OF _ sentinels_unwritten(3,4)] magic [OF _ sentinels_unwritten(5,6)]
  note i = kernel_calls bindE_Inr_iff or_unavailable_Inr refuse_malformed_Inr
  show "run_mldsa44_expanda_rejntt h rho j i rid \<noteq> Inr cs" by (auto simp add: i dest!: s(1) parsed_magic)
  show "run_mlkem512_samplentt h rho j i rid \<noteq> Inr cs" by (auto simp add: i dest!: s(2) parsed_magic)
  show "run_mlkem512_eta1_noise_ntt h sigma counter rid \<noteq> Inr cs" by (auto simp add: i dest!: s(2) parsed_magic)
  show "run_mlkem512_keygen_row h rho sigma row rid \<noteq> Inr cs" by (auto simp add: i dest!: s(2) parsed_magic)
  show "run_mlkem512_kpke_keygen h d rid \<noteq> Inr keys" by (auto simp add: i dest!: s(3) parsed_magic)
qed

subsection \<open>Records with a checksum\<close>

lemma terminal_words:
  assumes "20 \<le> length raw"
  shows "struct_unpack [U 4, U 4, U 4, U 4, U 4] (take 20 raw) =
    [result_word 0 raw, result_word 4 raw, result_word 8 raw, result_word 12 raw, result_word 16 raw]"
  by (simp add: result_word_def slice_def drop_take)

text \<open>The records of encryption and decryption are the terminal records of the services, with other error classes for encryption.\<close>

lemma dr4_is_terminal: "dr4_unpack_result raw e = unpack_terminal 0x4434524D 32 raw e"
proof (cases "length raw < 52")
  case False
  then show ?thesis using terminal_words [of raw]
    by (cases e) (auto simp add: dr4_unpack_result_def unpack_terminal_def Let_def)
qed (simp add: dr4_unpack_result_def unpack_terminal_def)

lemma dr3_is_terminal: "dr3_unpack_result raw e = Inr c \<longleftrightarrow> unpack_terminal 0x4433524D 768 raw e = Inr c"
proof (cases "length raw < 788")
  case False
  then show ?thesis using terminal_words [of raw]
    by (cases e) (auto simp add: dr3_unpack_result_def unpack_terminal_def Let_def)
qed (simp add: dr3_unpack_result_def unpack_terminal_def)

end
