(* ===== verification/Spec2Isabelle.thy ===== *)
theory Spec2Isabelle
  imports Prelude PyStruct PyHash Qkms CompositeSig Dice Reduction Bench Host Provider Pkcs11
    Services Vpn Lms Masking X509 Fndsa FndsaVerify
    Slhdsa Hybrid Suci Lifecycle Qkd Qrng Pki Fips202 Cluster Engines KernelAbi
begin

text \<open>
  Verification library for the host side of the Phoenix post-quantum stack
  (\<open>src/phoenix_sdr_dsp/pqc\<close>, Python).

  The program.  Every milestone of the repository is a pair of modules: an ABI module
  (\<open>dr*_abi.py\<close>: descriptors, request tensors, result records and mostly a reference oracle that
  computes what the device must answer) and a graph module (\<open>dr*_graph.py\<close>: the dispatch to the
  device and host reference routines).  Above them sit the provider and the PKCS \#11 token
  (\<open>dr23_*\<close>), which call the ML-KEM and ML-DSA services (\<open>dr5\<close> to \<open>dr8\<close>, \<open>dr11\<close> to \<open>dr15\<close>).

  Conventions.  Python integers are \<open>int\<close>, masks are written out (\<open>u32\<close>, \<open>u64\<close>, \<open>AND\<close>); bytes
  are lists of 8-bit words; numpy arrays are lists of words of their width.  A raised exception is
  the left summand of \<open>py_error + 'a\<close>; messages, times and logging are left out.  Slice assignments
  keep Python's meaning, a value of another length moving what follows.

  Theories and the code they model.
  \<^item> \<open>Prelude\<close>, \<open>PyStruct\<close>, \<open>PyHash\<close>: exceptions, buffers, the \<open>struct\<close> module, and the parts of
    \<open>hashlib\<close> and \<open>zlib\<close> used (SHA-256, HMAC, Keccak, SHAKE, SHA-3, CRC-32), all computable.
    The locale \<open>descriptor_codec\<close> is the contract of a packed descriptor.
  \<^item> \<open>Qkms\<close> (\<open>dr41_qkms_abi.py\<close>): the key vault with its life cycle; invariant, derivation, failure
    behaviour, and the refinement of the request tensor.
  \<^item> \<open>CompositeSig\<close> (\<open>dr42_composite_sig_abi.py\<close>): composite signatures; the verdict is a
    conjunction, the bound digest is injective, and what the reference checks do not bind.
  \<^item> \<open>Dice\<close> (\<open>dr34_dice_tpm_abi.py\<close>): measured boot registers, quotes and sealing.
  \<^item> \<open>Reduction\<close> (\<open>dr36_formal_verification.py\<close>): the modular reductions and the checking loops.
  \<^item> \<open>Bench\<close> (\<open>dr40_benchmark_abi.py\<close>): kernels against reference definitions (FIPS 202 among them).
  \<^item> \<open>Host\<close> (the part common to the \<open>dr*_graph.py\<close> modules): environment checks and dispatch; the
    locale \<open>device_operation\<close> is the contract that answers come from the device or not at all.
  \<^item> \<open>Provider\<close> (\<open>dr23_openssl_provider.py\<close>): names, advertised operations, dispatch.
  \<^item> \<open>Pkcs11\<close> (\<open>dr23_pkcs11_hsm.py\<close>): slots, sessions, login, objects and contexts as an explicit
    state; the locale \<open>token_operation\<close> is the contract of an operation behind the shared prologue;
    \<open>hsm_reachable\<close> is reachability under any sequence of calls.
  \<^item> \<open>Services\<close> (\<open>dr5\<close>, \<open>dr6\<close>, \<open>dr7\<close> ABIs, \<open>run_*\<close> of the \<open>dr5\<close> to \<open>dr8\<close> and \<open>dr11\<close> to \<open>dr15\<close>
    graphs): request layouts and result records; \<open>silicon_device\<close> plugs them into the provider.
  \<^item> \<open>Vpn\<close> (\<open>dr24_*\<close>): packets and key combination.  \<open>Lms\<close> (\<open>dr28_*\<close>): hash-based signatures.
    \<open>Masking\<close> (\<open>dr25_*\<close>): shares and their refresh; the locale \<open>refreshable\<close> is the contract
    between a sharing and its refresh.  \<open>X509\<close> (\<open>dr31_*\<close>): certificates and CMS.
  \<^item> \<open>Fndsa\<close> (\<open>dr22_*\<close>): descriptor, device operations, decoders, codecs, hashing to a point and
    verification; \<open>Bitstream\<close> (the locale \<open>coefficient_decoder\<close>: what a decoder of a bit stream
    promises), \<open>FndsaCodec\<close> (both decoders decode exactly the code words) and \<open>FndsaVerify\<close> (the
    locale \<open>extendable_output\<close>: what hashing to a point needs of the hash) hold the proofs.
  \<^item> \<open>Slhdsa\<close> (\<open>dr21_*\<close>): stateless hash-based signatures, their tables and addresses; what the
    reference verification really accepts.  \<open>Hybrid\<close> (\<open>dr37_*\<close>): the combined key encapsulation,
    with HKDF and the refinement of the request tensor.  \<open>Suci\<close> (\<open>dr30_*\<close>): concealed 5G identities.
  \<^item> \<open>PyCodec\<close>: the parts of \<open>base64\<close>, \<open>bytes.hex\<close>, \<open>uuid\<close> and \<open>json\<close> used, with their round trips.
  \<^item> \<open>Kernels\<close> (\<open>kernels/dr1_keccak_f1600.hpp\<close> and the loops the device programs share, C++): the
    sponge of the device is the one of FIPS 202.
  \<^item> \<open>Lifecycle\<close> (\<open>dr10_*\<close>), \<open>Qkd\<close> (\<open>dr16_*\<close> to \<open>dr19_*\<close>, \<open>idq_qkd_adapter.py\<close>) and \<open>Qrng\<close> (\<open>dr27_*\<close>) model
    the host and the kernel of the device (\<open>kernels/*_service.cc\<close>) and prove what a caller obtains
    from both together: the sealed slot and the key ring as state machines, the key combiner, the
    hybrid session, key delivery, and the entropy reservoir, which implements the bounded queue
    of the locale \<open>bounded_queue\<close> and whose answers the provider uses as seeds.
  \<^item> \<open>Pki\<close> (\<open>dr32_pki_tls_abi.py\<close>): certificates and the key schedule of the TLS handshake; what a
    certificate's signature covers, and what a handshake falls back to.
  \<^item> \<open>Fips202\<close> (\<open>dr9_*\<close>, \<open>dr8_mlkem_service.py\<close>, \<open>dr8_mlkem_unified_abi.py\<close>): the hash service with its kernel,
    which together compute FIPS 202, and the choice of a parameter set of ML-KEM.
  \<^item> \<open>Cluster\<close> (\<open>dr26_*\<close>, \<open>dr29_*\<close>): the division of columns and of matrix rows over tiles, and row products, with both kernels;
    the kernels are compared with the reference routines, and the divisions are shown to cover everything exactly once, or when they do not.
  \<^item> \<open>Engines\<close> (\<open>dr34\<close>, \<open>dr40\<close>, \<open>dr41\<close>, \<open>dr42\<close> graphs, \<open>abi.py\<close>, \<open>m33_product_graph.py\<close>): the calls that stage the request
    tensors of \<open>Dice\<close>, \<open>Bench\<close>, \<open>Qkms\<close> and \<open>CompositeSig\<close>; what the host's own ML-DSA verification adds to the
    verdict of the device, a vault call composed with the oracle as device, and the product of polynomials.
  \<^item> \<open>KernelAbi\<close> (\<open>dr1_abi.py\<close> to \<open>dr4_*_abi.py\<close> and their graphs): requests, result records and calls of the single
    kernels; the parsers accept exactly the records of canonical polynomials, and the sentinel that the sampling and key generation
    kernels start their result buffer with is never read as a result.

  This theory holds the properties that span components: what the services answer without the
  device, that certificates are issued nevertheless, and what becomes of a failed key generation on its way up to the token.

  Parameters.  The device program and its runtime (\<open>host\<close>), the entropy reservoir and
  \<open>os.urandom\<close> (\<open>entropy\<close>), the SMT solver (\<open>Reduction\<close>) and the services of the provider that are
  not modelled (\<open>device\<close>) are arguments; hypotheses about them are stated in each property.

  Bounds and fuel.  All loops of the modelled code are bounded and are structural recursions or
  folds; the rejection sampler of \<open>Bench\<close> recurses on the bytes that are left, the unary part of
  a compressed coefficient on the distance to its limit, and hashing to a point, which nothing
  bounds, is a partial function with an exact criterion of its return.  Sizes are those of
  the code; no bound is chosen by the model.

  Not modelled.  Floating-point statistics (\<open>calculate_benchmark_metrics\<close>, \<open>dr33\<close>, \<open>dr38\<close>,
  \<open>dr39\<close>), daemons and telemetry (\<open>dr27_qrng_daemon.py\<close>, \<open>dr35\<close>), the graphs' descriptions of the device program
  (\<open>_program\<close>, third-party API calls only), the other kernels (C++), the installers, the test runners and
  the repository's policy tools, which are file system and subprocess code.  The graphs that tap or probe a stage of the key
  generation of ML-KEM-512 serve the bring-up of the device and are called by no service.
\<close>

section \<open>Properties that span components\<close>

lemmas device_needs =
  op_combine.needs_device op_encaps.needs_device op_decaps.needs_device op_rekey.needs_device
  op_verify_lms.needs_device op_recover_leaf.needs_device op_traverse.needs_device
  op_prng.needs_device op_on_polys.needs_device
  op_x509_pqc.needs_device op_x509_hybrid.needs_device op_cms_signed.needs_device
  op_cms_unwrap.needs_device op_x509_chain.needs_device op_fndsa_keygen.needs_device op_fndsa_sign.needs_device
  op_slhdsa_keygen.needs_device op_slhdsa_sign.needs_device op_hybrid.needs_device
  op_suci_parse.needs_device op_suci_derive.needs_device op_suci_deconceal.needs_device op_suci_pipeline.needs_device op_dr10.needs_device op_fips202.needs_device
  op_rejntt.needs_device op_samplentt.needs_device op_noise.needs_device op_row.needs_device
  op_kpke_keygen.needs_device op_kpke_encrypt.needs_device op_kpke_decrypt.needs_device
  op_bench.needs_device op_vault.needs_device op_composite.needs_device op_attestation.needs_device
  mlkem_needs_device mldsa_needs_device

definition device_unusable :: "host \<Rightarrow> bool" where
  "device_unusable h \<longleftrightarrow> is_set (ho_emulation_mode h) \<or> is_set (ho_xrt_ini h) \<or> \<not> ho_toolchain_present h \<or>
    (\<forall>req desc. \<exists>e. ho_program h req desc = Inl e)"

lemma device_unusable_needs:
  "device_unusable h \<Longrightarrow> \<not> (iron_ok h \<and> (\<exists>req desc out. ho_program h req desc = Inr out))"
  unfolding iron_ok_def device_unusable_def by (metis Inl_Inr_False)

lemma device_absent:
  assumes "device_unusable h" "\<And>x. r = Inr x \<Longrightarrow> iron_ok h \<and> (\<exists>req desc out. ho_program h req desc = Inr out)"
  shows "\<exists>e. r = Inl e"
  using assms device_unusable_needs by (cases r) blast+

text \<open>The three verifications that look at the lengths of their arguments before they dispatch.\<close>

lemma mldsa65_verdict_without_device:
  "device_unusable h \<Longrightarrow> case run_mldsa65_verify h pk s m ext i of Inl _ \<Rightarrow> True | Inr verdict \<Rightarrow> \<not> verdict"
  using device_unusable_needs [of h] mldsa_needs_device(6) [of h pk s m ext i]
  by (auto split: sum.splits)

lemma unusable_call: "device_unusable h \<Longrightarrow> iron_ok h \<Longrightarrow> run_on_device n h desc req \<noteq> Inr raw"
  using device_unusable_needs [of h] by (auto simp add: run_on_device_def bindE_Inr_iff)

lemma length_verdicts_without_device:
  assumes "device_unusable h"
  shows "case fndsa_verify_on_aie2 h ps pk msg sig e of Inl _ \<Rightarrow> True | Inr verdict \<Rightarrow> verdict = (False, 1)"
    and "case slhdsa_verify_on_aie2 h ps pk msg sig e of Inl _ \<Rightarrow> True | Inr verdict \<Rightarrow> verdict = (False, 1)"
  using unusable_call [OF assms]
  by (auto simp add: fndsa_verify_on_aie2_def slhdsa_verify_on_aie2_def with_device_def bindE_Inr_iff load_iron_eq Let_def
      split: sum.splits if_splits)

text \<open>
  C7. No answer without the device: with an emulation or redirection variable set, without the
  toolchain, or with a device program that fails on every request, every one of these calls raises, whatever
  its arguments: the operations of the VPN graph, of the LMS verifier and of the X.509 and CMS graph; the generator of masks and the
  call that all other masking operations share; the ML-KEM services; key generation and signing
  of the ML-DSA services, of FN-DSA and of SLH-DSA; verification with ML-DSA-44 and ML-DSA-87; the hybrid key encapsulation; the
  four operations on concealed identities; the hash service, the sealed life cycle, the seven single kernels, and the benchmark,
  vault, composite signature and attestation calls.  The verifications with ML-DSA-65, FN-DSA and SLH-DSA look at lengths before they
  dispatch, and may answer there, but then only negatively: whatever they return is \<open>False\<close>, with status 1 for the last two.
\<close>

theorem no_answer_without_device:
  assumes "device_unusable h"
  shows "(\<exists>e. rfc9370_combine_on_aie2 h k1 k2 k3 n1 i1 = Inl e) \<and>
    (\<exists>e. wireguard_encaps_on_aie2 h k1 k2 i1 p1 i2 = Inl e) \<and>
    (\<exists>e. wireguard_decaps_on_aie2 h k1 k2 p1 i1 = Inl e) \<and>
    (\<exists>e. async_rekey_on_aie2 h k1 k2 i1 = Inl e) \<and>
    (\<exists>e. verify_lms_signature_on_aie2 h k1 k2 i1 k3 p1 p2 p3 i2 = Inl e) \<and>
    (\<exists>e. recover_lmots_leaf_on_aie2 h k1 i1 k2 p1 p2 i2 = Inl e) \<and>
    (\<exists>e. merkle_path_traverse_on_aie2 h k1 i1 k2 p1 i2 = Inl e) \<and>
    (\<exists>e. prng_expand_mask_on_aie2 h k1 i1 i2 w1 i3 = Inl e) \<and>
    (\<exists>e. on_polys h i1 i2 i3 polys w1 = Inl e) \<and>
    (\<exists>e. x509_pqc_verify_on_aie2 h i1 p1 p2 p3 i2 opt ext = Inl e) \<and>
    (\<exists>e. x509_hybrid_verify_on_aie2 h p1 i1 p2 p3 k1 k2 i2 = Inl e) \<and>
    (\<exists>e. cms_signed_data_verify_on_aie2 h i1 p1 p2 p3 k1 i2 = Inl e) \<and>
    (\<exists>e. cms_enveloped_unwrap_on_aie2 h i1 p1 p2 opt = Inl e) \<and>
    (\<exists>e. x509_chain_step_verify_on_aie2 h i1 ext p1 p2 p3 = Inl e) \<and>
    (\<exists>e. run_mlkem512_keygen h k1 k2 i1 = Inl e) \<and>
    (\<exists>e. run_mlkem512_encaps h k1 k2 i1 = Inl e) \<and>
    (\<exists>e. run_mlkem512_decaps h k1 k2 i1 = Inl e) \<and>
    (\<exists>e. run_mlkem768_keygen h k1 k2 i1 = Inl e) \<and>
    (\<exists>e. run_mlkem768_encaps h k1 k2 i1 = Inl e) \<and>
    (\<exists>e. run_mlkem768_decaps h k1 k2 i1 = Inl e) \<and>
    (\<exists>e. run_mlkem1024_keygen h k1 k2 i1 = Inl e) \<and>
    (\<exists>e. run_mlkem1024_encaps h k1 k2 i1 = Inl e) \<and>
    (\<exists>e. run_mlkem1024_decaps h k1 k2 i1 = Inl e) \<and>
    (\<exists>e. run_mldsa44_keygen h k1 i1 = Inl e) \<and>
    (\<exists>e. run_mldsa44_sign h k1 p1 k2 ext i1 = Inl e) \<and>
    (\<exists>e. run_mldsa44_verify h k1 p1 p2 ext i1 = Inl e) \<and>
    (\<exists>e. run_mldsa65_keygen h k1 i1 = Inl e) \<and>
    (\<exists>e. run_mldsa65_sign h k1 p1 ext i1 = Inl e) \<and>
    (case run_mldsa65_verify h k1 p1 p2 ext i1 of Inl _ \<Rightarrow> True | Inr verdict \<Rightarrow> \<not> verdict) \<and>
    (\<exists>e. run_mldsa87_keygen h k1 i1 = Inl e) \<and>
    (\<exists>e. run_mldsa87_sign h k1 p1 ext i1 = Inl e) \<and>
    (\<exists>e. run_mldsa87_verify h k1 p1 p2 ext i1 = Inl e) \<and>
    (\<exists>e. fndsa_keygen_on_aie2 h ps k1 i1 = Inl e) \<and>
    (\<exists>e. fndsa_sign_on_aie2 h ps k1 k2 p1 p2 i1 = Inl e) \<and>
    (\<exists>e. slhdsa_keygen_on_aie2 h ps k1 k2 p1 i1 = Inl e) \<and>
    (\<exists>e. slhdsa_sign_on_aie2 h ps k1 p1 ob1 i1 = Inl e) \<and>
    (\<exists>e. run_dr37_hybrid_kem_on_aie2 h i1 i2 k1 k2 p1 p2 p3 i3 = Inl e) \<and>
    (\<exists>e. suci_parse_validate_on_aie2 h i1 i2 i3 i4 i5 i6 = Inl e) \<and>
    (\<exists>e. suci_decapsulate_derive_on_aie2 h k1 k2 i1 ob1 ob2 = Inl e) \<and>
    (\<exists>e. suci_deconceal_verify_on_aie2 h k1 k2 p1 p2 i1 = Inl e) \<and>
    (\<exists>e. suci_pipeline_full_on_aie2 h k1 k2 p1 p2 i1 ob1 ob2 = Inl e) \<and>
    (\<exists>e. run_fips202_service h ps p1 opt_len i1 = Inl e) \<and>
    (\<exists>e. run_dr10_service h p1 p2 = Inl e) \<and>
    (\<exists>e. run_mldsa44_expanda_rejntt h k1 i1 i2 i3 = Inl e) \<and>
    (\<exists>e. run_mlkem512_samplentt h k1 i1 i2 i3 = Inl e) \<and>
    (\<exists>e. run_mlkem512_eta1_noise_ntt h k1 i1 i2 = Inl e) \<and>
    (\<exists>e. run_mlkem512_keygen_row h k1 k2 i1 i2 = Inl e) \<and>
    (\<exists>e. run_mlkem512_kpke_keygen h k1 i1 = Inl e) \<and>
    (\<exists>e. run_hardware_kpke_encrypt h k1 k2 p1 i1 = Inl e) \<and>
    (\<exists>e. run_hardware_kpke_decrypt h k1 p1 i1 = Inl e) \<and>
    (\<exists>e. run_dr40_benchmark_on_aie2 h bd ob1 = Inl e) \<and>
    (\<exists>e. run_dr41_qkms_on_aie2 h qd p1 bank ob1 = Inl e) \<and>
    (\<exists>e. run_dr42_composite_sig_on_aie2 h cd cc ob1 ob2 ext = Inl e) \<and>
    (\<exists>e. run_dr34_dice_tpm_on_aie2 h i1 i2 i3 dr ob1 ext = Inl e) \<and>
    (case fndsa_verify_on_aie2 h ps k1 p1 p2 i1 of Inl _ \<Rightarrow> True | Inr verdict \<Rightarrow> verdict = (False, 1)) \<and>
    (case slhdsa_verify_on_aie2 h ps k1 p1 p2 i1 of Inl _ \<Rightarrow> True | Inr verdict \<Rightarrow> verdict = (False, 1))"
  by (intro conjI) (((rule device_absent [OF assms], erule device_needs) |
    (rule mldsa65_verdict_without_device [OF assms] length_verdicts_without_device [OF assms]))+)

theorem no_answer_without_device_witness:
  "(\<exists>e. run_mldsa87_sign (echo_kem\<lparr>ho_emulation_mode := Some ''hw_emu''\<rparr>) [] [] True 1 = Inl e) \<and>
   slhdsa_verify_on_aie2 (echo_kem\<lparr>ho_emulation_mode := Some ''hw_emu''\<rparr>) ''SLH-DSA-SHAKE-128s'' [] [] [] 1 \<noteq> Inr (True, 0)"
proof -
  have "device_unusable (echo_kem\<lparr>ho_emulation_mode := Some ''hw_emu''\<rparr>)"
    by (simp add: device_unusable_def is_set_def white_space_def)
  note w = no_answer_without_device [OF this, where ?k1.0 = "[]" and ?p1.0 = "[]" and ?p2.0 = "[]" and ext = True and ?i1.0 = 1
    and ps = "''SLH-DSA-SHAKE-128s''"]
  fix k2 k3 n1 i2 i3 i4 i5 i6 p3 w1 polys opt ob1 ob2 opt_len bd qd bank cd cc dr
  note v = w [where ?k2.0 = k2 and ?k3.0 = k3 and ?n1.0 = n1 and ?i2.0 = i2 and ?i3.0 = i3 and ?i4.0 = i4 and ?i5.0 = i5 and ?i6.0 = i6 and ?p3.0 = p3 and ?w1.0 = w1 and polys = polys and opt = opt and ?ob1.0 = ob1 and ?ob2.0 = ob2 and opt_len = opt_len and bd = bd and qd = qd and bank = bank and cd = cd and cc = cc and dr = dr]
  show ?thesis using v by (auto split: sum.splits)
qed

text \<open>
  C24. A certificate needs no device.  Where the services above raise, issuing a certificate in hardware mode
  gives what the host mode gives, for every issuer: an error only when the issuer's secret key is not
  hexadecimal, and otherwise a certificate.  Its key pair is a hash of the subject and the algorithm,
  both public, and its signature is a hash of the signing key and the text that is signed; the signing key is the issuer's, or, where
  none is given, the certificate's own, so that anyone can compute its key pair and its signature.
\<close>

theorem certificate_without_device:
  assumes "device_unusable h"
  shows "generate_pq_x509_certificate h env cn alg ca ic isk san True = generate_pq_x509_certificate h env cn alg ca ic isk san False \<and>
    (case signing_key isk (snd (host_keys cn (canonical_algo alg))) of
      Inl e \<Rightarrow> generate_pq_x509_certificate h env cn alg ca ic isk san True = Inl e
    | Inr key \<Rightarrow> \<exists>c tbs. generate_pq_x509_certificate h env cn alg ca ic isk san True = Inr c \<and>
        ce_public_key_hex c = hex (fst (host_keys cn (canonical_algo alg))) \<and>
        ce_secret_key_hex c = hex (snd (host_keys cn (canonical_algo alg))) \<and>
        ce_tbs_hex c = hex tbs \<and> ce_signature_hex c = hex (host_signature key tbs))"
proof -
  have "\<exists>e. pki_keygen h env (canonical_algo alg) = Inl e"
    by (rule device_absent [OF assms]) (erule op_pki_keygen.needs_device)
  then obtain e where "pki_keygen h env (canonical_algo alg) = Inl e" ..
  note same = issuing_falls_back [OF this]
  have "host_keys cn (canonical_algo alg) = (fst (host_keys cn (canonical_algo alg)), snd (host_keys cn (canonical_algo alg)))" by simp
  from issuing_on_host [OF this, where isk = isk and h = h and env = env and ca = ca and ic = ic and san = san] show ?thesis unfolding same by blast
qed

theorem certificate_without_device_witness:
  "\<exists>c tbs. generate_pq_x509_certificate (echo_kem\<lparr>ho_emulation_mode := Some ''hw_emu''\<rparr>) (te_cert zero_env) ''root'' ''ml_dsa_87'' True None None [] True = Inr c \<and>
     ce_tbs_hex c = hex tbs \<and> ce_signature_hex c = hex (host_signature (snd (host_keys ''root'' (canonical_algo ''ml_dsa_87''))) tbs)"
proof -
  have "device_unusable (echo_kem\<lparr>ho_emulation_mode := Some ''hw_emu''\<rparr>)"
    by (simp add: device_unusable_def is_set_def white_space_def)
  from certificate_without_device [OF this, of "te_cert zero_env" "''root''" "''ml_dsa_87''" True None None "[]"] show ?thesis
    unfolding signing_key_def option.case sum.case by blast
qed

text \<open>An error record: status 1 and nothing else.\<close>

definition error_record :: bytes where
  "error_record = zeros 8 @ [1]"

lemma run_error_record:
  assumes "\<And>req desc. ho_program h req desc = Inr error_record" "20 \<le> n"
  shows "run_on_device n h desc req = Inr (error_record @ zeros (n - 9))"
  using assms by (simp add: run_on_device_def ljust_def error_record_def)

lemma error_record_fields:
  "result_word 8 (error_record @ zeros k) = (if 3 \<le> k then 1 else result_word 8 (error_record @ zeros k))"
  "9 \<le> i \<Longrightarrow> i \<le> j \<Longrightarrow> j \<le> 9 + k \<Longrightarrow> slice i j (error_record @ zeros k) = zeros (j - i)"
proof -
  have "slice 8 12 (error_record @ zeros k) = 1 # zeros (min 3 k)"
    by (simp add: slice_def error_record_def min_def numeral_eq_Suc)
  then show "result_word 8 (error_record @ zeros k) = (if 3 \<le> k then 1 else result_word 8 (error_record @ zeros k))"
    by (simp add: result_word_def)
  show "9 \<le> i \<Longrightarrow> i \<le> j \<Longrightarrow> j \<le> 9 + k \<Longrightarrow> slice i j (error_record @ zeros k) = zeros (j - i)"
  proof -
    assume b: "9 \<le> i" "i \<le> j" "j \<le> 9 + k"
    have "length error_record = 9" by (simp add: error_record_def)
    with b show ?thesis by (simp add: slice_append_right min_def)
  qed
qed

lemma dsa_call_error_record:
  assumes "iron_ok h" "\<And>req desc. ho_program h req desc = Inr error_record" "20 \<le> n"
  shows "dsa_call h n ms op aux req 1 = Inr (error_record @ zeros (n - 9))"
  using assms by (simp add: dsa_call_def load_iron_eq dsa_descriptor_def to_bytes_le_def run_error_record)

text \<open>
  C4. A failed key generation on its way up: on a device that answers every request with an error
  record (status 1, no payload), the token raises for an ML-DSA-44 key pair and stays as it was, but
  for ML-DSA-65, whose service does not look at the record's header, \<open>C_GenerateKeyPair\<close> answers success
  and stores a private key of 4032 zero bytes under the next handle.
\<close>

theorem failed_keygen_becomes_key:
  assumes "hsm_reachable m" "h_sessions m s \<noteq> None" "h_tokens m = [(0, t)]" "tk_logged_in t"
    and "iron_ok h" "\<And>req desc. ho_program h req desc = Inr error_record"
  shows "C_GenerateKeyPair (silicon_device h other) ent s CKM_ML_DSA_KEY_PAIR_GEN (Algo_Name ''ML-DSA-44'') m =
      (Inl RuntimeError, m) \<and>
    (\<exists>m' t'. C_GenerateKeyPair (silicon_device h other) ent s CKM_ML_DSA_KEY_PAIR_GEN (Algo_Name ''ML-DSA-65'') m =
        (Inr (CKR_OK, tk_next_handle t, tk_next_handle t + 1), m') \<and> h_tokens m' = [(0, t')] \<and>
      map_option pk_privkey (tk_objects t' (tk_next_handle t + 1)) = Some (Some (zeros 4032)))"
proof (intro conjI)
  obtain slot where s: "h_sessions m s = Some slot" using assms(2) by blast
  have init: "h_initialized m" "slot = 0" using hsm_okE [OF reachable_ok [OF assms(1)] s] by blast+
  have names: "canonical_algo ''ML-DSA-44'' = ''ML-DSA-44''" "\<not> is_slhdsa ''ML-DSA-44''"
    "canonical_algo ''ML-DSA-65'' = ''ML-DSA-65''" "\<not> is_slhdsa ''ML-DSA-65''" by code_simp+
  have k44: "run_mldsa44_keygen h xi 1 = Inl RuntimeError" for xi
    using dsa_call_error_record [OF assms(5,6), of 3892]
    by (simp add: run_mldsa44_keygen_def check_status_def error_record_fields)
  have k65: "run_mldsa65_keygen h xi 1 = Inr (zeros 1952, zeros 4032)" for xi
    using dsa_call_error_record [OF assms(5,6), of 6008]
    by (simp add: run_mldsa65_keygen_def error_record_fields)
  note run = C_GenerateKeyPair_def with_token_def token_generate_def algo_name_def Let_def signature_keygen_def
    silicon_device_def names s init assms(3,4)
  show "C_GenerateKeyPair (silicon_device h other) ent s CKM_ML_DSA_KEY_PAIR_GEN (Algo_Name ''ML-DSA-44'') m =
      (Inl RuntimeError, m)"
    by (simp add: run k44)
  show "\<exists>m' t'. C_GenerateKeyPair (silicon_device h other) ent s CKM_ML_DSA_KEY_PAIR_GEN (Algo_Name ''ML-DSA-65'') m =
        (Inr (CKR_OK, tk_next_handle t, tk_next_handle t + 1), m') \<and> h_tokens m' = [(0, t')] \<and>
      map_option pk_privkey (tk_objects t' (tk_next_handle t + 1)) = Some (Some (zeros 4032))"
    by (simp add: run k65 put_token_def)
qed

theorem failed_keygen_becomes_key_witness:
  "\<exists>m'. C_GenerateKeyPair (silicon_device (echo_kem\<lparr>ho_program := \<lambda>req desc. Inr error_record\<rparr>) echo_device)
     fixed_entropy 7 CKM_ML_DSA_KEY_PAIR_GEN (Algo_Name ''ML-DSA-65'') demo_armed = (Inr (CKR_OK, 1002, 1003), m')"
proof -
  obtain t where t: "h_tokens demo_armed = [(0, t)]" "tk_logged_in t" "tk_next_handle t = 1002"
    using demo_armed_facts by blast
  have "iron_ok (echo_kem\<lparr>ho_program := \<lambda>req desc. Inr error_record\<rparr>)"
    by (simp add: iron_ok_def echo_kem_def is_set_def white_space_def)
  from failed_keygen_becomes_key [OF demo_reachable(2) _ t(1,2) this, of 7 echo_device fixed_entropy, THEN conjunct2]
  show ?thesis using t(3) demo_armed_facts by auto
qed

end
